(* ===== verification/FJ_Prelude.thy ===== *)
theory FJ_Prelude
  imports Main "HOL-Library.Word" "HOL-Library.Monad_Syntax"
begin

text \<open>
  What the components share: the fixed-width integer types of the sources, the splitting of
  words into little-endian bytes and back, the sequencing combinator for operations that
  thread a state and may throw, and the collections of rewrite rules the component proofs use.
\<close>

unbundle bit_operations_syntax

section \<open>Machine integers\<close>

text \<open>
  \<open>uintN_t\<close> is an \<open>N\<close>-bit word. A signed \<open>int64_t\<close> is the same 64 bits, read with \<open>sint\<close>
  where the sign matters; casts between the two are the identity on the bits.
\<close>

type_synonym u8 = "8 word"
type_synonym u16 = "16 word"
type_synonym u32 = "32 word"
type_synonym u64 = "64 word"

named_theorems wire_simps \<open>unfolding of the byte-level encoders and decoders\<close>
named_theorems tx_simps \<open>what each frame builder appends to the output stream\<close>
named_theorems rx_simps \<open>what each stream reader does on plain bytes\<close>

section \<open>Little-endian bytes\<close>

definition le16 :: "u16 \<Rightarrow> u8 list" where
  "le16 v = [ucast v, ucast (drop_bit 8 v)]"

definition le32 :: "u32 \<Rightarrow> u8 list" where
  "le32 v = [ucast v, ucast (drop_bit 8 v), ucast (drop_bit 16 v), ucast (drop_bit 24 v)]"

definition le64 :: "u64 \<Rightarrow> u8 list" where
  "le64 v = [ucast v, ucast (drop_bit 8 v), ucast (drop_bit 16 v), ucast (drop_bit 24 v),
     ucast (drop_bit 32 v), ucast (drop_bit 40 v), ucast (drop_bit 48 v), ucast (drop_bit 56 v)]"

definition of_le16 :: "u8 \<Rightarrow> u8 \<Rightarrow> u16" where
  "of_le16 b0 b1 = ucast b0 OR push_bit 8 (ucast b1)"

definition of_le32 :: "u8 \<Rightarrow> u8 \<Rightarrow> u8 \<Rightarrow> u8 \<Rightarrow> u32" where
  "of_le32 b0 b1 b2 b3 =
     ucast b0 OR push_bit 8 (ucast b1) OR push_bit 16 (ucast b2) OR push_bit 24 (ucast b3)"

definition of_le64 :: "u8 \<Rightarrow> u8 \<Rightarrow> u8 \<Rightarrow> u8 \<Rightarrow> u8 \<Rightarrow> u8 \<Rightarrow> u8 \<Rightarrow> u8 \<Rightarrow> u64" where
  "of_le64 b0 b1 b2 b3 b4 b5 b6 b7 =
     ucast b0 OR push_bit 8 (ucast b1) OR push_bit 16 (ucast b2) OR push_bit 24 (ucast b3) OR
     push_bit 32 (ucast b4) OR push_bit 40 (ucast b5) OR push_bit 48 (ucast b6) OR
     push_bit 56 (ucast b7)"

lemma bit_byte_of:
  fixes v :: "'a::len word"
  assumes "m + 8 \<le> LENGTH('a)"
  shows "bit (push_bit m (ucast (ucast (drop_bit m v) :: u8)) :: 'a word) n \<longleftrightarrow>
    m \<le> n \<and> n < m + 8 \<and> bit v n"
  using assms by (auto simp: bit_simps)

lemma bit_byte_of0:
  fixes v :: "'a::len word"
  assumes "8 \<le> LENGTH('a)"
  shows "bit (ucast (ucast v :: u8) :: 'a word) n \<longleftrightarrow> n < 8 \<and> bit v n"
  using assms by (auto simp: bit_simps)

lemma of_le16_bytes [simp]: "of_le16 (ucast v) (ucast (drop_bit 8 v)) = v"
proof (rule bit_word_eqI)
  fix n assume "n < LENGTH(16)"
  then have n: "n < 16" by simp
  show "bit (of_le16 (ucast v) (ucast (drop_bit 8 v))) n = bit v n"
    unfolding of_le16_def bit_or_iff using n by (simp add: bit_byte_of bit_byte_of0) arith
qed

lemma of_le32_bytes [simp]:
  "of_le32 (ucast v) (ucast (drop_bit 8 v)) (ucast (drop_bit 16 v)) (ucast (drop_bit 24 v)) = v"
proof (rule bit_word_eqI)
  fix n assume "n < LENGTH(32)"
  then have n: "n < 32" by simp
  show "bit (of_le32 (ucast v) (ucast (drop_bit 8 v)) (ucast (drop_bit 16 v))
      (ucast (drop_bit 24 v))) n = bit v n"
    unfolding of_le32_def bit_or_iff using n by (simp add: bit_byte_of bit_byte_of0) arith
qed

lemma of_le64_bytes [simp]:
  "of_le64 (ucast v) (ucast (drop_bit 8 v)) (ucast (drop_bit 16 v)) (ucast (drop_bit 24 v))
     (ucast (drop_bit 32 v)) (ucast (drop_bit 40 v)) (ucast (drop_bit 48 v))
     (ucast (drop_bit 56 v)) = v"
proof (rule bit_word_eqI)
  fix n assume "n < LENGTH(64)"
  then have n: "n < 64" by simp
  show "bit (of_le64 (ucast v) (ucast (drop_bit 8 v)) (ucast (drop_bit 16 v))
      (ucast (drop_bit 24 v)) (ucast (drop_bit 32 v)) (ucast (drop_bit 40 v))
      (ucast (drop_bit 48 v)) (ucast (drop_bit 56 v))) n = bit v n"
    unfolding of_le64_def bit_or_iff using n by (simp add: bit_byte_of bit_byte_of0) arith
qed

lemma length_le [simp]: "length (le16 a) = 2" "length (le32 b) = 4" "length (le64 c) = 8"
  by (simp_all add: le16_def le32_def le64_def)

section \<open>Sign extension\<close>

text \<open>A 64-bit key that fits 32 bits survives truncation to \<open>int32_t\<close> and sign extension back.\<close>

lemma sign_extend_truncate:
  fixes k :: u64
  assumes "- (2 ^ 31) \<le> sint k" and "sint k < 2 ^ 31"
  shows "scast (ucast k :: u32) = k"
proof -
  have "sint (ucast k :: u32) = signed_take_bit 31 (uint k)"
    by (simp add: sint_uint unsigned_ucast_eq take_bit_int_def [symmetric] signed_take_bit_take_bit)
  also have "\<dots> = signed_take_bit 31 (sint k)"
    by (simp add: sint_uint signed_take_bit_signed_take_bit)
  also have "\<dots> = sint k"
    using assms by (simp add: signed_take_bit_int_eq_self_iff)
  finally have "sint (ucast k :: u32) = sint k" .
  then have "scast (ucast k :: u32) = (word_of_int (sint k) :: u64)"
    by (metis scast_eq)
  then show ?thesis by simp
qed

end
