(* ===== verification/Wire_Types.thy ===== *)
theory Wire_Types
  imports FJ_Prelude
begin

text \<open>
  The constants, protocol enumerations and wire structures of
  \<^verbatim>\<open>src/src/hash_join_types.hpp\<close> (shared by the HLS kernel and the host) and the host-side
  types of \<^verbatim>\<open>src/host/include/fpga_types.hpp\<close>. An enumeration whose values are cast from
  arbitrary bytes on the wire (message types, key types, algorithms) is kept as its byte; one
  that the kernel only produces (\<open>FpgaError\<close>, \<open>Phase\<close>) is a datatype with its wire code.
\<close>

section \<open>Constants\<close>

definition HT_LOG2_SLOTS :: u32 where [simp]: "HT_LOG2_SLOTS = 14"
definition HT_SLOTS :: u32 where "HT_SLOTS = push_bit (unat HT_LOG2_SLOTS) 1"
definition HT_MAX_ROWS :: u32 where "HT_MAX_ROWS = HT_SLOTS * 3 div 4"
definition MAX_PROBE_DIST :: u32 where [simp]: "MAX_PROBE_DIST = 16"
definition RX_BUF_TUPLES :: u32 where [simp]: "RX_BUF_TUPLES = 256"
definition RX_CREDIT_TUPLES :: u32 where [simp]: "RX_CREDIT_TUPLES = 512"
definition TX_BUF_SIZE :: u32 where [simp]: "TX_BUF_SIZE = 256"
definition RESULT_FLUSH_PAIRS :: u32 where [simp]: "RESULT_FLUSH_PAIRS = 118"
definition ACK_BATCH_FRAMES :: u16 where [simp]: "ACK_BATCH_FRAMES = 2"

definition GRACE_WORDS_PER_TUPLE :: u32 where [simp]: "GRACE_WORDS_PER_TUPLE = 2"
definition GRACE_MAX_K :: u32 where [simp]: "GRACE_MAX_K = 256"
definition GRACE_INNER_SLOT_WORDS :: u32 where
  "GRACE_INNER_SLOT_WORDS = HT_MAX_ROWS * GRACE_WORDS_PER_TUPLE"
definition GRACE_OUTER_AREA_BASE :: u32 where
  "GRACE_OUTER_AREA_BASE = GRACE_MAX_K * GRACE_INNER_SLOT_WORDS"
definition GRACE_DDR2_TOTAL_WORDS :: u32 where
  "GRACE_DDR2_TOTAL_WORDS = 16 * 1024 * 1024"
definition GRACE_MAX_INNER_ROWS :: u32 where
  "GRACE_MAX_INNER_ROWS = GRACE_MAX_K * HT_MAX_ROWS"

lemma HT_SLOTS_value [simp]: "HT_SLOTS = 16384"
  by (simp add: HT_SLOTS_def)

lemma HT_MAX_ROWS_value [simp]: "HT_MAX_ROWS = 12288"
  by (simp add: HT_MAX_ROWS_def)

lemma grace_constant_values [simp]:
  "GRACE_INNER_SLOT_WORDS = 24576"
  "GRACE_OUTER_AREA_BASE = 6291456"
  "GRACE_DDR2_TOTAL_WORDS = 16777216"
  "GRACE_MAX_INNER_ROWS = 3145728"
  by (simp_all add: GRACE_INNER_SLOT_WORDS_def GRACE_OUTER_AREA_BASE_def
      GRACE_DDR2_TOTAL_WORDS_def GRACE_MAX_INNER_ROWS_def)

section \<open>Protocol enumerations\<close>

text \<open>\<open>AlgorithmType\<close>, carried in CONFIGURE.\<close>

definition ALGORITHM_A :: u8 where [simp]: "ALGORITHM_A = 0x00"
definition ALGORITHM_B :: u8 where [simp]: "ALGORITHM_B = 0x01"

text \<open>\<open>MsgType\<close>, the first byte of every frame; \<open>MSG_NONE\<close> is the host's ``no data''.\<close>

definition MSG_NONE :: u8 where [simp]: "MSG_NONE = 0x00"
definition MSG_CONFIGURE :: u8 where [simp]: "MSG_CONFIGURE = 0x01"
definition MSG_INNER_DATA :: u8 where [simp]: "MSG_INNER_DATA = 0x02"
definition MSG_OUTER_DATA :: u8 where [simp]: "MSG_OUTER_DATA = 0x03"
definition MSG_RESULT :: u8 where [simp]: "MSG_RESULT = 0x04"
definition MSG_ACK :: u8 where [simp]: "MSG_ACK = 0x05"
definition MSG_STATUS :: u8 where [simp]: "MSG_STATUS = 0x06"
definition MSG_ERROR :: u8 where [simp]: "MSG_ERROR = 0x07"
definition MSG_RESET :: u8 where [simp]: "MSG_RESET = 0x08"
definition MSG_DEBUG :: u8 where [simp]: "MSG_DEBUG = 0x09"
definition MSG_TIMING :: u8 where [simp]: "MSG_TIMING = 0x0A"

definition TIMING_SUMMARY_VERSION :: u16 where [simp]: "TIMING_SUMMARY_VERSION = 1"
definition TIMING_SUMMARY_COUNT :: u16 where [simp]: "TIMING_SUMMARY_COUNT = 1"
definition TIMING_SUMMARY_BYTES :: u16 where [simp]: "TIMING_SUMMARY_BYTES = 200"
definition TIMING_FLAG_ESTIMATED_CYCLES :: u16 where
  [simp]: "TIMING_FLAG_ESTIMATED_CYCLES = 0x0001"
definition TIMING_FLAG_RTL_STREAM_CYCLES :: u16 where
  [simp]: "TIMING_FLAG_RTL_STREAM_CYCLES = 0x0002"
definition TIMING_DEFAULT_CLOCK_HZ :: u32 where [simp]: "TIMING_DEFAULT_CLOCK_HZ = 70000000"

datatype FpgaError =
  ERR_NONE | ERR_OVERFLOW | ERR_INVALID_CMD | ERR_BAD_STATE | ERR_DDR_FAULT | ERR_DUPLICATE_KEY

fun error_byte :: "FpgaError \<Rightarrow> u8" where
  "error_byte ERR_NONE = 0x00"
| "error_byte ERR_OVERFLOW = 0x01"
| "error_byte ERR_INVALID_CMD = 0x02"
| "error_byte ERR_BAD_STATE = 0x03"
| "error_byte ERR_DDR_FAULT = 0x04"
| "error_byte ERR_DUPLICATE_KEY = 0x05"

datatype Phase = PHASE_IDLE | PHASE_BUILDING | PHASE_PROBING | PHASE_DONE

fun phase_byte :: "Phase \<Rightarrow> u8" where
  "phase_byte PHASE_IDLE = 0"
| "phase_byte PHASE_BUILDING = 1"
| "phase_byte PHASE_PROBING = 2"
| "phase_byte PHASE_DONE = 3"

text \<open>\<open>KeyType\<close>, carried in CONFIGURE.\<close>

definition KEY_INT32 :: u8 where [simp]: "KEY_INT32 = 0x01"
definition KEY_INT64 :: u8 where [simp]: "KEY_INT64 = 0x02"

lemma error_byte_inj [simp]: "error_byte a = error_byte b \<longleftrightarrow> a = b"
  by (cases a; cases b) simp_all

lemma phase_byte_inj [simp]: "phase_byte a = phase_byte b \<longleftrightarrow> a = b"
  by (cases a; cases b) simp_all

section \<open>Wire structures\<close>

record Tid =
  blkno :: u32
  offno :: u16

record ResultPair =
  inner_tid :: Tid
  outer_tid :: Tid

text \<open>\<open>StatusPayload\<close> as the host parses it (\<open>AckInfo\<close>).\<close>

record AckInfo =
  ack_phase :: u8
  ack_session_id :: u8
  ack_credit :: u16
  rows_processed :: u32
  rows_matched :: u32

text \<open>A key and its tuple identifier, as the caller presents them (\<open>InputTuple\<close>).\<close>

record InputTuple =
  it_key :: u64
  it_tid :: Tid

record JoinConfig =
  jc_algorithm :: u8
  jc_key_type :: u8

record TimingSummaryPayload =
  t_version :: u16
  t_flags :: u16
  t_clock_hz :: u32
  t_inner_rows :: u32
  t_outer_rows :: u32
  t_matched_rows :: u32
  t_inner_frames :: u32
  t_outer_frames :: u32
  t_result_frames :: u32
  t_ack_frames :: u32
  t_debug_frames :: u32
  t_bytes_rx :: u32
  t_bytes_tx :: u32
  t_session_total_cycles :: u64
  t_config_cycles :: u64
  t_build_rx_cycles :: u64
  t_build_compute_cycles :: u64
  t_build_total_cycles :: u64
  t_probe_rx_cycles :: u64
  t_probe_compute_cycles :: u64
  t_result_emit_cycles :: u64
  t_probe_total_cycles :: u64
  t_ack_emit_cycles :: u64
  t_rx_wait_cycles :: u64
  t_tx_blocked_cycles :: u64
  t_protocol_wait_cycles :: u64
  t_max_build_batch_cycles :: u32
  t_max_probe_batch_cycles :: u32
  t_max_result_frame_cycles :: u32
  t_hash_build_inserts :: u32
  t_hash_probe_lookups :: u32
  t_hash_probe_hits :: u32
  t_hash_probe_misses :: u32
  t_hash_overflow_errors :: u32
  t_hash_build_collision_steps :: u32
  t_hash_probe_collision_steps :: u32
  t_hash_max_build_probe_distance :: u16
  t_hash_max_probe_distance :: u16
  t_hash_table_load_factor_ppm :: u32

text \<open>Value initialisation, \<open>TimingSummaryPayload timing = {}\<close>.\<close>

definition timing_zero :: TimingSummaryPayload where
  "timing_zero = \<lparr>t_version = 0, t_flags = 0, t_clock_hz = 0, t_inner_rows = 0, t_outer_rows = 0,
     t_matched_rows = 0, t_inner_frames = 0, t_outer_frames = 0, t_result_frames = 0,
     t_ack_frames = 0, t_debug_frames = 0, t_bytes_rx = 0, t_bytes_tx = 0,
     t_session_total_cycles = 0, t_config_cycles = 0, t_build_rx_cycles = 0,
     t_build_compute_cycles = 0, t_build_total_cycles = 0, t_probe_rx_cycles = 0,
     t_probe_compute_cycles = 0, t_result_emit_cycles = 0, t_probe_total_cycles = 0,
     t_ack_emit_cycles = 0, t_rx_wait_cycles = 0, t_tx_blocked_cycles = 0,
     t_protocol_wait_cycles = 0, t_max_build_batch_cycles = 0, t_max_probe_batch_cycles = 0,
     t_max_result_frame_cycles = 0, t_hash_build_inserts = 0, t_hash_probe_lookups = 0,
     t_hash_probe_hits = 0, t_hash_probe_misses = 0, t_hash_overflow_errors = 0,
     t_hash_build_collision_steps = 0, t_hash_probe_collision_steps = 0,
     t_hash_max_build_probe_distance = 0, t_hash_max_probe_distance = 0,
     t_hash_table_load_factor_ppm = 0\<rparr>"

section \<open>The join a session computes\<close>

text \<open>
  The reference: for each outer row in arrival order, the pair of the first inner row with
  the same key and the outer row. \<open>map_of\<close> returns the first entry of a key.
\<close>

definition tuple_entry :: "InputTuple \<Rightarrow> u64 \<times> Tid" where
  "tuple_entry t = (it_key t, it_tid t)"

definition first_match :: "InputTuple list \<Rightarrow> u64 \<Rightarrow> Tid option" where
  "first_match inner = map_of (map tuple_entry inner)"

fun probe_pairs :: "(u64 \<Rightarrow> Tid option) \<Rightarrow> InputTuple list \<Rightarrow> ResultPair list" where
  "probe_pairs m [] = []"
| "probe_pairs m (t # ts) =
     (case m (it_key t) of
        None \<Rightarrow> probe_pairs m ts
      | Some i \<Rightarrow> \<lparr>inner_tid = i, outer_tid = it_tid t\<rparr> # probe_pairs m ts)"

definition join_spec :: "InputTuple list \<Rightarrow> InputTuple list \<Rightarrow> ResultPair list" where
  "join_spec inner outer = probe_pairs (first_match inner) outer"

lemma probe_pairs_append [simp]: "probe_pairs m (xs @ ys) = probe_pairs m xs @ probe_pairs m ys"
  by (induction xs) (auto split: option.splits)

lemma length_probe_pairs_le: "length (probe_pairs m xs) \<le> length xs"
  by (induction xs) (auto split: option.splits)

lemma probe_pairs_cong:
  "(\<And>t. t \<in> set xs \<Longrightarrow> m (it_key t) = m' (it_key t)) \<Longrightarrow> probe_pairs m xs = probe_pairs m' xs"
  by (induction xs) (auto split: option.splits)

end
