(* ===== verification/Linear_Hash.thy ===== *)
theory Linear_Hash
  imports Wire_Types
begin

text \<open>
  The BRAM hash table \<open>LinearHashTable\<close> of \<^verbatim>\<open>src/src/hash_join_linear.hpp\<close>: open addressing
  with linear probing bounded by \<open>MAX_PROBE_DIST\<close>. The four storage arrays are functions of
  the 32-bit slot index the code computes; every access of the code masks the index below
  \<open>HT_SLOTS\<close>. The interface the join phases rely on is the locale \<open>first_wins_table\<close>; the table
  is its interpretation \<open>lht\<close>.
\<close>

section \<open>The table and its operations\<close>

record LinearHashTable =
  ht_key :: "u32 \<Rightarrow> u64"
  ht_blk :: "u32 \<Rightarrow> u32"
  ht_off :: "u32 \<Rightarrow> u16"
  ht_valid :: "u32 \<Rightarrow> u8"
  row_count :: u32

definition slot_of :: "u64 \<Rightarrow> u32" where
  "slot_of key = ucast (drop_bit (64 - unat HT_LOG2_SLOTS) (key * 11400714819323198485))"

definition ht_reset :: "LinearHashTable \<Rightarrow> LinearHashTable" where
  "ht_reset h = h\<lparr>ht_valid := (\<lambda>s. if s < HT_SLOTS then 0 else ht_valid h s), row_count := 0\<rparr>"

text \<open>\<open>s = (start + step) & (HT_SLOTS - 1u)\<close>.\<close>

definition probe_slot :: "u32 \<Rightarrow> nat \<Rightarrow> u32" where
  "probe_slot start step = (start + of_nat step) AND (HT_SLOTS - 1)"

definition ht_store :: "LinearHashTable \<Rightarrow> u32 \<Rightarrow> u64 \<Rightarrow> Tid \<Rightarrow> LinearHashTable" where
  "ht_store h s key t = h\<lparr>ht_key := (ht_key h)(s := key), ht_blk := (ht_blk h)(s := blkno t),
     ht_off := (ht_off h)(s := offno t), ht_valid := (ht_valid h)(s := 1),
     row_count := row_count h + 1\<rparr>"

function build_loop ::
  "LinearHashTable \<Rightarrow> u64 \<Rightarrow> Tid \<Rightarrow> u32 \<Rightarrow> nat \<Rightarrow> u32 \<Rightarrow> FpgaError \<times> u32 \<times> LinearHashTable"
where
  "build_loop h key t start step steps_out =
     (if step < unat MAX_PROBE_DIST then
        let s = probe_slot start step; steps = of_nat step + 1
        in if ht_valid h s = 0 then (ERR_NONE, steps, ht_store h s key t)
           else build_loop h key t start (Suc step) steps
      else (ERR_OVERFLOW, steps_out, h))"
  by pat_completeness auto
termination
  by (relation "measure (\<lambda>(h, key, t, start, step, so). unat MAX_PROBE_DIST - step)") auto

definition ht_build :: "LinearHashTable \<Rightarrow> u64 \<Rightarrow> Tid \<Rightarrow> FpgaError \<times> u32 \<times> LinearHashTable" where
  "ht_build h key t =
     (if row_count h \<ge> HT_MAX_ROWS then (ERR_OVERFLOW, 0, h)
      else build_loop h key t (slot_of key) 0 0)"

function probe_loop :: "LinearHashTable \<Rightarrow> u64 \<Rightarrow> u32 \<Rightarrow> nat \<Rightarrow> u32 \<Rightarrow> Tid option \<times> u32" where
  "probe_loop h key start step steps_out =
     (if step < unat MAX_PROBE_DIST then
        let s = probe_slot start step; steps = of_nat step + 1
        in if ht_valid h s = 0 then (None, steps)
           else if ht_key h s = key then (Some \<lparr>blkno = ht_blk h s, offno = ht_off h s\<rparr>, steps)
           else probe_loop h key start (Suc step) steps
      else (None, steps_out))"
  by pat_completeness auto
termination
  by (relation "measure (\<lambda>(h, key, start, step, so). unat MAX_PROBE_DIST - step)") auto

text \<open>The found flag and the out-parameter of \<open>probe\<close> are one option; the second result is
  \<open>steps_out\<close>.\<close>

definition ht_probe :: "LinearHashTable \<Rightarrow> u64 \<Rightarrow> Tid option \<times> u32" where
  "ht_probe h key = probe_loop h key (slot_of key) 0 0"

definition ht_size :: "LinearHashTable \<Rightarrow> u32" where
  "ht_size h = row_count h"

definition ht_capacity :: "LinearHashTable \<Rightarrow> u32" where
  "ht_capacity h = HT_MAX_ROWS"

text \<open>The overloads without the step count.\<close>

definition ht_insert :: "LinearHashTable \<Rightarrow> u64 \<Rightarrow> Tid \<Rightarrow> FpgaError \<times> LinearHashTable" where
  "ht_insert h key t = (case ht_build h key t of (e, _, h') \<Rightarrow> (e, h'))"

definition ht_lookup :: "LinearHashTable \<Rightarrow> u64 \<Rightarrow> Tid option" where
  "ht_lookup h key = fst (ht_probe h key)"

declare build_loop.simps [simp del] probe_loop.simps [simp del]

text \<open>A table no constructor has initialised, for closed instances.\<close>

definition ht_blank :: LinearHashTable where
  "ht_blank = \<lparr>ht_key = (\<lambda>_. 0), ht_blk = (\<lambda>_. 0), ht_off = (\<lambda>_. 0), ht_valid = (\<lambda>_. 0),
     row_count = 0\<rparr>"

section \<open>Probe sequences\<close>

lemma probe_slot_less: "probe_slot start i < 16384"
proof -
  have "probe_slot start i \<le> 16383"
    unfolding probe_slot_def by (simp add: word_and_le1)
  then show ?thesis by (simp add: word_le_nat_alt word_less_nat_alt)
qed

lemma unat_probe_slot: "unat (probe_slot start i) = (unat start + i) mod 16384"
proof -
  have m: "(16383::u32) = mask 14"
    by (simp add: mask_eq_exp_minus_1)
  have "unat (probe_slot start i) = take_bit 14 (unat (start + of_nat i))"
    unfolding probe_slot_def
    by (simp add: m take_bit_eq_mask [symmetric] unsigned_take_bit_eq)
  also have "\<dots> = (unat start + i) mod 16384"
    by (simp add: take_bit_eq_mod unat_word_ariths unsigned_of_nat mod_mod_cancel mod_add_right_eq)
  finally show ?thesis .
qed

lemma of_nat_Suc_last: "n < 16 \<Longrightarrow> \<not> Suc n < 16 \<Longrightarrow> of_nat n + 1 = (16::u32)"
proof -
  assume "n < 16" "\<not> Suc n < 16"
  then have "n = 15" by simp
  then show ?thesis by simp
qed

lemma build_loop_find:
  "build_loop h key t start n so =
     (case find (\<lambda>i. ht_valid h (probe_slot start i) = 0) [n..<16] of
        Some i \<Rightarrow> (ERR_NONE, of_nat i + 1, ht_store h (probe_slot start i) key t)
      | None \<Rightarrow> (ERR_OVERFLOW, (if n < 16 then 16 else so), h))"
proof (induction h key t start n so rule: build_loop.induct)
  case (1 h key t start n so)
  show ?case
  proof (cases "n < 16")
    case True
    then have "[n..<16] = n # [Suc n..<16]" by (simp add: upt_conv_Cons)
    with True 1 show ?thesis
      by (subst build_loop.simps)
        (simp add: Let_def of_nat_Suc_last split: option.split)
  qed (subst build_loop.simps, simp)
qed

lemma probe_loop_find:
  "probe_loop h key start n so =
     (case find (\<lambda>i. ht_valid h (probe_slot start i) = 0 \<or> ht_key h (probe_slot start i) = key)
        [n..<16] of
        Some i \<Rightarrow> (if ht_valid h (probe_slot start i) = 0 then None
                    else Some \<lparr>blkno = ht_blk h (probe_slot start i),
                               offno = ht_off h (probe_slot start i)\<rparr>, of_nat i + 1)
      | None \<Rightarrow> (None, if n < 16 then 16 else so))"
proof (induction h key start n so rule: probe_loop.induct)
  case (1 h key start n so)
  show ?case
  proof (cases "n < 16")
    case True
    then have "[n..<16] = n # [Suc n..<16]" by (simp add: upt_conv_Cons)
    with True 1 show ?thesis
      by (subst probe_loop.simps)
        (simp add: Let_def of_nat_Suc_last split: option.split)
  qed (subst probe_loop.simps, simp)
qed

lemma find_upt_Some: "find P [0..<n] = Some i \<longleftrightarrow> i < n \<and> P i \<and> (\<forall>j<i. \<not> P j)"
  by (auto simp: find_Some_iff)

lemma find_upt_None: "find P [0..<n] = None \<longleftrightarrow> (\<forall>i<n. \<not> P i)"
  by (auto simp: find_None_iff)

section \<open>Invariant and abstraction\<close>

definition tid_at :: "LinearHashTable \<Rightarrow> u32 \<Rightarrow> Tid" where
  "tid_at h s = \<lparr>blkno = ht_blk h s, offno = ht_off h s\<rparr>"

definition occupied :: "LinearHashTable \<Rightarrow> u32 set" where
  "occupied h = {s. s < HT_SLOTS \<and> ht_valid h s \<noteq> 0}"

definition ht_inv :: "LinearHashTable \<Rightarrow> bool" where
  "ht_inv h \<longleftrightarrow>
     (\<forall>s \<in> occupied h. \<exists>i<16. s = probe_slot (slot_of (ht_key h s)) i \<and>
        (\<forall>j<i. ht_valid h (probe_slot (slot_of (ht_key h s)) j) \<noteq> 0)) \<and>
     unat (row_count h) = card (occupied h) \<and> row_count h \<le> HT_MAX_ROWS"

lemma slot_occupied [simp]: "probe_slot start i \<in> occupied h \<longleftrightarrow> ht_valid h (probe_slot start i) \<noteq> 0"
  by (simp add: occupied_def probe_slot_less)

lemma ht_inv_reset: "ht_inv (ht_reset h)"
proof -
  have "occupied (ht_reset h) = {}" by (auto simp: occupied_def ht_reset_def)
  then show ?thesis by (simp add: ht_inv_def) (simp add: ht_reset_def)
qed

lemma ht_insert_cases:
  obtains (full) "ht_insert h key t = (ERR_OVERFLOW, h)"
      "row_count h \<ge> HT_MAX_ROWS \<or> (\<forall>i<16. ht_valid h (probe_slot (slot_of key) i) \<noteq> 0)"
  | (stored) i where "i < 16" "row_count h < HT_MAX_ROWS"
      "ht_valid h (probe_slot (slot_of key) i) = 0"
      "\<forall>j<i. ht_valid h (probe_slot (slot_of key) j) \<noteq> 0"
      "ht_insert h key t = (ERR_NONE, ht_store h (probe_slot (slot_of key) i) key t)"
proof (cases "row_count h \<ge> HT_MAX_ROWS")
  case True
  then have "ht_insert h key t = (ERR_OVERFLOW, h)" by (simp add: ht_insert_def ht_build_def)
  with True show thesis by (intro full) auto
next
  case False
  let ?free = "\<lambda>i. ht_valid h (probe_slot (slot_of key) i) = 0"
  from False have eq: "ht_insert h key t =
      (case find ?free [0..<16] of
         Some i \<Rightarrow> (ERR_NONE, ht_store h (probe_slot (slot_of key) i) key t)
       | None \<Rightarrow> (ERR_OVERFLOW, h))"
    by (simp add: ht_insert_def ht_build_def build_loop_find split: option.split)
  show thesis
  proof (cases "find ?free [0..<16]")
    case None
    with eq show thesis by (intro full) (auto simp: find_upt_None)
  next
    case (Some i)
    with eq False show thesis by (intro stored [of i]) (auto simp: find_upt_Some not_le)
  qed
qed

lemma ht_lookup_find:
  "ht_lookup h key =
     (case find (\<lambda>i. ht_valid h (probe_slot (slot_of key) i) = 0 \<or>
                      ht_key h (probe_slot (slot_of key) i) = key) [0..<16] of
        Some i \<Rightarrow> if ht_valid h (probe_slot (slot_of key) i) = 0 then None
                   else Some (tid_at h (probe_slot (slot_of key) i))
      | None \<Rightarrow> None)"
  by (simp add: ht_lookup_def ht_probe_def probe_loop_find tid_at_def split: option.split)

lemma ht_lookup_SomeI:
  assumes "i < 16" "\<forall>j\<le>i. ht_valid h (probe_slot (slot_of key) j) \<noteq> 0"
    "ht_key h (probe_slot (slot_of key) i) = key"
    "\<forall>j<i. ht_key h (probe_slot (slot_of key) j) \<noteq> key"
  shows "ht_lookup h key = Some (tid_at h (probe_slot (slot_of key) i))"
proof -
  have "find (\<lambda>i. ht_valid h (probe_slot (slot_of key) i) = 0 \<or>
      ht_key h (probe_slot (slot_of key) i) = key) [0..<16] = Some i"
    using assms by (simp add: find_upt_Some)
  with assms show ?thesis by (simp add: ht_lookup_find)
qed

lemma ht_lookup_SomeE:
  assumes "ht_lookup h key = Some t"
  obtains i where "i < 16" "\<forall>j\<le>i. ht_valid h (probe_slot (slot_of key) j) \<noteq> 0"
    "ht_key h (probe_slot (slot_of key) i) = key"
    "\<forall>j<i. ht_key h (probe_slot (slot_of key) j) \<noteq> key"
    "t = tid_at h (probe_slot (slot_of key) i)"
  using assms unfolding ht_lookup_find
  by (force simp: find_upt_Some le_less split: option.splits if_splits)

lemma ht_lookup_None_iff:
  assumes "ht_inv h"
  shows "ht_lookup h key = None \<longleftrightarrow> (\<forall>s \<in> occupied h. ht_key h s \<noteq> key)"
proof
  assume none: "ht_lookup h key = None"
  show "\<forall>s \<in> occupied h. ht_key h s \<noteq> key"
  proof (intro ballI notI)
    fix s assume s: "s \<in> occupied h" "ht_key h s = key"
    with assms obtain i where i: "i < 16" "s = probe_slot (slot_of key) i"
      "\<forall>j<i. ht_valid h (probe_slot (slot_of key) j) \<noteq> 0"
      unfolding ht_inv_def by metis
    define m where "m = (LEAST j. ht_key h (probe_slot (slot_of key) j) = key)"
    have m: "ht_key h (probe_slot (slot_of key) m) = key" "m \<le> i"
      using s(2) i(2) unfolding m_def by (auto intro: LeastI Least_le)
    have "\<forall>j<m. ht_key h (probe_slot (slot_of key) j) \<noteq> key"
      unfolding m_def using not_less_Least by blast
    moreover have "\<forall>j\<le>m. ht_valid h (probe_slot (slot_of key) j) \<noteq> 0"
      using i s(1) m(2) by (metis le_neq_implies_less le_trans slot_occupied)
    ultimately have "ht_lookup h key \<noteq> None"
      using m i(1) by (subst ht_lookup_SomeI [of m]) auto
    with none show False by simp
  qed
next
  assume "\<forall>s \<in> occupied h. ht_key h s \<noteq> key"
  then show "ht_lookup h key = None"
    by (metis le_refl not_None_eq ht_lookup_SomeE slot_occupied)
qed

lemma occupied_store: "s < HT_SLOTS \<Longrightarrow> occupied (ht_store h s key t) = insert s (occupied h)"
  by (auto simp: occupied_def ht_store_def)

lemma ht_valid_store [simp]: "ht_valid (ht_store h s key t) s' \<noteq> 0 \<longleftrightarrow> s' = s \<or> ht_valid h s' \<noteq> 0"
  by (simp add: ht_store_def)

lemma ht_key_store [simp]: "ht_key (ht_store h s key t) s' = (if s' = s then key else ht_key h s')"
  by (simp add: ht_store_def)

lemma tid_at_store [simp]: "tid_at (ht_store h s key t) s' = (if s' = s then t else tid_at h s')"
  by (simp add: tid_at_def ht_store_def)

lemma ht_inv_insert:
  assumes inv: "ht_inv h" and ins: "ht_insert h key t = (ERR_NONE, h')"
  shows "ht_inv h'"
proof (cases rule: ht_insert_cases [where h = h and key = key and t = t])
  case full
  with ins show ?thesis by simp
next
  case (stored i)
  let ?s = "probe_slot (slot_of key) i"
  have h': "h' = ht_store h ?s key t" using stored ins by simp
  have occ: "occupied h' = insert ?s (occupied h)" and new: "?s \<notin> occupied h"
    using stored(3) by (simp_all add: h' occupied_store probe_slot_less)
  have fin: "finite (occupied h)" by simp
  have rc: "row_count h' = row_count h + 1" by (simp add: h' ht_store_def)
  have "unat (row_count h') = unat (row_count h) + 1"
    using stored(2) rc by (simp add: unat_word_ariths word_less_nat_alt)
  then have "unat (row_count h') = card (occupied h')"
    using inv new fin by (simp add: occ ht_inv_def)
  moreover have "row_count h' \<le> HT_MAX_ROWS"
    using stored(2) rc by (simp add: word_le_nat_alt word_less_nat_alt unat_word_ariths)
  moreover have "\<forall>s \<in> occupied h'. \<exists>i<16. s = probe_slot (slot_of (ht_key h' s)) i \<and>
      (\<forall>j<i. ht_valid h' (probe_slot (slot_of (ht_key h' s)) j) \<noteq> 0)"
  proof
    fix s assume s: "s \<in> occupied h'"
    show "\<exists>i<16. s = probe_slot (slot_of (ht_key h' s)) i \<and>
        (\<forall>j<i. ht_valid h' (probe_slot (slot_of (ht_key h' s)) j) \<noteq> 0)"
    proof (cases "s = ?s")
      case True
      with stored(1,4) h' show ?thesis by (intro exI [of _ i]) simp
    next
      case False
      with s occ inv obtain k where "k < 16" "s = probe_slot (slot_of (ht_key h s)) k"
        "\<forall>j<k. ht_valid h (probe_slot (slot_of (ht_key h s)) j) \<noteq> 0"
        unfolding ht_inv_def by auto
      with False h' show ?thesis by (intro exI [of _ k]) simp
    qed
  qed
  ultimately show ?thesis by (simp add: ht_inv_def)
qed

text \<open>An inserted row is found under its key, unless an earlier row already holds the key; the
  rows of every other key are untouched.\<close>

lemma ht_lookup_insert:
  assumes inv: "ht_inv h" and ins: "ht_insert h key t = (ERR_NONE, h')"
  shows "ht_lookup h' k = (if k = key \<and> ht_lookup h key = None then Some t else ht_lookup h k)"
proof (cases rule: ht_insert_cases [where h = h and key = key and t = t])
  case full
  with ins show ?thesis by simp
next
  case (stored i)
  let ?s = "probe_slot (slot_of key) i"
  have h': "h' = ht_store h ?s key t" using stored ins by simp
  have occ: "occupied h' = insert ?s (occupied h)"
    by (simp add: h' occupied_store probe_slot_less)
  show ?thesis
  proof (cases "ht_lookup h k")
    case (Some t')
    then obtain m where m: "m < 16" "\<forall>j\<le>m. ht_valid h (probe_slot (slot_of k) j) \<noteq> 0"
      "ht_key h (probe_slot (slot_of k) m) = k" "\<forall>j<m. ht_key h (probe_slot (slot_of k) j) \<noteq> k"
      "t' = tid_at h (probe_slot (slot_of k) m)" by (elim ht_lookup_SomeE)
    have ne: "probe_slot (slot_of k) j \<noteq> ?s" if "j \<le> m" for j
      using m(2) stored(3) that by metis
    have "ht_lookup h' k = Some (tid_at h' (probe_slot (slot_of k) m))"
      using m ne by (intro ht_lookup_SomeI) (auto simp: h')
    then have "ht_lookup h' k = Some t'" using ne m(5) by (simp add: h')
    then show ?thesis using Some by auto
  next
    case None
    then have no: "\<forall>s \<in> occupied h. ht_key h s \<noteq> k" using ht_lookup_None_iff [OF inv] by simp
    show ?thesis
    proof (cases "k = key")
      case True
      have "ht_key h (probe_slot (slot_of key) j) \<noteq> key" if "j < i" for j
        using no stored(4) that True by (metis slot_occupied)
      moreover have "probe_slot (slot_of key) j \<noteq> ?s" if "j < i" for j
        using stored(3,4) that by metis
      ultimately have "ht_lookup h' key = Some (tid_at h' ?s)"
        using stored(1,4) by (intro ht_lookup_SomeI) (auto simp: h' le_less)
      then show ?thesis using True None by (simp add: h')
    next
      case False
      then have "\<forall>s \<in> occupied h'. ht_key h' s \<noteq> k" using no unfolding occ by (auto simp: h')
      then show ?thesis using False None ht_lookup_None_iff [OF ht_inv_insert [OF inv ins]] by simp
    qed
  qed
qed

lemma ht_lookup_reset: "ht_lookup (ht_reset h) k = None"
proof -
  have "occupied (ht_reset h) = {}" by (auto simp: occupied_def ht_reset_def)
  then show ?thesis by (simp add: ht_lookup_None_iff [OF ht_inv_reset])
qed

lemma ht_insert_error: "ht_insert h key t = (e, h') \<Longrightarrow> e \<noteq> ERR_NONE \<Longrightarrow> h' = h"
  by (cases rule: ht_insert_cases [where h = h and key = key and t = t]) auto

lemma row_count_insert: "ht_insert h key t = (ERR_NONE, h') \<Longrightarrow> row_count h' = row_count h + 1"
  by (cases rule: ht_insert_cases [where h = h and key = key and t = t]) (auto simp: ht_store_def)

section \<open>The interface of the join phases\<close>

text \<open>The row loop of a build phase: insert in order, stop at the first error.\<close>

fun build_all :: "('h \<Rightarrow> u64 \<Rightarrow> Tid \<Rightarrow> FpgaError \<times> 'h) \<Rightarrow> 'h \<Rightarrow> InputTuple list \<Rightarrow> FpgaError \<times> 'h"
where
  "build_all ins h [] = (ERR_NONE, h)"
| "build_all ins h (t # ts) =
     (case ins h (it_key t) (it_tid t) of
        (e, h') \<Rightarrow> if e = ERR_NONE then build_all ins h' ts else (e, h'))"

locale first_wins_table =
  fixes clear :: "'h \<Rightarrow> 'h"
    and ins :: "'h \<Rightarrow> u64 \<Rightarrow> Tid \<Rightarrow> FpgaError \<times> 'h"
    and look :: "'h \<Rightarrow> u64 \<Rightarrow> Tid option"
    and ok :: "'h \<Rightarrow> bool"
  assumes ok_clear: "ok (clear h)"
    and look_clear: "look (clear h) k = None"
    and ok_ins: "ok h \<Longrightarrow> ins h key t = (ERR_NONE, h') \<Longrightarrow> ok h'"
    and look_ins: "ok h \<Longrightarrow> ins h key t = (ERR_NONE, h') \<Longrightarrow>
      look h' k = (if k = key \<and> look h key = None then Some t else look h k)"
    and ins_error: "ins h key t = (e, h') \<Longrightarrow> e \<noteq> ERR_NONE \<Longrightarrow> h' = h"
begin

lemma build_all_ok: "ok h \<Longrightarrow> ok (snd (build_all ins h ts))"
proof (induction ts arbitrary: h)
  case (Cons t ts)
  then show ?case
    by (cases "ins h (it_key t) (it_tid t)") (auto intro: ok_ins dest: ins_error)
qed simp

lemma build_all_look:
  "ok h \<Longrightarrow> fst (build_all ins h ts) = ERR_NONE \<Longrightarrow>
     look (snd (build_all ins h ts)) k = (case look h k of None \<Rightarrow> first_match ts k | Some t \<Rightarrow> Some t)"
proof (induction ts arbitrary: h)
  case Nil
  then show ?case by (simp add: first_match_def split: option.split)
next
  case (Cons t ts)
  then obtain h' where ins: "ins h (it_key t) (it_tid t) = (ERR_NONE, h')"
    and rest: "fst (build_all ins h' ts) = ERR_NONE"
    by (auto split: prod.splits if_splits)
  show ?case
    using Cons.IH [OF ok_ins [OF Cons.prems(1) ins] rest] look_ins [OF Cons.prems(1) ins]
    by (auto simp: ins first_match_def tuple_entry_def split: option.splits)
qed

text \<open>A build phase from an empty table, then probing the outer rows, yields the join.\<close>

lemma build_then_probe:
  assumes "fst (build_all ins (clear h) inner) = ERR_NONE"
  shows "probe_pairs (look (snd (build_all ins (clear h) inner))) outer = join_spec inner outer"
  unfolding join_spec_def
  by (rule probe_pairs_cong) (simp add: build_all_look [OF ok_clear assms] look_clear)

end

interpretation lht: first_wins_table ht_reset ht_insert ht_lookup ht_inv
  by unfold_locales (fact ht_inv_reset ht_lookup_reset ht_inv_insert ht_lookup_insert ht_insert_error)+

section \<open>Properties of the table\<close>

lemma row_count_build_all:
  "fst (build_all ht_insert h ts) = ERR_NONE \<Longrightarrow> ht_inv h \<Longrightarrow>
     unat (row_count (snd (build_all ht_insert h ts))) = unat (row_count h) + length ts"
proof (induction ts arbitrary: h)
  case (Cons t ts)
  then obtain h' where ins: "ht_insert h (it_key t) (it_tid t) = (ERR_NONE, h')"
    and rest: "fst (build_all ht_insert h' ts) = ERR_NONE"
    by (auto split: prod.splits if_splits)
  have "row_count h < HT_MAX_ROWS"
    using ins by (cases rule: ht_insert_cases [where h = h and key = "it_key t" and t = "it_tid t"]) auto
  then have "unat (row_count h') = Suc (unat (row_count h))"
    using row_count_insert [OF ins] by (simp add: unat_word_ariths word_less_nat_alt)
  with Cons.IH [OF rest ht_inv_insert [OF Cons.prems(2) ins]] ins show ?case by simp
qed simp

text \<open>C11. A build phase that reports no error, followed by probes, computes the join: every outer
  row is paired with the first inner row of its key, and a row without a partner is dropped.\<close>

theorem ht_build_probe_join:
  assumes "fst (build_all ht_insert (ht_reset h) inner) = ERR_NONE"
  shows "probe_pairs (ht_lookup (snd (build_all ht_insert (ht_reset h) inner))) outer
           = join_spec inner outer"
  using assms by (rule lht.build_then_probe)

theorem ht_build_probe_join_witness:
  "fst (build_all ht_insert (ht_reset ht_blank)
     [\<lparr>it_key = 7, it_tid = \<lparr>blkno = 0, offno = 1\<rparr>\<rparr>, \<lparr>it_key = 9, it_tid = \<lparr>blkno = 0, offno = 2\<rparr>\<rparr>])
     = ERR_NONE \<and>
   probe_pairs (ht_lookup (snd (build_all ht_insert (ht_reset ht_blank)
     [\<lparr>it_key = 7, it_tid = \<lparr>blkno = 0, offno = 1\<rparr>\<rparr>, \<lparr>it_key = 9, it_tid = \<lparr>blkno = 0, offno = 2\<rparr>\<rparr>])))
     [\<lparr>it_key = 9, it_tid = \<lparr>blkno = 1, offno = 1\<rparr>\<rparr>, \<lparr>it_key = 8, it_tid = \<lparr>blkno = 1, offno = 2\<rparr>\<rparr>]
     = [\<lparr>inner_tid = \<lparr>blkno = 0, offno = 2\<rparr>, outer_tid = \<lparr>blkno = 1, offno = 1\<rparr>\<rparr>]"
proof -
  let ?inner = "[\<lparr>it_key = 7, it_tid = \<lparr>blkno = 0, offno = 1\<rparr>\<rparr>,
    \<lparr>it_key = 9, it_tid = \<lparr>blkno = 0, offno = 2\<rparr>\<rparr>] :: InputTuple list"
  let ?outer = "[\<lparr>it_key = 9, it_tid = \<lparr>blkno = 1, offno = 1\<rparr>\<rparr>,
    \<lparr>it_key = 8, it_tid = \<lparr>blkno = 1, offno = 2\<rparr>\<rparr>] :: InputTuple list"
  have ok: "fst (build_all ht_insert (ht_reset ht_blank) ?inner) = ERR_NONE"
    by code_simp
  have "join_spec ?inner ?outer
      = [\<lparr>inner_tid = \<lparr>blkno = 0, offno = 2\<rparr>, outer_tid = \<lparr>blkno = 1, offno = 1\<rparr>\<rparr>]"
    by code_simp
  with ok ht_build_probe_join [OF ok, of ?outer] show ?thesis by simp
qed

text \<open>C12. Whatever rows are inserted after a reset, every occupied slot is reached by the probe
  sequence of its key without crossing a free slot, and the row counter is the number of
  occupied slots, at most \<open>HT_MAX_ROWS\<close>.\<close>

theorem ht_invariant_reachable: "ht_inv (snd (build_all ht_insert (ht_reset h) rows))"
  by (rule lht.build_all_ok [OF lht.ok_clear])

text \<open>C13. The only error of an insertion is an overflow, and it is reported exactly when the
  table holds \<open>HT_MAX_ROWS\<close> rows or all \<open>MAX_PROBE_DIST\<close> slots of the key's probe sequence are
  taken; a duplicate key is never an error.\<close>

theorem ht_build_result:
  "fst (ht_insert h key t) =
     (if row_count h \<ge> HT_MAX_ROWS \<or>
         list_all (\<lambda>i. ht_valid h (probe_slot (slot_of key) i) \<noteq> 0) [0..<unat MAX_PROBE_DIST]
      then ERR_OVERFLOW else ERR_NONE)"
proof (cases rule: ht_insert_cases [where h = h and key = key and t = t])
  case full
  then show ?thesis by (auto simp: list_all_iff)
next
  case (stored i)
  then show ?thesis by (auto simp: list_all_iff not_le [symmetric])
qed

text \<open>A probe and an insertion that reaches the table each report between one and
  \<open>MAX_PROBE_DIST\<close> probe steps: the loop is bounded.\<close>

lemma ht_probe_steps_bounded:
  "1 \<le> snd (ht_probe h key) \<and> snd (ht_probe h key) \<le> MAX_PROBE_DIST \<and>
   fst (snd (ht_build h key t)) \<le> MAX_PROBE_DIST"
proof -
  have b: "1 \<le> (of_nat i + 1 :: u32) \<and> (of_nat i + 1 :: u32) \<le> 16" if "i < 16" for i
    using that by (simp add: word_le_nat_alt unat_word_ariths unsigned_of_nat take_bit_eq_mod)
  show ?thesis
    using b by (auto simp: ht_probe_def ht_build_def probe_loop_find build_loop_find find_upt_Some
        split: option.split)
qed

end
