(* ===== verification/Tuple_Serializer.thy ===== *)
theory Tuple_Serializer
  imports Wire_Types
begin

text \<open>
  The host's frame writer, \<^verbatim>\<open>src/host/src/tuple_serializer.cpp\<close>: every \<open>put\<close> operation
  appends to the output vector. A pointer with a count is the list of the \<open>count\<close> tuples it
  points to.
\<close>

section \<open>Byte helpers\<close>

definition put_u8 :: "u8 list \<Rightarrow> u8 \<Rightarrow> u8 list" where
  "put_u8 out v = out @ [v]"

definition put_u16 :: "u8 list \<Rightarrow> u16 \<Rightarrow> u8 list" where
  "put_u16 out v = out @ [ucast v, ucast (drop_bit 8 v)]"

definition put_u32 :: "u8 list \<Rightarrow> u32 \<Rightarrow> u8 list" where
  "put_u32 out v =
     out @ [ucast v, ucast (drop_bit 8 v), ucast (drop_bit 16 v), ucast (drop_bit 24 v)]"

definition put_i32 :: "u8 list \<Rightarrow> u32 \<Rightarrow> u8 list" where
  "put_i32 out v = put_u32 out v"

definition put_i64 :: "u8 list \<Rightarrow> u64 \<Rightarrow> u8 list" where
  "put_i64 out v = foldl (\<lambda>acc i. acc @ [ucast (drop_bit (8 * i) v)]) out [0..<8]"

definition put_tid :: "u8 list \<Rightarrow> Tid \<Rightarrow> u8 list" where
  "put_tid out t = put_u16 (put_u32 out (blkno t)) (offno t)"

definition put_tuple :: "u8 \<Rightarrow> u8 list \<Rightarrow> InputTuple \<Rightarrow> u8 list" where
  "put_tuple key_type out t =
     put_tid (if key_type = KEY_INT32 then put_i32 out (ucast (it_key t))
              else put_i64 out (it_key t)) (it_tid t)"

section \<open>Frames\<close>

definition serialize_configure :: "JoinConfig \<Rightarrow> u32 \<Rightarrow> u32 \<Rightarrow> u8 \<Rightarrow> u8 list" where
  "serialize_configure cfg inner_count outer_count session_id =
     (let out = put_u8 [] MSG_CONFIGURE;
          out = put_u16 out 1;
          out = put_u8 out (jc_algorithm cfg);
          out = put_u8 out (jc_key_type cfg);
          out = put_u16 out (ucast RX_CREDIT_TUPLES);
          out = put_u32 out inner_count;
          out = put_u32 out outer_count
      in put_u8 out session_id)"

definition serialize_batch :: "u8 \<Rightarrow> u8 \<Rightarrow> InputTuple list \<Rightarrow> nat \<Rightarrow> u8 list" where
  "serialize_batch key_type msg_type tuples max_count =
     (let limit = min (length tuples) max_count
      in if limit = 0 then []
         else let payload = foldl (put_tuple key_type) [] (take limit tuples);
                  out = put_u8 [] msg_type;
                  out = put_u16 out (of_nat limit)
              in out @ payload)"

section \<open>What the frames contain\<close>

definition key_bytes :: "u8 \<Rightarrow> u64 \<Rightarrow> u8 list" where
  "key_bytes key_type k = (if key_type = KEY_INT32 then le32 (ucast k) else le64 k)"

definition tid_bytes :: "Tid \<Rightarrow> u8 list" where
  "tid_bytes t = le32 (blkno t) @ le16 (offno t)"

definition tuple_bytes :: "u8 \<Rightarrow> InputTuple \<Rightarrow> u8 list" where
  "tuple_bytes key_type t = key_bytes key_type (it_key t) @ tid_bytes (it_tid t)"

lemma put_simps [wire_simps]:
  "put_u8 out a = out @ [a]" "put_u16 out b = out @ le16 b" "put_u32 out c = out @ le32 c"
  "put_i32 out c = out @ le32 c" "put_i64 out d = out @ le64 d" "put_tid out t = out @ tid_bytes t"
  "put_tuple key_type out tu = out @ tuple_bytes key_type tu"
  by (simp_all add: put_u8_def put_u16_def put_u32_def put_i32_def put_i64_def put_tid_def
      put_tuple_def le16_def le32_def le64_def tid_bytes_def tuple_bytes_def key_bytes_def
      upt_rec numeral_eq_Suc)

lemma foldl_put_tuple [wire_simps]:
  "foldl (put_tuple key_type) out ts = out @ concat (map (tuple_bytes key_type) ts)"
  by (induction ts arbitrary: out) (simp_all add: wire_simps)

lemma serialize_configure_eq [wire_simps]:
  "serialize_configure cfg ni no sid =
     [MSG_CONFIGURE] @ le16 1 @ [jc_algorithm cfg, jc_key_type cfg] @ le16 512 @ le32 ni @ le32 no
     @ [sid]"
  by (simp add: serialize_configure_def wire_simps)

lemma serialize_batch_eq [wire_simps]:
  "serialize_batch key_type msg ts n =
     (if min (length ts) n = 0 then []
      else [msg] @ le16 (of_nat (min (length ts) n))
           @ concat (map (tuple_bytes key_type) (take n ts)))"
  by (simp add: serialize_batch_def wire_simps Let_def min_def take_all_iff)

lemma length_tuple_bytes:
  "length (tuple_bytes key_type t) = (if key_type = KEY_INT32 then 10 else 14)"
  by (simp add: tuple_bytes_def key_bytes_def tid_bytes_def)

lemma length_concat_tuple_bytes:
  "length (concat (map (tuple_bytes key_type) ts)) =
     (if key_type = KEY_INT32 then 10 else 14) * length ts"
  by (induction ts) (simp_all add: length_tuple_bytes del: KEY_INT32_def)

end
