(* ===== verification/Kernel_Stream.thy ===== *)
theory Kernel_Stream
  imports Tuple_Serializer
begin

text \<open>
  The stream helpers and frame builders of \<^verbatim>\<open>src/src/hash_join_kernel.hpp\<close>.

  The input stream is the list of what the kernel finds on its receive port, cycle by cycle:
  \<open>Some b\<close> for a byte, \<open>None\<close> for a poll that finds the port empty. A blocking \<open>read()\<close> waits
  through empty cycles; a read past the end of the list waits forever, which is the result
  \<open>None\<close> of the readers. The output stream is the list of bytes written with their TLAST flag
  (the constant \<open>keep\<close> sideband is left out: nothing in the sources reads it). The flag
  \<open>synth\<close> says whether \<open>__SYNTHESIS__\<close> is defined, which enables the debug frames.
\<close>

section \<open>Streams\<close>

type_synonym rx_stream = "u8 option list"

record AxisByte =
  axis_data :: u8
  axis_last :: bool

type_synonym tx_stream = "AxisByte list"

section \<open>Read helpers\<close>

fun rx_byte :: "rx_stream \<Rightarrow> (u8 \<times> rx_stream) option" where
  "rx_byte [] = None"
| "rx_byte (None # s) = rx_byte s"
| "rx_byte (Some b # s) = Some (b, s)"

definition rx_u16 :: "rx_stream \<Rightarrow> (u16 \<times> rx_stream) option" where
  "rx_u16 s = do {
     (b0, s) \<leftarrow> rx_byte s;
     (b1, s) \<leftarrow> rx_byte s;
     Some (ucast b0 OR push_bit 8 (ucast b1), s) }"

definition rx_u32 :: "rx_stream \<Rightarrow> (u32 \<times> rx_stream) option" where
  "rx_u32 s = do {
     (b0, s) \<leftarrow> rx_byte s;
     (b1, s) \<leftarrow> rx_byte s;
     (b2, s) \<leftarrow> rx_byte s;
     (b3, s) \<leftarrow> rx_byte s;
     Some (ucast b0 OR push_bit 8 (ucast b1) OR push_bit 16 (ucast b2) OR push_bit 24 (ucast b3),
           s) }"

definition rx_i64 :: "rx_stream \<Rightarrow> (u64 \<times> rx_stream) option" where
  "rx_i64 s = do {
     (b0, s) \<leftarrow> rx_byte s;
     (b1, s) \<leftarrow> rx_byte s;
     (b2, s) \<leftarrow> rx_byte s;
     (b3, s) \<leftarrow> rx_byte s;
     (b4, s) \<leftarrow> rx_byte s;
     (b5, s) \<leftarrow> rx_byte s;
     (b6, s) \<leftarrow> rx_byte s;
     (b7, s) \<leftarrow> rx_byte s;
     Some (ucast b0 OR push_bit 8 (ucast b1) OR push_bit 16 (ucast b2) OR push_bit 24 (ucast b3) OR
           push_bit 32 (ucast b4) OR push_bit 40 (ucast b5) OR push_bit 48 (ucast b6) OR
           push_bit 56 (ucast b7), s) }"

definition rx_tid :: "rx_stream \<Rightarrow> (Tid \<times> rx_stream) option" where
  "rx_tid s = do {
     (b, s) \<leftarrow> rx_u32 s;
     (o', s) \<leftarrow> rx_u16 s;
     Some (\<lparr>blkno = b, offno = o'\<rparr>, s) }"

definition rx_discard_tuple :: "u8 \<Rightarrow> rx_stream \<Rightarrow> rx_stream option" where
  "rx_discard_tuple keytype s = do {
     s \<leftarrow> (if keytype = KEY_INT64 then map_option snd (rx_i64 s) else map_option snd (rx_u32 s));
     (_, s) \<leftarrow> rx_tid s;
     Some s }"

text \<open>The key and TID read at the head of every tuple loop, 32-bit keys sign-extended.\<close>

definition rx_tuple :: "u8 \<Rightarrow> rx_stream \<Rightarrow> (InputTuple \<times> rx_stream) option" where
  "rx_tuple keytype s =
     (if keytype = KEY_INT64 then do {
        (k, s) \<leftarrow> rx_i64 s;
        (t, s) \<leftarrow> rx_tid s;
        Some (\<lparr>it_key = k, it_tid = t\<rparr>, s) }
      else do {
        (k, s) \<leftarrow> rx_u32 s;
        (t, s) \<leftarrow> rx_tid s;
        Some (\<lparr>it_key = scast k, it_tid = t\<rparr>, s) })"

section \<open>Write helpers and frame builders\<close>

definition tx_byte :: "tx_stream \<Rightarrow> u8 \<Rightarrow> bool \<Rightarrow> tx_stream" where
  "tx_byte s v is_last = s @ [\<lparr>axis_data = v, axis_last = is_last\<rparr>]"

definition tx_u16 :: "tx_stream \<Rightarrow> u16 \<Rightarrow> bool \<Rightarrow> tx_stream" where
  "tx_u16 s v is_last =
     (let s = tx_byte s (ucast (v AND 0xFF)) False
      in tx_byte s (ucast (drop_bit 8 v AND 0xFF)) is_last)"

definition tx_u32 :: "tx_stream \<Rightarrow> u32 \<Rightarrow> bool \<Rightarrow> tx_stream" where
  "tx_u32 s v is_last =
     (let s = tx_byte s (ucast (drop_bit 0 v AND 0xFF)) False;
          s = tx_byte s (ucast (drop_bit 8 v AND 0xFF)) False;
          s = tx_byte s (ucast (drop_bit 16 v AND 0xFF)) False
      in tx_byte s (ucast (drop_bit 24 v AND 0xFF)) is_last)"

definition tx_u64 :: "tx_stream \<Rightarrow> u64 \<Rightarrow> bool \<Rightarrow> tx_stream" where
  "tx_u64 s v is_last = tx_u32 (tx_u32 s (ucast (v AND 0xFFFFFFFF)) False) (ucast (drop_bit 32 v)) is_last"

definition tx_header :: "tx_stream \<Rightarrow> u8 \<Rightarrow> u16 \<Rightarrow> tx_stream" where
  "tx_header tx type count = tx_u16 (tx_byte tx type False) count False"

definition tx_status_frame ::
  "tx_stream \<Rightarrow> u8 \<Rightarrow> Phase \<Rightarrow> u32 \<Rightarrow> u32 \<Rightarrow> u16 \<Rightarrow> u8 \<Rightarrow> tx_stream" where
  "tx_status_frame tx type phase processed matched credit session_id =
     (let tx = tx_header tx type 1;
          tx = tx_byte tx (phase_byte phase) False;
          tx = tx_byte tx session_id False;
          tx = tx_u16 tx credit False;
          tx = tx_u32 tx processed False
      in tx_u32 tx matched True)"

definition tx_error :: "tx_stream \<Rightarrow> FpgaError \<Rightarrow> tx_stream" where
  "tx_error tx err = tx_byte (tx_header tx MSG_ERROR 1) (error_byte err) True"

text \<open>The loop of \<open>tx_results\<close>: TLAST goes with the last byte of the last pair.\<close>

fun tx_result_loop :: "tx_stream \<Rightarrow> ResultPair list \<Rightarrow> tx_stream" where
  "tx_result_loop tx [] = tx"
| "tx_result_loop tx (r # rs) =
     (let is_last = (rs = []);
          tx = tx_u32 tx (blkno (inner_tid r)) False;
          tx = tx_u16 tx (offno (inner_tid r)) False;
          tx = tx_u32 tx (blkno (outer_tid r)) False;
          tx = tx_u16 tx (offno (outer_tid r)) is_last
      in tx_result_loop tx rs)"

text \<open>\<open>buf\<close> holds the first \<open>count\<close> entries of the result buffer.\<close>

definition tx_results :: "tx_stream \<Rightarrow> ResultPair list \<Rightarrow> tx_stream" where
  "tx_results tx buf =
     (if length buf = 0 then tx
      else tx_result_loop (tx_header tx MSG_RESULT (of_nat (length buf))) buf)"

definition tx_timing_summary :: "tx_stream \<Rightarrow> TimingSummaryPayload \<Rightarrow> tx_stream" where
  "tx_timing_summary tx t =
     (let tx = tx_header tx MSG_TIMING TIMING_SUMMARY_COUNT;
          tx = tx_u16 tx (t_version t) False;
          tx = tx_u16 tx (t_flags t) False;
          tx = tx_u32 tx (t_clock_hz t) False;
          tx = tx_u32 tx (t_inner_rows t) False;
          tx = tx_u32 tx (t_outer_rows t) False;
          tx = tx_u32 tx (t_matched_rows t) False;
          tx = tx_u32 tx (t_inner_frames t) False;
          tx = tx_u32 tx (t_outer_frames t) False;
          tx = tx_u32 tx (t_result_frames t) False;
          tx = tx_u32 tx (t_ack_frames t) False;
          tx = tx_u32 tx (t_debug_frames t) False;
          tx = tx_u32 tx (t_bytes_rx t) False;
          tx = tx_u32 tx (t_bytes_tx t) False;
          tx = tx_u64 tx (t_session_total_cycles t) False;
          tx = tx_u64 tx (t_config_cycles t) False;
          tx = tx_u64 tx (t_build_rx_cycles t) False;
          tx = tx_u64 tx (t_build_compute_cycles t) False;
          tx = tx_u64 tx (t_build_total_cycles t) False;
          tx = tx_u64 tx (t_probe_rx_cycles t) False;
          tx = tx_u64 tx (t_probe_compute_cycles t) False;
          tx = tx_u64 tx (t_result_emit_cycles t) False;
          tx = tx_u64 tx (t_probe_total_cycles t) False;
          tx = tx_u64 tx (t_ack_emit_cycles t) False;
          tx = tx_u64 tx (t_rx_wait_cycles t) False;
          tx = tx_u64 tx (t_tx_blocked_cycles t) False;
          tx = tx_u64 tx (t_protocol_wait_cycles t) False;
          tx = tx_u32 tx (t_max_build_batch_cycles t) False;
          tx = tx_u32 tx (t_max_probe_batch_cycles t) False;
          tx = tx_u32 tx (t_max_result_frame_cycles t) False;
          tx = tx_u32 tx (t_hash_build_inserts t) False;
          tx = tx_u32 tx (t_hash_probe_lookups t) False;
          tx = tx_u32 tx (t_hash_probe_hits t) False;
          tx = tx_u32 tx (t_hash_probe_misses t) False;
          tx = tx_u32 tx (t_hash_overflow_errors t) False;
          tx = tx_u32 tx (t_hash_build_collision_steps t) False;
          tx = tx_u32 tx (t_hash_probe_collision_steps t) False;
          tx = tx_u16 tx (t_hash_max_build_probe_distance t) False;
          tx = tx_u16 tx (t_hash_max_probe_distance t) False
      in tx_u32 tx (t_hash_table_load_factor_ppm t) True)"

text \<open>\<open>DbgLevelKernel\<close> and \<open>DbgCodeKernel\<close>.\<close>

datatype DbgLevelKernel = DBG_DEBUG | DBG_INFO | DBG_WARN | DBG_ERROR

fun level_byte :: "DbgLevelKernel \<Rightarrow> u8" where
  "level_byte DBG_DEBUG = 0"
| "level_byte DBG_INFO = 1"
| "level_byte DBG_WARN = 2"
| "level_byte DBG_ERROR = 3"

datatype DbgCodeKernel = DBG_IDLE_ENTER | DBG_CONFIGURE | DBG_BUILD_BATCH | DBG_BUILD_DONE
  | DBG_PROBE_BATCH | DBG_PROBE_DONE | DBG_RESET | DBG_BUILD_KEY | DBG_PROBE_KEY | DBG_PROBE_HIT
  | DBG_KERNEL_ERROR

fun dbg_code :: "DbgCodeKernel \<Rightarrow> u16" where
  "dbg_code DBG_IDLE_ENTER = 0x0001"
| "dbg_code DBG_CONFIGURE = 0x0002"
| "dbg_code DBG_BUILD_BATCH = 0x0003"
| "dbg_code DBG_BUILD_DONE = 0x0004"
| "dbg_code DBG_PROBE_BATCH = 0x0005"
| "dbg_code DBG_PROBE_DONE = 0x0006"
| "dbg_code DBG_RESET = 0x0007"
| "dbg_code DBG_BUILD_KEY = 0x0008"
| "dbg_code DBG_PROBE_KEY = 0x0009"
| "dbg_code DBG_PROBE_HIT = 0x000A"
| "dbg_code DBG_KERNEL_ERROR = 0x00FF"

definition emit_debug ::
  "bool \<Rightarrow> tx_stream \<Rightarrow> DbgLevelKernel \<Rightarrow> DbgCodeKernel \<Rightarrow> u32 \<Rightarrow> tx_stream" where
  "emit_debug synth tx level code value =
     (if synth then
        let tx = tx_header tx MSG_DEBUG 1;
            tx = tx_byte tx (level_byte level) False;
            tx = tx_u16 tx (dbg_code code) False
        in tx_u32 tx value True
      else tx)"

section \<open>The watchdog read\<close>

definition RX_WATCHDOG_CYCLES :: u32 where "RX_WATCHDOG_CYCLES = 350000000"

text \<open>The result is the byte, the remaining input, the output and \<open>session_done\<close>; \<open>None\<close> when
  the input ends before a byte or the time-out.\<close>

fun rx_guard_loop ::
  "bool \<Rightarrow> u8 \<Rightarrow> u32 \<Rightarrow> rx_stream \<Rightarrow> tx_stream \<Rightarrow> (u8 \<times> rx_stream \<times> tx_stream \<times> bool) option" where
  "rx_guard_loop synth session_id ctr [] tx = None"
| "rx_guard_loop synth session_id ctr (Some b # rx) tx = Some (b, rx, tx, False)"
| "rx_guard_loop synth session_id ctr (None # rx) tx =
     (if ctr + 1 \<ge> RX_WATCHDOG_CYCLES then
        let tx = emit_debug synth tx DBG_WARN DBG_RESET (ctr + 1);
            tx = tx_status_frame tx MSG_ACK PHASE_IDLE 0 0 (ucast RX_CREDIT_TUPLES) session_id
        in Some (0, rx, tx, True)
      else rx_guard_loop synth session_id (ctr + 1) rx tx)"

definition rx_byte_guarded ::
  "bool \<Rightarrow> rx_stream \<Rightarrow> tx_stream \<Rightarrow> u8 \<Rightarrow> (u8 \<times> rx_stream \<times> tx_stream \<times> bool) option" where
  "rx_byte_guarded synth rx tx session_id = rx_guard_loop synth session_id 0 rx tx"


section \<open>Reading consumes input\<close>

lemma rx_byte_shorter: "rx_byte s = Some (b, s') \<Longrightarrow> length s' < length s"
  by (induction s rule: rx_byte.induct) auto

lemma rx_u16_shorter: "rx_u16 s = Some (v, s') \<Longrightarrow> length s' < length s"
  by (auto simp: rx_u16_def bind_eq_Some_conv dest!: rx_byte_shorter)

lemma rx_u32_shorter: "rx_u32 s = Some (w, s') \<Longrightarrow> length s' < length s"
  by (auto simp: rx_u32_def bind_eq_Some_conv dest!: rx_byte_shorter)

lemma rx_i64_shorter: "rx_i64 s = Some (d, s') \<Longrightarrow> length s' < length s"
  by (auto simp: rx_i64_def bind_eq_Some_conv dest!: rx_byte_shorter)

lemma rx_tid_shorter: "rx_tid s = Some (t, s') \<Longrightarrow> length s' < length s"
  by (auto simp: rx_tid_def bind_eq_Some_conv dest!: rx_u16_shorter rx_u32_shorter)

lemma rx_tuple_shorter: "rx_tuple kt s = Some (tu, s') \<Longrightarrow> length s' < length s"
  by (auto simp: rx_tuple_def bind_eq_Some_conv split: if_splits
      dest!: rx_tid_shorter rx_u32_shorter rx_i64_shorter)

lemma rx_discard_tuple_shorter: "rx_discard_tuple kt s = Some s' \<Longrightarrow> length s' < length s"
  by (auto simp: rx_discard_tuple_def bind_eq_Some_conv split: if_splits
      dest!: rx_tid_shorter rx_u32_shorter rx_i64_shorter)

lemma rx_guard_loop_shorter:
  "rx_guard_loop synth sid ctr s tx = Some (b, s', tx', d) \<Longrightarrow> length s' < length s"
  by (induction synth sid ctr s tx rule: rx_guard_loop.induct) (auto simp: Let_def split: if_splits)

lemma rx_byte_guarded_shorter:
  "rx_byte_guarded synth s tx sid = Some (b, s', tx', d) \<Longrightarrow> length s' < length s"
  unfolding rx_byte_guarded_def by (rule rx_guard_loop_shorter)

lemmas rx_shorter = rx_byte_shorter rx_u16_shorter rx_u32_shorter rx_i64_shorter rx_tid_shorter
  rx_tuple_shorter rx_discard_tuple_shorter rx_byte_guarded_shorter

section \<open>Reading what was written\<close>

lemma rx_byte_plain [rx_simps]: "rx_byte (map Some (b # bs) @ s) = Some (b, map Some bs @ s)"
  by simp

lemma rx_le16 [rx_simps]: "rx_u16 (map Some (le16 v) @ s) = Some (v, s)"
  using of_le16_bytes [of v] by (simp add: rx_u16_def le16_def of_le16_def)

lemma rx_le32 [rx_simps]: "rx_u32 (map Some (le32 v) @ s) = Some (v, s)"
  using of_le32_bytes [of v] by (simp add: rx_u32_def le32_def of_le32_def)

lemma rx_le64 [rx_simps]: "rx_i64 (map Some (le64 v) @ s) = Some (v, s)"
  using of_le64_bytes [of v] by (simp add: rx_i64_def le64_def of_le64_def)

lemma rx_tid_bytes [rx_simps]: "rx_tid (map Some (tid_bytes t) @ s) = Some (t, s)"
  by (simp add: rx_tid_def tid_bytes_def rx_simps)

text \<open>A key is faithful on the wire when it is sent with 64 bits or fits 32 signed bits.\<close>

definition key_fits :: "u8 \<Rightarrow> u64 \<Rightarrow> bool" where
  "key_fits key_type k \<longleftrightarrow> key_type = KEY_INT64 \<or>
     key_type = KEY_INT32 \<and> - (2 ^ 31) \<le> sint k \<and> sint k < 2 ^ 31"

lemma rx_tuple_bytes [rx_simps]:
  assumes "key_fits key_type (it_key t)"
  shows "rx_tuple key_type (map Some (tuple_bytes key_type t) @ s) = Some (t, s)"
  using assms
  by (auto simp: rx_tuple_def tuple_bytes_def key_bytes_def key_fits_def rx_simps sign_extend_truncate)

lemma rx_discard_tuple_bytes [rx_simps]:
  assumes "key_type = KEY_INT32 \<or> key_type = KEY_INT64"
  shows "rx_discard_tuple key_type (map Some (tuple_bytes key_type t) @ s) = Some s"
  using assms
  by (auto simp: rx_discard_tuple_def tuple_bytes_def key_bytes_def rx_simps)

section \<open>The frames the kernel writes\<close>

definition axis_bytes :: "u8 list \<Rightarrow> tx_stream" where
  "axis_bytes bs = map (\<lambda>b. \<lparr>axis_data = b, axis_last = False\<rparr>) bs"

definition axis_frame :: "u8 list \<Rightarrow> tx_stream" where
  "axis_frame bs = axis_bytes (butlast bs) @ [\<lparr>axis_data = List.last bs, axis_last = True\<rparr>]"

definition tx_data :: "tx_stream \<Rightarrow> u8 list" where
  "tx_data tx = map axis_data tx"

definition pair_bytes :: "ResultPair \<Rightarrow> u8 list" where
  "pair_bytes r = tid_bytes (inner_tid r) @ tid_bytes (outer_tid r)"

definition status_bytes :: "u8 \<Rightarrow> Phase \<Rightarrow> u32 \<Rightarrow> u32 \<Rightarrow> u16 \<Rightarrow> u8 \<Rightarrow> u8 list" where
  "status_bytes type phase processed matched credit session_id =
     type # le16 1 @ [phase_byte phase, session_id] @ le16 credit @ le32 processed @ le32 matched"

definition error_bytes :: "FpgaError \<Rightarrow> u8 list" where
  "error_bytes e = MSG_ERROR # le16 1 @ [error_byte e]"

definition result_bytes :: "ResultPair list \<Rightarrow> u8 list" where
  "result_bytes rs = MSG_RESULT # le16 (of_nat (length rs)) @ concat (map pair_bytes rs)"

definition timing_bytes :: "TimingSummaryPayload \<Rightarrow> u8 list" where
  "timing_bytes t = MSG_TIMING # le16 1 @
     le16 (t_version t) @ le16 (t_flags t) @ le32 (t_clock_hz t) @
     le32 (t_inner_rows t) @ le32 (t_outer_rows t) @ le32 (t_matched_rows t) @
     le32 (t_inner_frames t) @ le32 (t_outer_frames t) @ le32 (t_result_frames t) @
     le32 (t_ack_frames t) @ le32 (t_debug_frames t) @
     le32 (t_bytes_rx t) @ le32 (t_bytes_tx t) @
     le64 (t_session_total_cycles t) @ le64 (t_config_cycles t) @
     le64 (t_build_rx_cycles t) @ le64 (t_build_compute_cycles t) @ le64 (t_build_total_cycles t) @
     le64 (t_probe_rx_cycles t) @ le64 (t_probe_compute_cycles t) @
     le64 (t_result_emit_cycles t) @ le64 (t_probe_total_cycles t) @ le64 (t_ack_emit_cycles t) @
     le64 (t_rx_wait_cycles t) @ le64 (t_tx_blocked_cycles t) @ le64 (t_protocol_wait_cycles t) @
     le32 (t_max_build_batch_cycles t) @ le32 (t_max_probe_batch_cycles t) @
     le32 (t_max_result_frame_cycles t) @
     le32 (t_hash_build_inserts t) @ le32 (t_hash_probe_lookups t) @ le32 (t_hash_probe_hits t) @
     le32 (t_hash_probe_misses t) @ le32 (t_hash_overflow_errors t) @
     le32 (t_hash_build_collision_steps t) @ le32 (t_hash_probe_collision_steps t) @
     le16 (t_hash_max_build_probe_distance t) @ le16 (t_hash_max_probe_distance t) @
     le32 (t_hash_table_load_factor_ppm t)"

definition debug_bytes :: "DbgLevelKernel \<Rightarrow> DbgCodeKernel \<Rightarrow> u32 \<Rightarrow> u8 list" where
  "debug_bytes level code value = MSG_DEBUG # le16 1 @ [level_byte level] @ le16 (dbg_code code)
     @ le32 value"

lemma ucast_and_255 [simp]:
  "(ucast (v AND 255 :: u16) :: u8) = ucast v" "(ucast (w AND 255 :: u32) :: u8) = ucast w"
proof -
  have m: "(255 :: u16) = mask 8" "(255 :: u32) = mask 8"
    by (simp_all add: mask_eq_exp_minus_1)
  show "(ucast (v AND 255 :: u16) :: u8) = ucast v" "(ucast (w AND 255 :: u32) :: u8) = ucast w"
    unfolding m take_bit_eq_mask [symmetric]
    by (rule bit_word_eqI, auto simp: bit_simps)+
qed

lemma ucast_low_half: "(ucast (v AND 0xFFFFFFFF :: u64) :: u32) = ucast v"
proof -
  have m: "(0xFFFFFFFF :: u64) = mask 32"
    by (simp add: mask_eq_exp_minus_1)
  show ?thesis
    unfolding m take_bit_eq_mask [symmetric] by (rule bit_word_eqI) (auto simp: bit_simps)
qed

lemma ucast_drop_half:
  fixes v :: u64
  shows "n + 8 \<le> 32 \<Longrightarrow> (ucast (drop_bit n (ucast v :: u32)) :: u8) = ucast (drop_bit n v)"
    and "n + 8 \<le> 32 \<Longrightarrow>
      (ucast (drop_bit n (ucast (drop_bit 32 v) :: u32)) :: u8) = ucast (drop_bit (n + 32) v)"
  by (rule bit_word_eqI, auto simp: bit_simps ac_simps)+

lemma le64_halves: "le32 (ucast v) @ le32 (ucast (drop_bit 32 v)) = le64 v"
  using ucast_drop_half [of 0 v] ucast_drop_half [of 8 v] ucast_drop_half [of 16 v]
    ucast_drop_half [of 24 v]
  by (simp add: le32_def le64_def)

lemma axis_bytes_append: "axis_bytes (a @ b) = axis_bytes a @ axis_bytes b"
  by (simp add: axis_bytes_def)

lemma axis_frame_append: "b \<noteq> [] \<Longrightarrow> axis_bytes a @ axis_frame b = axis_frame (a @ b)"
  by (simp add: axis_frame_def axis_bytes_def butlast_append)

lemma tx_word_simps [tx_simps]:
  "tx_byte s a False = s @ axis_bytes [a]" "tx_byte s a True = s @ axis_frame [a]"
  "tx_u16 s b False = s @ axis_bytes (le16 b)" "tx_u16 s b True = s @ axis_frame (le16 b)"
  "tx_u32 s c False = s @ axis_bytes (le32 c)" "tx_u32 s c True = s @ axis_frame (le32 c)"
  by (simp_all add: tx_byte_def tx_u16_def tx_u32_def axis_bytes_def axis_frame_def le16_def
      le32_def Let_def)

lemma tx_u64_simps [tx_simps]: "tx_u64 s v False = s @ axis_bytes (le64 v)"
  by (simp add: tx_u64_def tx_simps ucast_low_half axis_bytes_append [symmetric] le64_halves)

lemma tx_header_simps [tx_simps]: "tx_header tx type count = tx @ axis_bytes (type # le16 count)"
  by (simp add: tx_header_def tx_simps axis_bytes_append [symmetric])

lemma tx_status_frame_eq [tx_simps]:
  "tx_status_frame tx type phase processed matched credit sid
     = tx @ axis_frame (status_bytes type phase processed matched credit sid)"
  by (simp add: tx_status_frame_def tx_simps status_bytes_def axis_frame_append Let_def
      axis_bytes_append [symmetric] le32_def)

lemma tx_error_eq [tx_simps]: "tx_error tx e = tx @ axis_frame (error_bytes e)"
  by (simp add: tx_error_def tx_simps error_bytes_def axis_frame_append)

lemma emit_debug_eq [tx_simps]:
  "emit_debug synth tx level code value =
     (if synth then tx @ axis_frame (debug_bytes level code value) else tx)"
  by (simp add: emit_debug_def tx_simps debug_bytes_def axis_frame_append Let_def
      axis_bytes_append [symmetric] le32_def)

lemma tx_result_loop_eq:
  "rs \<noteq> [] \<Longrightarrow> tx_result_loop tx rs = tx @ axis_frame (concat (map pair_bytes rs))"
proof (induction rs arbitrary: tx)
  case (Cons r rs)
  show ?case
  proof (cases "rs = []")
    case True
    then show ?thesis
      by (simp add: Let_def tx_simps pair_bytes_def tid_bytes_def axis_frame_append
          axis_bytes_append [symmetric] le16_def)
  next
    case False
    then have "concat (map pair_bytes rs) \<noteq> []"
      by (cases rs) (simp_all add: pair_bytes_def tid_bytes_def le16_def)
    with False Cons.IH [OF False] show ?thesis
      by (simp add: Let_def tx_simps pair_bytes_def tid_bytes_def axis_frame_append
          axis_bytes_append [symmetric])
  qed
qed simp

lemma tx_results_eq [tx_simps]:
  "tx_results tx rs = (if rs = [] then tx else tx @ axis_frame (result_bytes rs))"
proof (cases "rs = []")
  case False
  then have "concat (map pair_bytes rs) \<noteq> []"
    by (cases rs) (simp_all add: pair_bytes_def tid_bytes_def le16_def)
  with False show ?thesis
    by (simp add: tx_results_def tx_result_loop_eq tx_simps result_bytes_def axis_frame_append)
qed (simp add: tx_results_def)

lemma tx_timing_summary_eq [tx_simps]: "tx_timing_summary tx t = tx @ axis_frame (timing_bytes t)"
  unfolding tx_timing_summary_def Let_def tx_simps append_assoc axis_bytes_append [symmetric]
  by (simp add: axis_frame_append timing_bytes_def le32_def)

lemma tx_data_frame [simp]: "bs \<noteq> [] \<Longrightarrow> tx_data (axis_frame bs) = bs"
  by (simp add: tx_data_def axis_frame_def axis_bytes_def comp_def)

lemma tx_data_append [simp]: "tx_data (a @ b) = tx_data a @ tx_data b"
  by (simp add: tx_data_def)

lemma tx_data_Nil [simp]: "tx_data [] = []"
  by (simp add: tx_data_def)

section \<open>The watchdog\<close>

definition watchdog_tx :: "bool \<Rightarrow> tx_stream \<Rightarrow> u8 \<Rightarrow> tx_stream" where
  "watchdog_tx synth tx session_id =
     tx_status_frame (emit_debug synth tx DBG_WARN DBG_RESET RX_WATCHDOG_CYCLES)
       MSG_ACK PHASE_IDLE 0 0 (ucast RX_CREDIT_TUPLES) session_id"

lemma rx_guard_loop_idle:
  assumes "unat ctr < 350000000"
  shows "rx_guard_loop synth sid ctr (replicate n None @ Some b # rx) tx =
    (if unat ctr + n < 350000000 then Some (b, rx, tx, False)
     else Some (0, replicate (unat ctr + n - 350000000) None @ Some b # rx,
                watchdog_tx synth tx sid, True))"
  using assms
proof (induction n arbitrary: ctr)
  case (Suc n)
  have u: "unat (ctr + 1) = unat ctr + 1"
    using Suc.prems by (simp add: unat_word_ariths)
  show ?case
  proof (cases "unat ctr + 1 < 350000000")
    case True
    then have "\<not> RX_WATCHDOG_CYCLES \<le> ctr + 1"
      using u by (simp add: RX_WATCHDOG_CYCLES_def word_le_nat_alt)
    with True Suc.IH [of "ctr + 1"] u show ?thesis by simp
  next
    case False
    with Suc.prems u have "ctr + 1 = RX_WATCHDOG_CYCLES"
      by (simp add: RX_WATCHDOG_CYCLES_def word_unat_eq_iff)
    moreover have "unat ctr + Suc n - 350000000 = n" using False Suc.prems by simp
    ultimately show ?thesis using False by (simp add: watchdog_tx_def Let_def)
  qed
qed simp

section \<open>Kernel messages\<close>

text \<open>The output of the kernel as a list of messages; \<open>tx_of\<close> is the stream that carries them.\<close>

datatype KernelMsg =
    KStatus u8 Phase u32 u32 u16 u8
  | KError FpgaError
  | KResult "ResultPair list"
  | KTiming TimingSummaryPayload
  | KDebug DbgLevelKernel DbgCodeKernel u32

fun msg_bytes :: "KernelMsg \<Rightarrow> u8 list" where
  "msg_bytes (KStatus type phase processed matched credit sid) =
     status_bytes type phase processed matched credit sid"
| "msg_bytes (KError e) = error_bytes e"
| "msg_bytes (KResult rs) = result_bytes rs"
| "msg_bytes (KTiming t) = timing_bytes t"
| "msg_bytes (KDebug level code value) = debug_bytes level code value"

definition tx_of :: "KernelMsg list \<Rightarrow> tx_stream" where
  "tx_of ms = concat (map (\<lambda>m. axis_frame (msg_bytes m)) ms)"

fun msg_pairs :: "KernelMsg \<Rightarrow> ResultPair list" where
  "msg_pairs (KResult rs) = rs"
| "msg_pairs _ = []"

text \<open>The result pairs a message list carries, in order.\<close>

definition pairs_of :: "KernelMsg list \<Rightarrow> ResultPair list" where
  "pairs_of ms = concat (map msg_pairs ms)"

lemma tx_of_simps [simp]:
  "tx_of [] = []" "tx_of (a @ b) = tx_of a @ tx_of b"
  "tx_of (m # ms) = axis_frame (msg_bytes m) @ tx_of ms"
  by (simp_all add: tx_of_def)

lemma pairs_of_simps [simp]:
  "pairs_of [] = []" "pairs_of (a @ b) = pairs_of a @ pairs_of b"
  "pairs_of (m # ms) = msg_pairs m @ pairs_of ms"
  by (simp_all add: pairs_of_def)

lemma msg_bytes_not_Nil [simp]: "msg_bytes m \<noteq> []"
  by (cases m) (simp_all add: status_bytes_def error_bytes_def result_bytes_def timing_bytes_def
      debug_bytes_def)

lemma tx_data_tx_of: "tx_data (tx_of ms) = concat (map msg_bytes ms)"
  by (induction ms) simp_all

text \<open>Every frame builder sends one message (none for an empty result batch or a debug
  frame outside synthesis).\<close>

definition debug_msgs :: "bool \<Rightarrow> DbgLevelKernel \<Rightarrow> DbgCodeKernel \<Rightarrow> u32 \<Rightarrow> KernelMsg list" where
  "debug_msgs synth level code value = (if synth then [KDebug level code value] else [])"

definition result_msgs :: "ResultPair list \<Rightarrow> KernelMsg list" where
  "result_msgs rs = (if rs = [] then [] else [KResult rs])"

lemma tx_messages:
  "tx_status_frame tx type phase processed matched credit sid
     = tx @ tx_of [KStatus type phase processed matched credit sid]"
  "tx_error tx e = tx @ tx_of [KError e]"
  "tx_results tx rs = tx @ tx_of (result_msgs rs)"
  "tx_timing_summary tx t = tx @ tx_of [KTiming t]"
  "emit_debug synth tx level code value = tx @ tx_of (debug_msgs synth level code value)"
  by (simp_all add: tx_simps debug_msgs_def result_msgs_def)

lemma pairs_of_result_msgs [simp]: "pairs_of (result_msgs rs) = rs"
  by (simp add: result_msgs_def)

lemma pairs_of_debug_msgs [simp]: "pairs_of (debug_msgs synth level code value) = []"
  by (simp add: debug_msgs_def)

lemma watchdog_messages:
  "watchdog_tx synth tx sid = tx @ tx_of (debug_msgs synth DBG_WARN DBG_RESET RX_WATCHDOG_CYCLES @
     [KStatus MSG_ACK PHASE_IDLE 0 0 512 sid])"
  by (simp add: watchdog_tx_def tx_messages)

lemma rx_guard_loop_messages:
  "rx_guard_loop synth sid ctr s tx = Some (b, s', tx', d) \<Longrightarrow>
     \<exists>ms. tx' = tx @ tx_of ms \<and> pairs_of ms = [] \<and> (\<not> d \<longrightarrow> ms = [])"
proof (induction synth sid ctr s tx rule: rx_guard_loop.induct)
  case (3 synth sid ctr rx tx)
  show ?case
  proof (cases "ctr + 1 \<ge> RX_WATCHDOG_CYCLES")
    case True
    with "3.prems" show ?thesis
      by (intro exI [of _ "debug_msgs synth DBG_WARN DBG_RESET (ctr + 1) @
          [KStatus MSG_ACK PHASE_IDLE 0 0 512 sid]"]) (auto simp: tx_messages Let_def)
  next
    case False
    with 3 show ?thesis by simp
  qed
qed simp_all

lemma rx_byte_guarded_messages:
  assumes "rx_byte_guarded synth s tx sid = Some (b, s', tx', d)"
  obtains ms where "tx' = tx @ tx_of ms" "pairs_of ms = []" "\<not> d \<Longrightarrow> ms = []"
  using rx_guard_loop_messages assms unfolding rx_byte_guarded_def by blast

section \<open>Properties of the streams\<close>

text \<open>C14. The frame-boundary read returns the next byte after fewer than \<open>RX_WATCHDOG_CYCLES\<close>
  empty polls; otherwise it gives up after exactly that many, announces IDLE with an ACK that
  carries the session id, and ends the session without consuming the byte.\<close>

theorem rx_byte_guarded_watchdog:
  "rx_byte_guarded synth (replicate n None @ Some b # rx) tx sid =
     (if n < unat RX_WATCHDOG_CYCLES then Some (b, rx, tx, False)
      else Some (0, replicate (n - unat RX_WATCHDOG_CYCLES) None @ Some b # rx,
                 watchdog_tx synth tx sid, True))"
  using rx_guard_loop_idle [of 0 synth sid n b rx tx]
  by (simp add: rx_byte_guarded_def RX_WATCHDOG_CYCLES_def)

lemma rx_byte_guarded_plain [rx_simps]:
  "rx_byte_guarded synth (map Some (b # bs) @ s) tx sid = Some (b, map Some bs @ s, tx, False)"
  by (simp add: rx_byte_guarded_def)

text \<open>The kernel's tuple reader inverts the host's tuple writer, for both key widths, whenever
  the key fits the width it is sent with, and consumes exactly the tuple's bytes.\<close>

lemma rx_tuple_put_tuple:
  assumes "key_fits key_type (it_key t)"
  shows "rx_tuple key_type (map Some (put_tuple key_type [] t) @ rest) = Some (t, rest)"
  using rx_tuple_bytes [OF assms] by (simp add: wire_simps)

theorem rx_tuple_put_tuple_witness:
  "key_fits KEY_INT32 (- 5) \<and>
   rx_tuple KEY_INT32 (map Some (put_tuple KEY_INT32 []
     \<lparr>it_key = - 5, it_tid = \<lparr>blkno = 70000, offno = 3\<rparr>\<rparr>) @ [])
   = Some (\<lparr>it_key = - 5, it_tid = \<lparr>blkno = 70000, offno = 3\<rparr>\<rparr>, [])"
proof -
  have fits: "key_fits KEY_INT32 (it_key \<lparr>it_key = - 5, it_tid = \<lparr>blkno = 70000, offno = 3\<rparr>\<rparr>)"
    by (simp add: key_fits_def)
  show ?thesis using fits rx_tuple_put_tuple [OF fits, of "[]"] by simp
qed

end
