(* ===== verification/Kernel_State.thy ===== *)
theory Kernel_State
  imports Linear_Hash Kernel_Stream
begin

text \<open>
  The state of \<open>hash_join_kernel\<close> (\<^verbatim>\<open>src/src/hash_join_kernel.cpp\<close>): its streams, its
  AXI-Lite registers, the static hash table and Grace engine, the DDR2 buffer and the variables
  of the running session. The result buffer with its fill counter is the list of the pairs it
  holds. What a phase does next is a \<open>flow\<close>: \<open>Blocked\<close> when it waits for input that never comes,
  \<open>Overrun\<close> when it writes past the end of a fixed array.
\<close>

datatype flow = Continue | Break | Blocked | Overrun

text \<open>The values of the RTL timing monitor's ports, all zero when it is absent.\<close>

record RtlTiming =
  rtl_timing_valid :: u32
  rtl_timing_clock_hz :: u32
  rtl_inner_frames :: u32
  rtl_outer_frames :: u32
  rtl_result_frames :: u32
  rtl_ack_frames :: u32
  rtl_debug_frames :: u32
  rtl_bytes_rx :: u32
  rtl_bytes_tx :: u32
  rtl_cycle_counter :: u64
  rtl_ts_config_first :: u64
  rtl_ts_config_ack :: u64
  rtl_ts_build_first :: u64
  rtl_ts_build_last :: u64
  rtl_ts_build_ack_last :: u64
  rtl_ts_probe_first :: u64
  rtl_ts_probe_last :: u64
  rtl_ts_probe_ack_last :: u64
  rtl_ts_result_first :: u64
  rtl_ts_result_last :: u64

definition rtl_absent :: RtlTiming where
  "rtl_absent = \<lparr>rtl_timing_valid = 0, rtl_timing_clock_hz = 0, rtl_inner_frames = 0,
     rtl_outer_frames = 0, rtl_result_frames = 0, rtl_ack_frames = 0, rtl_debug_frames = 0,
     rtl_bytes_rx = 0, rtl_bytes_tx = 0, rtl_cycle_counter = 0, rtl_ts_config_first = 0,
     rtl_ts_config_ack = 0, rtl_ts_build_first = 0, rtl_ts_build_last = 0,
     rtl_ts_build_ack_last = 0, rtl_ts_probe_first = 0, rtl_ts_probe_last = 0,
     rtl_ts_probe_ack_last = 0, rtl_ts_result_first = 0, rtl_ts_result_last = 0\<rparr>"

text \<open>What CONFIGURE fixes for a session.\<close>

record SessionConfig =
  c_algorithm :: u8
  c_keytype :: u8
  c_inner_total :: u32
  c_outer_total :: u32
  c_K :: u32
  c_outer_slot_w :: u32
  c_session_id :: u8

record KernelState =
  k_rx :: rx_stream
  k_tx :: tx_stream
  k_status_reg :: u32
  k_result_count_reg :: u32
  k_error_code_reg :: u32
  k_ht_capacity_reg :: u32
  k_rx_buf_cap_reg :: u32
  k_ht :: LinearHashTable
  k_inner_counts :: "u32 \<Rightarrow> u32"
  k_outer_counts :: "u32 \<Rightarrow> u32"
  k_ddr2_buf :: "u32 \<Rightarrow> u64"
  k_timing :: TimingSummaryPayload
  k_session_done :: bool
  k_matched :: u32
  k_result_buf :: "ResultPair list"
  k_inner_received :: u32
  k_outer_received :: u32
  k_ack_pending :: u16
  k_batch_cycles :: u64

definition kernel_blank :: "rx_stream \<Rightarrow> KernelState" where
  "kernel_blank rx = \<lparr>k_rx = rx, k_tx = [], k_status_reg = 0, k_result_count_reg = 0,
     k_error_code_reg = 0, k_ht_capacity_reg = 0, k_rx_buf_cap_reg = 0, k_ht = ht_blank,
     k_inner_counts = (\<lambda>_. 0), k_outer_counts = (\<lambda>_. 0), k_ddr2_buf = (\<lambda>_. 0),
     k_timing = timing_zero, k_session_done = False, k_matched = 0, k_result_buf = [],
     k_inner_received = 0, k_outer_received = 0, k_ack_pending = 0, k_batch_cycles = 0\<rparr>"

text \<open>The credit advertised with \<open>remaining\<close> rows to come, capped at \<open>RX_CREDIT_TUPLES\<close>.\<close>

definition credit_of :: "u32 \<Rightarrow> u16" where
  "credit_of remaining =
     (if remaining < RX_CREDIT_TUPLES then ucast remaining else ucast RX_CREDIT_TUPLES)"

lemma unat_credit_of: "unat (credit_of r) = min (unat r) 512"
proof -
  have "unat (ucast r :: u16) = unat r" if "unat r < 512"
    using that by (simp add: unsigned_ucast_eq take_bit_nat_eq_self_iff)
  then show ?thesis by (auto simp: credit_of_def word_less_nat_alt)
qed

end
