(* ===== verification/Grace_Engine.thy ===== *)
theory Grace_Engine
  imports Kernel_State "HOL-Library.Multiset"
begin

text \<open>
  Algorithm B, \<open>GraceHashEngine\<close> of \<^verbatim>\<open>src/src/hash_join_grace.hpp\<close>: the inner and the outer
  rows are partitioned by a hash of the key into slots of the DDR2 buffer, then each partition
  is joined through the BRAM table.
\<close>

section \<open>Partition hash and tuple packing\<close>

definition partition_of :: "u64 \<Rightarrow> u32 \<Rightarrow> u32" where
  "partition_of key K = ucast (drop_bit 32 (key * 2654435761)) mod K"

definition pack_tuple :: "(u32 \<Rightarrow> u64) \<Rightarrow> u32 \<Rightarrow> InputTuple \<Rightarrow> (u32 \<Rightarrow> u64)" where
  "pack_tuple buf idx t =
     buf(idx := it_key t,
         idx + 1 := push_bit 32 (ucast (blkno (it_tid t))) OR push_bit 16 (ucast (offno (it_tid t))))"

definition unpack_tuple :: "(u32 \<Rightarrow> u64) \<Rightarrow> u32 \<Rightarrow> InputTuple" where
  "unpack_tuple buf idx =
     (let packed = buf (idx + 1)
      in \<lparr>it_key = buf idx,
          it_tid = \<lparr>blkno = ucast (drop_bit 32 packed),
                    offno = ucast (drop_bit 16 packed AND 0xFFFF)\<rparr>\<rparr>)"

section \<open>Phases 1 and 2: partitioning\<close>

datatype gflow = GBlocked | GNext | GRet FpgaError

fun discard_tuples :: "u8 \<Rightarrow> nat \<Rightarrow> rx_stream \<Rightarrow> rx_stream option" where
  "discard_tuples keytype 0 rx = Some rx"
| "discard_tuples keytype (Suc n) rx = do {
     rx \<leftarrow> rx_discard_tuple keytype rx;
     discard_tuples keytype n rx }"

definition inner_slot_idx :: "u32 \<Rightarrow> u32 \<Rightarrow> u32" where
  "inner_slot_idx p i = p * GRACE_INNER_SLOT_WORDS + i * GRACE_WORDS_PER_TUPLE"

definition outer_slot_idx :: "u32 \<Rightarrow> u32 \<Rightarrow> u32 \<Rightarrow> u32" where
  "outer_slot_idx outer_slot_words p i =
     GRACE_OUTER_AREA_BASE + p * outer_slot_words + i * GRACE_WORDS_PER_TUPLE"

text \<open>\<open>n\<close> tuples of the frame are still to be read.\<close>

fun build_inner_tuple_loop :: "u8 \<Rightarrow> u32 \<Rightarrow> nat \<Rightarrow> KernelState \<Rightarrow> gflow \<times> KernelState" where
  "build_inner_tuple_loop keytype K 0 k = (GNext, k)"
| "build_inner_tuple_loop keytype K (Suc n) k =
     (case rx_tuple keytype (k_rx k) of
        None \<Rightarrow> (GBlocked, k)
      | Some (t, rx) \<Rightarrow>
          let p = partition_of (it_key t) K
          in if k_inner_counts k p \<ge> HT_MAX_ROWS then
               (case discard_tuples keytype n rx of
                  None \<Rightarrow> (GBlocked, k)
                | Some rx \<Rightarrow> (GRet ERR_OVERFLOW,
                    k\<lparr>k_rx := rx, k_tx := tx_error (k_tx k) ERR_OVERFLOW\<rparr>))
             else build_inner_tuple_loop keytype K n
               (k\<lparr>k_rx := rx,
                  k_ddr2_buf := pack_tuple (k_ddr2_buf k) (inner_slot_idx p (k_inner_counts k p)) t,
                  k_inner_counts := (k_inner_counts k)(p := k_inner_counts k p + 1),
                  k_inner_received := k_inner_received k + 1\<rparr>))"

text \<open>One frame of phase 1: header, dispatch, tuples, ACK.\<close>

definition build_inner_frame :: "SessionConfig \<Rightarrow> KernelState \<Rightarrow> gflow \<times> KernelState" where
  "build_inner_frame c k =
     (case do { (msg_type, rx) \<leftarrow> rx_byte (k_rx k); (cnt, rx) \<leftarrow> rx_u16 rx;
                Some (msg_type, cnt, rx) } of
        None \<Rightarrow> (GBlocked, k)
      | Some (msg_type, cnt, rx) \<Rightarrow>
          if msg_type = MSG_RESET then
            (GRet ERR_BAD_STATE,
             k\<lparr>k_rx := rx, k_tx := tx_status_frame (k_tx k) MSG_ACK PHASE_IDLE 0 0 0 (c_session_id c)\<rparr>)
          else if msg_type \<noteq> MSG_INNER_DATA then
            (GRet ERR_BAD_STATE, k\<lparr>k_rx := rx, k_tx := tx_error (k_tx k) ERR_BAD_STATE\<rparr>)
          else
            (case build_inner_tuple_loop (c_keytype c) (c_K c) (unat cnt) (k\<lparr>k_rx := rx\<rparr>) of
               (GNext, k) \<Rightarrow>
                 let remaining = c_inner_total c - k_inner_received k
                 in (GNext, k\<lparr>k_tx := tx_status_frame (k_tx k) MSG_ACK PHASE_BUILDING
                       (k_inner_received k) 0 (credit_of remaining) (c_session_id c)\<rparr>)
             | (f, k) \<Rightarrow> (f, k)))"

lemma discard_tuples_shorter: "discard_tuples keytype n rx = Some rx' \<Longrightarrow> length rx' \<le> length rx"
  by (induction n arbitrary: rx) (force dest: rx_shorter simp: bind_eq_Some_conv)+

lemma build_inner_tuple_loop_shorter:
  "build_inner_tuple_loop keytype K n k = (f, k') \<Longrightarrow> length (k_rx k') \<le> length (k_rx k)"
  by (induction n arbitrary: k)
    (force dest: rx_shorter discard_tuples_shorter simp: Let_def split: option.splits if_splits)+

lemma build_inner_frame_shorter:
  "build_inner_frame c k = (GNext, k') \<Longrightarrow> length (k_rx k') < length (k_rx k)"
  by (force dest: rx_shorter build_inner_tuple_loop_shorter
      simp: build_inner_frame_def Let_def bind_eq_Some_conv
      split: option.splits if_splits prod.splits gflow.splits)

text \<open>The frame loop ends by itself or because the input does: every frame consumes input.\<close>

function build_inner_frame_loop :: "SessionConfig \<Rightarrow> u32 \<Rightarrow> KernelState \<Rightarrow> gflow \<times> KernelState" where
  "build_inner_frame_loop c frame k =
     (if \<not> frame \<le> c_inner_total c div 1 + 1 then (GRet ERR_NONE, k)
      else if k_inner_received k \<ge> c_inner_total c then (GRet ERR_NONE, k)
      else case build_inner_frame c k of
             (GNext, k) \<Rightarrow> build_inner_frame_loop c (frame + 1) k
           | (f, k) \<Rightarrow> (f, k))"
  by pat_completeness auto
termination
  by (relation "measure (\<lambda>(c, frame, k). length (k_rx k))") (auto dest: build_inner_frame_shorter [OF sym])

declare build_inner_frame_loop.simps [simp del]

definition reset_counts :: "(u32 \<Rightarrow> u32) \<Rightarrow> u32 \<Rightarrow> u32" where
  "reset_counts counts p = (if p < GRACE_MAX_K then 0 else counts p)"

definition build_inner_partitions :: "SessionConfig \<Rightarrow> KernelState \<Rightarrow> gflow \<times> KernelState" where
  "build_inner_partitions c k =
     build_inner_frame_loop c 0
       (k\<lparr>k_inner_counts := reset_counts (k_inner_counts k),
          k_outer_counts := reset_counts (k_outer_counts k), k_inner_received := 0\<rparr>)"

fun build_outer_tuple_loop ::
  "u8 \<Rightarrow> u32 \<Rightarrow> u32 \<Rightarrow> nat \<Rightarrow> KernelState \<Rightarrow> gflow \<times> KernelState" where
  "build_outer_tuple_loop keytype K slot_words 0 k = (GNext, k)"
| "build_outer_tuple_loop keytype K slot_words (Suc n) k =
     (case rx_tuple keytype (k_rx k) of
        None \<Rightarrow> (GBlocked, k)
      | Some (t, rx) \<Rightarrow>
          let p = partition_of (it_key t) K;
              max_per_slot = slot_words div GRACE_WORDS_PER_TUPLE
          in if k_outer_counts k p \<ge> max_per_slot then
               (case discard_tuples keytype n rx of
                  None \<Rightarrow> (GBlocked, k)
                | Some rx \<Rightarrow> (GRet ERR_OVERFLOW,
                    k\<lparr>k_rx := rx, k_tx := tx_error (k_tx k) ERR_OVERFLOW\<rparr>))
             else build_outer_tuple_loop keytype K slot_words n
               (k\<lparr>k_rx := rx,
                  k_ddr2_buf :=
                    pack_tuple (k_ddr2_buf k) (outer_slot_idx slot_words p (k_outer_counts k p)) t,
                  k_outer_counts := (k_outer_counts k)(p := k_outer_counts k p + 1),
                  k_outer_received := k_outer_received k + 1\<rparr>))"

definition build_outer_frame :: "SessionConfig \<Rightarrow> KernelState \<Rightarrow> gflow \<times> KernelState" where
  "build_outer_frame c k =
     (case do { (msg_type, rx) \<leftarrow> rx_byte (k_rx k); (cnt, rx) \<leftarrow> rx_u16 rx;
                Some (msg_type, cnt, rx) } of
        None \<Rightarrow> (GBlocked, k)
      | Some (msg_type, cnt, rx) \<Rightarrow>
          if msg_type = MSG_RESET then
            (GRet ERR_BAD_STATE,
             k\<lparr>k_rx := rx, k_tx := tx_status_frame (k_tx k) MSG_ACK PHASE_IDLE 0 0 0 (c_session_id c)\<rparr>)
          else if msg_type \<noteq> MSG_OUTER_DATA then
            (GRet ERR_BAD_STATE, k\<lparr>k_rx := rx, k_tx := tx_error (k_tx k) ERR_BAD_STATE\<rparr>)
          else
            (case build_outer_tuple_loop (c_keytype c) (c_K c) (c_outer_slot_w c) (unat cnt)
                    (k\<lparr>k_rx := rx\<rparr>) of
               (GNext, k) \<Rightarrow>
                 let remaining = c_outer_total c - k_outer_received k
                 in (GNext, k\<lparr>k_tx := tx_status_frame (k_tx k) MSG_ACK PHASE_PROBING
                       (k_outer_received k) 0 (credit_of remaining) (c_session_id c)\<rparr>)
             | (f, k) \<Rightarrow> (f, k)))"

lemma build_outer_tuple_loop_shorter:
  "build_outer_tuple_loop keytype K w n k = (f, k') \<Longrightarrow> length (k_rx k') \<le> length (k_rx k)"
  by (induction n arbitrary: k)
    (force dest: rx_shorter discard_tuples_shorter simp: Let_def split: option.splits if_splits)+

lemma build_outer_frame_shorter:
  "build_outer_frame c k = (GNext, k') \<Longrightarrow> length (k_rx k') < length (k_rx k)"
  by (force dest: rx_shorter build_outer_tuple_loop_shorter
      simp: build_outer_frame_def Let_def bind_eq_Some_conv
      split: option.splits if_splits prod.splits gflow.splits)

function build_outer_frame_loop :: "SessionConfig \<Rightarrow> u32 \<Rightarrow> KernelState \<Rightarrow> gflow \<times> KernelState" where
  "build_outer_frame_loop c frame k =
     (if \<not> frame \<le> c_outer_total c div 1 + 1 then (GRet ERR_NONE, k)
      else if k_outer_received k \<ge> c_outer_total c then (GRet ERR_NONE, k)
      else case build_outer_frame c k of
             (GNext, k) \<Rightarrow> build_outer_frame_loop c (frame + 1) k
           | (f, k) \<Rightarrow> (f, k))"
  by pat_completeness auto
termination
  by (relation "measure (\<lambda>(c, frame, k). length (k_rx k))") (auto dest: build_outer_frame_shorter [OF sym])

declare build_outer_frame_loop.simps [simp del]

definition build_outer_partitions :: "SessionConfig \<Rightarrow> KernelState \<Rightarrow> gflow \<times> KernelState" where
  "build_outer_partitions c k =
     build_outer_frame_loop c 0 (k\<lparr>k_outer_received := 0\<rparr>)"

section \<open>Phase 3: joining the partitions\<close>

text \<open>The rows of a slot, in the order of their indices.\<close>

definition slot_rows :: "(u32 \<Rightarrow> u64) \<Rightarrow> (u32 \<Rightarrow> u32) \<Rightarrow> u32 \<Rightarrow> InputTuple list" where
  "slot_rows buf idx n = map (\<lambda>i. unpack_tuple buf (idx (of_nat i))) [0..<unat n]"

text \<open>The loop that replays an inner partition is \<open>build_all\<close>; the probe loop emits a full result
  buffer as it goes. \<open>buf\<close> is the part of the result buffer in use.\<close>

fun join_probe_loop ::
  "LinearHashTable \<Rightarrow> InputTuple list \<Rightarrow> tx_stream \<Rightarrow> ResultPair list \<Rightarrow> u32
   \<Rightarrow> tx_stream \<times> ResultPair list \<times> u32" where
  "join_probe_loop ht [] tx buf matched = (tx, buf, matched)"
| "join_probe_loop ht (t # ts) tx buf matched =
     (case ht_lookup ht (it_key t) of
        None \<Rightarrow> join_probe_loop ht ts tx buf matched
      | Some i \<Rightarrow>
          let buf = buf @ [\<lparr>inner_tid = i, outer_tid = it_tid t\<rparr>];
              matched = matched + 1
          in if of_nat (length buf) = (ucast TX_BUF_SIZE :: u16)
             then join_probe_loop ht ts (tx_results tx buf) [] matched
             else join_probe_loop ht ts tx buf matched)"

definition join_partition :: "SessionConfig \<Rightarrow> u32 \<Rightarrow> KernelState \<Rightarrow> FpgaError \<times> KernelState" where
  "join_partition c p k =
     (let inner = slot_rows (k_ddr2_buf k) (inner_slot_idx p) (k_inner_counts k p);
          outer = slot_rows (k_ddr2_buf k) (outer_slot_idx (c_outer_slot_w c) p) (k_outer_counts k p)
      in case build_all ht_insert (ht_reset (k_ht k)) inner of
           (err, ht) \<Rightarrow>
             if err \<noteq> ERR_NONE then (err, k\<lparr>k_ht := ht, k_tx := tx_error (k_tx k) err\<rparr>)
             else case join_probe_loop ht outer (k_tx k) [] (k_matched k) of
                    (tx, buf, matched) \<Rightarrow>
                      (ERR_NONE, k\<lparr>k_ht := ht, k_matched := matched,
                         k_tx := (if length buf > 0 then tx_results tx buf else tx)\<rparr>))"

fun join_partition_loop :: "SessionConfig \<Rightarrow> u32 list \<Rightarrow> KernelState \<Rightarrow> FpgaError \<times> KernelState" where
  "join_partition_loop c [] k = (ERR_NONE, k)"
| "join_partition_loop c (p # ps) k =
     (case join_partition c p k of
        (e, k) \<Rightarrow> if e \<noteq> ERR_NONE then (e, k) else join_partition_loop c ps k)"

definition join_all_partitions :: "SessionConfig \<Rightarrow> KernelState \<Rightarrow> FpgaError \<times> KernelState" where
  "join_all_partitions c k =
     join_partition_loop c (map of_nat [0..<unat (c_K c)]) (k\<lparr>k_matched := 0\<rparr>)"

end
