(* ===== verification/Hash_Join_Kernel.thy ===== *)
theory Hash_Join_Kernel
  imports Grace_Engine
begin

text \<open>
  The kernel's session, \<^verbatim>\<open>src/src/hash_join_kernel.cpp\<close>. Each phase is a function from
  the kernel state to a \<open>flow\<close> and the new state; \<open>synth\<close> says whether \<open>__SYNTHESIS__\<close> is
  defined. The frame loops take the code's 32-bit \<open>frame\<close> counter; they end because every
  frame consumes input.
\<close>

section \<open>Timing\<close>

definition cycles_between :: "u64 \<Rightarrow> u64 \<Rightarrow> u64" where
  "cycles_between start finish = (if start \<noteq> 0 \<and> finish \<ge> start then finish - start else 0)"

definition apply_rtl_stream_timing :: "RtlTiming \<Rightarrow> TimingSummaryPayload \<Rightarrow> TimingSummaryPayload" where
  "apply_rtl_stream_timing r t =
     (let monitor_seen = (rtl_ts_config_first r \<noteq> 0 \<and> rtl_cycle_counter r \<ge> rtl_ts_config_first r);
          probe_done = (if rtl_ts_probe_ack_last r \<noteq> 0 then rtl_ts_probe_ack_last r
                        else rtl_cycle_counter r)
      in if \<not> monitor_seen then t
         else t\<lparr>t_flags := (if rtl_timing_valid r = 0
                             then TIMING_FLAG_RTL_STREAM_CYCLES OR TIMING_FLAG_ESTIMATED_CYCLES
                             else TIMING_FLAG_RTL_STREAM_CYCLES),
                t_clock_hz := (if rtl_timing_clock_hz r \<noteq> 0 then rtl_timing_clock_hz r
                               else TIMING_DEFAULT_CLOCK_HZ),
                t_inner_frames := rtl_inner_frames r,
                t_outer_frames := rtl_outer_frames r,
                t_result_frames := rtl_result_frames r,
                t_ack_frames := rtl_ack_frames r,
                t_debug_frames := rtl_debug_frames r,
                t_bytes_rx := rtl_bytes_rx r,
                t_bytes_tx := rtl_bytes_tx r,
                t_session_total_cycles := cycles_between (rtl_ts_config_first r) (rtl_cycle_counter r),
                t_config_cycles := cycles_between (rtl_ts_config_first r) (rtl_ts_config_ack r),
                t_build_rx_cycles := cycles_between (rtl_ts_build_first r) (rtl_ts_build_last r),
                t_build_compute_cycles := cycles_between (rtl_ts_build_last r) (rtl_ts_build_ack_last r),
                t_build_total_cycles := cycles_between (rtl_ts_build_first r) (rtl_ts_build_ack_last r),
                t_probe_rx_cycles := cycles_between (rtl_ts_probe_first r) (rtl_ts_probe_last r),
                t_probe_compute_cycles := cycles_between (rtl_ts_probe_last r) (rtl_ts_result_first r),
                t_result_emit_cycles := cycles_between (rtl_ts_result_first r) (rtl_ts_result_last r),
                t_probe_total_cycles := cycles_between (rtl_ts_probe_first r) probe_done\<rparr>)"

text \<open>The three updates that go with every ACK frame.\<close>

definition timing_ack :: "u32 \<Rightarrow> TimingSummaryPayload \<Rightarrow> TimingSummaryPayload" where
  "timing_ack frame_bytes t = t\<lparr>t_ack_frames := t_ack_frames t + 1,
     t_bytes_tx := t_bytes_tx t + frame_bytes, t_ack_emit_cycles := t_ack_emit_cycles t + 15\<rparr>"

text \<open>The totals of a finished session.\<close>

definition timing_totals :: "TimingSummaryPayload \<Rightarrow> TimingSummaryPayload" where
  "timing_totals t =
     (let build_total = t_build_rx_cycles t + t_build_compute_cycles t;
          probe_total = t_probe_rx_cycles t + t_probe_compute_cycles t + t_result_emit_cycles t
      in t\<lparr>t_build_total_cycles := build_total,
           t_probe_total_cycles := probe_total,
           t_hash_table_load_factor_ppm :=
             ucast (ucast (t_hash_build_inserts t) * 1000000 div (ucast HT_SLOTS :: u64)),
           t_session_total_cycles := t_config_cycles t + build_total + probe_total
             + t_ack_emit_cycles t + (3 + ucast TIMING_SUMMARY_BYTES)\<rparr>)"

section \<open>Result batches\<close>

definition flush_result_batch :: "KernelState \<Rightarrow> KernelState" where
  "flush_result_batch k =
     (let emitted = length (k_result_buf k) in
      if emitted = 0 then k
      else let result_frame_bytes = 3 + of_nat emitted * 12 :: u32; t = k_timing k in
        k\<lparr>k_tx := tx_results (k_tx k) (k_result_buf k),
          k_timing := t\<lparr>t_result_frames := t_result_frames t + 1,
            t_bytes_tx := t_bytes_tx t + result_frame_bytes,
            t_result_emit_cycles := t_result_emit_cycles t + ucast result_frame_bytes,
            t_max_result_frame_cycles :=
              (if result_frame_bytes > t_max_result_frame_cycles t then result_frame_bytes
               else t_max_result_frame_cycles t)\<rparr>,
          k_batch_cycles := k_batch_cycles k + ucast result_frame_bytes,
          k_result_buf := []\<rparr>)"

section \<open>Start of a session and CONFIGURE\<close>

definition session_init :: "bool \<Rightarrow> KernelState \<Rightarrow> KernelState" where
  "session_init synth k =
     k\<lparr>k_matched := 0, k_result_buf := [], k_session_done := False,
       k_timing := timing_zero\<lparr>t_version := TIMING_SUMMARY_VERSION,
         t_flags := TIMING_FLAG_ESTIMATED_CYCLES, t_clock_hz := TIMING_DEFAULT_CLOCK_HZ\<rparr>,
       k_status_reg := ucast (phase_byte PHASE_IDLE), k_error_code_reg := ucast (error_byte ERR_NONE),
       k_result_count_reg := 0,
       k_tx := emit_debug synth (k_tx k) DBG_INFO DBG_IDLE_ENTER 0\<rparr>"

definition default_config :: SessionConfig where
  "default_config = \<lparr>c_algorithm = ALGORITHM_A, c_keytype = KEY_INT32, c_inner_total = 0,
     c_outer_total = 0, c_K = 1, c_outer_slot_w = 0, c_session_id = 0\<rparr>"

text \<open>An error reply that ends the session.\<close>

definition fail_session :: "FpgaError \<Rightarrow> KernelState \<Rightarrow> KernelState" where
  "fail_session e k = k\<lparr>k_tx := tx_error (k_tx k) e, k_error_code_reg := ucast (error_byte e),
     k_session_done := True\<rparr>"

text \<open>The admission checks on the configured sizes: the error, if any, and the Grace layout
  \<open>K\<close> and \<open>outer_slot_w\<close>.\<close>

definition grace_layout :: "u32 \<Rightarrow> u32 \<Rightarrow> u32 \<times> u32" where
  "grace_layout inner_total outer_total =
     (let K = (inner_total + HT_MAX_ROWS - 1) div HT_MAX_ROWS;
          K = (if K = 0 then 1 else K)
      in (K, (outer_total div K + 1) * GRACE_WORDS_PER_TUPLE * 2))"

definition check_configure :: "u8 \<Rightarrow> u32 \<Rightarrow> u32 \<Rightarrow> FpgaError \<times> u32 \<times> u32" where
  "check_configure algorithm inner_total outer_total =
     (if algorithm = ALGORITHM_A then
        (if inner_total > HT_MAX_ROWS then (ERR_OVERFLOW, 1, 0) else (ERR_NONE, 1, 0))
      else if algorithm = ALGORITHM_B then
        (if inner_total > GRACE_MAX_INNER_ROWS then (ERR_OVERFLOW, 1, 0)
         else case grace_layout inner_total outer_total of (K, outer_slot_w) \<Rightarrow>
           (if (ucast GRACE_OUTER_AREA_BASE :: u64) + ucast K * ucast outer_slot_w
                 > ucast GRACE_DDR2_TOTAL_WORDS
            then ERR_OVERFLOW else ERR_NONE, K, outer_slot_w))
      else (ERR_INVALID_CMD, 1, 0))"

definition rx_configure :: "rx_stream \<Rightarrow> ((u8 \<times> u8 \<times> u32 \<times> u32 \<times> u8) \<times> rx_stream) option" where
  "rx_configure rx = do {
     (algorithm, rx) \<leftarrow> rx_byte rx;
     (keytype, rx) \<leftarrow> rx_byte rx;
     (rx_buf_hint, rx) \<leftarrow> rx_u16 rx;
     (inner_total, rx) \<leftarrow> rx_u32 rx;
     (outer_total, rx) \<leftarrow> rx_u32 rx;
     (session_id, rx) \<leftarrow> rx_byte rx;
     Some ((algorithm, keytype, inner_total, outer_total, session_id), rx) }"

text \<open>The body of the \<open>else\<close> branch that handles a well-formed CONFIGURE.\<close>

definition accept_configure ::
  "bool \<Rightarrow> u8 \<times> u8 \<times> u32 \<times> u32 \<times> u8 \<Rightarrow> KernelState \<Rightarrow> SessionConfig \<times> KernelState" where
  "accept_configure synth payload k =
     (case payload of (algorithm, keytype, inner_total, outer_total, session_id) \<Rightarrow>
      case check_configure algorithm inner_total outer_total of (e, K, outer_slot_w) \<Rightarrow>
      let c = \<lparr>c_algorithm = algorithm, c_keytype = keytype, c_inner_total = inner_total,
               c_outer_total = outer_total, c_K = K, c_outer_slot_w = outer_slot_w,
               c_session_id = session_id\<rparr>;
          t = k_timing k;
          t = t\<lparr>t_inner_rows := inner_total, t_outer_rows := outer_total,
                t_bytes_rx := t_bytes_rx t + 16, t_config_cycles := t_config_cycles t + 16\<rparr>;
          k = k\<lparr>k_timing := t, k_result_count_reg := outer_total,
                k_tx := emit_debug synth (k_tx k) DBG_INFO DBG_CONFIGURE inner_total\<rparr>
      in (c, if e \<noteq> ERR_NONE then fail_session e k
             else let t = timing_ack 15 (k_timing k) in
               k\<lparr>k_status_reg := ucast (phase_byte PHASE_BUILDING),
                 k_timing := t\<lparr>t_config_cycles := t_config_cycles t + 15\<rparr>,
                 k_tx := tx_status_frame (k_tx k) MSG_ACK PHASE_BUILDING 0 0
                           (ucast RX_CREDIT_TUPLES) session_id\<rparr>))"

definition configure_phase :: "bool \<Rightarrow> KernelState \<Rightarrow> flow \<times> SessionConfig \<times> KernelState" where
  "configure_phase synth k =
     (case rx_byte_guarded synth (k_rx k) (k_tx k) 0 of
        None \<Rightarrow> (Blocked, default_config, k)
      | Some (msg_type, rx, tx, True) \<Rightarrow>
          (Continue, default_config, k\<lparr>k_rx := rx, k_tx := tx, k_session_done := True\<rparr>)
      | Some (msg_type, rx, tx, False) \<Rightarrow>
          (case rx_u16 rx of
             None \<Rightarrow> (Blocked, default_config, k)
           | Some (cnt, rx) \<Rightarrow>
               let k = k\<lparr>k_rx := rx, k_tx := tx\<rparr> in
               if msg_type = MSG_RESET then
                 (Continue, default_config,
                  k\<lparr>k_tx := tx_status_frame (emit_debug synth (k_tx k) DBG_INFO DBG_RESET 0)
                      MSG_ACK PHASE_IDLE 0 0 (ucast RX_CREDIT_TUPLES) 0,
                    k_ht := ht_reset (k_ht k), k_session_done := True\<rparr>)
               else if msg_type \<noteq> MSG_CONFIGURE \<or> cnt \<noteq> 1 then
                 (Continue, default_config, fail_session ERR_INVALID_CMD k)
               else case rx_configure (k_rx k) of
                      None \<Rightarrow> (Blocked, default_config, k)
                    | Some (payload, rx) \<Rightarrow>
                        (Continue, accept_configure synth payload (k\<lparr>k_rx := rx\<rparr>))))"

section \<open>Algorithm B\<close>

text \<open>The outcome of a partitioning phase: an error ends the session.\<close>

definition grace_result :: "FpgaError \<Rightarrow> KernelState \<Rightarrow> KernelState" where
  "grace_result e k =
     (if e \<noteq> ERR_NONE
      then k\<lparr>k_error_code_reg := ucast (error_byte e), k_session_done := True\<rparr> else k)"

definition algorithm_b :: "SessionConfig \<Rightarrow> KernelState \<Rightarrow> flow \<times> KernelState" where
  "algorithm_b c k =
     (case build_inner_partitions c k of
        (GRet e, k) \<Rightarrow>
          let k = grace_result e k in
          if k_session_done k then (Continue, k)
          else (case build_outer_partitions c
                       (k\<lparr>k_status_reg := ucast (phase_byte PHASE_PROBING)\<rparr>) of
                  (GRet e, k) \<Rightarrow>
                    let k = grace_result e k in
                    if k_session_done k then (Continue, k)
                    else (case join_all_partitions c k of (e, k) \<Rightarrow> (Continue, grace_result e k))
                | (_, k) \<Rightarrow> (Blocked, k))
      | (_, k) \<Rightarrow> (Blocked, k))"

section \<open>Algorithm A: build phase\<close>

text \<open>Reading a batch into \<open>rx_key_buf\<close> and \<open>rx_tid_buf\<close>; \<open>i\<close> is the index written next, \<open>n\<close>
  the number of tuples to come. The key is stored before the TID is read.\<close>

datatype 'a rx_result = RxOk 'a rx_stream | RxBlocked | RxOverrun

definition rx_key :: "u8 \<Rightarrow> rx_stream \<Rightarrow> (u64 \<times> rx_stream) option" where
  "rx_key keytype rx =
     (if keytype = KEY_INT64 then rx_i64 rx else map_option (\<lambda>(v, rx). (scast v, rx)) (rx_u32 rx))"

fun rx_batch :: "u8 \<Rightarrow> nat \<Rightarrow> nat \<Rightarrow> rx_stream \<Rightarrow> InputTuple list rx_result" where
  "rx_batch keytype i 0 rx = RxOk [] rx"
| "rx_batch keytype i (Suc n) rx =
     (case rx_key keytype rx of
        None \<Rightarrow> RxBlocked
      | Some (key, rx) \<Rightarrow>
          if i \<ge> unat RX_BUF_TUPLES then RxOverrun
          else case rx_tid rx of
                 None \<Rightarrow> RxBlocked
               | Some (tid, rx) \<Rightarrow>
                   (case rx_batch keytype (Suc i) n rx of
                      RxOk ts rx \<Rightarrow> RxOk (\<lparr>it_key = key, it_tid = tid\<rparr> # ts) rx
                    | RxBlocked \<Rightarrow> RxBlocked
                    | RxOverrun \<Rightarrow> RxOverrun))"

definition batch_bytes :: "u8 \<Rightarrow> u16 \<Rightarrow> u64" where
  "batch_bytes keytype cnt = 3 + ucast cnt * (if keytype = KEY_INT64 then 14 else 10)"

definition inner_row :: "InputTuple \<Rightarrow> KernelState \<Rightarrow> KernelState" where
  "inner_row tu k =
     (case ht_build (k_ht k) (it_key tu) (it_tid tu) of (err, hash_steps, ht) \<Rightarrow>
      let hash_cycles = ucast hash_steps * 2;
          t = k_timing k;
          t = t\<lparr>t_build_compute_cycles := t_build_compute_cycles t + hash_cycles\<rparr>;
          t = (if hash_steps > 0 then
                 t\<lparr>t_hash_build_collision_steps := t_hash_build_collision_steps t + (hash_steps - 1),
                   t_hash_max_build_probe_distance :=
                     (if hash_steps > ucast (t_hash_max_build_probe_distance t) then ucast hash_steps
                      else t_hash_max_build_probe_distance t)\<rparr>
               else t);
          k = k\<lparr>k_ht := ht, k_batch_cycles := k_batch_cycles k + hash_cycles\<rparr>
      in if err \<noteq> ERR_NONE then
           fail_session err (k\<lparr>k_timing := t\<lparr>t_hash_overflow_errors := t_hash_overflow_errors t + 1\<rparr>\<rparr>)
         else k\<lparr>k_timing := t\<lparr>t_hash_build_inserts := t_hash_build_inserts t + 1\<rparr>,
                k_inner_received := k_inner_received k + 1\<rparr>)"

fun inner_batch :: "InputTuple list \<Rightarrow> KernelState \<Rightarrow> KernelState" where
  "inner_batch [] k = k"
| "inner_batch (tu # ts) k = (if k_session_done k then k else inner_batch ts (inner_row tu k))"

definition build_ack :: "SessionConfig \<Rightarrow> KernelState \<Rightarrow> KernelState" where
  "build_ack c k =
     (let pending = k_ack_pending k + 1;
          remaining_inner = c_inner_total c - k_inner_received k;
          emit_ack = (pending \<ge> ACK_BATCH_FRAMES \<or> k_inner_received k \<ge> c_inner_total c);
          k = (if emit_ack then
                 k\<lparr>k_timing := timing_ack 15 (k_timing k), k_batch_cycles := k_batch_cycles k + 15,
                   k_tx := tx_status_frame (k_tx k) MSG_ACK PHASE_BUILDING (k_inner_received k) 0
                             (credit_of remaining_inner) (c_session_id c),
                   k_ack_pending := 0\<rparr>
               else k\<lparr>k_ack_pending := pending\<rparr>);
          t = k_timing k
      in k\<lparr>k_timing := t\<lparr>t_max_build_batch_cycles :=
             (if k_batch_cycles k > ucast (t_max_build_batch_cycles t) then ucast (k_batch_cycles k)
              else t_max_build_batch_cycles t)\<rparr>\<rparr>)"

definition build_batch :: "bool \<Rightarrow> SessionConfig \<Rightarrow> u16 \<Rightarrow> InputTuple list \<Rightarrow> KernelState \<Rightarrow> KernelState" where
  "build_batch synth c cnt ts k =
     (let k = (if cnt \<noteq> 0 then
                 k\<lparr>k_tx := emit_debug synth (k_tx k) DBG_INFO DBG_BUILD_KEY (ucast (it_key (hd ts)))\<rparr>
               else k);
          k = inner_batch ts k
      in if k_session_done k then k else build_ack c k)"

text \<open>After the header of a frame: the accounting, the dispatch on the message type, the batch.\<close>

definition count_inner_frame :: "SessionConfig \<Rightarrow> u16 \<Rightarrow> KernelState \<Rightarrow> KernelState" where
  "count_inner_frame c cnt k =
     (let cycles = batch_bytes (c_keytype c) cnt; t = k_timing k
      in k\<lparr>k_batch_cycles := cycles,
           k_timing := t\<lparr>t_inner_frames := t_inner_frames t + 1,
             t_bytes_rx := t_bytes_rx t + ucast cycles,
             t_build_rx_cycles := t_build_rx_cycles t + cycles\<rparr>\<rparr>)"

definition build_dispatch ::
  "bool \<Rightarrow> SessionConfig \<Rightarrow> u8 \<Rightarrow> u16 \<Rightarrow> KernelState \<Rightarrow> flow \<times> KernelState" where
  "build_dispatch synth c msg_type cnt k =
     (let k = count_inner_frame c cnt k
      in if msg_type = MSG_RESET then
              (Break, k\<lparr>k_ht := ht_reset (k_ht k),
                 k_status_reg := ucast (phase_byte PHASE_IDLE),
                 k_tx := tx_status_frame (k_tx k) MSG_ACK PHASE_IDLE 0 0 0 (c_session_id c),
                 k_session_done := True\<rparr>)
         else if msg_type \<noteq> MSG_INNER_DATA then (Break, fail_session ERR_BAD_STATE k)
         else case rx_batch (c_keytype c) 0 (unat cnt) (k_rx k) of
                RxBlocked \<Rightarrow> (Blocked, k)
              | RxOverrun \<Rightarrow> (Overrun, k)
              | RxOk ts rx \<Rightarrow> (Continue, build_batch synth c cnt ts (k\<lparr>k_rx := rx\<rparr>)))"

definition build_frame :: "bool \<Rightarrow> SessionConfig \<Rightarrow> KernelState \<Rightarrow> flow \<times> KernelState" where
  "build_frame synth c k =
     (case rx_byte_guarded synth (k_rx k) (k_tx k) (c_session_id c) of
        None \<Rightarrow> (Blocked, k)
      | Some (msg_type, rx, tx, True) \<Rightarrow>
          (Break, k\<lparr>k_rx := rx, k_tx := tx, k_session_done := True\<rparr>)
      | Some (msg_type, rx, tx, False) \<Rightarrow>
          (case rx_u16 rx of
             None \<Rightarrow> (Blocked, k)
           | Some (cnt, rx) \<Rightarrow>
               build_dispatch synth c msg_type cnt (k\<lparr>k_rx := rx, k_tx := tx\<rparr>)))"

lemma rx_key_shorter: "rx_key keytype s = Some (key, s') \<Longrightarrow> length s' < length s"
  by (auto simp: rx_key_def split: if_splits dest!: rx_shorter)

lemma rx_batch_shorter: "rx_batch keytype i n s = RxOk ts s' \<Longrightarrow> length s' \<le> length s"
  by (induction n arbitrary: i s ts)
    (fastforce split: option.splits if_splits rx_result.splits dest: rx_key_shorter rx_tid_shorter)+

lemma k_rx_fail_session [simp]: "k_rx (fail_session e k) = k_rx k"
  by (simp add: fail_session_def)

lemma k_rx_inner_row [simp]: "k_rx (inner_row tu k) = k_rx k"
  by (simp add: inner_row_def Let_def split: prod.split)

lemma k_rx_inner_batch [simp]: "k_rx (inner_batch ts k) = k_rx k"
  by (induction ts k rule: inner_batch.induct) simp_all

lemma k_rx_build_batch [simp]: "k_rx (build_batch synth c cnt ts k) = k_rx k"
  by (simp add: build_batch_def build_ack_def Let_def)

lemma build_frame_shorter:
  "build_frame synth c k = (f, k') \<Longrightarrow> f = Continue \<or> f = Break \<Longrightarrow> length (k_rx k') < length (k_rx k)"
  by (auto simp: build_frame_def build_dispatch_def count_inner_frame_def Let_def split: option.splits if_splits rx_result.splits bool.splits
      dest!: rx_byte_guarded_shorter rx_u16_shorter rx_batch_shorter)

function build_frame_loop :: "bool \<Rightarrow> SessionConfig \<Rightarrow> u32 \<Rightarrow> KernelState \<Rightarrow> flow \<times> KernelState" where
  "build_frame_loop synth c frame k =
     (if k_session_done k \<or> \<not> frame \<le> HT_MAX_ROWS + 1 then (Continue, k)
      else if k_inner_received k \<ge> c_inner_total c then (Continue, k)
      else case build_frame synth c k of
             (Continue, k) \<Rightarrow> build_frame_loop synth c (frame + 1) k
           | (Break, k) \<Rightarrow> (Continue, k)
           | (f, k) \<Rightarrow> (f, k))"
  by pat_completeness auto
termination
  by (relation "measure (\<lambda>(synth, c, frame, k). length (k_rx k))")
    (auto dest: build_frame_shorter [OF sym])

declare build_frame_loop.simps [simp del]

section \<open>Algorithm A: probe phase\<close>

text \<open>One probe; \<open>i\<close> is the index in the batch.\<close>

definition outer_row :: "bool \<Rightarrow> nat \<Rightarrow> InputTuple \<Rightarrow> KernelState \<Rightarrow> KernelState" where
  "outer_row synth i tu k =
     (case ht_probe (k_ht k) (it_key tu) of (found, hash_steps) \<Rightarrow>
      let hash_cycles = ucast hash_steps * 2;
          t = k_timing k;
          t = t\<lparr>t_probe_compute_cycles := t_probe_compute_cycles t + hash_cycles,
                t_hash_probe_lookups := t_hash_probe_lookups t + 1\<rparr>;
          t = (if hash_steps > 0 then
                 t\<lparr>t_hash_probe_collision_steps := t_hash_probe_collision_steps t + (hash_steps - 1),
                   t_hash_max_probe_distance :=
                     (if hash_steps > ucast (t_hash_max_probe_distance t) then ucast hash_steps
                      else t_hash_max_probe_distance t)\<rparr>
               else t);
          k = k\<lparr>k_batch_cycles := k_batch_cycles k + hash_cycles\<rparr>;
          k = (if i = 0 then
                 k\<lparr>k_tx := emit_debug synth (k_tx k) DBG_INFO DBG_PROBE_HIT
                     ((if found \<noteq> None then 0x80000000 else 0) OR (ucast (it_key tu) AND 0x7fffffff))\<rparr>
               else k);
          k = (case found of
                 Some inner \<Rightarrow>
                   let k = k\<lparr>k_result_buf := k_result_buf k @ [\<lparr>inner_tid = inner, outer_tid = it_tid tu\<rparr>],
                             k_matched := k_matched k + 1,
                             k_timing := t\<lparr>t_hash_probe_hits := t_hash_probe_hits t + 1\<rparr>\<rparr>
                   in if length (k_result_buf k) \<ge> unat RESULT_FLUSH_PAIRS then flush_result_batch k else k
               | None \<Rightarrow> k\<lparr>k_timing := t\<lparr>t_hash_probe_misses := t_hash_probe_misses t + 1\<rparr>\<rparr>)
      in k\<lparr>k_outer_received := k_outer_received k + 1\<rparr>)"

fun outer_batch :: "bool \<Rightarrow> nat \<Rightarrow> InputTuple list \<Rightarrow> KernelState \<Rightarrow> KernelState" where
  "outer_batch synth i [] k = k"
| "outer_batch synth i (tu # ts) k = outer_batch synth (Suc i) ts (outer_row synth i tu k)"

definition max_probe_batch :: "KernelState \<Rightarrow> TimingSummaryPayload \<Rightarrow> TimingSummaryPayload" where
  "max_probe_batch k t = t\<lparr>t_max_probe_batch_cycles :=
     (if k_batch_cycles k > ucast (t_max_probe_batch_cycles t) then ucast (k_batch_cycles k)
      else t_max_probe_batch_cycles t)\<rparr>"

text \<open>The end of the probe phase: the last results are out, the timing summary and DONE follow.\<close>

definition probe_end :: "RtlTiming \<Rightarrow> SessionConfig \<Rightarrow> KernelState \<Rightarrow> KernelState" where
  "probe_end rtl c k =
     (let k = k\<lparr>k_status_reg := ucast (phase_byte PHASE_DONE), k_result_count_reg := k_matched k,
                k_error_code_reg := ucast (error_byte ERR_NONE),
                k_batch_cycles := k_batch_cycles k + (15 + 3 + ucast TIMING_SUMMARY_BYTES)\<rparr>;
          t = (k_timing k)\<lparr>t_inner_rows := k_inner_received k, t_outer_rows := k_outer_received k,
                t_matched_rows := k_matched k\<rparr>;
          t = max_probe_batch k (timing_ack (15 + 3 + ucast TIMING_SUMMARY_BYTES) t);
          t = apply_rtl_stream_timing rtl (timing_totals t)
      in k\<lparr>k_timing := t,
           k_tx := tx_status_frame (tx_timing_summary (k_tx k) t) MSG_STATUS PHASE_DONE
                     (k_outer_received k) (k_matched k) 0 (c_session_id c),
           k_session_done := True\<rparr>)"

definition probe_ack :: "SessionConfig \<Rightarrow> u16 \<Rightarrow> KernelState \<Rightarrow> KernelState" where
  "probe_ack c credit k =
     (let k = (if k_ack_pending k \<ge> ACK_BATCH_FRAMES then
                 k\<lparr>k_timing := timing_ack 15 (k_timing k), k_batch_cycles := k_batch_cycles k + 15,
                   k_tx := tx_status_frame (k_tx k) MSG_ACK PHASE_PROBING (k_outer_received k)
                             (k_matched k) credit (c_session_id c),
                   k_ack_pending := 0\<rparr>
               else k)
      in k\<lparr>k_timing := max_probe_batch k (k_timing k)\<rparr>)"

definition probe_close :: "RtlTiming \<Rightarrow> SessionConfig \<Rightarrow> u16 \<Rightarrow> KernelState \<Rightarrow> KernelState" where
  "probe_close rtl c cnt k =
     (let explicit_probe_end = (cnt = 0);
          probe_done = (explicit_probe_end \<or> k_outer_received k \<ge> c_outer_total c);
          k = (if probe_done then flush_result_batch k else k);
          k = k\<lparr>k_ack_pending := k_ack_pending k + 1\<rparr>;
          credit = (if probe_done then 0 else credit_of (c_outer_total c - k_outer_received k))
      in if probe_done then probe_end rtl c k else probe_ack c credit k)"

definition probe_batch ::
  "bool \<Rightarrow> RtlTiming \<Rightarrow> SessionConfig \<Rightarrow> u16 \<Rightarrow> InputTuple list \<Rightarrow> KernelState \<Rightarrow> KernelState" where
  "probe_batch synth rtl c cnt ts k =
     (let k = (if cnt \<noteq> 0 then
                 k\<lparr>k_tx := emit_debug synth (k_tx k) DBG_INFO DBG_PROBE_KEY (ucast (it_key (hd ts)))\<rparr>
               else k);
          remaining_before_batch =
            (if c_outer_total c > k_outer_received k then c_outer_total c - k_outer_received k else 0);
          process_count = (if remaining_before_batch < ucast cnt then ucast remaining_before_batch
                           else cnt)
      in probe_close rtl c cnt (outer_batch synth 0 (take (unat process_count) ts) k))"

text \<open>After the header of a frame: the accounting, the dispatch on the message type, the batch.\<close>

definition count_outer_frame :: "SessionConfig \<Rightarrow> u16 \<Rightarrow> KernelState \<Rightarrow> KernelState" where
  "count_outer_frame c cnt k =
     (let cycles = batch_bytes (c_keytype c) cnt; t = k_timing k
      in k\<lparr>k_batch_cycles := cycles,
           k_timing := t\<lparr>t_outer_frames := t_outer_frames t + 1,
             t_bytes_rx := t_bytes_rx t + ucast cycles,
             t_probe_rx_cycles := t_probe_rx_cycles t + cycles\<rparr>\<rparr>)"

definition probe_dispatch ::
  "bool \<Rightarrow> RtlTiming \<Rightarrow> SessionConfig \<Rightarrow> u8 \<Rightarrow> u16 \<Rightarrow> KernelState \<Rightarrow> flow \<times> KernelState" where
  "probe_dispatch synth rtl c msg_type cnt k =
     (let k = count_outer_frame c cnt k
      in if msg_type = MSG_RESET then
              let k = flush_result_batch k in
              (Break, k\<lparr>k_ht := ht_reset (k_ht k),
                 k_status_reg := ucast (phase_byte PHASE_IDLE),
                 k_tx := tx_status_frame (k_tx k) MSG_ACK PHASE_IDLE (k_outer_received k)
                           (k_matched k) 0 (c_session_id c),
                 k_session_done := True\<rparr>)
         else if msg_type \<noteq> MSG_OUTER_DATA then (Break, fail_session ERR_INVALID_CMD k)
         else case rx_batch (c_keytype c) 0 (unat cnt) (k_rx k) of
                RxBlocked \<Rightarrow> (Blocked, k)
              | RxOverrun \<Rightarrow> (Overrun, k)
              | RxOk ts rx \<Rightarrow> (Continue, probe_batch synth rtl c cnt ts (k\<lparr>k_rx := rx\<rparr>)))"

definition probe_frame :: "bool \<Rightarrow> RtlTiming \<Rightarrow> SessionConfig \<Rightarrow> KernelState \<Rightarrow> flow \<times> KernelState" where
  "probe_frame synth rtl c k =
     (case rx_byte_guarded synth (k_rx k) (k_tx k) (c_session_id c) of
        None \<Rightarrow> (Blocked, k)
      | Some (msg_type, rx, tx, True) \<Rightarrow>
          (Break, k\<lparr>k_rx := rx, k_tx := tx, k_session_done := True\<rparr>)
      | Some (msg_type, rx, tx, False) \<Rightarrow>
          (case rx_u16 rx of
             None \<Rightarrow> (Blocked, k)
           | Some (cnt, rx) \<Rightarrow>
               probe_dispatch synth rtl c msg_type cnt (k\<lparr>k_rx := rx, k_tx := tx\<rparr>)))"

lemma k_rx_flush_result_batch [simp]: "k_rx (flush_result_batch k) = k_rx k"
  by (simp add: flush_result_batch_def Let_def)

lemma k_rx_outer_row [simp]: "k_rx (outer_row synth i tu k) = k_rx k"
  by (simp add: outer_row_def Let_def split: prod.split option.split)

lemma k_rx_outer_batch [simp]: "k_rx (outer_batch synth i ts k) = k_rx k"
  by (induction synth i ts k rule: outer_batch.induct) simp_all

lemma k_rx_probe_batch [simp]: "k_rx (probe_batch synth rtl c cnt ts k) = k_rx k"
  by (simp add: probe_batch_def probe_close_def probe_end_def probe_ack_def Let_def)

lemma probe_frame_shorter:
  "probe_frame synth rtl c k = (f, k') \<Longrightarrow> f = Continue \<or> f = Break \<Longrightarrow>
     length (k_rx k') < length (k_rx k)"
  by (auto simp: probe_frame_def probe_dispatch_def count_outer_frame_def Let_def split: option.splits if_splits rx_result.splits bool.splits
      dest!: rx_byte_guarded_shorter rx_u16_shorter rx_batch_shorter)

function probe_frame_loop ::
  "bool \<Rightarrow> RtlTiming \<Rightarrow> SessionConfig \<Rightarrow> u32 \<Rightarrow> KernelState \<Rightarrow> flow \<times> KernelState" where
  "probe_frame_loop synth rtl c frame k =
     (if k_session_done k \<or> \<not> frame < 1000000 then (Continue, k)
      else if k_outer_received k \<ge> c_outer_total c then (Continue, k)
      else case probe_frame synth rtl c k of
             (Continue, k) \<Rightarrow> probe_frame_loop synth rtl c (frame + 1) k
           | (Break, k) \<Rightarrow> (Continue, k)
           | (f, k) \<Rightarrow> (f, k))"
  by pat_completeness auto
termination
  by (relation "measure (\<lambda>(synth, rtl, c, frame, k). length (k_rx k))")
    (auto dest: probe_frame_shorter [OF sym])

declare probe_frame_loop.simps [simp del]

section \<open>A session and the kernel\<close>

definition algorithm_a :: "bool \<Rightarrow> RtlTiming \<Rightarrow> SessionConfig \<Rightarrow> KernelState \<Rightarrow> flow \<times> KernelState" where
  "algorithm_a synth rtl c k =
     (case build_frame_loop synth c 0
             (k\<lparr>k_ht := ht_reset (k_ht k), k_inner_received := 0, k_ack_pending := 0\<rparr>) of
        (Continue, k) \<Rightarrow>
          if k_session_done k then (Continue, k)
          else probe_frame_loop synth rtl c 0
                 (k\<lparr>k_tx := emit_debug synth (k_tx k) DBG_INFO DBG_BUILD_DONE (k_inner_received k),
                    k_status_reg := ucast (phase_byte PHASE_PROBING), k_outer_received := 0,
                    k_ack_pending := 0\<rparr>)
      | (f, k) \<Rightarrow> (f, k))"

definition finish_session :: "bool \<Rightarrow> RtlTiming \<Rightarrow> SessionConfig \<Rightarrow> KernelState \<Rightarrow> KernelState" where
  "finish_session synth rtl c k =
     (let k = k\<lparr>k_tx := emit_debug synth (k_tx k) DBG_INFO DBG_PROBE_DONE (k_matched k),
                k_status_reg := ucast (phase_byte PHASE_DONE), k_result_count_reg := k_matched k,
                k_error_code_reg := ucast (error_byte ERR_NONE)\<rparr>;
          k = (if c_algorithm c = ALGORITHM_A then
                 let t = (k_timing k)\<lparr>t_matched_rows := k_matched k\<rparr>;
                     t = timing_totals (timing_ack (15 + 3 + ucast TIMING_SUMMARY_BYTES) t);
                     t = apply_rtl_stream_timing rtl t
                 in k\<lparr>k_timing := t, k_tx := tx_timing_summary (k_tx k) t\<rparr>
               else k)
      in k\<lparr>k_tx := tx_status_frame (k_tx k) MSG_STATUS PHASE_DONE 0 (k_matched k) 0 (c_session_id c)\<rparr>)"

definition kernel_session :: "bool \<Rightarrow> RtlTiming \<Rightarrow> KernelState \<Rightarrow> flow \<times> KernelState" where
  "kernel_session synth rtl k =
     (case configure_phase synth (session_init synth k) of
        (Continue, c, k) \<Rightarrow>
          (case if k_session_done k then (Continue, k)
                else if c_algorithm c = ALGORITHM_B then algorithm_b c k
                else if c_algorithm c = ALGORITHM_A then algorithm_a synth rtl c k
                else (Continue, k) of
             (Continue, k) \<Rightarrow> (Continue, if k_session_done k then k else finish_session synth rtl c k)
           | (f, k) \<Rightarrow> (f, k))
      | (f, c, k) \<Rightarrow> (f, k))"

text \<open>The capability registers are written once, then sessions follow one another: a single one
  in C simulation, one after another on hardware until the kernel waits for input that does not
  come. \<open>rtl n\<close> is what the timing monitor shows in the \<open>n\<close>-th session.\<close>

definition kernel_start :: "KernelState \<Rightarrow> KernelState" where
  "kernel_start k = k\<lparr>k_ht_capacity_reg := HT_MAX_ROWS, k_rx_buf_cap_reg := RX_CREDIT_TUPLES\<rparr>"

end
