(* ===== verification/Linear_Session.thy ===== *)
theory Linear_Session
  imports Hash_Join_Kernel
begin

text \<open>
  A session of algorithm A (\<^verbatim>\<open>src/src/hash_join_kernel.cpp\<close>) on the frames the host sends:
  the messages it answers with, phase by phase, and the join they carry.
\<close>

section \<open>Reading batches\<close>

lemma rx_tuple_key_tid:
  "rx_tuple kt s = do { (k, s) \<leftarrow> rx_key kt s; (t, s) \<leftarrow> rx_tid s; Some (\<lparr>it_key = k, it_tid = t\<rparr>, s) }"
  by (auto simp: rx_tuple_def rx_key_def map_option_case split: option.split)

lemma rx_batch_bytes [rx_simps]:
  assumes "list_all (\<lambda>t. key_fits kt (it_key t)) ts" "i + length ts \<le> 256"
  shows "rx_batch kt i (length ts) (map Some (concat (map (tuple_bytes kt) ts)) @ s) = RxOk ts s"
  using assms
proof (induction ts arbitrary: i)
  case (Cons t ts)
  let ?s = "map Some (concat (map (tuple_bytes kt) ts)) @ s"
  have "rx_tuple kt (map Some (tuple_bytes kt t) @ ?s) = Some (t, ?s)"
    using Cons.prems(1) by (intro rx_tuple_bytes) simp
  with Cons show ?case
    by (auto simp: rx_tuple_key_tid bind_eq_Some_conv)
qed simp

lemma rx_batch_overrun:
  assumes "list_all (\<lambda>t. key_fits kt (it_key t)) ts" "i \<le> 256" "i + length ts > 256"
  shows "rx_batch kt i (length ts) (map Some (concat (map (tuple_bytes kt) ts)) @ s) = RxOverrun"
  using assms
proof (induction ts arbitrary: i)
  case (Cons t ts)
  let ?s = "map Some (concat (map (tuple_bytes kt) ts)) @ s"
  have "rx_tuple kt (map Some (tuple_bytes kt t) @ ?s) = Some (t, ?s)"
    using Cons.prems(1) by (intro rx_tuple_bytes) simp
  with Cons show ?case
    by (cases "i = 256") (auto simp: rx_tuple_key_tid bind_eq_Some_conv)
qed simp

section \<open>What the phases do to the state\<close>

lemma ht_insert_build: "ht_insert h key t = (fst (ht_build h key t), snd (snd (ht_build h key t)))"
  by (simp add: ht_insert_def split: prod.split)

lemma inner_row_fields [simp]:
  "k_ht (inner_row tu k) = snd (ht_insert (k_ht k) (it_key tu) (it_tid tu))"
  "k_session_done (inner_row tu k)
     \<longleftrightarrow> k_session_done k \<or> fst (ht_insert (k_ht k) (it_key tu) (it_tid tu)) \<noteq> ERR_NONE"
  "k_result_buf (inner_row tu k) = k_result_buf k" "k_matched (inner_row tu k) = k_matched k"
  "k_ack_pending (inner_row tu k) = k_ack_pending k"
  "k_status_reg (inner_row tu k) = k_status_reg k"
  "k_ht_capacity_reg (inner_row tu k) = k_ht_capacity_reg k"
  "k_rx_buf_cap_reg (inner_row tu k) = k_rx_buf_cap_reg k"
  "k_outer_received (inner_row tu k) = k_outer_received k"
  by (simp_all add: inner_row_def fail_session_def ht_insert_build Let_def split: prod.split)

lemma inner_row_result:
  "k_inner_received (inner_row tu k) =
     (if fst (ht_insert (k_ht k) (it_key tu) (it_tid tu)) = ERR_NONE then k_inner_received k + 1
      else k_inner_received k)"
  "k_error_code_reg (inner_row tu k) =
     (if fst (ht_insert (k_ht k) (it_key tu) (it_tid tu)) = ERR_NONE then k_error_code_reg k
      else ucast (error_byte (fst (ht_insert (k_ht k) (it_key tu) (it_tid tu)))))"
  "k_tx (inner_row tu k) =
     (if fst (ht_insert (k_ht k) (it_key tu) (it_tid tu)) = ERR_NONE then k_tx k
      else k_tx k @ tx_of [KError (fst (ht_insert (k_ht k) (it_key tu) (it_tid tu)))])"
  by (simp_all add: inner_row_def fail_session_def ht_insert_build Let_def tx_messages split: prod.split)

lemma inner_batch_fields [simp]:
  "k_result_buf (inner_batch ts k) = k_result_buf k" "k_matched (inner_batch ts k) = k_matched k"
  "k_ack_pending (inner_batch ts k) = k_ack_pending k"
  "k_status_reg (inner_batch ts k) = k_status_reg k"
  "k_ht_capacity_reg (inner_batch ts k) = k_ht_capacity_reg k"
  "k_rx_buf_cap_reg (inner_batch ts k) = k_rx_buf_cap_reg k"
  "k_outer_received (inner_batch ts k) = k_outer_received k"
  by (induction ts k rule: inner_batch.induct) simp_all

lemma inner_batch_done: "k_session_done k \<Longrightarrow> inner_batch ts k = k"
  by (cases ts) simp_all

lemma inner_batch_build_all:
  assumes "\<not> k_session_done k" "build_all ht_insert (k_ht k) ts = (e, h)"
  shows "k_ht (inner_batch ts k) = h \<and> (k_session_done (inner_batch ts k) \<longleftrightarrow> e \<noteq> ERR_NONE) \<and>
    (if e = ERR_NONE
     then k_tx (inner_batch ts k) = k_tx k \<and> k_error_code_reg (inner_batch ts k) = k_error_code_reg k \<and>
          k_inner_received (inner_batch ts k) = k_inner_received k + of_nat (length ts)
     else k_tx (inner_batch ts k) = k_tx k @ tx_of [KError e] \<and>
          k_error_code_reg (inner_batch ts k) = ucast (error_byte e))"
  using assms
proof (induction ts arbitrary: k)
  case (Cons t ts)
  obtain e1 h1 where ins: "ht_insert (k_ht k) (it_key t) (it_tid t) = (e1, h1)" by fastforce
  show ?case
  proof (cases "e1 = ERR_NONE")
    case True
    with Cons.IH [of "inner_row t k"] Cons.prems ins show ?thesis
      by (auto simp: inner_row_result algebra_simps)
  next
    case False
    with Cons.prems ins show ?thesis
      by (auto simp: inner_row_result inner_batch_done)
  qed
qed simp

section \<open>The messages of a session\<close>

text \<open>The frames of a phase as the host serialises them, and what makes them admissible: none is
  empty or longer than the receive buffer, and every key fits the configured width.\<close>

definition host_frames :: "u8 \<Rightarrow> u8 \<Rightarrow> InputTuple list list \<Rightarrow> u8 list" where
  "host_frames kt msg fs = concat (map (\<lambda>f. serialize_batch kt msg f (length f)) fs)"

definition frames_ok :: "u8 \<Rightarrow> InputTuple list list \<Rightarrow> bool" where
  "frames_ok kt fs \<longleftrightarrow>
     list_all (\<lambda>f. f \<noteq> [] \<and> length f \<le> 256 \<and> list_all (\<lambda>t. key_fits kt (it_key t)) f) fs"

text \<open>The build phase: an ACK after every second frame and after the last one.\<close>

fun build_msgs :: "bool \<Rightarrow> SessionConfig \<Rightarrow> u16 \<Rightarrow> u32 \<Rightarrow> InputTuple list list \<Rightarrow> KernelMsg list" where
  "build_msgs synth c pending received [] = []"
| "build_msgs synth c pending received (f # fs) =
     (let r = received + of_nat (length f)
      in debug_msgs synth DBG_INFO DBG_BUILD_KEY (ucast (it_key (hd f))) @
         (if pending + 1 \<ge> ACK_BATCH_FRAMES \<or> r \<ge> c_inner_total c
          then KStatus MSG_ACK PHASE_BUILDING r 0 (credit_of (c_inner_total c - r)) (c_session_id c)
                 # build_msgs synth c 0 r fs
          else build_msgs synth c (pending + 1) r fs))"

lemma host_frames_Cons: "host_frames kt msg (f # fs) = serialize_batch kt msg f (length f) @ host_frames kt msg fs"
  by (simp add: host_frames_def)

lemma unat_of_nat_le256 [simp]: "n \<le> 256 \<Longrightarrow> unat (of_nat n :: u16) = n"
  by (simp add: unsigned_of_nat take_bit_nat_eq_self_iff)

lemma of_nat_le256_zero [simp]: "n \<le> 256 \<Longrightarrow> (of_nat n :: u16) = 0 \<longleftrightarrow> n = 0"
  using unat_of_nat_le256 [of n] by (metis unat_eq_zero)

definition build_start :: "SessionConfig \<Rightarrow> InputTuple list \<Rightarrow> rx_stream \<Rightarrow> KernelState \<Rightarrow> KernelState" where
  "build_start c f rest k = (count_inner_frame c (of_nat (length f)) k)\<lparr>k_rx := rest\<rparr>"

lemma build_frame_inner:
  assumes "f \<noteq> []" "length f \<le> 256" "list_all (\<lambda>t. key_fits (c_keytype c) (it_key t)) f"
    "k_rx k = map Some (serialize_batch (c_keytype c) MSG_INNER_DATA f (length f)) @ rest"
  shows "build_frame synth c k =
    (Continue, build_batch synth c (of_nat (length f)) f (build_start c f rest k))"
proof -
  have rx: "k_rx k = map Some (MSG_INNER_DATA # le16 (of_nat (length f)) @
      concat (map (tuple_bytes (c_keytype c)) f)) @ rest"
    using assms(1,4) by (simp add: wire_simps)
  have b: "rx_batch (c_keytype c) 0 (length f)
      (map Some (concat (map (tuple_bytes (c_keytype c)) f)) @ rest) = RxOk f rest"
    using assms by (intro rx_batch_bytes) simp_all
  show ?thesis
    unfolding build_frame_def rx rx_byte_guarded_plain
    using assms(2) b by (simp add: rx_le16 build_start_def build_dispatch_def count_inner_frame_def Let_def)
qed

lemma build_start_fields [simp]:
  "k_rx (build_start c f rest k) = rest" "k_ht (build_start c f rest k) = k_ht k"
  "k_tx (build_start c f rest k) = k_tx k"
  "k_session_done (build_start c f rest k) = k_session_done k"
  "k_inner_received (build_start c f rest k) = k_inner_received k"
  "k_ack_pending (build_start c f rest k) = k_ack_pending k"
  "k_error_code_reg (build_start c f rest k) = k_error_code_reg k"
  "k_result_buf (build_start c f rest k) = k_result_buf k" "k_matched (build_start c f rest k) = k_matched k"
  "k_status_reg (build_start c f rest k) = k_status_reg k"
  "k_ht_capacity_reg (build_start c f rest k) = k_ht_capacity_reg k"
  "k_rx_buf_cap_reg (build_start c f rest k) = k_rx_buf_cap_reg k"
  by (simp_all add: build_start_def count_inner_frame_def Let_def)

lemma build_ack_fields [simp]:
  "k_rx (build_ack c k) = k_rx k" "k_ht (build_ack c k) = k_ht k"
  "k_session_done (build_ack c k) = k_session_done k"
  "k_inner_received (build_ack c k) = k_inner_received k"
  "k_error_code_reg (build_ack c k) = k_error_code_reg k"
  "k_result_buf (build_ack c k) = k_result_buf k" "k_matched (build_ack c k) = k_matched k"
  "k_status_reg (build_ack c k) = k_status_reg k"
  "k_ht_capacity_reg (build_ack c k) = k_ht_capacity_reg k"
  "k_rx_buf_cap_reg (build_ack c k) = k_rx_buf_cap_reg k"
  by (simp_all add: build_ack_def Let_def)

lemma build_ack_tx:
  "k_tx (build_ack c k) =
     (if k_ack_pending k + 1 \<ge> ACK_BATCH_FRAMES \<or> k_inner_received k \<ge> c_inner_total c
      then k_tx k @ tx_of [KStatus MSG_ACK PHASE_BUILDING (k_inner_received k) 0
        (credit_of (c_inner_total c - k_inner_received k)) (c_session_id c)] else k_tx k)"
  "k_ack_pending (build_ack c k) =
     (if k_ack_pending k + 1 \<ge> ACK_BATCH_FRAMES \<or> k_inner_received k \<ge> c_inner_total c
      then 0 else k_ack_pending k + 1)"
  by (simp_all add: build_ack_def Let_def tx_messages)

lemma build_all_append:
  "build_all ins h (xs @ ys) =
     (case build_all ins h xs of (e, h') \<Rightarrow> if e = ERR_NONE then build_all ins h' ys else (e, h'))"
  by (induction xs arbitrary: h) (auto split: prod.splits)

lemma build_batch_ok:
  assumes "\<not> k_session_done k" "build_all ht_insert (k_ht k) f = (ERR_NONE, h)" "f \<noteq> []" "length f \<le> 256"
  shows "k_ht (build_batch synth c (of_nat (length f)) f k) = h"
    "\<not> k_session_done (build_batch synth c (of_nat (length f)) f k)"
    "k_inner_received (build_batch synth c (of_nat (length f)) f k) = k_inner_received k + of_nat (length f)"
    "k_error_code_reg (build_batch synth c (of_nat (length f)) f k) = k_error_code_reg k"
    "k_ack_pending (build_batch synth c (of_nat (length f)) f k) =
      (if k_ack_pending k + 1 \<ge> ACK_BATCH_FRAMES \<or>
          k_inner_received k + of_nat (length f) \<ge> c_inner_total c then 0 else k_ack_pending k + 1)"
    "k_tx (build_batch synth c (of_nat (length f)) f k) = k_tx k @
       tx_of (debug_msgs synth DBG_INFO DBG_BUILD_KEY (ucast (it_key (hd f))) @
         (if k_ack_pending k + 1 \<ge> ACK_BATCH_FRAMES \<or>
             k_inner_received k + of_nat (length f) \<ge> c_inner_total c
          then [KStatus MSG_ACK PHASE_BUILDING (k_inner_received k + of_nat (length f)) 0
            (credit_of (c_inner_total c - (k_inner_received k + of_nat (length f)))) (c_session_id c)]
          else []))"
  using inner_batch_build_all [of "k\<lparr>k_tx := emit_debug synth (k_tx k) DBG_INFO DBG_BUILD_KEY
      (ucast (it_key (hd f)))\<rparr>" f ERR_NONE h] assms
  by (simp_all add: build_batch_def Let_def build_ack_tx tx_messages)

lemma build_batch_fields [simp]:
  "k_result_buf (build_batch synth c cnt ts k) = k_result_buf k"
  "k_matched (build_batch synth c cnt ts k) = k_matched k"
  "k_status_reg (build_batch synth c cnt ts k) = k_status_reg k"
  "k_ht_capacity_reg (build_batch synth c cnt ts k) = k_ht_capacity_reg k"
  "k_rx_buf_cap_reg (build_batch synth c cnt ts k) = k_rx_buf_cap_reg k"
  by (simp_all add: build_batch_def Let_def)


lemma build_frame_loop_ok:
  assumes "frames_ok (c_keytype c) fs"
    "k_rx k = map Some (host_frames (c_keytype c) MSG_INNER_DATA fs) @ rest"
    "\<not> k_session_done k" "unat (k_inner_received k) + length (concat fs) = unat (c_inner_total c)"
    "c_inner_total c \<le> HT_MAX_ROWS" "unat frame + length fs \<le> 12290"
    "build_all ht_insert (k_ht k) (concat fs) = (ERR_NONE, h)"
  shows "\<exists>k'. build_frame_loop synth c frame k = (Continue, k') \<and> k_rx k' = rest \<and>
    \<not> k_session_done k' \<and> k_ht k' = h \<and>
    k_tx k' = k_tx k @ tx_of (build_msgs synth c (k_ack_pending k) (k_inner_received k) fs) \<and>
    k_inner_received k' = c_inner_total c \<and> k_result_buf k' = k_result_buf k \<and>
    k_matched k' = k_matched k \<and> k_error_code_reg k' = k_error_code_reg k"
  using assms
proof (induction fs arbitrary: k frame)
  case Nil
  then have "k_inner_received k = c_inner_total c" by (simp add: word_unat_eq_iff)
  with Nil show ?case by (subst build_frame_loop.simps) (simp add: host_frames_def)
next
  case (Cons f fs)
  define r where "r = map Some (host_frames (c_keytype c) MSG_INNER_DATA fs) @ rest"
  let ?k = "build_batch synth c (of_nat (length f)) f (build_start c f r k)"
  have f: "f \<noteq> []" "length f \<le> 256" "list_all (\<lambda>t. key_fits (c_keytype c) (it_key t)) f"
    using Cons.prems(1) by (simp_all add: frames_ok_def)
  have fr: "build_frame synth c k = (Continue, ?k)"
    using f Cons.prems(2) by (intro build_frame_inner) (simp_all add: host_frames_Cons r_def)
  obtain h1 where h1: "build_all ht_insert (k_ht k) f = (ERR_NONE, h1)"
    "build_all ht_insert h1 (concat fs) = (ERR_NONE, h)"
    using Cons.prems(7) by (auto simp: build_all_append split: prod.splits if_splits)
  note b = build_batch_ok [OF _ _ f(1,2), of "build_start c f r k" h1 synth c, simplified, OF Cons.prems(3) h1(1)]
  have lt: "\<not> k_inner_received k \<ge> c_inner_total c"
    using Cons.prems(4) f(1) by (cases f) (simp_all add: word_le_nat_alt)
  have len: "unat (of_nat (length f) :: u32) = length f"
    using f(2) by (simp add: unsigned_of_nat take_bit_nat_eq_self_iff)
  have "unat (k_inner_received k + of_nat (length f)) = unat (k_inner_received k) + length f"
    using Cons.prems(4,5) len by (subst unat_add_lem [THEN iffD1]) (simp_all add: word_le_nat_alt)
  then have rec: "unat (k_inner_received ?k) + length (concat fs) = unat (c_inner_total c)"
    using Cons.prems(4) b by simp
  have fl: "frame \<le> HT_MAX_ROWS + 1" "unat (frame + 1) + length fs \<le> 12290"
    using Cons.prems(6) by (simp_all add: word_le_nat_alt unat_word_ariths)
  have ok: "frames_ok (c_keytype c) fs" using Cons.prems(1) by (simp add: frames_ok_def)
  obtain k' where k': "build_frame_loop synth c (frame + 1) ?k = (Continue, k') \<and> k_rx k' = rest \<and>
    \<not> k_session_done k' \<and> k_ht k' = h \<and>
    k_tx k' = k_tx ?k @ tx_of (build_msgs synth c (k_ack_pending ?k) (k_inner_received ?k) fs) \<and>
    k_inner_received k' = c_inner_total c \<and> k_result_buf k' = k_result_buf ?k \<and>
    k_matched k' = k_matched ?k \<and> k_error_code_reg k' = k_error_code_reg ?k"
    using Cons.IH [OF ok _ b(2) rec Cons.prems(5) fl(2)] b h1 r_def by auto
  have "build_frame_loop synth c frame k = (Continue, k')"
    using k' fr lt fl(1) Cons.prems(3) by (subst build_frame_loop.simps) simp
  with k' b show ?case by (intro exI [of _ k']) (simp add: Let_def)
qed

text \<open>The probe phase: a result frame whenever \<open>RESULT_FLUSH_PAIRS\<close> pairs are buffered and at the
  end, an ACK after every second frame but the last. \<open>m\<close> is the lookup function of the table.\<close>

fun probe_row_msgs ::
  "bool \<Rightarrow> (u64 \<Rightarrow> Tid option) \<Rightarrow> nat \<Rightarrow> ResultPair list \<Rightarrow> InputTuple list \<Rightarrow>
     KernelMsg list \<times> ResultPair list" where
  "probe_row_msgs synth m i buf [] = ([], buf)"
| "probe_row_msgs synth m i buf (t # ts) =
     (let d = (if i = 0 then debug_msgs synth DBG_INFO DBG_PROBE_HIT
                ((if m (it_key t) \<noteq> None then 0x80000000 else 0) OR (ucast (it_key t) AND 0x7fffffff))
               else []);
          buf = buf @ probe_pairs m [t];
          full = (length buf \<ge> 118)
      in case probe_row_msgs synth m (Suc i) (if full then [] else buf) ts of
           (ms, buf') \<Rightarrow> (d @ (if full then [KResult buf] else []) @ ms, buf'))"

fun probe_msgs ::
  "bool \<Rightarrow> (u64 \<Rightarrow> Tid option) \<Rightarrow> SessionConfig \<Rightarrow> u16 \<Rightarrow> u32 \<Rightarrow> u32 \<Rightarrow> ResultPair list \<Rightarrow>
     InputTuple list list \<Rightarrow> KernelMsg list" where
  "probe_msgs synth m c pending received matched buf [] = result_msgs buf"
| "probe_msgs synth m c pending received matched buf (f # fs) =
     (let r = received + of_nat (length f);
          mt = matched + of_nat (length (probe_pairs m f));
          ack = (r < c_outer_total c \<and> pending + 1 \<ge> ACK_BATCH_FRAMES)
      in case probe_row_msgs synth m 0 buf f of (ms, buf) \<Rightarrow>
           debug_msgs synth DBG_INFO DBG_PROBE_KEY (ucast (it_key (hd f))) @ ms @
           (if ack then [KStatus MSG_ACK PHASE_PROBING r mt (credit_of (c_outer_total c - r))
                           (c_session_id c)] else []) @
           probe_msgs synth m c (if ack then 0 else pending + 1) r mt buf fs)"

lemma flush_result_batch_fields [simp]:
  "k_ht (flush_result_batch k) = k_ht k"
  "k_session_done (flush_result_batch k) = k_session_done k"
  "k_inner_received (flush_result_batch k) = k_inner_received k"
  "k_outer_received (flush_result_batch k) = k_outer_received k"
  "k_ack_pending (flush_result_batch k) = k_ack_pending k"
  "k_error_code_reg (flush_result_batch k) = k_error_code_reg k"
  "k_status_reg (flush_result_batch k) = k_status_reg k"
  "k_matched (flush_result_batch k) = k_matched k"
  "k_result_buf (flush_result_batch k) = []"
  "k_tx (flush_result_batch k) = k_tx k @ tx_of (result_msgs (k_result_buf k))"
  "k_ht_capacity_reg (flush_result_batch k) = k_ht_capacity_reg k"
  "k_rx_buf_cap_reg (flush_result_batch k) = k_rx_buf_cap_reg k"
  by (simp_all add: flush_result_batch_def Let_def tx_messages result_msgs_def)

lemma outer_row_fields [simp]:
  "k_ht (outer_row synth i tu k) = k_ht k"
  "k_session_done (outer_row synth i tu k) = k_session_done k"
  "k_inner_received (outer_row synth i tu k) = k_inner_received k"
  "k_outer_received (outer_row synth i tu k) = k_outer_received k + 1"
  "k_ack_pending (outer_row synth i tu k) = k_ack_pending k"
  "k_error_code_reg (outer_row synth i tu k) = k_error_code_reg k"
  "k_status_reg (outer_row synth i tu k) = k_status_reg k"
  "k_ht_capacity_reg (outer_row synth i tu k) = k_ht_capacity_reg k"
  "k_rx_buf_cap_reg (outer_row synth i tu k) = k_rx_buf_cap_reg k"
  by (simp_all add: outer_row_def Let_def split: prod.split option.split)

lemma outer_row_results:
  "k_matched (outer_row synth i tu k)
     = k_matched k + of_nat (length (probe_pairs (ht_lookup (k_ht k)) [tu]))"
  "length (k_result_buf k) < 118 \<Longrightarrow> k_result_buf (outer_row synth i tu k) =
     (let buf = k_result_buf k @ probe_pairs (ht_lookup (k_ht k)) [tu]
      in if length buf \<ge> 118 then [] else buf)"
  "length (k_result_buf k) < 118 \<Longrightarrow> k_tx (outer_row synth i tu k) = k_tx k @ tx_of
     ((if i = 0 then debug_msgs synth DBG_INFO DBG_PROBE_HIT
          ((if ht_lookup (k_ht k) (it_key tu) \<noteq> None then 0x80000000 else 0)
             OR (ucast (it_key tu) AND 0x7fffffff)) else []) @
      (let buf = k_result_buf k @ probe_pairs (ht_lookup (k_ht k)) [tu]
       in if length buf \<ge> 118 then [KResult buf] else []))"
  by (auto simp: outer_row_def Let_def ht_lookup_def tx_messages result_msgs_def split: prod.split option.split)

lemma outer_batch_fields [simp]:
  "k_ht (outer_batch synth i ts k) = k_ht k"
  "k_session_done (outer_batch synth i ts k) = k_session_done k"
  "k_inner_received (outer_batch synth i ts k) = k_inner_received k"
  "k_outer_received (outer_batch synth i ts k) = k_outer_received k + of_nat (length ts)"
  "k_ack_pending (outer_batch synth i ts k) = k_ack_pending k"
  "k_error_code_reg (outer_batch synth i ts k) = k_error_code_reg k"
  "k_status_reg (outer_batch synth i ts k) = k_status_reg k"
  "k_ht_capacity_reg (outer_batch synth i ts k) = k_ht_capacity_reg k"
  "k_rx_buf_cap_reg (outer_batch synth i ts k) = k_rx_buf_cap_reg k"
  by (induction synth i ts k rule: outer_batch.induct) (simp_all add: algebra_simps)

lemma probe_pairs_Cons: "probe_pairs m (t # ts) = probe_pairs m [t] @ probe_pairs m ts"
  by (simp split: option.split)

lemma outer_batch_results:
  assumes "length (k_result_buf k) < 118"
  shows "k_tx (outer_batch synth i ts k) =
      k_tx k @ tx_of (fst (probe_row_msgs synth (ht_lookup (k_ht k)) i (k_result_buf k) ts)) \<and>
    k_result_buf (outer_batch synth i ts k) =
      snd (probe_row_msgs synth (ht_lookup (k_ht k)) i (k_result_buf k) ts) \<and>
    k_matched (outer_batch synth i ts k) =
      k_matched k + of_nat (length (probe_pairs (ht_lookup (k_ht k)) ts))"
  using assms
proof (induction ts arbitrary: i k)
  case (Cons t ts)
  have "length (k_result_buf (outer_row synth i t k)) < 118"
    using Cons.prems by (simp add: outer_row_results Let_def)
  note IH = Cons.IH [OF this, of "Suc i"]
  show ?case
    using IH Cons.prems
    by (subst probe_pairs_Cons)
      (simp add: outer_row_results Let_def split_beta algebra_simps del: probe_pairs.simps(2))
qed simp

lemma probe_row_msgs_buf:
  "length buf < 118 \<Longrightarrow> length (snd (probe_row_msgs synth m i buf ts)) < 118"
  by (induction synth m i buf ts rule: probe_row_msgs.induct) (auto simp: Let_def split_beta)

lemma probe_row_msgs_pairs:
  "pairs_of (fst (probe_row_msgs synth m i buf ts)) @ snd (probe_row_msgs synth m i buf ts)
     = buf @ probe_pairs m ts"
proof (induction ts arbitrary: i buf)
  case (Cons t ts)
  show ?case
    using Cons.IH [of "Suc i" "[]"] Cons.IH [of "Suc i" "buf @ probe_pairs m [t]"]
    by (subst probe_pairs_Cons)
      (auto simp: Let_def split_beta simp del: probe_pairs.simps(2))
qed simp

lemma probe_msgs_pairs:
  "pairs_of (probe_msgs synth m c pending received matched buf fs) = buf @ probe_pairs m (concat fs)"
proof (induction fs arbitrary: pending received matched buf)
  case (Cons f fs)
  show ?case
    using Cons.IH probe_row_msgs_pairs [of synth m 0 buf f] by (simp add: Let_def split_beta)
qed simp

definition probe_start :: "SessionConfig \<Rightarrow> InputTuple list \<Rightarrow> rx_stream \<Rightarrow> KernelState \<Rightarrow> KernelState" where
  "probe_start c f rest k = (count_outer_frame c (of_nat (length f)) k)\<lparr>k_rx := rest\<rparr>"

lemma probe_frame_outer:
  assumes "f \<noteq> []" "length f \<le> 256" "list_all (\<lambda>t. key_fits (c_keytype c) (it_key t)) f"
    "k_rx k = map Some (serialize_batch (c_keytype c) MSG_OUTER_DATA f (length f)) @ rest"
  shows "probe_frame synth rtl c k =
    (Continue, probe_batch synth rtl c (of_nat (length f)) f (probe_start c f rest k))"
proof -
  have rx: "k_rx k = map Some (MSG_OUTER_DATA # le16 (of_nat (length f)) @
      concat (map (tuple_bytes (c_keytype c)) f)) @ rest"
    using assms(1,4) by (simp add: wire_simps)
  have b: "rx_batch (c_keytype c) 0 (length f)
      (map Some (concat (map (tuple_bytes (c_keytype c)) f)) @ rest) = RxOk f rest"
    using assms by (intro rx_batch_bytes) simp_all
  show ?thesis
    unfolding probe_frame_def rx rx_byte_guarded_plain
    using assms(2) b by (simp add: rx_le16 probe_start_def probe_dispatch_def count_outer_frame_def Let_def)
qed

lemma probe_start_fields [simp]:
  "k_rx (probe_start c f rest k) = rest" "k_ht (probe_start c f rest k) = k_ht k"
  "k_tx (probe_start c f rest k) = k_tx k"
  "k_session_done (probe_start c f rest k) = k_session_done k"
  "k_outer_received (probe_start c f rest k) = k_outer_received k"
  "k_ack_pending (probe_start c f rest k) = k_ack_pending k"
  "k_error_code_reg (probe_start c f rest k) = k_error_code_reg k"
  "k_result_buf (probe_start c f rest k) = k_result_buf k" "k_matched (probe_start c f rest k) = k_matched k"
  "k_ht_capacity_reg (probe_start c f rest k) = k_ht_capacity_reg k"
  "k_rx_buf_cap_reg (probe_start c f rest k) = k_rx_buf_cap_reg k"
  by (simp_all add: probe_start_def count_outer_frame_def Let_def)

lemma probe_ack_fields [simp]:
  "k_ht (probe_ack c credit k) = k_ht k"
  "k_session_done (probe_ack c credit k) = k_session_done k"
  "k_outer_received (probe_ack c credit k) = k_outer_received k"
  "k_error_code_reg (probe_ack c credit k) = k_error_code_reg k"
  "k_result_buf (probe_ack c credit k) = k_result_buf k" "k_matched (probe_ack c credit k) = k_matched k"
  "k_ack_pending (probe_ack c credit k) = (if k_ack_pending k \<ge> ACK_BATCH_FRAMES then 0 else k_ack_pending k)"
  "k_tx (probe_ack c credit k) = (if k_ack_pending k \<ge> ACK_BATCH_FRAMES
     then k_tx k @ tx_of [KStatus MSG_ACK PHASE_PROBING (k_outer_received k) (k_matched k) credit
       (c_session_id c)] else k_tx k)"
  by (simp_all add: probe_ack_def Let_def tx_messages)

text \<open>What a DONE session leaves in the state.\<close>

definition session_done_with :: "u8 \<Rightarrow> u32 \<Rightarrow> u32 \<Rightarrow> tx_stream \<Rightarrow> KernelState \<Rightarrow> bool" where
  "session_done_with sid processed matched tx k \<longleftrightarrow>
     k_tx k = tx @ tx_of [KTiming (k_timing k), KStatus MSG_STATUS PHASE_DONE processed matched 0 sid] \<and>
     k_status_reg k = ucast (phase_byte PHASE_DONE) \<and>
     k_result_count_reg k = matched \<and> k_error_code_reg k = 0 \<and> t_matched_rows (k_timing k) = matched"

lemma apply_rtl_matched [simp]: "t_matched_rows (apply_rtl_stream_timing r t) = t_matched_rows t"
  by (simp add: apply_rtl_stream_timing_def Let_def)

lemma timing_totals_matched [simp]: "t_matched_rows (timing_totals t) = t_matched_rows t"
  by (simp add: timing_totals_def Let_def)

lemma timing_ack_matched [simp]: "t_matched_rows (timing_ack n t) = t_matched_rows t"
  by (simp add: timing_ack_def)

lemma max_probe_batch_matched [simp]: "t_matched_rows (max_probe_batch k t) = t_matched_rows t"
  by (simp add: max_probe_batch_def)

lemma probe_end_done:
  "session_done_with (c_session_id c) (k_outer_received k) (k_matched k) (k_tx k) (probe_end rtl c k)"
  "k_session_done (probe_end rtl c k)" "k_ht (probe_end rtl c k) = k_ht k"
  by (simp_all add: session_done_with_def probe_end_def Let_def tx_messages)

text \<open>A batch that stays within the announced outer rows is processed whole.\<close>

lemma process_count_all:
  fixes r total :: u32
  assumes "unat r + n \<le> unat total" "n \<le> 256"
  shows "(let before = (if total > r then total - r else 0)
          in if before < ucast (of_nat n :: u16) then ucast before else (of_nat n :: u16)) = of_nat n"
proof -
  have "r \<le> total" using assms(1) by (simp add: word_le_nat_alt)
  then have "unat (if total > r then total - r else 0) = unat total - unat r"
    by (auto simp: unat_sub word_less_nat_alt)
  moreover have "unat (ucast (of_nat n :: u16) :: u32) = n"
    using assms(2) by (simp add: unsigned_ucast_eq take_bit_nat_eq_self_iff)
  ultimately show ?thesis using assms(1) by (auto simp: Let_def word_less_nat_alt)
qed

lemma probe_batch_split:
  assumes "f \<noteq> []" "length f \<le> 256" "unat (k_outer_received k) + length f \<le> unat (c_outer_total c)"
  shows "probe_batch synth rtl c (of_nat (length f)) f k =
    (let kd = k\<lparr>k_tx := k_tx k @ tx_of (debug_msgs synth DBG_INFO DBG_PROBE_KEY (ucast (it_key (hd f))))\<rparr>;
         k1 = outer_batch synth 0 f kd
     in if k_outer_received k1 \<ge> c_outer_total c
        then probe_end rtl c ((flush_result_batch k1)\<lparr>k_ack_pending := k_ack_pending k1 + 1\<rparr>)
        else probe_ack c (credit_of (c_outer_total c - k_outer_received k1))
               (k1\<lparr>k_ack_pending := k_ack_pending k1 + 1\<rparr>))"
proof -
  let ?kd = "k\<lparr>k_tx := k_tx k @ tx_of (debug_msgs synth DBG_INFO DBG_PROBE_KEY (ucast (it_key (hd f))))\<rparr>"
  have p: "(if (if c_outer_total c > k_outer_received ?kd then c_outer_total c - k_outer_received ?kd else 0)
        < ucast (of_nat (length f) :: u16)
      then ucast (if c_outer_total c > k_outer_received ?kd then c_outer_total c - k_outer_received ?kd else 0)
      else (of_nat (length f) :: u16)) = of_nat (length f)"
    using process_count_all [OF assms(3,2)] unfolding Let_def by (auto split: if_splits)
  show ?thesis
    unfolding probe_batch_def probe_close_def tx_messages using assms(1,2) p
    by (simp add: Let_def del: outer_batch_fields)
qed


lemma probe_frame_loop_ok:
  assumes "frames_ok (c_keytype c) fs" "fs \<noteq> []"
    "k_rx k = map Some (host_frames (c_keytype c) MSG_OUTER_DATA fs) @ rest"
    "\<not> k_session_done k" "unat (k_outer_received k) + length (concat fs) = unat (c_outer_total c)"
    "unat frame + length fs \<le> 1000000" "length (k_result_buf k) < 118"
  shows "\<exists>k'. probe_frame_loop synth rtl c frame k = (Continue, k') \<and> k_rx k' = rest \<and>
    k_session_done k' \<and> k_ht k' = k_ht k \<and>
    session_done_with (c_session_id c) (c_outer_total c)
      (k_matched k + of_nat (length (probe_pairs (ht_lookup (k_ht k)) (concat fs))))
      (k_tx k @ tx_of (probe_msgs synth (ht_lookup (k_ht k)) c (k_ack_pending k)
         (k_outer_received k) (k_matched k) (k_result_buf k) fs)) k'"
  using assms
proof (induction fs arbitrary: k frame)
  case (Cons f fs)
  define r where "r = map Some (host_frames (c_keytype c) MSG_OUTER_DATA fs) @ rest"
  define kd where "kd = (probe_start c f r k)\<lparr>k_tx := k_tx k @
    tx_of (debug_msgs synth DBG_INFO DBG_PROBE_KEY (ucast (it_key (hd f))))\<rparr>"
  define k1 where "k1 = outer_batch synth 0 f kd"
  have f: "f \<noteq> []" "length f \<le> 256" "list_all (\<lambda>t. key_fits (c_keytype c) (it_key t)) f"
    using Cons.prems(1) by (simp_all add: frames_ok_def)
  have le: "unat (k_outer_received k) + length f \<le> unat (c_outer_total c)"
    using Cons.prems(5) by simp
  have fb: "probe_batch synth rtl c (of_nat (length f)) f (probe_start c f r k) =
      (if k_outer_received k1 \<ge> c_outer_total c
       then probe_end rtl c ((flush_result_batch k1)\<lparr>k_ack_pending := k_ack_pending k1 + 1\<rparr>)
       else probe_ack c (credit_of (c_outer_total c - k_outer_received k1))
              (k1\<lparr>k_ack_pending := k_ack_pending k1 + 1\<rparr>))"
    using probe_batch_split [OF f(1,2), of "probe_start c f r k" c synth rtl] le
    unfolding k1_def kd_def Let_def by (simp only: probe_start_fields)
  have fr: "probe_frame synth rtl c k =
      (Continue, probe_batch synth rtl c (of_nat (length f)) f (probe_start c f r k))"
    using f Cons.prems(3) by (intro probe_frame_outer) (simp_all add: host_frames_Cons r_def)
  have lt: "\<not> k_outer_received k \<ge> c_outer_total c"
    using le f(1) by (cases f) (simp_all add: word_le_nat_alt)
  have len: "unat (of_nat (length f) :: u32) = length f"
    using f(2) by (simp add: unsigned_of_nat take_bit_nat_eq_self_iff)
  have rec: "unat (k_outer_received k + of_nat (length f)) = unat (k_outer_received k) + length f"
    using le len unsigned_less [where 'a = nat, of "c_outer_total c"]
    by (subst unat_add_lem [THEN iffD1]) simp_all
  have fl: "frame < 1000000" "unat (frame + 1) + length fs \<le> 1000000"
    using Cons.prems(6) by (simp_all add: word_less_nat_alt unat_word_ariths)
  have step: "probe_frame_loop synth rtl c frame k =
      (case probe_frame synth rtl c k of
         (Continue, k) \<Rightarrow> probe_frame_loop synth rtl c (frame + 1) k
       | (Break, k) \<Rightarrow> (Continue, k) | (f, k) \<Rightarrow> (f, k))"
    using lt fl(1) Cons.prems(4) by (subst probe_frame_loop.simps) simp
  note res = outer_batch_results [of kd synth 0 f, folded k1_def]
  have k1: "k_rx k1 = r" "k_ht k1 = k_ht k" "\<not> k_session_done k1"
    "k_outer_received k1 = k_outer_received k + of_nat (length f)" "k_ack_pending k1 = k_ack_pending k"
    using Cons.prems(4) by (simp_all add: k1_def kd_def)
  have buf: "length (k_result_buf kd) < 118" using Cons.prems(7) by (simp add: kd_def)
  have res: "k_tx k1 = k_tx k @ tx_of (debug_msgs synth DBG_INFO DBG_PROBE_KEY (ucast (it_key (hd f))) @
        fst (probe_row_msgs synth (ht_lookup (k_ht k)) 0 (k_result_buf k) f))"
      "k_result_buf k1 = snd (probe_row_msgs synth (ht_lookup (k_ht k)) 0 (k_result_buf k) f)"
      "k_matched k1 = k_matched k + of_nat (length (probe_pairs (ht_lookup (k_ht k)) f))"
    using outer_batch_results [OF buf, of synth 0 f, folded k1_def] by (simp_all add: kd_def)
  show ?case
  proof (cases "fs = []")
    case True
    then have all: "k_outer_received k1 = c_outer_total c"
      using rec Cons.prems(5) k1 by (simp add: word_unat_eq_iff)
    let ?k = "(flush_result_batch k1)\<lparr>k_ack_pending := k_ack_pending k1 + 1\<rparr>"
    have "probe_frame_loop synth rtl c frame k = (Continue, probe_end rtl c ?k)"
      using probe_end_done(2) [of rtl c ?k] by (simp add: step fr fb all)
        (subst probe_frame_loop.simps, simp)
    moreover have "k_rx (probe_end rtl c ?k) = rest"
      using True by (simp add: probe_end_def Let_def k1 r_def host_frames_def)
    moreover have "c_outer_total c = k_outer_received k + word_of_nat (length f)" using all k1 by simp
    ultimately show ?thesis
      using True probe_end_done(1) [of c ?k rtl] probe_end_done(2,3) [of rtl c ?k] k1 all res
      by (intro exI [of _ "probe_end rtl c ?k"]) (simp add: Let_def split_beta session_done_with_def)
  next
    case False
    then have "length (concat fs) > 0" using Cons.prems(1) by (cases fs) (auto simp: frames_ok_def)
    then have "\<not> unat (c_outer_total c) \<le> unat (k_outer_received k) + length f"
      using Cons.prems(5) unfolding concat.simps length_append by linarith
    then have nd: "\<not> k_outer_received k1 \<ge> c_outer_total c"
      using rec k1 by (simp add: word_le_nat_alt)
    let ?k = "probe_ack c (credit_of (c_outer_total c - k_outer_received k1))
      (k1\<lparr>k_ack_pending := k_ack_pending k1 + 1\<rparr>)"
    have IHp: "frames_ok (c_keytype c) fs" "length (k_result_buf ?k) < 118"
      "k_rx ?k = r" "unat (k_outer_received ?k) + length (concat fs) = unat (c_outer_total c)"
      using Cons.prems(1,5,7) res k1 rec
      by (simp_all add: frames_ok_def probe_row_msgs_buf probe_ack_def Let_def)
    have "probe_frame_loop synth rtl c frame k = probe_frame_loop synth rtl c (frame + 1) ?k"
      using nd by (simp add: step fr fb)
    then show ?thesis
      using Cons.IH [OF IHp(1) False _ _ IHp(4) fl(2) IHp(2)] IHp(3) k1 res
        nd [unfolded not_le]
      by (cases "2 \<le> k_ack_pending k + 1") (simp_all add: r_def Let_def split_beta add.assoc)
  qed
qed simp

definition session_config :: "JoinConfig \<Rightarrow> u32 \<Rightarrow> u32 \<Rightarrow> u8 \<Rightarrow> SessionConfig" where
  "session_config cfg inner_total outer_total sid =
     (case check_configure (jc_algorithm cfg) inner_total outer_total of (e, K, w) \<Rightarrow>
      \<lparr>c_algorithm = jc_algorithm cfg, c_keytype = jc_key_type cfg, c_inner_total = inner_total,
       c_outer_total = outer_total, c_K = K, c_outer_slot_w = w, c_session_id = sid\<rparr>)"

definition configure_msgs :: "bool \<Rightarrow> u32 \<Rightarrow> u8 \<Rightarrow> KernelMsg list" where
  "configure_msgs synth inner_total sid =
     debug_msgs synth DBG_INFO DBG_IDLE_ENTER 0 @ debug_msgs synth DBG_INFO DBG_CONFIGURE inner_total @
     [KStatus MSG_ACK PHASE_BUILDING 0 0 512 sid]"

text \<open>All messages of a session of algorithm A before the timing summary and DONE.\<close>

definition linear_session_msgs ::
  "bool \<Rightarrow> (u64 \<Rightarrow> Tid option) \<Rightarrow> SessionConfig \<Rightarrow> InputTuple list list \<Rightarrow> InputTuple list list \<Rightarrow>
     KernelMsg list" where
  "linear_session_msgs synth m c ifs ofs =
     configure_msgs synth (c_inner_total c) (c_session_id c) @ build_msgs synth c 0 0 ifs @
     debug_msgs synth DBG_INFO DBG_BUILD_DONE (c_inner_total c) @
     (if ofs = [] then debug_msgs synth DBG_INFO DBG_PROBE_DONE 0
      else probe_msgs synth m c 0 0 0 [] ofs)"

lemma pairs_of_build_msgs [simp]: "pairs_of (build_msgs synth c pending received fs) = []"
  by (induction synth c pending received fs rule: build_msgs.induct) (simp_all add: Let_def)

lemma pairs_of_linear_session_msgs:
  "pairs_of (linear_session_msgs synth m c ifs ofs) = probe_pairs m (concat ofs)"
  by (simp add: linear_session_msgs_def configure_msgs_def probe_msgs_pairs)

lemma rx_configure_bytes:
  "rx_configure (map Some (a # kt # le16 hint @ le32 ni @ le32 no @ [sid]) @ s) = Some ((a, kt, ni, no, sid), s)"
  by (simp add: rx_configure_def rx_simps)

lemma accept_configure_ok:
  assumes "check_configure a ni no = (ERR_NONE, K, w)"
  shows "fst (accept_configure synth (a, kt, ni, no, sid) k) =
    \<lparr>c_algorithm = a, c_keytype = kt, c_inner_total = ni, c_outer_total = no, c_K = K,
      c_outer_slot_w = w, c_session_id = sid\<rparr>"
    "k_rx (snd (accept_configure synth (a, kt, ni, no, sid) k)) = k_rx k"
    "k_session_done (snd (accept_configure synth (a, kt, ni, no, sid) k)) = k_session_done k"
    "k_ht (snd (accept_configure synth (a, kt, ni, no, sid) k)) = k_ht k"
    "k_matched (snd (accept_configure synth (a, kt, ni, no, sid) k)) = k_matched k"
    "k_result_buf (snd (accept_configure synth (a, kt, ni, no, sid) k)) = k_result_buf k"
    "k_error_code_reg (snd (accept_configure synth (a, kt, ni, no, sid) k)) = k_error_code_reg k"
    "k_tx (snd (accept_configure synth (a, kt, ni, no, sid) k)) = k_tx k @
       tx_of (debug_msgs synth DBG_INFO DBG_CONFIGURE ni @ [KStatus MSG_ACK PHASE_BUILDING 0 0 512 sid])"
  using assms by (simp_all add: accept_configure_def Let_def tx_messages)

lemma configure_phase_ok:
  assumes "k_rx k = map Some (serialize_configure cfg ni no sid) @ rest"
    "check_configure (jc_algorithm cfg) ni no = (ERR_NONE, K, w)"
  shows "\<exists>k'. configure_phase synth (session_init synth k) = (Continue, session_config cfg ni no sid, k') \<and>
    k_rx k' = rest \<and> \<not> k_session_done k' \<and> k_ht k' = k_ht k \<and> k_matched k' = 0 \<and>
    k_result_buf k' = [] \<and> k_error_code_reg k' = 0 \<and> k_tx k' = k_tx k @ tx_of (configure_msgs synth ni sid)"
proof -
  let ?p = "jc_algorithm cfg # jc_key_type cfg # le16 512 @ le32 ni @ le32 no @ [sid]"
  have rx: "k_rx (session_init synth k) = map Some (MSG_CONFIGURE # le16 1 @ ?p) @ rest"
    using assms(1) by (simp add: wire_simps session_init_def)
  let ?k = "(session_init synth k)\<lparr>k_rx := rest\<rparr>"
  let ?a = "accept_configure synth (jc_algorithm cfg, jc_key_type cfg, ni, no, sid) ?k"
  note acc = accept_configure_ok [OF assms(2), of synth "jc_key_type cfg" sid ?k]
  have "configure_phase synth (session_init synth k) = (Continue, ?a)"
    unfolding configure_phase_def rx rx_byte_guarded_plain
    using rx_configure_bytes [of "jc_algorithm cfg" "jc_key_type cfg" 512 ni no sid rest]
    by (simp add: rx_le16 Let_def)
  moreover have "?a = (session_config cfg ni no sid, snd ?a)"
    using acc(1) assms(2) by (intro prod_eqI) (simp_all add: session_config_def)
  ultimately have "configure_phase synth (session_init synth k)
      = (Continue, session_config cfg ni no sid, snd ?a)" by simp
  then show ?thesis
    using acc(2-) by (intro exI [of _ "snd ?a"])
      (simp add: session_init_def tx_messages configure_msgs_def)
qed

lemma finish_session_done:
  "c_algorithm c = ALGORITHM_A \<Longrightarrow> session_done_with (c_session_id c) 0 (k_matched k)
     (k_tx k @ tx_of (debug_msgs synth DBG_INFO DBG_PROBE_DONE (k_matched k))) (finish_session synth rtl c k)"
  "k_rx (finish_session synth rtl c k) = k_rx k" "k_ht (finish_session synth rtl c k) = k_ht k"
  by (simp_all add: finish_session_def session_done_with_def Let_def tx_messages)

lemma session_done_with_append:
  "session_done_with sid p m ((tx @ tx_of a) @ tx_of b) k \<longleftrightarrow> session_done_with sid p m (tx @ tx_of (a @ b)) k"
  by simp

lemma length_frames_ok: "frames_ok kt fs \<Longrightarrow> length fs \<le> length (concat fs)"
proof (induction fs)
  case (Cons f fs)
  then have "length fs \<le> length (concat fs)" "length f \<ge> 1"
    by (auto simp: frames_ok_def Suc_le_eq)
  then show ?case by simp
qed simp

lemma algorithm_a_ok:
  assumes c: "c_keytype c = kt" "c_inner_total c = of_nat (length (concat ifs))"
    "c_outer_total c = of_nat (length (concat ofs))" "c_algorithm c = ALGORITHM_A"
    and fr: "frames_ok kt ifs" "frames_ok kt ofs"
    and len: "length (concat ifs) \<le> 12288" "length (concat ofs) < 2 ^ 32" "length ofs \<le> 1000000"
    and rx: "k_rx k = map Some (host_frames kt MSG_INNER_DATA ifs @ host_frames kt MSG_OUTER_DATA ofs) @ rest"
    and b: "build_all ht_insert (ht_reset (k_ht k)) (concat ifs) = (ERR_NONE, h)"
    and k: "\<not> k_session_done k" "k_matched k = 0" "k_result_buf k = []" "k_error_code_reg k = 0"
  shows "\<exists>k1 k'. algorithm_a synth rtl c k = (Continue, k1) \<and>
    k' = (if k_session_done k1 then k1 else finish_session synth rtl c k1) \<and>
    k_rx k' = rest \<and> k_ht k' = h \<and>
    session_done_with (c_session_id c) (of_nat (length (concat ofs)))
      (of_nat (length (probe_pairs (ht_lookup h) (concat ofs))))
      (k_tx k @ tx_of (build_msgs synth c 0 0 ifs @
        debug_msgs synth DBG_INFO DBG_BUILD_DONE (c_inner_total c) @
        (if ofs = [] then debug_msgs synth DBG_INFO DBG_PROBE_DONE 0
         else probe_msgs synth (ht_lookup h) c 0 0 0 [] ofs))) k'"
proof -
  let ?k0 = "k\<lparr>k_ht := ht_reset (k_ht k), k_inner_received := 0, k_ack_pending := 0\<rparr>"
  let ?r = "map Some (host_frames kt MSG_OUTER_DATA ofs) @ rest"
  have ni: "unat (c_inner_total c) = length (concat ifs)"
    unfolding c using len(1) by (simp add: unsigned_of_nat take_bit_nat_eq_self_iff del: length_concat)
  have no: "unat (c_outer_total c) = length (concat ofs)"
    unfolding c using len(2) by (simp add: unsigned_of_nat take_bit_nat_eq_self_iff del: length_concat)
  have "length ifs \<le> 12288" using length_frames_ok [OF fr(1)] len(1) by (rule le_trans)
  then have "\<exists>k'. build_frame_loop synth c 0 ?k0 = (Continue, k') \<and> k_rx k' = ?r \<and>
    \<not> k_session_done k' \<and> k_ht k' = h \<and>
    k_tx k' = k_tx ?k0 @ tx_of (build_msgs synth c (k_ack_pending ?k0) (k_inner_received ?k0) ifs) \<and>
    k_inner_received k' = c_inner_total c \<and> k_result_buf k' = k_result_buf ?k0 \<and>
    k_matched k' = k_matched ?k0 \<and> k_error_code_reg k' = k_error_code_reg ?k0"
    using fr(1) rx k(1) ni len(1) b c(1)
    by (intro build_frame_loop_ok) (simp_all add: word_le_nat_alt del: length_concat)
  then obtain k1 where k1: "build_frame_loop synth c 0 ?k0 = (Continue, k1)" "k_rx k1 = ?r"
    "\<not> k_session_done k1" "k_ht k1 = h" "k_tx k1 = k_tx k @ tx_of (build_msgs synth c 0 0 ifs)"
    "k_inner_received k1 = c_inner_total c" "k_result_buf k1 = []" "k_matched k1 = 0"
    using k by auto
  let ?k2 = "k1\<lparr>k_tx := emit_debug synth (k_tx k1) DBG_INFO DBG_BUILD_DONE (k_inner_received k1),
    k_status_reg := ucast (phase_byte PHASE_PROBING), k_outer_received := 0, k_ack_pending := 0\<rparr>"
  have a: "algorithm_a synth rtl c k = probe_frame_loop synth rtl c 0 ?k2"
    using k1(1,3) by (simp add: algorithm_a_def)
  show ?thesis
  proof (cases "ofs = []")
    case True
    then have "algorithm_a synth rtl c k = (Continue, ?k2)"
      using no k1(3) unfolding a by (subst probe_frame_loop.simps) (simp add: word_le_nat_alt)
    then show ?thesis
      using True k1 finish_session_done(1) [OF c(4), of ?k2 synth rtl]
      by (intro exI [of _ ?k2] exI [of _ "finish_session synth rtl c ?k2"])
        (simp add: finish_session_done(2,3) tx_messages host_frames_def)
  next
    case False
    have "\<exists>k'. probe_frame_loop synth rtl c 0 ?k2 = (Continue, k') \<and> k_rx k' = rest \<and>
      k_session_done k' \<and> k_ht k' = k_ht ?k2 \<and>
      session_done_with (c_session_id c) (c_outer_total c)
        (k_matched ?k2 + of_nat (length (probe_pairs (ht_lookup (k_ht ?k2)) (concat ofs))))
        (k_tx ?k2 @ tx_of (probe_msgs synth (ht_lookup (k_ht ?k2)) c (k_ack_pending ?k2)
           (k_outer_received ?k2) (k_matched ?k2) (k_result_buf ?k2) ofs)) k'"
      using fr(2) False k1 no len(3) c(1)
      by (intro probe_frame_loop_ok) (simp_all del: length_concat)
    then obtain k' where "probe_frame_loop synth rtl c 0 ?k2 = (Continue, k')" "k_rx k' = rest"
      "k_session_done k'" "k_ht k' = h"
      "session_done_with (c_session_id c) (c_outer_total c)
        (of_nat (length (probe_pairs (ht_lookup h) (concat ofs))))
        (k_tx ?k2 @ tx_of (probe_msgs synth (ht_lookup h) c 0 0 0 [] ofs)) k'"
      using k1 by auto
    then show ?thesis
      using False k1 c(3) a
      by (intro exI [of _ k']) (simp add: tx_messages del: length_concat)
  qed
qed

lemma kernel_session_linear:
  assumes "jc_algorithm cfg = ALGORITHM_A"
    and "frames_ok (jc_key_type cfg) ifs" "frames_ok (jc_key_type cfg) ofs"
    and "inner = concat ifs" "outer = concat ofs"
    and "length inner \<le> unat HT_MAX_ROWS" "length outer < 2 ^ 32" "length ofs \<le> 1000000"
    and "build_all ht_insert (ht_reset (k_ht k)) inner = (ERR_NONE, h)"
    and "k_rx k = map Some (serialize_configure cfg (of_nat (length inner)) (of_nat (length outer)) sid
           @ host_frames (jc_key_type cfg) MSG_INNER_DATA ifs
           @ host_frames (jc_key_type cfg) MSG_OUTER_DATA ofs) @ rest"
  shows "\<exists>k'. kernel_session synth rtl k = (Continue, k') \<and> k_rx k' = rest \<and>
    session_done_with sid (of_nat (length outer)) (of_nat (length (probe_pairs (ht_lookup h) outer)))
      (k_tx k @ tx_of (linear_session_msgs synth (ht_lookup h)
         (session_config cfg (of_nat (length inner)) (of_nat (length outer)) sid) ifs ofs)) k'"
proof -
  let ?c = "session_config cfg (of_nat (length inner)) (of_nat (length outer)) sid"
  have ni: "unat (of_nat (length inner) :: u32) = length inner"
    using assms(6) by (simp add: unsigned_of_nat take_bit_nat_eq_self_iff)
  have chk: "check_configure (jc_algorithm cfg) (of_nat (length inner)) (of_nat (length outer))
      = (ERR_NONE, 1, 0)"
    using assms(1,6) ni by (simp add: check_configure_def word_less_nat_alt)
  obtain k1 where k1: "configure_phase synth (session_init synth k) = (Continue, ?c, k1)"
    "k_rx k1 = map Some (host_frames (jc_key_type cfg) MSG_INNER_DATA ifs
           @ host_frames (jc_key_type cfg) MSG_OUTER_DATA ofs) @ rest"
    "\<not> k_session_done k1" "k_ht k1 = k_ht k" "k_matched k1 = 0" "k_result_buf k1 = []"
    "k_error_code_reg k1 = 0"
    "k_tx k1 = k_tx k @ tx_of (configure_msgs synth (of_nat (length inner)) sid)"
    using configure_phase_ok [OF _ chk, of k sid _ synth] assms(10) by auto
  have c: "c_keytype ?c = jc_key_type cfg" "c_algorithm ?c = ALGORITHM_A" "c_session_id ?c = sid"
    "c_inner_total ?c = of_nat (length inner)" "c_outer_total ?c = of_nat (length outer)"
    using chk assms(1) by (simp_all add: session_config_def)
  obtain k2 k' where k2: "algorithm_a synth rtl ?c k1 = (Continue, k2)"
    "k' = (if k_session_done k2 then k2 else finish_session synth rtl ?c k2)" "k_rx k' = rest"
    "session_done_with sid (of_nat (length outer)) (of_nat (length (probe_pairs (ht_lookup h) outer)))
      (k_tx k1 @ tx_of (build_msgs synth ?c 0 0 ifs @
        debug_msgs synth DBG_INFO DBG_BUILD_DONE (c_inner_total ?c) @
        (if ofs = [] then debug_msgs synth DBG_INFO DBG_PROBE_DONE 0
         else probe_msgs synth (ht_lookup h) ?c 0 0 0 [] ofs))) k'"
    using algorithm_a_ok [OF c(1), of ifs ofs k1 rest h synth rtl] c assms k1
    by (auto simp del: length_concat)
  have "kernel_session synth rtl k = (Continue, k')"
    using k1 k2(1,2) c(2) by (simp add: kernel_session_def)
  moreover have "k_tx k1 @ tx_of (build_msgs synth ?c 0 0 ifs @
        debug_msgs synth DBG_INFO DBG_BUILD_DONE (c_inner_total ?c) @
        (if ofs = [] then debug_msgs synth DBG_INFO DBG_PROBE_DONE 0
         else probe_msgs synth (ht_lookup h) ?c 0 0 0 [] ofs))
      = k_tx k @ tx_of (linear_session_msgs synth (ht_lookup h) ?c ifs ofs)"
    unfolding linear_session_msgs_def c k1(8) by simp
  ultimately show ?thesis
    using k2(3,4) by (intro exI [of _ k'] conjI) simp_all
qed

text \<open>C4. A session of algorithm A computes the join. When the host's CONFIGURE, INNER\_DATA and
  OUTER\_DATA frames arrive and the rows fit the table, the kernel consumes exactly those
  frames, sends the messages of \<open>linear_session_msgs\<close> followed by the timing summary and DONE,
  and the result pairs among them are the join of the two inputs in outer order. DONE and the
  result register carry the number of pairs.\<close>

theorem linear_session_computes_join:
  assumes "jc_algorithm cfg = ALGORITHM_A"
    and "frames_ok (jc_key_type cfg) ifs" "frames_ok (jc_key_type cfg) ofs"
    and "inner = concat ifs" "outer = concat ofs"
    and "length inner \<le> unat HT_MAX_ROWS" "length outer < 2 ^ 32" "length ofs \<le> 1000000"
    and "build_all ht_insert (ht_reset (k_ht k)) inner = (ERR_NONE, h)"
    and "k_rx k = map Some (serialize_configure cfg (of_nat (length inner)) (of_nat (length outer)) sid
           @ host_frames (jc_key_type cfg) MSG_INNER_DATA ifs
           @ host_frames (jc_key_type cfg) MSG_OUTER_DATA ofs) @ rest"
  shows "\<exists>k' ms. kernel_session synth rtl k = (Continue, k') \<and> k_rx k' = rest \<and>
    ms = linear_session_msgs synth (ht_lookup h)
           (session_config cfg (of_nat (length inner)) (of_nat (length outer)) sid) ifs ofs \<and>
    pairs_of ms = join_spec inner outer \<and>
    session_done_with sid (of_nat (length outer)) (of_nat (length (join_spec inner outer)))
      (k_tx k @ tx_of ms) k'"
proof -
  have "probe_pairs (ht_lookup h) outer = join_spec inner outer"
    using lht.build_then_probe [of "k_ht k" inner outer] assms(9) by simp
  with kernel_session_linear [OF assms, of synth rtl] assms(5) show ?thesis
    by (auto simp: pairs_of_linear_session_msgs)
qed

theorem linear_session_computes_join_witness:
  "\<exists>k' ms. kernel_session False rtl_absent (kernel_blank (map Some
     (serialize_configure \<lparr>jc_algorithm = ALGORITHM_A, jc_key_type = KEY_INT32\<rparr> 2 2 9
      @ host_frames KEY_INT32 MSG_INNER_DATA [[\<lparr>it_key = 7, it_tid = \<lparr>blkno = 0, offno = 1\<rparr>\<rparr>],
          [\<lparr>it_key = 9, it_tid = \<lparr>blkno = 0, offno = 2\<rparr>\<rparr>]]
      @ host_frames KEY_INT32 MSG_OUTER_DATA [[\<lparr>it_key = 9, it_tid = \<lparr>blkno = 1, offno = 1\<rparr>\<rparr>,
          \<lparr>it_key = 8, it_tid = \<lparr>blkno = 1, offno = 2\<rparr>\<rparr>]]))) = (Continue, k') \<and>
     k_rx k' = [] \<and>
     pairs_of ms = [\<lparr>inner_tid = \<lparr>blkno = 0, offno = 2\<rparr>, outer_tid = \<lparr>blkno = 1, offno = 1\<rparr>\<rparr>] \<and>
     session_done_with 9 2 1 (tx_of ms) k'"
proof -
  let ?ifs = "[[\<lparr>it_key = 7, it_tid = \<lparr>blkno = 0, offno = 1\<rparr>\<rparr>],
    [\<lparr>it_key = 9, it_tid = \<lparr>blkno = 0, offno = 2\<rparr>\<rparr>]] :: InputTuple list list"
  let ?ofs = "[[\<lparr>it_key = 9, it_tid = \<lparr>blkno = 1, offno = 1\<rparr>\<rparr>,
    \<lparr>it_key = 8, it_tid = \<lparr>blkno = 1, offno = 2\<rparr>\<rparr>]] :: InputTuple list list"
  let ?cfg = "\<lparr>jc_algorithm = ALGORITHM_A, jc_key_type = KEY_INT32\<rparr>"
  let ?rx = "map Some (serialize_configure ?cfg 2 2 9 @ host_frames KEY_INT32 MSG_INNER_DATA ?ifs
    @ host_frames KEY_INT32 MSG_OUTER_DATA ?ofs)"
  have fr: "frames_ok KEY_INT32 ?ifs" "frames_ok KEY_INT32 ?ofs"
    by (simp_all add: frames_ok_def key_fits_def)
  have "fst (build_all ht_insert (ht_reset ht_blank) (concat ?ifs)) = ERR_NONE" by code_simp
  then have b: "build_all ht_insert (ht_reset (k_ht (kernel_blank ?rx))) (concat ?ifs) =
      (ERR_NONE, snd (build_all ht_insert (ht_reset ht_blank) (concat ?ifs)))"
    by (simp add: kernel_blank_def prod_eq_iff)
  have j: "join_spec (concat ?ifs) (concat ?ofs) =
      [\<lparr>inner_tid = \<lparr>blkno = 0, offno = 2\<rparr>, outer_tid = \<lparr>blkno = 1, offno = 1\<rparr>\<rparr>]" by code_simp
  show ?thesis
    using linear_session_computes_join [of ?cfg ?ifs ?ofs "concat ?ifs" "concat ?ofs"
        "kernel_blank ?rx" _ 9 "[]" False rtl_absent, OF _ _ _ refl refl _ _ _ b] fr j
    by (auto simp: kernel_blank_def)
qed

end
