(* ===== verification/Kernel_Safety.thy ===== *)
theory Kernel_Safety
  imports Linear_Session
begin

text \<open>
  The kernel on arbitrary input: what every session of
  \<^verbatim>\<open>src/src/hash_join_kernel.cpp\<close> and \<^verbatim>\<open>hash_join_grace.hpp\<close> does to the output stream, the
  table and the registers, how a session can end, and the endless session loop of the
  hardware.
\<close>

section \<open>Relations between states\<close>

text \<open>A piece of a session \<open>runs\<close> from one state to another when it only appends whole messages to
  the output, keeps the table invariant, the bound on the result buffer and the capability
  registers.\<close>

definition emits :: "KernelState \<Rightarrow> KernelState \<Rightarrow> bool" where
  "emits k k' \<longleftrightarrow> (\<exists>ms. k_tx k' = k_tx k @ tx_of ms)"

definition keeps :: "KernelState \<Rightarrow> KernelState \<Rightarrow> bool" where
  "keeps k k' \<longleftrightarrow> (ht_inv (k_ht k) \<longrightarrow> ht_inv (k_ht k')) \<and>
     (length (k_result_buf k) < 118 \<longrightarrow> length (k_result_buf k') < 118) \<and>
     k_ht_capacity_reg k' = k_ht_capacity_reg k \<and> k_rx_buf_cap_reg k' = k_rx_buf_cap_reg k"

definition runs :: "KernelState \<Rightarrow> KernelState \<Rightarrow> bool" where
  "runs k k' \<longleftrightarrow> emits k k' \<and> keeps k k'"

text \<open>The messages that close a session, consistent with the registers.\<close>

fun closing :: "KernelState \<Rightarrow> KernelMsg \<Rightarrow> bool" where
  "closing k (KStatus type phase processed matched credit sid) \<longleftrightarrow>
     type = MSG_STATUS \<and> phase = PHASE_DONE \<and> matched = k_result_count_reg k \<and>
       k_error_code_reg k = 0 \<and> k_status_reg k = ucast (phase_byte PHASE_DONE) \<or>
     type = MSG_ACK \<and> phase = PHASE_IDLE"
| "closing k (KError e) \<longleftrightarrow> e \<noteq> ERR_NONE \<and> k_error_code_reg k = ucast (error_byte e)"
| "closing k _ \<longleftrightarrow> False"

definition closes :: "KernelState \<Rightarrow> KernelState \<Rightarrow> bool" where
  "closes k k' \<longleftrightarrow> (\<exists>ms m. k_tx k' = k_tx k @ tx_of (ms @ [m]) \<and> closing k' m)"

definition outcome :: "KernelState \<Rightarrow> KernelState \<Rightarrow> bool" where
  "outcome k k' \<longleftrightarrow> runs k k' \<and> (k_session_done k' \<longrightarrow> closes k k')"

lemma runs_refl [simp, intro]: "runs k k"
  unfolding runs_def emits_def keeps_def by (auto intro: exI [of _ "[]"])

lemma runs_trans: "runs a b \<Longrightarrow> runs b c \<Longrightarrow> runs a c"
  unfolding runs_def emits_def keeps_def
  by (elim conjE exE, intro conjI exI [of _ "_ @ _"]) auto

lemma closes_trans: "runs a b \<Longrightarrow> closes b c \<Longrightarrow> closes a c"
  unfolding runs_def emits_def closes_def by (metis append.assoc tx_of_simps(2))

lemma outcome_trans: "runs a b \<Longrightarrow> outcome b c \<Longrightarrow> outcome a c"
  unfolding outcome_def by (blast intro: runs_trans closes_trans)

lemma outcome_runs: "outcome a b \<Longrightarrow> runs a b"
  by (simp add: outcome_def)

lemma runs_outcome: "runs a b \<Longrightarrow> \<not> k_session_done b \<Longrightarrow> outcome a b"
  by (simp add: outcome_def)

lemma outcome_same: "outcome a b \<Longrightarrow> k_tx a = k_tx a' \<Longrightarrow> k_ht a = k_ht a' \<Longrightarrow>
    k_result_buf a = k_result_buf a' \<Longrightarrow> k_ht_capacity_reg a = k_ht_capacity_reg a' \<Longrightarrow>
    k_rx_buf_cap_reg a = k_rx_buf_cap_reg a' \<Longrightarrow> outcome a' b"
  by (simp add: outcome_def runs_def emits_def keeps_def closes_def)

text \<open>Introduction by the messages sent.\<close>

lemma runsI:
  assumes "k_tx k' = k_tx k @ tx_of ms" "ht_inv (k_ht k) \<Longrightarrow> ht_inv (k_ht k')"
    "length (k_result_buf k) < 118 \<Longrightarrow> length (k_result_buf k') < 118"
    "k_ht_capacity_reg k' = k_ht_capacity_reg k" "k_rx_buf_cap_reg k' = k_rx_buf_cap_reg k"
  shows "runs k k'"
  using assms by (auto simp: runs_def emits_def keeps_def)

lemma outcomeI:
  assumes "k_tx k' = k_tx k @ tx_of (ms @ [m])" "closing k' m"
    "ht_inv (k_ht k) \<Longrightarrow> ht_inv (k_ht k')"
    "length (k_result_buf k) < 118 \<Longrightarrow> length (k_result_buf k') < 118"
    "k_ht_capacity_reg k' = k_ht_capacity_reg k" "k_rx_buf_cap_reg k' = k_rx_buf_cap_reg k"
  shows "outcome k k'"
  unfolding outcome_def closes_def using runsI [OF assms(1,3-6)] assms(1,2) by blast

section \<open>Algorithm A\<close>

lemma fail_session_outcome: "e \<noteq> ERR_NONE \<Longrightarrow> outcome k (fail_session e k)"
  by (rule outcomeI [of _ _ "[]" "KError e"]) (simp_all add: fail_session_def tx_messages)

lemma ht_inv_insert_any: "ht_inv h \<Longrightarrow> ht_inv (snd (ht_insert h key t))"
  using lht.build_all_ok [of h "[\<lparr>it_key = key, it_tid = t\<rparr>]"] by (simp split: prod.splits if_splits)

lemma inner_row_outcome: "\<not> k_session_done k \<Longrightarrow> outcome k (inner_row tu k)"
proof (cases "fst (ht_insert (k_ht k) (it_key tu) (it_tid tu)) = ERR_NONE")
  case True
  assume "\<not> k_session_done k"
  with True show ?thesis
    by (intro runs_outcome runsI [of _ _ "[]"]) (simp_all add: inner_row_result ht_inv_insert_any)
next
  case False
  then show ?thesis
    by (intro outcomeI [of _ _ "[]" "KError (fst (ht_insert (k_ht k) (it_key tu) (it_tid tu)))"])
      (simp_all add: inner_row_result ht_inv_insert_any)
qed

lemma inner_batch_outcome: "\<not> k_session_done k \<Longrightarrow> outcome k (inner_batch ts k)"
proof (induction ts arbitrary: k)
  case Nil
  then show ?case by (simp add: runs_outcome)
next
  case (Cons t ts)
  have row: "outcome k (inner_row t k)" using Cons.prems by (rule inner_row_outcome)
  show ?case
  proof (cases "k_session_done (inner_row t k)")
    case True
    then show ?thesis using row Cons.prems by (simp only: inner_batch.simps inner_batch_done if_False)
  next
    case False
    then show ?thesis
      using outcome_trans [OF outcome_runs [OF row] Cons.IH [OF False]] Cons.prems by (simp only: inner_batch.simps if_False)
  qed
qed

lemma build_ack_runs: "runs k (build_ack c k)"
  by (cases "k_ack_pending k + 1 \<ge> ACK_BATCH_FRAMES \<or> k_inner_received k \<ge> c_inner_total c")
    (rule runsI, simp only: build_ack_tx if_True, simp_all,
     rule runsI [of _ _ "[]"], simp_all add: build_ack_tx)

lemma debug_runs: "runs k (k\<lparr>k_tx := emit_debug synth (k_tx k) level code v\<rparr>)"
  by (rule runsI) (simp_all add: tx_messages)

lemma build_batch_outcome: "\<not> k_session_done k \<Longrightarrow> outcome k (build_batch synth c cnt ts k)"
proof -
  assume nd: "\<not> k_session_done k"
  define k1 where "k1 = (if cnt \<noteq> 0 then
    k\<lparr>k_tx := emit_debug synth (k_tx k) DBG_INFO DBG_BUILD_KEY (ucast (it_key (hd ts)))\<rparr> else k)"
  have "runs k k1" "\<not> k_session_done k1" using nd by (auto simp: k1_def debug_runs)
  then have o: "outcome k (inner_batch ts k1)" by (blast intro: outcome_trans inner_batch_outcome)
  have "build_batch synth c cnt ts k =
      (if k_session_done (inner_batch ts k1) then inner_batch ts k1 else build_ack c (inner_batch ts k1))"
    by (simp add: build_batch_def k1_def Let_def)
  then show ?thesis
    using o runs_trans [OF outcome_runs [OF o] build_ack_runs, of c] by (auto intro: runs_outcome)
qed


text \<open>The frame-boundary read: a time-out closes the session with an IDLE acknowledgement.\<close>

lemma rx_guard_loop_closing:
  "rx_guard_loop synth sid ctr s tx = Some (b, s', tx', d) \<Longrightarrow>
     if d then \<exists>ms. tx' = tx @ tx_of (ms @ [KStatus MSG_ACK PHASE_IDLE 0 0 512 sid]) else tx' = tx"
  by (induction synth sid ctr s tx rule: rx_guard_loop.induct)
    (auto simp: Let_def tx_messages split: if_splits)

lemma rx_byte_guarded_cases:
  obtains "rx_byte_guarded synth s tx sid = None"
  | b s' where "rx_byte_guarded synth s tx sid = Some (b, s', tx, False)"
  | b s' ms where "rx_byte_guarded synth s tx sid =
      Some (b, s', tx @ tx_of (ms @ [KStatus MSG_ACK PHASE_IDLE 0 0 512 sid]), True)"
proof (cases "rx_byte_guarded synth s tx sid")
  case None
  then show thesis by (rule that(1))
next
  case (Some x)
  then obtain b s' tx' d where x: "rx_byte_guarded synth s tx sid = Some (b, s', tx', d)"
    by (cases x) auto
  with rx_guard_loop_closing [of synth sid 0 s tx b s' tx' d] that(2,3) show thesis
    unfolding rx_byte_guarded_def by (cases d) auto
qed

lemma count_inner_frame_runs:
  "runs k (count_inner_frame c cnt k)" "runs k ((count_inner_frame c cnt k)\<lparr>k_rx := rx\<rparr>)"
  "k_session_done (count_inner_frame c cnt k) = k_session_done k"
  by (rule runsI [of _ _ "[]"]; simp add: count_inner_frame_def Let_def)+
    (simp add: count_inner_frame_def Let_def)

lemma build_dispatch_outcome:
  assumes "\<not> k_session_done k" "build_dispatch synth c msg cnt k = (f, k')"
  shows "outcome k k'"
proof -
  let ?k = "count_inner_frame c cnt k"
  note r = count_inner_frame_runs [where k = k and c = c and cnt = cnt]
  consider "msg = MSG_RESET" | "msg \<noteq> MSG_RESET" "msg \<noteq> MSG_INNER_DATA"
    | "msg = MSG_INNER_DATA" by auto
  then show ?thesis
  proof cases
    case 1
    then have "k' = ?k\<lparr>k_ht := ht_reset (k_ht ?k), k_status_reg := ucast (phase_byte PHASE_IDLE),
        k_tx := tx_status_frame (k_tx ?k) MSG_ACK PHASE_IDLE 0 0 0 (c_session_id c), k_session_done := True\<rparr>"
      using assms(2) by (simp add: build_dispatch_def Let_def)
    then have "outcome ?k k'"
      by (auto simp: tx_messages lht.ok_clear
          intro!: outcomeI [of _ _ "[]" "KStatus MSG_ACK PHASE_IDLE 0 0 0 (c_session_id c)"])
    then show ?thesis by (rule outcome_trans [OF r(1)])
  next
    case 2
    then have "k' = fail_session ERR_BAD_STATE ?k"
      using assms(2) by (simp add: build_dispatch_def Let_def)
    then show ?thesis by (auto intro: outcome_trans [OF r(1)] fail_session_outcome)
  next
    case 3
    have b: "outcome k (build_batch synth c cnt ts (?k\<lparr>k_rx := rx\<rparr>))" for ts rx
      using assms(1) r(3) outcome_trans [OF r(2) build_batch_outcome] by simp
    show ?thesis
      using 3 assms r b by (auto simp: build_dispatch_def Let_def runs_outcome split: rx_result.splits)
  qed
qed

lemma header_runs: "runs k (k\<lparr>k_rx := rx, k_tx := k_tx k\<rparr>)"
  by (rule runsI [of _ _ "[]"]) simp_all

lemma timeout_outcome:
  "outcome k (k\<lparr>k_rx := rx, k_tx := k_tx k @ tx_of (ms @ [KStatus MSG_ACK PHASE_IDLE 0 0 512 sid]),
     k_session_done := True\<rparr>)"
  by (rule outcomeI [of _ _ ms "KStatus MSG_ACK PHASE_IDLE 0 0 512 sid"]) simp_all

lemma build_frame_outcome:
  assumes "\<not> k_session_done k" "build_frame synth c k = (f, k')"
  shows "outcome k k'"
proof (cases rule: rx_byte_guarded_cases [of synth "k_rx k" "k_tx k" "c_session_id c"])
  case 1
  with assms show ?thesis by (auto simp: build_frame_def intro: runs_outcome)
next
  case (3 b s' ms)
  with assms have "k' = k\<lparr>k_rx := s', k_tx := k_tx k @
      tx_of (ms @ [KStatus MSG_ACK PHASE_IDLE 0 0 512 (c_session_id c)]), k_session_done := True\<rparr>"
    by (simp add: build_frame_def)
  then show ?thesis by (simp only: timeout_outcome)
next
  case (2 b s')
  with assms show ?thesis
    by (auto simp: build_frame_def runs_outcome split: option.splits
        intro: outcome_trans [OF header_runs build_dispatch_outcome])
qed

lemma build_frame_loop_outcome:
  "\<not> k_session_done k \<Longrightarrow> build_frame_loop synth c frame k = (f, k') \<Longrightarrow> outcome k k'"
proof (induction synth c frame k rule: build_frame_loop.induct)
  case (1 synth c frame k)
  obtain f1 k1 where fr: "build_frame synth c k = (f1, k1)" by fastforce
  have o: "outcome k k1" using 1(2) fr by (rule build_frame_outcome)
  show ?case
  proof (cases "\<not> frame \<le> HT_MAX_ROWS + 1 \<or> k_inner_received k \<ge> c_inner_total c")
    case True
    with 1(2,3) show ?thesis by (subst (asm) build_frame_loop.simps) (auto split: if_splits intro: runs_outcome)
  next
    case False
    then have eq: "(f, k') = (case f1 of Continue \<Rightarrow> build_frame_loop synth c (frame + 1) k1
        | Break \<Rightarrow> (Continue, k1) | _ \<Rightarrow> (f1, k1))"
      using 1(2,3) fr by (subst (asm) build_frame_loop.simps) (simp split: flow.splits)
    show ?thesis
    proof (cases "f1 = Continue \<and> \<not> k_session_done k1")
      case True
      then have "outcome k1 k'" using 1(1) [of f1 k1] 1(2) False fr eq by auto
      then show ?thesis using o by (blast intro: outcome_trans outcome_runs)
    next
      case stop: False
      have "build_frame_loop synth c (frame + 1) k1 = (Continue, k1)" if "k_session_done k1"
        using that by (subst build_frame_loop.simps) simp
      with stop eq o show ?thesis by (auto split: flow.splits)
    qed
  qed
qed


lemma flush_runs: "runs k (flush_result_batch k)"
  by (rule runsI [of _ _ "result_msgs (k_result_buf k)"]) simp_all

lemma outer_row_runs: "runs k (outer_row synth i tu k)"
proof -
  obtain found steps where p: "ht_probe (k_ht k) (it_key tu) = (found, steps)" by fastforce
  define d where "d = (if i = 0 then debug_msgs synth DBG_INFO DBG_PROBE_HIT
    ((if found \<noteq> None then 0x80000000 else 0) OR (ucast (it_key tu) AND 0x7fffffff)) else [])"
  define buf where "buf = k_result_buf k @ (case found of None \<Rightarrow> [] | Some t \<Rightarrow> [\<lparr>inner_tid = t, outer_tid = it_tid tu\<rparr>])"
  have tx: "k_tx (outer_row synth i tu k) = k_tx k @ tx_of (d @ (if length buf \<ge> 118 \<and> found \<noteq> None then [KResult buf] else []))"
    and rb: "k_result_buf (outer_row synth i tu k) = (if length buf \<ge> 118 \<and> found \<noteq> None then [] else buf)"
    by (auto simp: outer_row_def p Let_def tx_messages result_msgs_def d_def buf_def split: option.split)
  show ?thesis by (rule runsI [OF tx]) (auto simp: rb buf_def split: option.splits)
qed

lemma outer_batch_runs: "runs k (outer_batch synth i ts k)"
  by (induction synth i ts k rule: outer_batch.induct) (simp_all add: runs_trans [OF outer_row_runs])

lemma probe_end_outcome: "outcome k (probe_end rtl c k)"
  by (rule outcomeI [of _ _ "[KTiming (k_timing (probe_end rtl c k))]"
        "KStatus MSG_STATUS PHASE_DONE (k_outer_received k) (k_matched k) 0 (c_session_id c)"])
    (simp_all add: probe_end_def Let_def tx_messages)

lemma probe_ack_runs: "runs k (probe_ack c credit k)"
  by (cases "k_ack_pending k \<ge> ACK_BATCH_FRAMES")
    (rule runsI, simp only: probe_ack_fields if_True, simp_all add: probe_ack_def Let_def,
     rule runsI [of _ _ "[]"], simp_all)

lemma ack_pending_runs: "runs k (k\<lparr>k_ack_pending := x\<rparr>)"
  by (rule runsI [of _ _ "[]"]) simp_all

lemma probe_close_outcome: "\<not> k_session_done k \<Longrightarrow> outcome k (probe_close rtl c cnt k)"
  using outcome_trans [OF runs_trans [OF flush_runs ack_pending_runs] probe_end_outcome, of k]
    runs_trans [OF ack_pending_runs probe_ack_runs, of k]
  by (auto simp: probe_close_def Let_def runs_outcome)

lemma probe_batch_outcome: "\<not> k_session_done k \<Longrightarrow> outcome k (probe_batch synth rtl c cnt ts k)"
proof -
  assume nd: "\<not> k_session_done k"
  define k1 where "k1 = (if cnt \<noteq> 0 then
    k\<lparr>k_tx := emit_debug synth (k_tx k) DBG_INFO DBG_PROBE_KEY (ucast (it_key (hd ts)))\<rparr> else k)"
  have r: "runs k k1" "\<not> k_session_done k1" using nd by (auto simp: k1_def debug_runs)
  have "outcome k (probe_close rtl c cnt (outer_batch synth 0 us k1))" for us
    using outcome_trans [OF runs_trans [OF r(1) outer_batch_runs] probe_close_outcome] r(2) by simp
  then show ?thesis unfolding probe_batch_def Let_def k1_def [symmetric] by simp
qed

lemma count_outer_frame_runs:
  "runs k (count_outer_frame c cnt k)" "runs k ((count_outer_frame c cnt k)\<lparr>k_rx := rx\<rparr>)"
  "k_session_done (count_outer_frame c cnt k) = k_session_done k"
  by (rule runsI [of _ _ "[]"]; simp add: count_outer_frame_def Let_def)+
    (simp add: count_outer_frame_def Let_def)

lemma probe_dispatch_outcome:
  assumes "\<not> k_session_done k" "probe_dispatch synth rtl c msg cnt k = (f, k')"
  shows "outcome k k'"
proof -
  let ?k = "count_outer_frame c cnt k"
  note r = count_outer_frame_runs [where k = k and c = c and cnt = cnt]
  consider "msg = MSG_RESET" | "msg \<noteq> MSG_RESET" "msg \<noteq> MSG_OUTER_DATA"
    | "msg = MSG_OUTER_DATA" by auto
  then show ?thesis
  proof cases
    case 1
    let ?f = "flush_result_batch ?k"
    have "k' = ?f\<lparr>k_ht := ht_reset (k_ht ?f), k_status_reg := ucast (phase_byte PHASE_IDLE),
        k_tx := tx_status_frame (k_tx ?f) MSG_ACK PHASE_IDLE (k_outer_received ?f) (k_matched ?f) 0
          (c_session_id c), k_session_done := True\<rparr>"
      using 1 assms(2) by (simp add: probe_dispatch_def Let_def)
    then have "outcome ?f k'"
      by (auto simp: tx_messages lht.ok_clear intro!: outcomeI [of _ _ "[]"
          "KStatus MSG_ACK PHASE_IDLE (k_outer_received ?f) (k_matched ?f) 0 (c_session_id c)"])
    then show ?thesis by (rule outcome_trans [OF runs_trans [OF r(1) flush_runs]])
  next
    case 2
    then have "k' = fail_session ERR_INVALID_CMD ?k"
      using assms(2) by (simp add: probe_dispatch_def Let_def)
    then show ?thesis by (auto intro: outcome_trans [OF r(1)] fail_session_outcome)
  next
    case 3
    have b: "outcome k (probe_batch synth rtl c cnt ts (?k\<lparr>k_rx := rx\<rparr>))" for ts rx
      using assms(1) r(3) outcome_trans [OF r(2) probe_batch_outcome] by simp
    show ?thesis
      using 3 assms r b by (auto simp: probe_dispatch_def Let_def runs_outcome split: rx_result.splits)
  qed
qed

lemma probe_frame_outcome:
  assumes "\<not> k_session_done k" "probe_frame synth rtl c k = (f, k')"
  shows "outcome k k'"
proof (cases rule: rx_byte_guarded_cases [of synth "k_rx k" "k_tx k" "c_session_id c"])
  case 1
  with assms show ?thesis by (auto simp: probe_frame_def intro: runs_outcome)
next
  case (3 b s' ms)
  with assms have "k' = k\<lparr>k_rx := s', k_tx := k_tx k @
      tx_of (ms @ [KStatus MSG_ACK PHASE_IDLE 0 0 512 (c_session_id c)]), k_session_done := True\<rparr>"
    by (simp add: probe_frame_def)
  then show ?thesis by (simp only: timeout_outcome)
next
  case (2 b s')
  with assms show ?thesis
    by (auto simp: probe_frame_def runs_outcome split: option.splits
        intro: outcome_trans [OF header_runs probe_dispatch_outcome])
qed

lemma probe_frame_loop_outcome:
  "\<not> k_session_done k \<Longrightarrow> probe_frame_loop synth rtl c frame k = (f, k') \<Longrightarrow> outcome k k'"
proof (induction synth rtl c frame k rule: probe_frame_loop.induct)
  case (1 synth rtl c frame k)
  obtain f1 k1 where fr: "probe_frame synth rtl c k = (f1, k1)" by fastforce
  have o: "outcome k k1" using 1(2) fr by (rule probe_frame_outcome)
  show ?case
  proof (cases "\<not> frame < 1000000 \<or> k_outer_received k \<ge> c_outer_total c")
    case True
    with 1(2,3) show ?thesis
      by (subst (asm) probe_frame_loop.simps) (auto split: if_splits intro: runs_outcome)
  next
    case False
    then have eq: "(f, k') = (case f1 of Continue \<Rightarrow> probe_frame_loop synth rtl c (frame + 1) k1
        | Break \<Rightarrow> (Continue, k1) | _ \<Rightarrow> (f1, k1))"
      using 1(2,3) fr by (subst (asm) probe_frame_loop.simps) (simp split: flow.splits)
    show ?thesis
    proof (cases "f1 = Continue \<and> \<not> k_session_done k1")
      case True
      then have "outcome k1 k'" using 1(1) [of f1 k1] 1(2) False fr eq by auto
      then show ?thesis using o by (blast intro: outcome_trans outcome_runs)
    next
      case stop: False
      have "probe_frame_loop synth rtl c (frame + 1) k1 = (Continue, k1)" if "k_session_done k1"
        using that by (subst probe_frame_loop.simps) simp
      with stop eq o show ?thesis by (auto split: flow.splits)
    qed
  qed
qed

lemma algorithm_a_outcome:
  assumes "\<not> k_session_done k" "algorithm_a synth rtl c k = (f, k')"
  shows "outcome k k'"
proof -
  let ?k0 = "k\<lparr>k_ht := ht_reset (k_ht k), k_inner_received := 0, k_ack_pending := 0\<rparr>"
  obtain f1 k1 where b: "build_frame_loop synth c 0 ?k0 = (f1, k1)" by fastforce
  let ?k2 = "k1\<lparr>k_tx := emit_debug synth (k_tx k1) DBG_INFO DBG_BUILD_DONE (k_inner_received k1),
    k_status_reg := ucast (phase_byte PHASE_PROBING), k_outer_received := 0, k_ack_pending := 0\<rparr>"
  have "runs k ?k0" by (rule runsI [of _ _ "[]"]) (simp_all add: lht.ok_clear)
  then have o: "outcome k k1"
    using build_frame_loop_outcome [OF _ b] assms(1) by (auto intro: outcome_trans)
  have "runs k1 ?k2" by (rule runsI) (simp_all add: tx_messages)
  then have r2: "runs k ?k2" using o by (blast intro: runs_trans outcome_runs)
  have "(f, k') = (if f1 = Continue \<and> \<not> k_session_done k1 then probe_frame_loop synth rtl c 0 ?k2 else (f1, k1))"
    using assms(2) b by (auto simp: algorithm_a_def split: flow.splits if_splits)
  then show ?thesis
    using o outcome_trans [OF r2 probe_frame_loop_outcome [OF _ sym]] by (simp split: if_splits)
qed

section \<open>Algorithm B\<close>

text \<open>A phase of the Grace engine that fails has told the host so.\<close>

definition gcloses :: "FpgaError \<Rightarrow> KernelState \<Rightarrow> KernelState \<Rightarrow> bool" where
  "gcloses e k k' \<longleftrightarrow> (\<exists>ms m. k_tx k' = k_tx k @ tx_of (ms @ [m]) \<and>
     (m = KError e \<or> (\<exists>sid. m = KStatus MSG_ACK PHASE_IDLE 0 0 0 sid)))"

definition goutcome :: "gflow \<Rightarrow> KernelState \<Rightarrow> KernelState \<Rightarrow> bool" where
  "goutcome f k k' \<longleftrightarrow> runs k k' \<and> k_session_done k' = k_session_done k \<and>
     (case f of GRet e \<Rightarrow> e \<noteq> ERR_NONE \<longrightarrow> gcloses e k k' | _ \<Rightarrow> True)"

lemma gcloses_trans: "runs a b \<Longrightarrow> gcloses e b c \<Longrightarrow> gcloses e a c"
  unfolding runs_def emits_def gcloses_def by (metis append.assoc tx_of_simps(2))

lemma goutcome_trans:
  "runs a b \<Longrightarrow> k_session_done b = k_session_done a \<Longrightarrow> goutcome f b c \<Longrightarrow> goutcome f a c"
  unfolding goutcome_def by (auto split: gflow.splits intro: runs_trans gcloses_trans)

lemma goutcome_refl [simp]:
  "goutcome GBlocked k k" "goutcome GNext k k" "goutcome (GRet ERR_NONE) k k"
  by (simp_all add: goutcome_def)

lemma goutcome_msg:
  assumes "k_tx k' = k_tx k @ tx_of [m]" "m = KError e \<or> (\<exists>sid. m = KStatus MSG_ACK PHASE_IDLE 0 0 0 sid)"
    "k' = k\<lparr>k_rx := rx, k_tx := tx\<rparr>"
  shows "goutcome (GRet e) k k'"
proof -
  have "gcloses e k k'"
    unfolding gcloses_def using assms(1,2) by (intro exI [of _ "[]"] exI [of _ m]) simp
  moreover have "runs k k'" by (rule runsI [OF assms(1)]) (simp_all add: assms(3))
  ultimately show ?thesis unfolding goutcome_def using assms(3) by simp
qed

lemma goutcome_error: "goutcome (GRet e) k (k\<lparr>k_rx := rx, k_tx := tx_error (k_tx k) e\<rparr>)"
  by (rule goutcome_msg [of _ _ "KError e"]) (simp_all add: tx_messages)

lemma goutcome_idle:
  "goutcome (GRet e) k (k\<lparr>k_rx := rx, k_tx := tx_status_frame (k_tx k) MSG_ACK PHASE_IDLE 0 0 0 sid\<rparr>)"
  by (rule goutcome_msg [of _ _ "KStatus MSG_ACK PHASE_IDLE 0 0 0 sid"]) (simp_all add: tx_messages)

lemma build_inner_tuple_loop_outcome:
  "build_inner_tuple_loop keytype K n k = (f, k') \<Longrightarrow> goutcome f k k'"
proof (induction n arbitrary: k)
  case (Suc n)
  show ?case
  proof (cases "rx_tuple keytype (k_rx k)")
    case None
    with Suc.prems show ?thesis by auto
  next
    case (Some x)
    obtain t rx where x: "x = (t, rx)" by fastforce
    let ?p = "partition_of (it_key t) K"
    let ?k = "k\<lparr>k_rx := rx,
      k_ddr2_buf := pack_tuple (k_ddr2_buf k) (inner_slot_idx ?p (k_inner_counts k ?p)) t,
      k_inner_counts := (k_inner_counts k)(?p := k_inner_counts k ?p + 1),
      k_inner_received := k_inner_received k + 1\<rparr>"
    show ?thesis
    proof (cases "k_inner_counts k ?p \<ge> HT_MAX_ROWS")
      case True
      with Suc.prems Some x show ?thesis
        by (auto simp: Let_def goutcome_error split: option.splits)
    next
      case False
      then have "build_inner_tuple_loop keytype K n ?k = (f, k')"
        using Suc.prems Some x by (simp add: Let_def)
      from Suc.IH [OF this] show ?thesis
        by (rule goutcome_trans [rotated 2]) (auto intro: runsI [of _ _ "[]"])
    qed
  qed
qed auto

lemma build_outer_tuple_loop_outcome:
  "build_outer_tuple_loop keytype K w n k = (f, k') \<Longrightarrow> goutcome f k k'"
proof (induction n arbitrary: k)
  case (Suc n)
  show ?case
  proof (cases "rx_tuple keytype (k_rx k)")
    case None
    with Suc.prems show ?thesis by auto
  next
    case (Some x)
    obtain t rx where x: "x = (t, rx)" by fastforce
    let ?p = "partition_of (it_key t) K"
    let ?k = "k\<lparr>k_rx := rx,
      k_ddr2_buf := pack_tuple (k_ddr2_buf k) (outer_slot_idx w ?p (k_outer_counts k ?p)) t,
      k_outer_counts := (k_outer_counts k)(?p := k_outer_counts k ?p + 1),
      k_outer_received := k_outer_received k + 1\<rparr>"
    show ?thesis
    proof (cases "k_outer_counts k ?p \<ge> w div GRACE_WORDS_PER_TUPLE")
      case True
      with Suc.prems Some x show ?thesis
        by (auto simp: Let_def goutcome_error split: option.splits)
    next
      case False
      then have "build_outer_tuple_loop keytype K w n ?k = (f, k')"
        using Suc.prems Some x by (simp add: Let_def)
      from Suc.IH [OF this] show ?thesis
        by (rule goutcome_trans [rotated 2]) (auto intro: runsI [of _ _ "[]"])
    qed
  qed
qed auto

lemma rx_runs: "runs k (k\<lparr>k_rx := rx\<rparr>)"
  by (rule runsI [of _ _ "[]"]) simp_all

lemma status_runs: "runs k (k\<lparr>k_tx := tx_status_frame (k_tx k) a b c d e f\<rparr>)"
  by (rule runsI [of _ _ "[KStatus a b c d e f]"]) (simp_all add: tx_messages)

lemma build_inner_frame_outcome:
  assumes "build_inner_frame c k = (f, k')" shows "goutcome f k k'"
proof (cases "do { (msg_type, rx) \<leftarrow> rx_byte (k_rx k); (cnt, rx) \<leftarrow> rx_u16 rx; Some (msg_type, cnt, rx) }")
  case None
  with assms show ?thesis by (auto simp: build_inner_frame_def)
next
  case (Some x)
  obtain msg cnt rx where x: "x = (msg, cnt, rx)" by (cases x)
  obtain f1 k1 where l: "build_inner_tuple_loop (c_keytype c) (c_K c) (unat cnt) (k\<lparr>k_rx := rx\<rparr>) = (f1, k1)"
    by fastforce
  then have o: "goutcome f1 k k1"
    by (intro goutcome_trans [OF rx_runs _ build_inner_tuple_loop_outcome]) simp_all
  consider "msg = MSG_RESET" | "msg \<noteq> MSG_RESET" "msg \<noteq> MSG_INNER_DATA" | "msg = MSG_INNER_DATA" by auto
  then show ?thesis
  proof cases
    case 3
    with assms Some x l o show ?thesis
      by (auto simp: build_inner_frame_def Let_def goutcome_def status_runs split: gflow.splits
          intro: runs_trans)
  qed (use assms Some x in \<open>auto simp: build_inner_frame_def goutcome_idle [simplified] goutcome_error\<close>)
qed

lemma build_outer_frame_outcome:
  assumes "build_outer_frame c k = (f, k')" shows "goutcome f k k'"
proof (cases "do { (msg_type, rx) \<leftarrow> rx_byte (k_rx k); (cnt, rx) \<leftarrow> rx_u16 rx; Some (msg_type, cnt, rx) }")
  case None
  with assms show ?thesis by (auto simp: build_outer_frame_def)
next
  case (Some x)
  obtain msg cnt rx where x: "x = (msg, cnt, rx)" by (cases x)
  obtain f1 k1 where l: "build_outer_tuple_loop (c_keytype c) (c_K c) (c_outer_slot_w c) (unat cnt)
      (k\<lparr>k_rx := rx\<rparr>) = (f1, k1)"
    by fastforce
  then have o: "goutcome f1 k k1"
    by (intro goutcome_trans [OF rx_runs _ build_outer_tuple_loop_outcome]) simp_all
  consider "msg = MSG_RESET" | "msg \<noteq> MSG_RESET" "msg \<noteq> MSG_OUTER_DATA" | "msg = MSG_OUTER_DATA" by auto
  then show ?thesis
  proof cases
    case 3
    with assms Some x l o show ?thesis
      by (auto simp: build_outer_frame_def Let_def goutcome_def status_runs split: gflow.splits
          intro: runs_trans)
  qed (use assms Some x in \<open>auto simp: build_outer_frame_def goutcome_idle [simplified] goutcome_error\<close>)
qed

lemma build_inner_frame_loop_outcome:
  "build_inner_frame_loop c frame k = (f, k') \<Longrightarrow> goutcome f k k'"
proof (induction c frame k rule: build_inner_frame_loop.induct)
  case (1 c frame k)
  obtain f1 k1 where fr: "build_inner_frame c k = (f1, k1)" by fastforce
  note o = build_inner_frame_outcome [OF fr]
  show ?case
  proof (cases "\<not> frame \<le> c_inner_total c div 1 + 1 \<or> k_inner_received k \<ge> c_inner_total c")
    case True
    with 1(2) show ?thesis by (subst (asm) build_inner_frame_loop.simps) (auto split: if_splits)
  next
    case False
    then have "(f, k') = (if f1 = GNext then build_inner_frame_loop c (frame + 1) k1 else (f1, k1))"
      using 1(2) fr by (subst (asm) build_inner_frame_loop.simps) (auto split: gflow.splits)
    then show ?thesis
      using o 1(1) [of f1 k1] False fr
      by (auto simp: goutcome_def [of GNext] split: if_splits intro: goutcome_trans)
  qed
qed

lemma build_outer_frame_loop_outcome:
  "build_outer_frame_loop c frame k = (f, k') \<Longrightarrow> goutcome f k k'"
proof (induction c frame k rule: build_outer_frame_loop.induct)
  case (1 c frame k)
  obtain f1 k1 where fr: "build_outer_frame c k = (f1, k1)" by fastforce
  note o = build_outer_frame_outcome [OF fr]
  show ?case
  proof (cases "\<not> frame \<le> c_outer_total c div 1 + 1 \<or> k_outer_received k \<ge> c_outer_total c")
    case True
    with 1(2) show ?thesis by (subst (asm) build_outer_frame_loop.simps) (auto split: if_splits)
  next
    case False
    then have "(f, k') = (if f1 = GNext then build_outer_frame_loop c (frame + 1) k1 else (f1, k1))"
      using 1(2) fr by (subst (asm) build_outer_frame_loop.simps) (auto split: gflow.splits)
    then show ?thesis
      using o 1(1) [of f1 k1] False fr
      by (auto simp: goutcome_def [of GNext] split: if_splits intro: goutcome_trans)
  qed
qed


lemma join_probe_loop_messages:
  "join_probe_loop ht ts tx buf m = (tx', buf', m') \<Longrightarrow> \<exists>ms. tx' = tx @ tx_of ms"
proof (induction ts arbitrary: tx buf m)
  case Nil
  then show ?case by (auto intro: exI [of _ "[]"])
next
  case (Cons t ts)
  show ?case
  proof (cases "ht_lookup ht (it_key t)")
    case None
    with Cons show ?thesis by simp
  next
    case (Some i)
    let ?buf = "buf @ [\<lparr>inner_tid = i, outer_tid = it_tid t\<rparr>]"
    obtain ms where "tx' = (if of_nat (length ?buf) = (ucast TX_BUF_SIZE :: u16) then tx_results tx ?buf else tx)
        @ tx_of ms"
      using Cons.prems Some
        Cons.IH [of "tx_results tx ?buf" "[]" "m + 1"] Cons.IH [of tx ?buf "m + 1"]
      by (auto simp: Let_def split: if_splits)
    then show ?thesis
      by (intro exI [of _ "(if of_nat (length ?buf) = (ucast TX_BUF_SIZE :: u16) then result_msgs ?buf else []) @ ms"])
        (auto simp: tx_messages)
  qed
qed

lemma join_partition_outcome:
  assumes "join_partition c p k = (e, k')"
  shows "goutcome (GRet e) k k'"
proof -
  let ?in = "slot_rows (k_ddr2_buf k) (inner_slot_idx p) (k_inner_counts k p)"
  let ?out = "slot_rows (k_ddr2_buf k) (outer_slot_idx (c_outer_slot_w c) p) (k_outer_counts k p)"
  obtain e1 ht where b: "build_all ht_insert (ht_reset (k_ht k)) ?in = (e1, ht)" by fastforce
  have inv: "ht_inv ht" using lht.build_all_ok [OF lht.ok_clear, of "k_ht k" ?in] b by simp
  obtain tx buf m where l: "join_probe_loop ht ?out (k_tx k) [] (k_matched k) = (tx, buf, m)"
    by (cases "join_probe_loop ht ?out (k_tx k) [] (k_matched k)")
  obtain ms where ms: "tx = k_tx k @ tx_of ms" using join_probe_loop_messages [OF l] by blast
  show ?thesis
  proof (cases "e1 = ERR_NONE")
    case True
    then have "e = ERR_NONE"
      and k': "k' = k\<lparr>k_ht := ht, k_matched := m, k_tx := (if length buf > 0 then tx_results tx buf else tx)\<rparr>"
      using assms b l by (auto simp: join_partition_def)
    moreover have "runs k k'"
      by (rule runsI [of _ _ "ms @ result_msgs buf"])
        (auto simp: k' ms tx_messages inv result_msgs_def)
    ultimately show ?thesis by (simp add: goutcome_def)
  next
    case False
    then have e: "e = e1" and k': "k' = k\<lparr>k_ht := ht, k_tx := k_tx k @ tx_of [KError e1]\<rparr>"
      using assms b by (auto simp: join_partition_def tx_messages)
    moreover have "runs k k'" by (rule runsI [of _ _ "[KError e1]"]) (simp_all add: k' inv)
    moreover have "gcloses e k k'"
      unfolding gcloses_def by (intro exI [of _ "[]"] exI [of _ "KError e"]) (simp add: k' e)
    ultimately show ?thesis by (simp add: goutcome_def)
  qed
qed

lemma join_partition_loop_outcome:
  "join_partition_loop c ps k = (e, k') \<Longrightarrow> goutcome (GRet e) k k'"
proof (induction ps arbitrary: k)
  case (Cons p ps)
  obtain e1 k1 where j: "join_partition c p k = (e1, k1)" by fastforce
  note o = join_partition_outcome [OF j]
  show ?case
  proof (cases "e1 = ERR_NONE")
    case True
    then have "join_partition_loop c ps k1 = (e, k')" using Cons.prems j by simp
    then have "goutcome (GRet e) k1 k'" by (rule Cons.IH)
    with o show ?thesis by (auto simp: goutcome_def [of "GRet e1"] intro: goutcome_trans)
  next
    case False
    with Cons.prems j o show ?thesis by simp
  qed
qed simp

lemma goutcome_result:
  assumes "goutcome (GRet e) k k'" "\<not> k_session_done k"
  shows "outcome k (grace_result e k')"
proof (cases "e = ERR_NONE")
  case True
  with assms show ?thesis by (simp add: grace_result_def goutcome_def runs_outcome)
next
  case False
  let ?k = "grace_result e k'"
  have k: "?k = k'\<lparr>k_error_code_reg := ucast (error_byte e), k_session_done := True\<rparr>"
    using False by (simp add: grace_result_def)
  have r: "runs k ?k" using assms(1) by (simp add: k goutcome_def runs_def emits_def keeps_def)
  obtain ms m where m: "k_tx k' = k_tx k @ tx_of (ms @ [m])"
      "m = KError e \<or> (\<exists>sid. m = KStatus MSG_ACK PHASE_IDLE 0 0 0 sid)"
    using assms(1) False by (auto simp: goutcome_def gcloses_def)
  have "closing ?k m" using m(2) False by (auto simp: k)
  then have "closes k ?k" using m(1) unfolding closes_def by (intro exI [of _ ms] exI [of _ m]) (simp add: k)
  with r show ?thesis by (simp add: outcome_def)
qed

lemma algorithm_b_outcome:
  assumes nd: "\<not> k_session_done k" and b: "algorithm_b c k = (f, k')"
  shows "outcome k k'"
proof -
  let ?k0 = "k\<lparr>k_inner_counts := reset_counts (k_inner_counts k),
      k_outer_counts := reset_counts (k_outer_counts k), k_inner_received := 0\<rparr>"
  obtain f1 k1 where p1: "build_inner_partitions c k = (f1, k1)" by fastforce
  have "runs k ?k0" by (rule runsI [of _ _ "[]"]) simp_all
  then have o1: "goutcome f1 k k1"
    using p1 unfolding build_inner_partitions_def
    by (auto intro: goutcome_trans build_inner_frame_loop_outcome)
  show ?thesis
  proof (cases f1)
    case (GRet e1)
    let ?k1 = "grace_result e1 k1"
    have r1: "outcome k ?k1" using o1 nd by (simp add: GRet goutcome_result)
    show ?thesis
    proof (cases "k_session_done ?k1")
      case True
      with b p1 GRet r1 show ?thesis by (simp add: algorithm_b_def Let_def)
    next
      case nd1: False
      let ?k2 = "?k1\<lparr>k_status_reg := ucast (phase_byte PHASE_PROBING)\<rparr>"
      obtain f3 k3 where p2: "build_outer_partitions c ?k2 = (f3, k3)" by fastforce
      have "runs ?k1 (?k2\<lparr>k_outer_received := 0\<rparr>)" by (rule runsI [of _ _ "[]"]) simp_all
      then have o2: "goutcome f3 ?k1 k3"
        using p2 unfolding build_outer_partitions_def
        by (auto intro: goutcome_trans build_outer_frame_loop_outcome)
      show ?thesis
      proof (cases f3)
        case (GRet e3)
        let ?k3 = "grace_result e3 k3"
        have r3: "outcome ?k1 ?k3" using o2 nd1 by (simp add: GRet goutcome_result)
        obtain e4 k4 where p3: "join_all_partitions c ?k3 = (e4, k4)" by fastforce
        have "runs ?k3 (?k3\<lparr>k_matched := 0\<rparr>)" by (rule runsI [of _ _ "[]"]) simp_all
        then have "goutcome (GRet e4) ?k3 k4"
          using p3 unfolding join_all_partitions_def
          by (auto intro: goutcome_trans join_partition_loop_outcome)
        then have "\<not> k_session_done ?k3 \<Longrightarrow> outcome ?k3 (grace_result e4 k4)" by (rule goutcome_result)
        moreover have "k' = (if k_session_done ?k3 then ?k3 else grace_result e4 k4)"
          using b p1 \<open>f1 = GRet e1\<close> nd1 p2 GRet p3
          by (auto simp: algorithm_b_def Let_def split: if_splits)
        ultimately show ?thesis
          using r1 r3 by (auto intro: outcome_trans outcome_runs)
      qed (use b p1 \<open>f1 = GRet e1\<close> nd1 p2 o2 r1 in
            \<open>auto simp: algorithm_b_def Let_def goutcome_def outcome_def intro: runs_trans\<close>)
    qed
  qed (use b p1 o1 nd in \<open>auto simp: algorithm_b_def goutcome_def runs_outcome\<close>)
qed

section \<open>Sessions\<close>

lemma accept_configure_outcome:
  assumes "\<not> k_session_done k" "accept_configure synth p k = (c, k')"
  shows "outcome k k'"
proof -
  obtain a kt ni no sid where p: "p = (a, kt, ni, no, sid)" by (cases p)
  obtain e K w where chk: "check_configure a ni no = (e, K, w)" by (cases "check_configure a ni no")
  show ?thesis
  proof (cases "e = ERR_NONE")
    case True
    note acc = accept_configure_ok [OF chk [unfolded True], of synth kt sid k]
    have "runs k k'"
      using assms(2) p by (intro runsI [of _ _ "debug_msgs synth DBG_INFO DBG_CONFIGURE ni @
          [KStatus MSG_ACK PHASE_BUILDING 0 0 512 sid]"])
        (auto simp: accept_configure_def chk True Let_def tx_messages)
    moreover have "\<not> k_session_done k'" using acc(3) assms p by simp
    ultimately show ?thesis by (rule runs_outcome)
  next
    case False
    let ?k1 = "k\<lparr>k_timing := (k_timing k)\<lparr>t_inner_rows := ni, t_outer_rows := no,
        t_bytes_rx := t_bytes_rx (k_timing k) + 16, t_config_cycles := t_config_cycles (k_timing k) + 16\<rparr>,
      k_result_count_reg := no, k_tx := emit_debug synth (k_tx k) DBG_INFO DBG_CONFIGURE ni\<rparr>"
    have "runs k ?k1" by (rule runsI) (simp_all add: tx_messages)
    moreover have "k' = fail_session e ?k1"
      using assms(2) False by (auto simp: p accept_configure_def chk Let_def)
    ultimately show ?thesis using False by (auto intro: outcome_trans fail_session_outcome)
  qed
qed

lemma configure_phase_outcome:
  assumes "\<not> k_session_done k" "configure_phase synth k = (f, c, k')"
  shows "outcome k k'"
proof (cases rule: rx_byte_guarded_cases [of synth "k_rx k" "k_tx k" 0])
  case 1
  with assms show ?thesis by (auto simp: configure_phase_def intro: runs_outcome)
next
  case (3 b s' ms)
  with assms have "k' = k\<lparr>k_rx := s', k_tx := k_tx k @ tx_of (ms @ [KStatus MSG_ACK PHASE_IDLE 0 0 512 0]),
      k_session_done := True\<rparr>"
    by (simp add: configure_phase_def)
  then show ?thesis by (simp only: timeout_outcome)
next
  case g: (2 b s')
  show ?thesis
  proof (cases "rx_u16 s'")
    case None
    with g assms show ?thesis by (auto simp: configure_phase_def intro: runs_outcome)
  next
    case (Some x)
    obtain cnt rx where x: "rx_u16 s' = Some (cnt, rx)" using Some by (cases x) auto
    let ?k = "k\<lparr>k_rx := rx, k_tx := k_tx k\<rparr>"
    have r: "runs k ?k" "runs k (?k\<lparr>k_rx := s\<rparr>)" for s by (rule runsI [of _ _ "[]"]; simp)+
    consider "b = MSG_RESET" | "b \<noteq> MSG_RESET" "b \<noteq> MSG_CONFIGURE \<or> cnt \<noteq> 1" | "b = MSG_CONFIGURE" "cnt = 1"
      by auto
    then show ?thesis
    proof cases
      case 1
      have "k' = ?k\<lparr>k_tx := tx_status_frame (emit_debug synth (k_tx k) DBG_INFO DBG_RESET 0)
          MSG_ACK PHASE_IDLE 0 0 (ucast RX_CREDIT_TUPLES) 0,
          k_ht := ht_reset (k_ht k), k_session_done := True\<rparr>"
        using 1 assms(2) g x by (simp add: configure_phase_def Let_def)
      then show ?thesis
        by (auto simp: tx_messages lht.ok_clear
            intro!: outcomeI [of _ _ "debug_msgs synth DBG_INFO DBG_RESET 0" "KStatus MSG_ACK PHASE_IDLE 0 0 512 0"])
    next
      case 2
      then have "k' = fail_session ERR_INVALID_CMD ?k"
        using assms(2) g x by (auto simp: configure_phase_def Let_def)
      then show ?thesis using outcome_trans [OF r(1) fail_session_outcome] by simp
    next
      case 3
      show ?thesis
      proof (cases "rx_configure rx")
        case None
        with 3 assms g x r show ?thesis by (auto simp: configure_phase_def Let_def runs_outcome)
      next
        case (Some y)
        obtain p rx' where y: "y = (p, rx')" by fastforce
        have "accept_configure synth p (?k\<lparr>k_rx := rx'\<rparr>) = (c, k')"
          using 3 assms(2) g x Some y by (simp add: configure_phase_def Let_def)
        then show ?thesis
          using assms(1) by (intro outcome_trans [OF r(2)] accept_configure_outcome) simp_all
      qed
    qed
  qed
qed

lemma finish_session_closes:
  "runs k (finish_session synth rtl c k)" "closes k (finish_session synth rtl c k)"
proof -
  let ?k = "finish_session synth rtl c k"
  let ?ms = "debug_msgs synth DBG_INFO DBG_PROBE_DONE (k_matched k) @
    (if c_algorithm c = ALGORITHM_A then [KTiming (k_timing ?k)] else [])"
  have "outcome k ?k"
    by (rule outcomeI [of _ _ ?ms "KStatus MSG_STATUS PHASE_DONE 0 (k_matched k) 0 (c_session_id c)"])
      (simp_all add: finish_session_def Let_def tx_messages)
  then show "runs k ?k" by (rule outcome_runs)
  show "closes k ?k"
    unfolding closes_def
    by (rule exI [of _ ?ms], rule exI [of _ "KStatus MSG_STATUS PHASE_DONE 0 (k_matched k) 0 (c_session_id c)"])
      (simp add: finish_session_def Let_def tx_messages)
qed

lemma kernel_session_outcome:
  assumes "kernel_session synth rtl k = (f, k')"
  shows "emits k k' \<and> (ht_inv (k_ht k) \<longrightarrow> ht_inv (k_ht k')) \<and> length (k_result_buf k') < 118 \<and>
    k_ht_capacity_reg k' = k_ht_capacity_reg k \<and> k_rx_buf_cap_reg k' = k_rx_buf_cap_reg k \<and>
    (f = Continue \<longrightarrow> closes k k')"
proof -
  let ?k0 = "session_init synth k"
  have i: "k_tx ?k0 = k_tx k @ tx_of (debug_msgs synth DBG_INFO DBG_IDLE_ENTER 0)" "k_ht ?k0 = k_ht k"
    "k_result_buf ?k0 = []" "\<not> k_session_done ?k0" "k_ht_capacity_reg ?k0 = k_ht_capacity_reg k"
    "k_rx_buf_cap_reg ?k0 = k_rx_buf_cap_reg k"
    by (simp_all add: session_init_def tx_messages)
  have r0: "runs k ?k0" by (rule runsI [OF i(1)]) (simp_all add: i)
  obtain f1 c k1 where p: "configure_phase synth ?k0 = (f1, c, k1)" by (cases "configure_phase synth ?k0")
  note o1 = configure_phase_outcome [OF i(4) p]
  define r where "r = (if k_session_done k1 then (Continue, k1)
    else if c_algorithm c = ALGORITHM_B then algorithm_b c k1
    else if c_algorithm c = ALGORITHM_A then algorithm_a synth rtl c k1 else (Continue, k1))"
  obtain f2 k2 where f2: "r = (f2, k2)" by fastforce
  have o2: "outcome ?k0 k2"
  proof (cases "k_session_done k1")
    case True
    with f2 o1 show ?thesis by (simp add: r_def)
  next
    case False
    then have "outcome k1 k2"
      using f2 by (auto simp: r_def runs_outcome split: if_splits intro: algorithm_a_outcome algorithm_b_outcome)
    with o1 show ?thesis by (blast intro: outcome_trans outcome_runs)
  qed
  have eq: "(f, k') = (if f1 = Continue then
      (if f2 = Continue then (Continue, if k_session_done k2 then k2 else finish_session synth rtl c k2) else (f2, k2))
      else (f1, k1))"
    using assms p f2 unfolding kernel_session_def r_def by (auto split: flow.splits)
  have f: "runs ?k0 k' \<and> (f = Continue \<longrightarrow> closes ?k0 k')"
    using eq o1 o2 runs_trans [OF outcome_runs [OF o2] finish_session_closes(1)]
      closes_trans [OF outcome_runs [OF o2] finish_session_closes(2)]
    by (auto simp: outcome_def split: if_splits)
  with runs_trans [OF r0] closes_trans [OF r0] i(2,3) show ?thesis
    by (auto simp: runs_def keeps_def)
qed

section \<open>The kernel\<close>

lemma build_frame_loop_shorter:
  "build_frame_loop synth c frame k = (f, k') \<Longrightarrow> f = Continue \<Longrightarrow> length (k_rx k') \<le> length (k_rx k)"
proof (induction synth c frame k rule: build_frame_loop.induct)
  case (1 synth c frame k)
  obtain f1 k1 where fr: "build_frame synth c k = (f1, k1)" by fastforce
  with 1 show ?case
    using build_frame_shorter [OF fr]
    by (subst (asm) (2) build_frame_loop.simps) (fastforce split: if_splits flow.splits)
qed

lemma probe_frame_loop_shorter:
  "probe_frame_loop synth rtl c frame k = (f, k') \<Longrightarrow> f = Continue \<Longrightarrow> length (k_rx k') \<le> length (k_rx k)"
proof (induction synth rtl c frame k rule: probe_frame_loop.induct)
  case (1 synth rtl c frame k)
  obtain f1 k1 where fr: "probe_frame synth rtl c k = (f1, k1)" by fastforce
  with 1 show ?case
    using probe_frame_shorter [OF fr]
    by (subst (asm) (2) probe_frame_loop.simps) (fastforce split: if_splits flow.splits)
qed


lemma build_inner_frame_le: "build_inner_frame c k = (f, k') \<Longrightarrow> length (k_rx k') \<le> length (k_rx k)"
  by (force dest: rx_shorter build_inner_tuple_loop_shorter
      simp: build_inner_frame_def Let_def bind_eq_Some_conv
      split: option.splits if_splits prod.splits gflow.splits)

lemma build_outer_frame_le: "build_outer_frame c k = (f, k') \<Longrightarrow> length (k_rx k') \<le> length (k_rx k)"
  by (force dest: rx_shorter build_outer_tuple_loop_shorter
      simp: build_outer_frame_def Let_def bind_eq_Some_conv
      split: option.splits if_splits prod.splits gflow.splits)

lemma build_inner_frame_loop_shorter:
  "build_inner_frame_loop c frame k = (f, k') \<Longrightarrow> length (k_rx k') \<le> length (k_rx k)"
proof (induction c frame k rule: build_inner_frame_loop.induct)
  case (1 c frame k)
  obtain f1 k1 where fr: "build_inner_frame c k = (f1, k1)" by fastforce
  with 1 show ?case
    using build_inner_frame_le [OF fr]
    by (subst (asm) (2) build_inner_frame_loop.simps) (fastforce split: if_splits gflow.splits)
qed

lemma build_outer_frame_loop_shorter:
  "build_outer_frame_loop c frame k = (f, k') \<Longrightarrow> length (k_rx k') \<le> length (k_rx k)"
proof (induction c frame k rule: build_outer_frame_loop.induct)
  case (1 c frame k)
  obtain f1 k1 where fr: "build_outer_frame c k = (f1, k1)" by fastforce
  with 1 show ?case
    using build_outer_frame_le [OF fr]
    by (subst (asm) (2) build_outer_frame_loop.simps) (fastforce split: if_splits gflow.splits)
qed

lemma k_rx_join_partition: "join_partition c p k = (e, k') \<Longrightarrow> k_rx k' = k_rx k"
  by (auto simp: join_partition_def Let_def split: prod.splits if_splits)

lemma k_rx_join_partition_loop: "join_partition_loop c ps k = (e, k') \<Longrightarrow> k_rx k' = k_rx k"
  by (induction ps arbitrary: k) (auto split: prod.splits if_splits dest: k_rx_join_partition)

lemma k_rx_grace_result [simp]: "k_rx (grace_result e k) = k_rx k"
  by (simp add: grace_result_def)

lemma algorithm_b_shorter:
  "algorithm_b c k = (Continue, k') \<Longrightarrow> length (k_rx k') \<le> length (k_rx k)"
  by (auto simp: algorithm_b_def build_inner_partitions_def build_outer_partitions_def
      join_all_partitions_def Let_def split: prod.splits gflow.splits if_splits
      dest!: build_inner_frame_loop_shorter build_outer_frame_loop_shorter k_rx_join_partition_loop)

lemma algorithm_a_shorter:
  "algorithm_a synth rtl c k = (Continue, k') \<Longrightarrow> length (k_rx k') \<le> length (k_rx k)"
  by (fastforce simp: algorithm_a_def split: prod.splits flow.splits if_splits
      dest: build_frame_loop_shorter probe_frame_loop_shorter)

lemma k_rx_accept_configure: "accept_configure synth p k = (c, k') \<Longrightarrow> k_rx k' = k_rx k"
  by (auto simp: accept_configure_def Let_def split: prod.splits if_splits)

lemma rx_configure_shorter: "rx_configure s = Some (p, s') \<Longrightarrow> length s' \<le> length s"
  by (auto simp: rx_configure_def bind_eq_Some_conv dest!: rx_shorter)

lemma configure_phase_shorter:
  "configure_phase synth k = (Continue, c, k') \<Longrightarrow> length (k_rx k') < length (k_rx k)"
  by (auto simp: configure_phase_def Let_def split: option.splits if_splits bool.splits
      dest!: rx_byte_guarded_shorter rx_u16_shorter rx_configure_shorter k_rx_accept_configure)

lemma kernel_session_shorter:
  assumes "kernel_session synth rtl k = (Continue, k')"
  shows "length (k_rx k') < length (k_rx k)"
proof -
  obtain c k1 where p: "configure_phase synth (session_init synth k) = (Continue, c, k1)"
    using assms by (auto simp: kernel_session_def split: prod.splits flow.splits)
  have "length (k_rx k1) < length (k_rx k)"
    using configure_phase_shorter [OF p] by (simp add: session_init_def)
  moreover have "length (k_rx k') \<le> length (k_rx k1)"
    using assms p
    by (auto simp: kernel_session_def finish_session_done(2) split: prod.splits flow.splits if_splits
        dest!: algorithm_a_shorter algorithm_b_shorter)
  ultimately show ?thesis by simp
qed

text \<open>The session loop: a single session in C simulation; on hardware one session after
  another, until the kernel waits for input that does not come. \<open>rtl n\<close> is what the timing
  monitor shows in the \<open>n\<close>-th session.\<close>

function session_loop :: "bool \<Rightarrow> (nat \<Rightarrow> RtlTiming) \<Rightarrow> nat \<Rightarrow> KernelState \<Rightarrow> flow \<times> KernelState" where
  "session_loop synth rtl n k =
     (case kernel_session synth (rtl n) k of
        (Continue, k) \<Rightarrow> if synth then session_loop synth rtl (Suc n) k else (Continue, k)
      | (f, k) \<Rightarrow> (f, k))"
  by pat_completeness auto
termination
  by (relation "measure (\<lambda>(synth, rtl, n, k). length (k_rx k))")
    (auto dest: kernel_session_shorter [OF sym])

declare session_loop.simps [simp del]

definition hash_join_kernel :: "bool \<Rightarrow> (nat \<Rightarrow> RtlTiming) \<Rightarrow> KernelState \<Rightarrow> flow \<times> KernelState" where
  "hash_join_kernel synth rtl k = session_loop synth rtl 0 (kernel_start k)"

lemma build_frame_loop_flow: "fst (build_frame_loop synth c frame k) \<noteq> Break"
proof (induction synth c frame k rule: build_frame_loop.induct)
  case (1 synth c frame k)
  obtain f1 k1 where "build_frame synth c k = (f1, k1)" by fastforce
  with 1 show ?case by (subst build_frame_loop.simps) (auto split: flow.splits)
qed

lemma probe_frame_loop_flow: "fst (probe_frame_loop synth rtl c frame k) \<noteq> Break"
proof (induction synth rtl c frame k rule: probe_frame_loop.induct)
  case (1 synth rtl c frame k)
  obtain f1 k1 where "probe_frame synth rtl c k = (f1, k1)" by fastforce
  with 1 show ?case by (subst probe_frame_loop.simps) (auto split: flow.splits)
qed

lemma algorithm_a_flow: "fst (algorithm_a synth rtl c k) \<noteq> Break"
  using build_frame_loop_flow probe_frame_loop_flow
  by (auto simp: algorithm_a_def split: prod.splits flow.splits) (metis fst_conv)+

lemma algorithm_b_flow: "fst (algorithm_b c k) \<noteq> Break"
  by (auto simp: algorithm_b_def Let_def split: prod.splits gflow.splits)

lemma configure_phase_flow: "fst (configure_phase synth k) \<noteq> Break"
  by (auto simp: configure_phase_def Let_def split: option.splits bool.splits)

lemma kernel_session_flow: "fst (kernel_session synth rtl k) \<noteq> Break"
  using configure_phase_flow [of synth "session_init synth k"] algorithm_a_flow algorithm_b_flow
  by (auto simp: kernel_session_def split: prod.splits flow.splits if_splits) (metis fst_conv)+

lemma session_loop_outcome:
  "session_loop synth rtl n k = (f, k') \<Longrightarrow> synth \<Longrightarrow>
     f \<noteq> Continue \<and> f \<noteq> Break \<and> emits k k' \<and> k_ht_capacity_reg k' = k_ht_capacity_reg k \<and>
     k_rx_buf_cap_reg k' = k_rx_buf_cap_reg k"
proof (induction synth rtl n k rule: session_loop.induct)
  case (1 synth rtl n k)
  obtain f1 k1 where s: "kernel_session synth (rtl n) k = (f1, k1)" by fastforce
  note o = kernel_session_outcome [OF s]
  show ?case
  proof (cases "f1 = Continue")
    case True
    then have l: "session_loop synth rtl (Suc n) k1 = (f, k')"
      using 1(2,3) s by (subst (asm) session_loop.simps) simp
    have "emits a b \<Longrightarrow> emits b d \<Longrightarrow> emits a d" for a b d
      unfolding emits_def by (metis append.assoc tx_of_simps(2))
    with 1(1) [OF s [symmetric] _ 1(3) l 1(3)] o True show ?thesis by auto
  next
    case False
    with 1(2) s o kernel_session_flow [of synth "rtl n" k] show ?thesis
      by (subst (asm) session_loop.simps) (auto split: flow.splits)
  qed
qed

section \<open>Properties of the kernel on arbitrary input\<close>




text \<open>C7. The kernel stops only in C simulation: on hardware the session loop leaves it waiting for
  more input (or, after a batch of more than \<open>RX_BUF_TUPLES\<close> tuples, past the end of its receive
  buffer), with nothing but whole frames sent and the capability registers as announced.\<close>

theorem hash_join_kernel_waits:
  "case hash_join_kernel True rtl k of (f, k') \<Rightarrow>
     f \<noteq> Continue \<and> f \<noteq> Break \<and> (\<exists>ms. k_tx k' = k_tx k @ tx_of ms) \<and>
     k_ht_capacity_reg k' = HT_MAX_ROWS \<and> k_rx_buf_cap_reg k' = RX_CREDIT_TUPLES"
proof -
  obtain f k' where "session_loop True rtl 0 (kernel_start k) = (f, k')" by fastforce
  with session_loop_outcome [OF this] show ?thesis
    by (auto simp: hash_join_kernel_def kernel_start_def emits_def)
qed


text \<open>C15. The receive buffer is not guarded: a data frame of algorithm A that announces more than
  \<open>RX_BUF_TUPLES\<close> tuples, well below the 16-bit count the protocol allows, makes the batch
  loop write past \<open>rx_key_buf\<close>.\<close>

theorem oversized_batch_overruns:
  assumes "length f > unat RX_BUF_TUPLES" "length f < 2 ^ 16"
    and "list_all (\<lambda>t. key_fits (c_keytype c) (it_key t)) f"
    and "k_rx k = map Some (serialize_batch (c_keytype c) MSG_INNER_DATA f (length f)) @ rest"
  shows "fst (build_frame synth c k) = Overrun"
proof -
  have ne: "f \<noteq> []" using assms(1) by auto
  have rx: "k_rx k = map Some (MSG_INNER_DATA # le16 (of_nat (length f)) @
      concat (map (tuple_bytes (c_keytype c)) f)) @ rest"
    using assms(4) ne by (simp add: wire_simps)
  have len: "unat (of_nat (length f) :: u16) = length f"
    using assms(2) by (simp add: unsigned_of_nat take_bit_nat_eq_self_iff)
  have "rx_batch (c_keytype c) 0 (length f)
      (map Some (concat (map (tuple_bytes (c_keytype c)) f)) @ rest) = RxOverrun"
    using assms(1,3) by (intro rx_batch_overrun) simp_all
  then show ?thesis
    unfolding build_frame_def rx rx_byte_guarded_plain
    by (simp add: rx_le16 len build_dispatch_def count_inner_frame_def Let_def)
qed

theorem oversized_batch_overruns_witness:
  "length (replicate 300 \<lparr>it_key = 5, it_tid = \<lparr>blkno = 0, offno = 1\<rparr>\<rparr>) > 256 \<and>
   fst (build_frame False default_config (kernel_blank (map Some (serialize_batch KEY_INT32 MSG_INNER_DATA
     (replicate 300 \<lparr>it_key = 5, it_tid = \<lparr>blkno = 0, offno = 1\<rparr>\<rparr>) 300)))) = Overrun"
  using oversized_batch_overruns [of "replicate 300 \<lparr>it_key = 5, it_tid = \<lparr>blkno = 0, offno = 1\<rparr>\<rparr>"
      default_config "kernel_blank (map Some (serialize_batch KEY_INT32 MSG_INNER_DATA
        (replicate 300 \<lparr>it_key = 5, it_tid = \<lparr>blkno = 0, offno = 1\<rparr>\<rparr>) 300))" "[]" False]
  by (simp add: default_config_def kernel_blank_def key_fits_def list_all_length)

end
