(* ===== verification/Grace_Session.thy ===== *)
theory Grace_Session
  imports Kernel_Safety
begin

text \<open>
  A session of algorithm B on the frames the host sends
  (\<^verbatim>\<open>src/src/hash_join_grace.hpp\<close>, driven by \<^verbatim>\<open>src/src/hash_join_kernel.cpp\<close>): the slots
  of the DDR2 buffer, the two partitioning phases and the join of the partitions.
\<close>

section \<open>Tuples in DDR2\<close>

lemma unpack_pack: "unpack_tuple (pack_tuple buf idx t) idx = t"
proof -
  have b: "ucast (drop_bit 32 (push_bit 32 (ucast b) OR push_bit 16 (ucast v)) :: u64) = b" for b :: u32 and v :: u16
    by (rule bit_word_eqI) (auto simp: bit_simps dest: bit_imp_le_length)
  have m: "(0xFFFF :: u64) = mask 16" by (simp add: mask_eq_exp_minus_1)
  have o: "ucast (drop_bit 16 (push_bit 32 (ucast b) OR push_bit 16 (ucast v)) AND 0xFFFF :: u64) = v" for b :: u32 and v :: u16
    unfolding m take_bit_eq_mask [symmetric] by (rule bit_word_eqI) (auto simp: bit_simps)
  show ?thesis by (simp add: unpack_tuple_def pack_tuple_def b o del: drop_bit_or)
qed

lemma unpack_pack_other:
  "j \<noteq> idx \<Longrightarrow> j + 1 \<noteq> idx \<Longrightarrow> j \<noteq> idx + 1 \<Longrightarrow> unpack_tuple (pack_tuple buf idx t) j = unpack_tuple buf j"
  by (simp add: unpack_tuple_def pack_tuple_def)

lemma unat_of_nat_less: "i < unat n \<Longrightarrow> unat (of_nat i :: u32) = i" for n :: u32
  using unsigned_less [where 'a = nat, of n] by (simp add: unsigned_of_nat take_bit_nat_eq_self_iff)

lemma unat_Suc_less: "n < m \<Longrightarrow> unat (n + 1) = Suc (unat n)" for n m :: u32
  using unsigned_less [where 'a = nat, of m] by (simp add: unat_word_ariths word_less_nat_alt)

section \<open>Slots\<close>

text \<open>The rows of partition \<open>p\<close>, and what it means that a slot area holds the partitions.\<close>

definition part_rows :: "u32 \<Rightarrow> u32 \<Rightarrow> InputTuple list \<Rightarrow> InputTuple list" where
  "part_rows K p rows = filter (\<lambda>t. partition_of (it_key t) K = p) rows"

definition slot_rep ::
  "u32 \<Rightarrow> u32 \<Rightarrow> (u32 \<Rightarrow> u32 \<Rightarrow> u32) \<Rightarrow> (u32 \<Rightarrow> u32) \<Rightarrow> (u32 \<Rightarrow> u64) \<Rightarrow> InputTuple list \<Rightarrow> bool" where
  "slot_rep K cap idx counts buf rows \<longleftrightarrow>
     (\<forall>p<K. counts p \<le> cap \<and> slot_rows buf (idx p) (counts p) = part_rows K p rows)"

lemma length_slot_rows [simp]: "length (slot_rows buf idx n) = unat n"
  by (simp add: slot_rows_def)

lemma slot_rows_cong:
  "(\<And>i. i < n \<Longrightarrow> unpack_tuple buf (idx i) = unpack_tuple buf' (idx i)) \<Longrightarrow> slot_rows buf idx n = slot_rows buf' idx n"
  using unat_of_nat_less [of _ n] by (auto simp: slot_rows_def word_less_nat_alt)

text \<open>The law of a slot area: tuples of distinct positions do not overlap.\<close>

locale slot_area =
  fixes N cap :: u32 and idx :: "u32 \<Rightarrow> u32 \<Rightarrow> u32"
  assumes apart: "p < N \<Longrightarrow> q < N \<Longrightarrow> i < cap \<Longrightarrow> j < cap \<Longrightarrow> (p, i) \<noteq> (q, j) \<Longrightarrow>
    idx p i \<noteq> idx q j \<and> idx p i + 1 \<noteq> idx q j \<and> idx p i \<noteq> idx q j + 1"
begin

lemma store_other:
  assumes "p < N" "q < N" "p \<noteq> q" "n < cap" "m \<le> cap"
  shows "slot_rows (pack_tuple buf (idx p n) t) (idx q) m = slot_rows buf (idx q) m"
proof (rule slot_rows_cong)
  fix i assume "i < m"
  then have "i < cap" using assms(5) by (rule less_le_trans)
  with apart [of q p i n] assms show "unpack_tuple (pack_tuple buf (idx p n) t) (idx q i) = unpack_tuple buf (idx q i)"
    by (intro unpack_pack_other) auto
qed

lemma store_same:
  assumes "p < N" "n < cap"
  shows "slot_rows (pack_tuple buf (idx p n) t) (idx p) (n + 1) = slot_rows buf (idx p) n @ [t]"
proof -
  have u: "unat (n + 1) = Suc (unat n)" using assms(2) by (rule unat_Suc_less)
  have "slot_rows (pack_tuple buf (idx p n) t) (idx p) n = slot_rows buf (idx p) n"
  proof (rule slot_rows_cong)
    fix i assume "i < n"
    then have "i < cap" "i \<noteq> n" using assms(2) by auto
    with apart [of p p i n] assms
    show "unpack_tuple (pack_tuple buf (idx p n) t) (idx p i) = unpack_tuple buf (idx p i)"
      by (intro unpack_pack_other) auto
  qed
  then show ?thesis by (simp add: slot_rows_def u unpack_pack)
qed

lemma rep_store:
  assumes rep: "slot_rep K cap idx counts buf rows" and K: "0 < K" "K \<le> N"
    and p: "p = partition_of (it_key t) K" and room: "counts p < cap"
  shows "slot_rep K cap idx (counts(p := counts p + 1)) (pack_tuple buf (idx p (counts p)) t) (rows @ [t])"
  unfolding slot_rep_def
proof (intro allI impI)
  fix q assume q: "q < K"
  have pK: "p < K" unfolding p partition_of_def using K(1) by (simp add: word_mod_less_divisor)
  show "(counts(p := counts p + 1)) q \<le> cap \<and>
    slot_rows (pack_tuple buf (idx p (counts p)) t) (idx q) ((counts(p := counts p + 1)) q)
      = part_rows K q (rows @ [t])"
    using rep q pK K store_same [of p "counts p" buf t] store_other [of p q "counts p" "counts q" buf t] room
    by (cases "q = p") (auto simp: slot_rep_def part_rows_def p [symmetric] inc_le)
qed

end

lemma rep_empty: "(\<And>p. p < K \<Longrightarrow> counts p = 0) \<Longrightarrow> slot_rep K cap idx counts buf []"
  by (simp add: slot_rep_def slot_rows_def part_rows_def)

section \<open>Addresses\<close>

text \<open>A layout the kernel may use: at most \<open>GRACE_MAX_K\<close> partitions whose outer slots end within the
  DDR2 buffer.\<close>

definition layout_ok :: "u32 \<Rightarrow> u32 \<Rightarrow> bool" where
  "layout_ok K w \<longleftrightarrow> 0 < K \<and> K \<le> GRACE_MAX_K \<and>
     unat GRACE_OUTER_AREA_BASE + unat K * unat w \<le> unat GRACE_DDR2_TOTAL_WORDS"

lemma unat_inner_slot_idx:
  assumes "p < 256" "i < 12288"
  shows "unat (inner_slot_idx p i) = unat p * 24576 + unat i * 2"
    "unat (inner_slot_idx p i) + 1 < 6291456" "unat (inner_slot_idx p i + 1) = unat (inner_slot_idx p i) + 1"
proof -
  have b: "unat p \<le> 255" "unat i \<le> 12287" using assms by (simp_all add: word_less_nat_alt)
  then show u: "unat (inner_slot_idx p i) = unat p * 24576 + unat i * 2"
    by (simp add: inner_slot_idx_def unat_word_ariths)
  show l: "unat (inner_slot_idx p i) + 1 < 6291456" using b unfolding u by linarith
  show "unat (inner_slot_idx p i + 1) = unat (inner_slot_idx p i) + 1"
    using l by (simp add: unat_word_ariths)
qed

lemma slot_position_less:
  fixes p i :: nat
  assumes "p < K" "i < w div 2"
  shows "p * w + i * 2 + 1 < K * w"
proof -
  have "i * 2 + 1 < w" using assms(2) by linarith
  then have "p * w + i * 2 + 1 < Suc p * w" by simp
  also have "\<dots> \<le> K * w" using assms(1) by (intro mult_le_mono1) simp
  finally show ?thesis .
qed

lemma unat_outer_slot_idx:
  assumes "layout_ok K w" "p < K" "i < w div 2"
  shows "unat (outer_slot_idx w p i) = 6291456 + unat p * unat w + unat i * 2"
    "unat (outer_slot_idx w p i) + 1 < 16777216"
    "unat (outer_slot_idx w p i + 1) = unat (outer_slot_idx w p i) + 1"
proof -
  have "unat p < unat K" "unat i < unat w div 2"
    using assms(2,3) by (simp_all add: word_less_nat_alt unat_div)
  then have b: "unat p * unat w + unat i * 2 + 1 < unat K * unat w" by (rule slot_position_less)
  have t: "unat K * unat w \<le> 10485760" using assms(1) by (simp add: layout_ok_def)
  have pw: "unat (p * w) = unat p * unat w" and i2: "unat (i * 2) = unat i * 2"
    using b t by (simp_all add: unat_word_ariths)
  show u: "unat (outer_slot_idx w p i) = 6291456 + unat p * unat w + unat i * 2"
    using b t by (simp add: outer_slot_idx_def unat_add_lem [THEN iffD1] pw i2)
  show l: "unat (outer_slot_idx w p i) + 1 < 16777216" using b t unfolding u by linarith
  show "unat (outer_slot_idx w p i + 1) = unat (outer_slot_idx w p i) + 1"
    using l by (simp add: unat_word_ariths)
qed

lemma slot_positions_distinct:
  fixes p q i j :: nat
  assumes "i < w div 2" "j < w div 2" "(p, i) \<noteq> (q, j)"
  shows "p * w + i * 2 \<noteq> q * w + j * 2 \<and> p * w + i * 2 + 1 \<noteq> q * w + j * 2 \<and> p * w + i * 2 \<noteq> q * w + j * 2 + 1"
proof -
  have lt: "i * 2 + 1 < w" "j * 2 + 1 < w" using assms by linarith+
  have far: "a * w + x * 2 + 1 < b * w" if "a < b" "x * 2 + 1 < w" for a b x
  proof -
    have "a * w + x * 2 + 1 < Suc a * w" using that(2) by simp
    also have "\<dots> \<le> b * w" using that(1) by (intro mult_le_mono1) simp
    finally show ?thesis .
  qed
  consider "p < q" | "q < p" | "p = q" "i \<noteq> j" using assms(3) by fastforce
  then show ?thesis
  proof cases
    case 1
    with far [OF 1 lt(1)] show ?thesis by linarith
  next
    case 2
    with far [OF 2 lt(2)] show ?thesis by linarith
  next
    case 3
    then show ?thesis by auto
  qed
qed

interpretation inner_area: slot_area GRACE_MAX_K HT_MAX_ROWS inner_slot_idx
proof
  fix p q i j :: u32
  assume a: "p < GRACE_MAX_K" "q < GRACE_MAX_K" "i < HT_MAX_ROWS" "j < HT_MAX_ROWS" "(p, i) \<noteq> (q, j)"
  then have b: "p < 256" "q < 256" "i < 12288" "j < 12288" by simp_all
  have "unat i < 24576 div 2" "unat j < 24576 div 2" "(unat p, unat i) \<noteq> (unat q, unat j)"
    using b a(5) by (simp_all add: word_less_nat_alt word_unat_eq_iff)
  from slot_positions_distinct [OF this]
  show "inner_slot_idx p i \<noteq> inner_slot_idx q j \<and> inner_slot_idx p i + 1 \<noteq> inner_slot_idx q j \<and>
      inner_slot_idx p i \<noteq> inner_slot_idx q j + 1"
    using unat_inner_slot_idx [OF b(1,3)] unat_inner_slot_idx [OF b(2,4)]
    by (auto simp: word_unat_eq_iff)
qed

lemma outer_area: "layout_ok K w \<Longrightarrow> slot_area K (w div GRACE_WORDS_PER_TUPLE) (outer_slot_idx w)"
proof
  fix p q i j :: u32
  assume l: "layout_ok K w" and a: "p < K" "q < K" "i < w div GRACE_WORDS_PER_TUPLE"
    "j < w div GRACE_WORDS_PER_TUPLE" "(p, i) \<noteq> (q, j)"
  then have b: "i < w div 2" "j < w div 2" by simp_all
  have "unat i < unat w div 2" "unat j < unat w div 2" "(unat p, unat i) \<noteq> (unat q, unat j)"
    using b a(5) by (simp_all add: word_less_nat_alt unat_div word_unat_eq_iff)
  from slot_positions_distinct [OF this]
  show "outer_slot_idx w p i \<noteq> outer_slot_idx w q j \<and> outer_slot_idx w p i + 1 \<noteq> outer_slot_idx w q j \<and>
      outer_slot_idx w p i \<noteq> outer_slot_idx w q j + 1"
    using unat_outer_slot_idx [OF l a(1) b(1)] unat_outer_slot_idx [OF l a(2) b(2)]
    by (auto simp: word_unat_eq_iff)
qed

text \<open>Outer tuples never touch the inner area.\<close>

lemma inner_rep_outer_store:
  assumes "layout_ok K w" "p < K" "i < w div 2" "K' \<le> GRACE_MAX_K"
    "slot_rep K' HT_MAX_ROWS inner_slot_idx counts buf rows"
  shows "slot_rep K' HT_MAX_ROWS inner_slot_idx counts (pack_tuple buf (outer_slot_idx w p i) t) rows"
  unfolding slot_rep_def
proof (intro allI impI)
  fix q assume q: "q < K'"
  with assms(5) have c: "counts q \<le> HT_MAX_ROWS" "slot_rows buf (inner_slot_idx q) (counts q) = part_rows K' q rows"
    by (simp_all add: slot_rep_def)
  have "slot_rows (pack_tuple buf (outer_slot_idx w p i) t) (inner_slot_idx q) (counts q)
      = slot_rows buf (inner_slot_idx q) (counts q)"
  proof (rule slot_rows_cong)
    fix j assume "j < counts q"
    then have "q < 256" "j < 12288" using c(1) q assms(4) by (auto simp: word_less_nat_alt word_le_nat_alt)
    from unat_inner_slot_idx [OF this] unat_outer_slot_idx [OF assms(1-3)]
    show "unpack_tuple (pack_tuple buf (outer_slot_idx w p i) t) (inner_slot_idx q j)
        = unpack_tuple buf (inner_slot_idx q j)"
      by (intro unpack_pack_other) (auto simp: word_unat_eq_iff)
  qed
  with c show "counts q \<le> HT_MAX_ROWS \<and>
      slot_rows (pack_tuple buf (outer_slot_idx w p i) t) (inner_slot_idx q) (counts q) = part_rows K' q rows"
    by simp
qed

section \<open>The partitioning phases\<close>

lemma part_rows_append [simp]: "part_rows K p (a @ b) = part_rows K p a @ part_rows K p b"
  by (simp add: part_rows_def)

lemma partition_less: "0 < K \<Longrightarrow> partition_of key K < K"
  by (simp add: partition_of_def word_mod_less_divisor)

text \<open>A slot has room for a row that is still to be stored.\<close>

lemma slot_rep_room:
  assumes "slot_rep K cap idx counts buf rows" "p < K" "length (part_rows K p (rows @ [t])) \<le> unat cap"
    "p = partition_of (it_key t) K"
  shows "counts p < cap"
proof -
  have "slot_rows buf (idx p) (counts p) = part_rows K p rows"
    using assms(1,2) by (simp add: slot_rep_def)
  then have "unat (counts p) = length (part_rows K p rows)" using length_slot_rows by metis
  moreover have "length (part_rows K p (rows @ [t])) = Suc (length (part_rows K p rows))"
    using assms(4) by (simp add: part_rows_def)
  ultimately show ?thesis using assms(3) by (simp add: word_less_nat_alt)
qed

definition inner_fits :: "u32 \<Rightarrow> InputTuple list \<Rightarrow> bool" where
  "inner_fits K rows \<longleftrightarrow> (\<forall>p<K. length (part_rows K p rows) \<le> unat HT_MAX_ROWS)"

definition outer_fits :: "u32 \<Rightarrow> u32 \<Rightarrow> InputTuple list \<Rightarrow> bool" where
  "outer_fits K w rows \<longleftrightarrow> (\<forall>p<K. length (part_rows K p rows) \<le> unat (w div GRACE_WORDS_PER_TUPLE))"

lemma fits_prefix:
  "inner_fits K (a @ b) \<Longrightarrow> inner_fits K a" "outer_fits K w (a @ b) \<Longrightarrow> outer_fits K w a"
  by (auto simp: inner_fits_def outer_fits_def)

lemma build_inner_tuple_loop_ok:
  assumes "list_all (\<lambda>t. key_fits kt (it_key t)) ts"
    "k_rx k = map Some (concat (map (tuple_bytes kt) ts)) @ rest" "0 < K" "K \<le> GRACE_MAX_K"
    "slot_rep K HT_MAX_ROWS inner_slot_idx (k_inner_counts k) (k_ddr2_buf k) rows" "inner_fits K (rows @ ts)"
  shows "\<exists>buf counts. build_inner_tuple_loop kt K (length ts) k =
      (GNext, k\<lparr>k_rx := rest, k_ddr2_buf := buf, k_inner_counts := counts,
         k_inner_received := k_inner_received k + of_nat (length ts)\<rparr>) \<and>
    slot_rep K HT_MAX_ROWS inner_slot_idx counts buf (rows @ ts)"
  using assms
proof (induction ts arbitrary: k rows)
  case Nil
  have "rest = k_rx k" using Nil(2) by simp
  with Nil show ?case
    by (intro exI [of _ "k_ddr2_buf k"] exI [of _ "k_inner_counts k"]) simp
next
  case (Cons t ts)
  let ?p = "partition_of (it_key t) K"
  let ?r = "map Some (concat (map (tuple_bytes kt) ts)) @ rest"
  let ?k = "k\<lparr>k_rx := ?r,
    k_ddr2_buf := pack_tuple (k_ddr2_buf k) (inner_slot_idx ?p (k_inner_counts k ?p)) t,
    k_inner_counts := (k_inner_counts k)(?p := k_inner_counts k ?p + 1),
    k_inner_received := k_inner_received k + 1\<rparr>"
  have rx: "rx_tuple kt (k_rx k) = Some (t, ?r)"
    using Cons.prems(1,2) rx_tuple_bytes [of kt t ?r] by simp
  have pK: "?p < K" by (rule partition_less [OF Cons.prems(3)])
  have fit: "inner_fits K ((rows @ [t]) @ ts)" using Cons.prems(6) by simp
  then have "length (part_rows K ?p (rows @ [t])) \<le> unat HT_MAX_ROWS"
    using fits_prefix(1) pK unfolding inner_fits_def by blast
  then have room: "k_inner_counts k ?p < HT_MAX_ROWS"
    by (rule slot_rep_room [OF Cons.prems(5) pK _ refl])
  then have nr: "(12288 \<le> k_inner_counts k ?p) = False" by simp
  have rep: "slot_rep K HT_MAX_ROWS inner_slot_idx (k_inner_counts ?k) (k_ddr2_buf ?k) (rows @ [t])"
    using inner_area.rep_store [OF Cons.prems(5,3,4) refl room] by simp
  have step: "build_inner_tuple_loop kt K (length (t # ts)) k = build_inner_tuple_loop kt K (length ts) ?k"
    by (simp add: rx Let_def nr)
  obtain buf counts where "build_inner_tuple_loop kt K (length ts) ?k =
      (GNext, ?k\<lparr>k_rx := rest, k_ddr2_buf := buf, k_inner_counts := counts,
         k_inner_received := k_inner_received ?k + of_nat (length ts)\<rparr>)"
    "slot_rep K HT_MAX_ROWS inner_slot_idx counts buf ((rows @ [t]) @ ts)"
    using Cons.IH [OF _ _ Cons.prems(3,4) rep fit] Cons.prems(1) by auto
  then show ?case unfolding step by (intro exI [of _ buf] exI [of _ counts]) (simp add: algebra_simps)
qed

text \<open>The acknowledgements of a partitioning phase: one per frame.\<close>

fun grace_ack_msgs :: "Phase \<Rightarrow> u8 \<Rightarrow> u32 \<Rightarrow> u32 \<Rightarrow> InputTuple list list \<Rightarrow> KernelMsg list" where
  "grace_ack_msgs phase sid tot received [] = []"
| "grace_ack_msgs phase sid tot received (f # fs) =
     (let r = received + of_nat (length f)
      in KStatus MSG_ACK phase r 0 (credit_of (tot - r)) sid # grace_ack_msgs phase sid tot r fs)"

lemma pairs_of_grace_ack_msgs [simp]: "pairs_of (grace_ack_msgs phase sid tot received fs) = []"
  by (induction phase sid tot received fs rule: grace_ack_msgs.induct) (simp_all add: Let_def)

lemma build_inner_frame_ok:
  assumes "f \<noteq> []" "length f \<le> 256" "list_all (\<lambda>t. key_fits (c_keytype c) (it_key t)) f"
    "k_rx k = map Some (serialize_batch (c_keytype c) MSG_INNER_DATA f (length f)) @ rest"
    "0 < c_K c" "c_K c \<le> GRACE_MAX_K"
    "slot_rep (c_K c) HT_MAX_ROWS inner_slot_idx (k_inner_counts k) (k_ddr2_buf k) rows" "inner_fits (c_K c) (rows @ f)"
  shows "\<exists>buf counts. build_inner_frame c k =
      (GNext, k\<lparr>k_rx := rest, k_ddr2_buf := buf, k_inner_counts := counts,
         k_inner_received := k_inner_received k + of_nat (length f),
         k_tx := k_tx k @ tx_of [KStatus MSG_ACK PHASE_BUILDING (k_inner_received k + of_nat (length f)) 0
           (credit_of (c_inner_total c - (k_inner_received k + of_nat (length f)))) (c_session_id c)]\<rparr>) \<and>
    slot_rep (c_K c) HT_MAX_ROWS inner_slot_idx counts buf (rows @ f)"
proof -
  let ?b = "concat (map (tuple_bytes (c_keytype c)) f)"
  have rx: "k_rx k = map Some (MSG_INNER_DATA # le16 (of_nat (length f)) @ ?b) @ rest"
    using assms(1,4) by (simp add: wire_simps)
  have h: "do { (msg_type, rx) \<leftarrow> rx_byte (k_rx k); (cnt, rx) \<leftarrow> rx_u16 rx; Some (msg_type, cnt, rx) }
      = Some (MSG_INNER_DATA, of_nat (length f), map Some ?b @ rest)"
    unfolding rx rx_byte_plain by (simp add: rx_le16)
  obtain buf counts where "build_inner_tuple_loop (c_keytype c) (c_K c) (length f) (k\<lparr>k_rx := map Some ?b @ rest\<rparr>) =
      (GNext, k\<lparr>k_rx := rest, k_ddr2_buf := buf, k_inner_counts := counts,
         k_inner_received := k_inner_received k + of_nat (length f)\<rparr>)"
    "slot_rep (c_K c) HT_MAX_ROWS inner_slot_idx counts buf (rows @ f)"
    using build_inner_tuple_loop_ok [of "c_keytype c" f "k\<lparr>k_rx := map Some ?b @ rest\<rparr>" rest "c_K c" rows] assms
    by auto
  then show ?thesis
    unfolding build_inner_frame_def h using assms(2)
    by (intro exI [of _ buf] exI [of _ counts]) (simp add: Let_def tx_messages)
qed


lemma build_inner_frame_loop_skip:
  assumes "frames_ok (c_keytype c) fs"
    "k_rx k = map Some (host_frames (c_keytype c) MSG_INNER_DATA fs) @ rest"
    "unat (k_inner_received k) + length (concat fs) \<le> unat (c_inner_total c)"
    "c_inner_total c \<le> GRACE_MAX_INNER_ROWS" "unat frame + length fs \<le> unat (c_inner_total c) + 1"
    "0 < c_K c" "c_K c \<le> GRACE_MAX_K"
    "slot_rep (c_K c) HT_MAX_ROWS inner_slot_idx (k_inner_counts k) (k_ddr2_buf k) rows"
    "inner_fits (c_K c) (rows @ concat fs)"
  shows "\<exists>buf counts. build_inner_frame_loop c frame k =
      build_inner_frame_loop c (frame + of_nat (length fs)) (k\<lparr>k_rx := rest, k_ddr2_buf := buf, k_inner_counts := counts,
         k_inner_received := k_inner_received k + of_nat (length (concat fs)),
         k_tx := k_tx k @ tx_of (grace_ack_msgs PHASE_BUILDING (c_session_id c) (c_inner_total c) (k_inner_received k) fs)\<rparr>) \<and>
    slot_rep (c_K c) HT_MAX_ROWS inner_slot_idx counts buf (rows @ concat fs)"
  using assms
proof (induction fs arbitrary: k frame rows)
  case Nil
  have "rest = k_rx k" using Nil(2) by (simp add: host_frames_def)
  with Nil show ?case
    by (intro exI [of _ "k_ddr2_buf k"] exI [of _ "k_inner_counts k"]) simp
next
  case (Cons f fs)
  define r where "r = map Some (host_frames (c_keytype c) MSG_INNER_DATA fs) @ rest"
  let ?n = "k_inner_received k + of_nat (length f)"
  have f: "f \<noteq> []" "length f \<le> 256" "list_all (\<lambda>t. key_fits (c_keytype c) (it_key t)) f"
    using Cons.prems(1) by (simp_all add: frames_ok_def)
  have rx: "k_rx k = map Some (serialize_batch (c_keytype c) MSG_INNER_DATA f (length f)) @ r"
    using Cons.prems(2) by (simp add: host_frames_Cons r_def)
  have "inner_fits (c_K c) ((rows @ f) @ concat fs)" using Cons.prems(9) by simp
  then have fit: "inner_fits (c_K c) (rows @ f)" by (rule fits_prefix)
  obtain buf counts where fr: "build_inner_frame c k = (GNext, k\<lparr>k_rx := r, k_ddr2_buf := buf,
      k_inner_counts := counts, k_inner_received := ?n,
      k_tx := k_tx k @ tx_of [KStatus MSG_ACK PHASE_BUILDING ?n 0 (credit_of (c_inner_total c - ?n)) (c_session_id c)]\<rparr>)"
    and rep: "slot_rep (c_K c) HT_MAX_ROWS inner_slot_idx counts buf (rows @ f)"
    using build_inner_frame_ok [OF f rx Cons.prems(6,7,8) fit] by blast
  let ?k = "k\<lparr>k_rx := r, k_ddr2_buf := buf, k_inner_counts := counts, k_inner_received := ?n,
      k_tx := k_tx k @ tx_of [KStatus MSG_ACK PHASE_BUILDING ?n 0 (credit_of (c_inner_total c - ?n)) (c_session_id c)]\<rparr>"
  have tot: "unat (c_inner_total c) \<le> 3145728" using Cons.prems(4) by (simp add: word_le_nat_alt)
  have lt: "\<not> k_inner_received k \<ge> c_inner_total c"
    using Cons.prems(3) f(1) by (cases f) (simp_all add: word_le_nat_alt)
  have len: "unat (of_nat (length f) :: u32) = length f"
    using f(2) by (simp add: unsigned_of_nat take_bit_nat_eq_self_iff)
  have un: "unat ?n = unat (k_inner_received k) + length f"
    using Cons.prems(3) tot len by (subst unat_add_lem [THEN iffD1]) simp_all
  have b: "unat (c_inner_total c + 1) = unat (c_inner_total c) + 1" using tot by (simp add: unat_word_ariths)
  have fl: "frame \<le> c_inner_total c div 1 + 1" "unat (frame + 1) + length fs \<le> unat (c_inner_total c) + 1"
    using Cons.prems(5) b tot by (simp_all add: word_le_nat_alt unat_word_ariths)
  have step: "build_inner_frame_loop c frame k = build_inner_frame_loop c (frame + 1) ?k"
    using lt fl(1) by (subst build_inner_frame_loop.simps) (simp only: fr if_False not_False_eq_True not_True_eq_False if_True prod.case gflow.case)
  obtain buf' counts' where "build_inner_frame_loop c (frame + 1) ?k =
      build_inner_frame_loop c (frame + 1 + of_nat (length fs)) (?k\<lparr>k_rx := rest, k_ddr2_buf := buf', k_inner_counts := counts',
         k_inner_received := k_inner_received ?k + of_nat (length (concat fs)),
         k_tx := k_tx ?k @ tx_of (grace_ack_msgs PHASE_BUILDING (c_session_id c) (c_inner_total c) (k_inner_received ?k) fs)\<rparr>)"
    "slot_rep (c_K c) HT_MAX_ROWS inner_slot_idx counts' buf' ((rows @ f) @ concat fs)"
    using Cons.IH [of ?k "frame + 1" "rows @ f"] Cons.prems un fl(2) rep
    by (auto simp: frames_ok_def r_def simp del: length_concat)
  then show ?case
    unfolding step by (intro exI [of _ buf'] exI [of _ counts']) (simp add: Let_def algebra_simps)
qed

lemma build_inner_frame_loop_done:
  "k_inner_received k = c_inner_total c \<Longrightarrow> build_inner_frame_loop c frame k = (GRet ERR_NONE, k)"
  by (simp add: build_inner_frame_loop.simps)

lemma build_inner_frame_loop_ok:
  assumes "frames_ok (c_keytype c) fs"
    "k_rx k = map Some (host_frames (c_keytype c) MSG_INNER_DATA fs) @ rest"
    "unat (k_inner_received k) + length (concat fs) = unat (c_inner_total c)"
    "c_inner_total c \<le> GRACE_MAX_INNER_ROWS" "unat frame + length fs \<le> unat (c_inner_total c) + 1"
    "0 < c_K c" "c_K c \<le> GRACE_MAX_K"
    "slot_rep (c_K c) HT_MAX_ROWS inner_slot_idx (k_inner_counts k) (k_ddr2_buf k) rows"
    "inner_fits (c_K c) (rows @ concat fs)"
  shows "\<exists>buf counts. build_inner_frame_loop c frame k =
      (GRet ERR_NONE, (k\<lparr>k_rx := rest, k_ddr2_buf := buf, k_inner_counts := counts,
         k_inner_received := c_inner_total c,
         k_tx := k_tx k @ tx_of (grace_ack_msgs PHASE_BUILDING (c_session_id c) (c_inner_total c) (k_inner_received k) fs)\<rparr>)) \<and>
    slot_rep (c_K c) HT_MAX_ROWS inner_slot_idx counts buf (rows @ concat fs)"
proof -
  have le: "unat (k_inner_received k) + length (concat fs) \<le> unat (c_inner_total c)" using assms(3) by simp
  have "k_inner_received k + of_nat (length (concat fs)) = c_inner_total c"
    using arg_cong [OF assms(3), of "of_nat :: nat \<Rightarrow> u32"] by simp
  with build_inner_frame_loop_skip [OF assms(1,2) le assms(4-9)] show ?thesis
    by (force simp: build_inner_frame_loop_done)
qed

lemma build_inner_frame_loop_waits:
  assumes "frames_ok (c_keytype c) fs"
    "k_rx k = map Some (host_frames (c_keytype c) MSG_INNER_DATA fs)"
    "unat (k_inner_received k) + length (concat fs) < unat (c_inner_total c)"
    "c_inner_total c \<le> GRACE_MAX_INNER_ROWS" "unat frame + length fs \<le> unat (c_inner_total c) + 1"
    "0 < c_K c" "c_K c \<le> GRACE_MAX_K"
    "slot_rep (c_K c) HT_MAX_ROWS inner_slot_idx (k_inner_counts k) (k_ddr2_buf k) rows"
    "inner_fits (c_K c) (rows @ concat fs)"
  shows "\<exists>k'. build_inner_frame_loop c frame k = (GBlocked, k') \<and>
    k_tx k' = k_tx k @ tx_of (grace_ack_msgs PHASE_BUILDING (c_session_id c) (c_inner_total c) (k_inner_received k) fs)"
proof -
  have le: "unat (k_inner_received k) + length (concat fs) \<le> unat (c_inner_total c)" using assms(3) by simp
  have rx: "k_rx k = map Some (host_frames (c_keytype c) MSG_INNER_DATA fs) @ []" using assms(2) by simp
  let ?n = "k_inner_received k + of_nat (length (concat fs))"
  obtain buf counts where l: "build_inner_frame_loop c frame k = build_inner_frame_loop c (frame + of_nat (length fs))
      (k\<lparr>k_rx := [], k_ddr2_buf := buf, k_inner_counts := counts, k_inner_received := ?n,
         k_tx := k_tx k @ tx_of (grace_ack_msgs PHASE_BUILDING (c_session_id c) (c_inner_total c) (k_inner_received k) fs)\<rparr>)"
    using build_inner_frame_loop_skip [OF assms(1) rx le assms(4-9)] by blast
  have b: "unat (c_inner_total c) + 1 < 2 ^ 32" using assms(4) by (simp add: word_le_nat_alt)
  have t: "unat (c_inner_total c + 1) = unat (c_inner_total c) + 1" using b by (simp add: unat_word_ariths)
  have "unat ?n = unat (k_inner_received k) + length (concat fs)"
    using assms(3) b by (simp add: unat_word_ariths unsigned_of_nat take_bit_nat_eq_self del: length_concat)
  then have n: "\<not> c_inner_total c \<le> ?n" using assms(3) by (simp add: word_le_nat_alt del: length_concat)
  have "unat (frame + of_nat (length fs)) = unat frame + length fs"
    using assms(5) b by (simp add: unat_word_ariths unsigned_of_nat take_bit_nat_eq_self)
  then have f: "frame + of_nat (length fs) \<le> c_inner_total c div 1 + 1" using assms(5) t by (simp add: word_le_nat_alt)
  show ?thesis
    unfolding l using n f by (subst build_inner_frame_loop.simps) (simp add: build_inner_frame_def)
qed

text \<open>While the outer rows are stored, the inner slots (counters \<open>ic\<close>, rows \<open>ir\<close>) stay as they are.\<close>

definition outer_inv ::
  "u32 \<Rightarrow> u32 \<Rightarrow> (u32 \<Rightarrow> u32) \<Rightarrow> InputTuple list \<Rightarrow> (u32 \<Rightarrow> u32) \<Rightarrow> (u32 \<Rightarrow> u64) \<Rightarrow> InputTuple list \<Rightarrow> bool" where
  "outer_inv K w ic ir counts buf rows \<longleftrightarrow>
     slot_rep K (w div GRACE_WORDS_PER_TUPLE) (outer_slot_idx w) counts buf rows \<and>
     slot_rep K HT_MAX_ROWS inner_slot_idx ic buf ir"

lemma build_outer_tuple_loop_ok:
  assumes "list_all (\<lambda>t. key_fits kt (it_key t)) ts"
    "k_rx k = map Some (concat (map (tuple_bytes kt) ts)) @ rest" "0 < K" "layout_ok K w"
    "outer_inv K w ic ir (k_outer_counts k) (k_ddr2_buf k) rows" "outer_fits K w (rows @ ts)"
  shows "\<exists>buf counts. build_outer_tuple_loop kt K w (length ts) k =
      (GNext, k\<lparr>k_rx := rest, k_ddr2_buf := buf, k_outer_counts := counts,
         k_outer_received := k_outer_received k + of_nat (length ts)\<rparr>) \<and>
    outer_inv K w ic ir counts buf (rows @ ts)"
  using assms
proof (induction ts arbitrary: k rows)
  case Nil
  have "rest = k_rx k" using Nil(2) by simp
  with Nil show ?case
    by (intro exI [of _ "k_ddr2_buf k"] exI [of _ "k_outer_counts k"]) simp
next
  case (Cons t ts)
  let ?p = "partition_of (it_key t) K"
  let ?r = "map Some (concat (map (tuple_bytes kt) ts)) @ rest"
  let ?k = "k\<lparr>k_rx := ?r,
    k_ddr2_buf := pack_tuple (k_ddr2_buf k) (outer_slot_idx w ?p (k_outer_counts k ?p)) t,
    k_outer_counts := (k_outer_counts k)(?p := k_outer_counts k ?p + 1),
    k_outer_received := k_outer_received k + 1\<rparr>"
  have rx: "rx_tuple kt (k_rx k) = Some (t, ?r)"
    using Cons.prems(1,2) rx_tuple_bytes [of kt t ?r] by simp
  have pK: "?p < K" by (rule partition_less [OF Cons.prems(3)])
  have fit: "outer_fits K w ((rows @ [t]) @ ts)" using Cons.prems(6) by simp
  then have "length (part_rows K ?p (rows @ [t])) \<le> unat (w div GRACE_WORDS_PER_TUPLE)"
    using fits_prefix(2) pK unfolding outer_fits_def by blast
  then have room: "k_outer_counts k ?p < w div GRACE_WORDS_PER_TUPLE"
    using slot_rep_room [OF Cons.prems(5) [unfolded outer_inv_def, THEN conjunct1] pK _ refl] by blast
  then have nr: "(w div 2 \<le> k_outer_counts k ?p) = False" "k_outer_counts k ?p < w div 2" by simp_all
  have K: "K \<le> GRACE_MAX_K" using Cons.prems(4) by (simp add: layout_ok_def)
  have rep: "outer_inv K w ic ir (k_outer_counts ?k) (k_ddr2_buf ?k) (rows @ [t])"
    unfolding outer_inv_def
    using slot_area.rep_store [OF outer_area [OF Cons.prems(4)]
        Cons.prems(5) [unfolded outer_inv_def, THEN conjunct1] Cons.prems(3) order_refl refl room]
      inner_rep_outer_store [OF Cons.prems(4) pK nr(2) K
        Cons.prems(5) [unfolded outer_inv_def, THEN conjunct2]] by simp
  have step: "build_outer_tuple_loop kt K w (length (t # ts)) k = build_outer_tuple_loop kt K w (length ts) ?k"
    by (simp add: rx Let_def nr(1))
  obtain buf counts where "build_outer_tuple_loop kt K w (length ts) ?k =
      (GNext, ?k\<lparr>k_rx := rest, k_ddr2_buf := buf, k_outer_counts := counts,
         k_outer_received := k_outer_received ?k + of_nat (length ts)\<rparr>)"
    "outer_inv K w ic ir counts buf ((rows @ [t]) @ ts)"
    using Cons.IH [OF _ _ Cons.prems(3,4) rep fit] Cons.prems(1) by auto
  then show ?case unfolding step by (intro exI [of _ buf] exI [of _ counts]) (simp add: algebra_simps)
qed

lemma build_outer_frame_ok:
  assumes "f \<noteq> []" "length f \<le> 256" "list_all (\<lambda>t. key_fits (c_keytype c) (it_key t)) f"
    "k_rx k = map Some (serialize_batch (c_keytype c) MSG_OUTER_DATA f (length f)) @ rest"
    "0 < c_K c" "layout_ok (c_K c) (c_outer_slot_w c)"
    "outer_inv (c_K c) (c_outer_slot_w c) ic ir (k_outer_counts k) (k_ddr2_buf k) rows" "outer_fits (c_K c) (c_outer_slot_w c) (rows @ f)"
  shows "\<exists>buf counts. build_outer_frame c k =
      (GNext, k\<lparr>k_rx := rest, k_ddr2_buf := buf, k_outer_counts := counts,
         k_outer_received := k_outer_received k + of_nat (length f),
         k_tx := k_tx k @ tx_of [KStatus MSG_ACK PHASE_PROBING (k_outer_received k + of_nat (length f)) 0
           (credit_of (c_outer_total c - (k_outer_received k + of_nat (length f)))) (c_session_id c)]\<rparr>) \<and>
    outer_inv (c_K c) (c_outer_slot_w c) ic ir counts buf (rows @ f)"
proof -
  let ?b = "concat (map (tuple_bytes (c_keytype c)) f)"
  have rx: "k_rx k = map Some (MSG_OUTER_DATA # le16 (of_nat (length f)) @ ?b) @ rest"
    using assms(1,4) by (simp add: wire_simps)
  have h: "do { (msg_type, rx) \<leftarrow> rx_byte (k_rx k); (cnt, rx) \<leftarrow> rx_u16 rx; Some (msg_type, cnt, rx) }
      = Some (MSG_OUTER_DATA, of_nat (length f), map Some ?b @ rest)"
    unfolding rx rx_byte_plain by (simp add: rx_le16)
  obtain buf counts where "build_outer_tuple_loop (c_keytype c) (c_K c) (c_outer_slot_w c) (length f) (k\<lparr>k_rx := map Some ?b @ rest\<rparr>) =
      (GNext, k\<lparr>k_rx := rest, k_ddr2_buf := buf, k_outer_counts := counts,
         k_outer_received := k_outer_received k + of_nat (length f)\<rparr>)"
    "outer_inv (c_K c) (c_outer_slot_w c) ic ir counts buf (rows @ f)"
    using build_outer_tuple_loop_ok [of "c_keytype c" f "k\<lparr>k_rx := map Some ?b @ rest\<rparr>" rest "c_K c" "c_outer_slot_w c" ic ir rows] assms
    by auto
  then show ?thesis
    unfolding build_outer_frame_def h using assms(2)
    by (intro exI [of _ buf] exI [of _ counts]) (simp add: Let_def tx_messages)
qed


lemma build_outer_frame_loop_skip:
  assumes "frames_ok (c_keytype c) fs"
    "k_rx k = map Some (host_frames (c_keytype c) MSG_OUTER_DATA fs) @ rest"
    "unat (k_outer_received k) + length (concat fs) \<le> unat (c_outer_total c)"
    "unat (c_outer_total c) + 1 < 2 ^ 32" "unat frame + length fs \<le> unat (c_outer_total c) + 1"
    "0 < c_K c" "layout_ok (c_K c) (c_outer_slot_w c)"
    "outer_inv (c_K c) (c_outer_slot_w c) ic ir (k_outer_counts k) (k_ddr2_buf k) rows"
    "outer_fits (c_K c) (c_outer_slot_w c) (rows @ concat fs)"
  shows "\<exists>buf counts. build_outer_frame_loop c frame k =
      build_outer_frame_loop c (frame + of_nat (length fs)) (k\<lparr>k_rx := rest, k_ddr2_buf := buf, k_outer_counts := counts,
         k_outer_received := k_outer_received k + of_nat (length (concat fs)),
         k_tx := k_tx k @ tx_of (grace_ack_msgs PHASE_PROBING (c_session_id c) (c_outer_total c) (k_outer_received k) fs)\<rparr>) \<and>
    outer_inv (c_K c) (c_outer_slot_w c) ic ir counts buf (rows @ concat fs)"
  using assms
proof (induction fs arbitrary: k frame rows)
  case Nil
  have "rest = k_rx k" using Nil(2) by (simp add: host_frames_def)
  with Nil show ?case
    by (intro exI [of _ "k_ddr2_buf k"] exI [of _ "k_outer_counts k"]) simp
next
  case (Cons f fs)
  define r where "r = map Some (host_frames (c_keytype c) MSG_OUTER_DATA fs) @ rest"
  let ?n = "k_outer_received k + of_nat (length f)"
  have f: "f \<noteq> []" "length f \<le> 256" "list_all (\<lambda>t. key_fits (c_keytype c) (it_key t)) f"
    using Cons.prems(1) by (simp_all add: frames_ok_def)
  have rx: "k_rx k = map Some (serialize_batch (c_keytype c) MSG_OUTER_DATA f (length f)) @ r"
    using Cons.prems(2) by (simp add: host_frames_Cons r_def)
  have "outer_fits (c_K c) (c_outer_slot_w c) ((rows @ f) @ concat fs)" using Cons.prems(9) by simp
  then have fit: "outer_fits (c_K c) (c_outer_slot_w c) (rows @ f)" by (rule fits_prefix)
  obtain buf counts where fr: "build_outer_frame c k = (GNext, k\<lparr>k_rx := r, k_ddr2_buf := buf,
      k_outer_counts := counts, k_outer_received := ?n,
      k_tx := k_tx k @ tx_of [KStatus MSG_ACK PHASE_PROBING ?n 0 (credit_of (c_outer_total c - ?n)) (c_session_id c)]\<rparr>)"
    and rep: "outer_inv (c_K c) (c_outer_slot_w c) ic ir counts buf (rows @ f)"
    using build_outer_frame_ok [OF f rx Cons.prems(6,7,8) fit] by blast
  let ?k = "k\<lparr>k_rx := r, k_ddr2_buf := buf, k_outer_counts := counts, k_outer_received := ?n,
      k_tx := k_tx k @ tx_of [KStatus MSG_ACK PHASE_PROBING ?n 0 (credit_of (c_outer_total c - ?n)) (c_session_id c)]\<rparr>"
  have tot: "unat (c_outer_total c) + 1 < 4294967296" using Cons.prems(4) by simp
  have lt: "\<not> k_outer_received k \<ge> c_outer_total c"
    using Cons.prems(3) f(1) by (cases f) (simp_all add: word_le_nat_alt)
  have len: "unat (of_nat (length f) :: u32) = length f"
    using f(2) by (simp add: unsigned_of_nat take_bit_nat_eq_self_iff)
  have un: "unat ?n = unat (k_outer_received k) + length f"
    using Cons.prems(3) tot len by (subst unat_add_lem [THEN iffD1]) simp_all
  have b: "unat (c_outer_total c + 1) = unat (c_outer_total c) + 1" using tot by (simp add: unat_word_ariths)
  have fl: "frame \<le> c_outer_total c div 1 + 1" "unat (frame + 1) + length fs \<le> unat (c_outer_total c) + 1"
    using Cons.prems(5) b tot by (simp_all add: word_le_nat_alt unat_word_ariths)
  have step: "build_outer_frame_loop c frame k = build_outer_frame_loop c (frame + 1) ?k"
    using lt fl(1) by (subst build_outer_frame_loop.simps) (simp only: fr if_False not_False_eq_True not_True_eq_False if_True prod.case gflow.case)
  obtain buf' counts' where "build_outer_frame_loop c (frame + 1) ?k =
      build_outer_frame_loop c (frame + 1 + of_nat (length fs)) (?k\<lparr>k_rx := rest, k_ddr2_buf := buf', k_outer_counts := counts',
         k_outer_received := k_outer_received ?k + of_nat (length (concat fs)),
         k_tx := k_tx ?k @ tx_of (grace_ack_msgs PHASE_PROBING (c_session_id c) (c_outer_total c) (k_outer_received ?k) fs)\<rparr>)"
    "outer_inv (c_K c) (c_outer_slot_w c) ic ir counts' buf' ((rows @ f) @ concat fs)"
    using Cons.IH [of ?k "frame + 1" "rows @ f"] Cons.prems un fl(2) rep
    by (auto simp: frames_ok_def r_def simp del: length_concat)
  then show ?case
    unfolding step by (intro exI [of _ buf'] exI [of _ counts']) (simp add: Let_def algebra_simps)
qed

lemma build_outer_frame_loop_done:
  "k_outer_received k = c_outer_total c \<Longrightarrow> build_outer_frame_loop c frame k = (GRet ERR_NONE, k)"
  by (simp add: build_outer_frame_loop.simps)

lemma build_outer_frame_loop_ok:
  assumes "frames_ok (c_keytype c) fs"
    "k_rx k = map Some (host_frames (c_keytype c) MSG_OUTER_DATA fs) @ rest"
    "unat (k_outer_received k) + length (concat fs) = unat (c_outer_total c)"
    "unat (c_outer_total c) + 1 < 2 ^ 32" "unat frame + length fs \<le> unat (c_outer_total c) + 1"
    "0 < c_K c" "layout_ok (c_K c) (c_outer_slot_w c)"
    "outer_inv (c_K c) (c_outer_slot_w c) ic ir (k_outer_counts k) (k_ddr2_buf k) rows"
    "outer_fits (c_K c) (c_outer_slot_w c) (rows @ concat fs)"
  shows "\<exists>buf counts. build_outer_frame_loop c frame k =
      (GRet ERR_NONE, (k\<lparr>k_rx := rest, k_ddr2_buf := buf, k_outer_counts := counts,
         k_outer_received := c_outer_total c,
         k_tx := k_tx k @ tx_of (grace_ack_msgs PHASE_PROBING (c_session_id c) (c_outer_total c) (k_outer_received k) fs)\<rparr>)) \<and>
    outer_inv (c_K c) (c_outer_slot_w c) ic ir counts buf (rows @ concat fs)"
proof -
  have le: "unat (k_outer_received k) + length (concat fs) \<le> unat (c_outer_total c)" using assms(3) by simp
  have "k_outer_received k + of_nat (length (concat fs)) = c_outer_total c"
    using arg_cong [OF assms(3), of "of_nat :: nat \<Rightarrow> u32"] by simp
  with build_outer_frame_loop_skip [OF assms(1,2) le assms(4-9)] show ?thesis
    by (force simp: build_outer_frame_loop_done)
qed

lemma build_outer_frame_loop_waits:
  assumes "frames_ok (c_keytype c) fs"
    "k_rx k = map Some (host_frames (c_keytype c) MSG_OUTER_DATA fs)"
    "unat (k_outer_received k) + length (concat fs) < unat (c_outer_total c)"
    "unat (c_outer_total c) + 1 < 2 ^ 32" "unat frame + length fs \<le> unat (c_outer_total c) + 1"
    "0 < c_K c" "layout_ok (c_K c) (c_outer_slot_w c)"
    "outer_inv (c_K c) (c_outer_slot_w c) ic ir (k_outer_counts k) (k_ddr2_buf k) rows"
    "outer_fits (c_K c) (c_outer_slot_w c) (rows @ concat fs)"
  shows "\<exists>k'. build_outer_frame_loop c frame k = (GBlocked, k') \<and>
    k_tx k' = k_tx k @ tx_of (grace_ack_msgs PHASE_PROBING (c_session_id c) (c_outer_total c) (k_outer_received k) fs)"
proof -
  have le: "unat (k_outer_received k) + length (concat fs) \<le> unat (c_outer_total c)" using assms(3) by simp
  have rx: "k_rx k = map Some (host_frames (c_keytype c) MSG_OUTER_DATA fs) @ []" using assms(2) by simp
  let ?n = "k_outer_received k + of_nat (length (concat fs))"
  obtain buf counts where l: "build_outer_frame_loop c frame k = build_outer_frame_loop c (frame + of_nat (length fs))
      (k\<lparr>k_rx := [], k_ddr2_buf := buf, k_outer_counts := counts, k_outer_received := ?n,
         k_tx := k_tx k @ tx_of (grace_ack_msgs PHASE_PROBING (c_session_id c) (c_outer_total c) (k_outer_received k) fs)\<rparr>)"
    using build_outer_frame_loop_skip [OF assms(1) rx le assms(4-9)] by blast
  have b: "unat (c_outer_total c) + 1 < 2 ^ 32" using assms(4) by (simp add: word_le_nat_alt)
  have t: "unat (c_outer_total c + 1) = unat (c_outer_total c) + 1" using b by (simp add: unat_word_ariths)
  have "unat ?n = unat (k_outer_received k) + length (concat fs)"
    using assms(3) b by (simp add: unat_word_ariths unsigned_of_nat take_bit_nat_eq_self del: length_concat)
  then have n: "\<not> c_outer_total c \<le> ?n" using assms(3) by (simp add: word_le_nat_alt del: length_concat)
  have "unat (frame + of_nat (length fs)) = unat frame + length fs"
    using assms(5) b by (simp add: unat_word_ariths unsigned_of_nat take_bit_nat_eq_self)
  then have f: "frame + of_nat (length fs) \<le> c_outer_total c div 1 + 1" using assms(5) t by (simp add: word_le_nat_alt)
  show ?thesis
    unfolding l using n f by (subst build_outer_frame_loop.simps) (simp add: build_outer_frame_def)
qed

section \<open>Joining the partitions\<close>

text \<open>While the partitions are joined the kernel sends result frames only, none empty or too long.\<close>

definition results_only :: "KernelMsg list \<Rightarrow> bool" where
  "results_only ms \<longleftrightarrow> list_all (\<lambda>m. case m of KResult rs \<Rightarrow> rs \<noteq> [] \<and> length rs \<le> unat TX_BUF_SIZE | _ \<Rightarrow> False) ms"

lemma results_only_simps [simp]:
  "results_only []" "results_only (a @ b) \<longleftrightarrow> results_only a \<and> results_only b"
  "length buf \<le> 256 \<Longrightarrow> results_only (result_msgs buf)"
  by (simp_all add: results_only_def result_msgs_def)

lemma results_only_few: "results_only ms \<Longrightarrow> length ms \<le> length (pairs_of ms)"
proof (induction ms)
  case (Cons m ms)
  then have "0 < length (msg_pairs m)" "length ms \<le> length (pairs_of ms)"
    by (simp_all add: results_only_def split: KernelMsg.splits)
  then show ?case by (cases "msg_pairs m") simp_all
qed simp

text \<open>A list of at least 123 pairs for a partition shows in the length of a result frame.\<close>

definition covers_long :: "ResultPair list list \<Rightarrow> KernelMsg list \<Rightarrow> bool" where
  "covers_long js ms \<longleftrightarrow> list_ex (\<lambda>j. 122 < length j) js \<longrightarrow> list_ex (\<lambda>m. 122 < length (msg_pairs m)) ms"

lemma covers_long_append: "covers_long a x \<Longrightarrow> covers_long b y \<Longrightarrow> covers_long (a @ b) (x @ y)"
  by (auto simp: covers_long_def)

lemma covers_long_chunks:
  assumes "list_all (\<lambda>m. length (msg_pairs m) = 256) ms"
  shows "covers_long [pairs_of ms @ buf] (ms @ result_msgs buf)"
  using assms by (cases ms) (auto simp: covers_long_def result_msgs_def pairs_of_def list_ex_iff)

lemma unat_row_count: "n < 2 ^ 32 \<Longrightarrow> unat (of_nat n :: u32) = n"
  by (simp add: unsigned_of_nat take_bit_nat_eq_self_iff)

text \<open>Whether a partition fits the BRAM table does not depend on what the table held before.\<close>

definition same_slots :: "LinearHashTable \<Rightarrow> LinearHashTable \<Rightarrow> bool" where
  "same_slots h h' \<longleftrightarrow> (\<forall>s<HT_SLOTS. ht_valid h s = ht_valid h' s) \<and> row_count h = row_count h'"

lemma same_slots_insert:
  assumes "same_slots h h'"
  shows "fst (ht_insert h key t) = fst (ht_insert h' key t) \<and>
    same_slots (snd (ht_insert h key t)) (snd (ht_insert h' key t))"
proof -
  have v: "ht_valid h (probe_slot s i) = ht_valid h' (probe_slot s i)" for s i
    using assms probe_slot_less by (simp add: same_slots_def)
  then have f: "find (\<lambda>i. ht_valid h (probe_slot s i) = 0) xs = find (\<lambda>i. ht_valid h' (probe_slot s i) = 0) xs" for s xs
    by simp
  have "same_slots (ht_store h s key t) (ht_store h' s key t)" for s
    using assms by (simp add: same_slots_def ht_store_def)
  with assms show ?thesis
    by (auto simp: ht_insert_def ht_build_def build_loop_find f same_slots_def split: option.split)
qed

lemma same_slots_build_all:
  "same_slots h h' \<Longrightarrow> fst (build_all ht_insert h ts) = fst (build_all ht_insert h' ts)"
proof (induction ts arbitrary: h h')
  case (Cons t ts)
  show ?case
    using same_slots_insert [OF Cons.prems, of "it_key t" "it_tid t"]
      Cons.IH [of "snd (ht_insert h (it_key t) (it_tid t))" "snd (ht_insert h' (it_key t) (it_tid t))"]
    by (auto split: prod.split)
qed simp

lemma build_all_reset_any:
  "fst (build_all ht_insert (ht_reset h) ts) = fst (build_all ht_insert (ht_reset h') ts)"
  by (rule same_slots_build_all) (simp add: same_slots_def ht_reset_def)

lemma join_probe_loop_ok:
  assumes "length buf < 256" "join_probe_loop ht ts tx buf m = (tx', buf', m')"
  shows "\<exists>ms. tx' = tx @ tx_of ms \<and> pairs_of ms @ buf' = buf @ probe_pairs (ht_lookup ht) ts \<and>
    m' = m + of_nat (length (probe_pairs (ht_lookup ht) ts)) \<and> length buf' < 256 \<and> results_only ms \<and>
    list_all (\<lambda>m. length (msg_pairs m) = 256) ms"
  using assms
proof (induction ts arbitrary: tx buf m)
  case Nil
  then show ?case by (intro exI [of _ "[]"]) simp
next
  case (Cons t ts)
  show ?case
  proof (cases "ht_lookup ht (it_key t)")
    case None
    with Cons.IH [OF Cons.prems(1)] Cons.prems(2) show ?thesis by simp
  next
    case (Some i)
    let ?buf = "buf @ [\<lparr>inner_tid = i, outer_tid = it_tid t\<rparr>]"
    have len: "unat (of_nat (length ?buf) :: u16) = length ?buf"
      using Cons.prems(1) by (intro unat_of_nat_le256) simp
    show ?thesis
    proof (cases "length ?buf = 256")
      case True
      then have "join_probe_loop ht ts (tx_results tx ?buf) [] (m + 1) = (tx', buf', m')"
        using Cons.prems(2) Some by simp
      from Cons.IH [OF _ this] obtain ms where "tx' = tx_results tx ?buf @ tx_of ms"
        "pairs_of ms @ buf' = probe_pairs (ht_lookup ht) ts"
        "m' = m + 1 + of_nat (length (probe_pairs (ht_lookup ht) ts))" "length buf' < 256" "results_only ms"
        "list_all (\<lambda>m. length (msg_pairs m) = 256) ms" by auto
      moreover have "list_all (\<lambda>m. length (msg_pairs m) = 256) (result_msgs ?buf)" using True by (simp add: result_msgs_def)
      ultimately show ?thesis
        using Some True by (intro exI [of _ "result_msgs ?buf @ ms"]) (simp add: tx_messages)
    next
      case False
      then have ne: "of_nat (length ?buf) \<noteq> (ucast TX_BUF_SIZE :: u16)"
        using len by (auto simp: word_unat_eq_iff)
      then have "join_probe_loop ht ts tx ?buf (m + 1) = (tx', buf', m')"
        using Cons.prems(2) Some by (simp add: Let_def del: of_nat_Suc of_nat_add)
      from Cons.IH [OF _ this] False Cons.prems(1) Some show ?thesis by (auto simp: algebra_simps)
    qed
  qed
qed

lemma join_partition_ok:
  assumes "layout_ok (c_K c) (c_outer_slot_w c)" "p < c_K c"
    "outer_inv (c_K c) (c_outer_slot_w c) (k_inner_counts k) inner (k_outer_counts k) (k_ddr2_buf k) outer"
    "fst (build_all ht_insert (ht_reset ht_blank) (part_rows (c_K c) p inner)) = ERR_NONE"
  shows "\<exists>ht ms. join_partition c p k = (ERR_NONE, k\<lparr>k_ht := ht,
      k_matched := k_matched k + of_nat (length (pairs_of ms)),
      k_tx := k_tx k @ tx_of ms\<rparr>) \<and>
    pairs_of ms = join_spec (part_rows (c_K c) p inner) (part_rows (c_K c) p outer) \<and> results_only ms \<and>
    covers_long [join_spec (part_rows (c_K c) p inner) (part_rows (c_K c) p outer)] ms"
proof -
  let ?in = "part_rows (c_K c) p inner" and ?out = "part_rows (c_K c) p outer"
  have sl: "slot_rows (k_ddr2_buf k) (inner_slot_idx p) (k_inner_counts k p) = ?in"
    "slot_rows (k_ddr2_buf k) (outer_slot_idx (c_outer_slot_w c) p) (k_outer_counts k p) = ?out"
    using assms(2,3) by (simp_all add: outer_inv_def slot_rep_def)
  have e: "fst (build_all ht_insert (ht_reset (k_ht k)) ?in) = ERR_NONE"
    using assms(4) build_all_reset_any [of "k_ht k" ?in ht_blank] by simp
  then obtain ht where b: "build_all ht_insert (ht_reset (k_ht k)) ?in = (ERR_NONE, ht)"
    by (cases "build_all ht_insert (ht_reset (k_ht k)) ?in") auto
  have j: "probe_pairs (ht_lookup ht) ?out = join_spec ?in ?out"
    using lht.build_then_probe [OF e, of ?out] b by simp
  obtain tx buf m where l: "join_probe_loop ht ?out (k_tx k) [] (k_matched k) = (tx, buf, m)"
    by (cases "join_probe_loop ht ?out (k_tx k) [] (k_matched k)")
  from join_probe_loop_ok [OF _ l] j obtain ms where ms: "tx = k_tx k @ tx_of ms"
    "pairs_of ms @ buf = join_spec ?in ?out" "m = k_matched k + of_nat (length (join_spec ?in ?out))" "length buf < 256" "results_only ms"
    "list_all (\<lambda>m. length (msg_pairs m) = 256) ms" by auto
  have "join_partition c p k = (ERR_NONE, k\<lparr>k_ht := ht, k_matched := m,
      k_tx := (if length buf > 0 then tx_results tx buf else tx)\<rparr>)"
    using b l by (simp add: join_partition_def sl)
  moreover have "(if length buf > 0 then tx_results tx buf else tx) = k_tx k @ tx_of (ms @ result_msgs buf)"
    using ms(1) by (simp add: tx_messages result_msgs_def)
  ultimately show ?thesis
    using ms(2-) covers_long_chunks [OF ms(6), of buf] by (intro exI [of _ ht] exI [of _ "ms @ result_msgs buf"]) simp
qed

lemma join_partition_loop_ok:
  assumes "layout_ok (c_K c) (c_outer_slot_w c)" "list_all (\<lambda>p. p < c_K c) ps"
    "outer_inv (c_K c) (c_outer_slot_w c) (k_inner_counts k) inner (k_outer_counts k) (k_ddr2_buf k) outer"
    "list_all (\<lambda>p. fst (build_all ht_insert (ht_reset ht_blank) (part_rows (c_K c) p inner)) = ERR_NONE) ps"
  shows "\<exists>ht ms. join_partition_loop c ps k = (ERR_NONE, k\<lparr>k_ht := ht,
      k_matched := k_matched k + of_nat (length (pairs_of ms)), k_tx := k_tx k @ tx_of ms\<rparr>) \<and>
    pairs_of ms = concat (map (\<lambda>p. join_spec (part_rows (c_K c) p inner) (part_rows (c_K c) p outer)) ps) \<and> results_only ms \<and>
    covers_long (map (\<lambda>p. join_spec (part_rows (c_K c) p inner) (part_rows (c_K c) p outer)) ps) ms"
  using assms
proof (induction ps arbitrary: k)
  case Nil
  then show ?case by (intro exI [of _ "k_ht k"] exI [of _ "[]"]) (simp add: covers_long_def)
next
  case (Cons p ps)
  obtain ht ms where p: "join_partition c p k = (ERR_NONE, k\<lparr>k_ht := ht,
      k_matched := k_matched k + of_nat (length (pairs_of ms)), k_tx := k_tx k @ tx_of ms\<rparr>)"
    "pairs_of ms = join_spec (part_rows (c_K c) p inner) (part_rows (c_K c) p outer)" "results_only ms"
    "covers_long [join_spec (part_rows (c_K c) p inner) (part_rows (c_K c) p outer)] ms"
    using join_partition_ok [OF Cons.prems(1) _ Cons.prems(3), of p] Cons.prems(2,4) by auto
  let ?k = "k\<lparr>k_ht := ht, k_matched := k_matched k + of_nat (length (pairs_of ms)), k_tx := k_tx k @ tx_of ms\<rparr>"
  obtain ht' ms' where ps: "join_partition_loop c ps ?k = (ERR_NONE, ?k\<lparr>k_ht := ht',
      k_matched := k_matched ?k + of_nat (length (pairs_of ms')), k_tx := k_tx ?k @ tx_of ms'\<rparr>)"
    "pairs_of ms' = concat (map (\<lambda>p. join_spec (part_rows (c_K c) p inner) (part_rows (c_K c) p outer)) ps)" "results_only ms'"
    "covers_long (map (\<lambda>p. join_spec (part_rows (c_K c) p inner) (part_rows (c_K c) p outer)) ps) ms'"
    using Cons.IH [of ?k] Cons.prems by auto
  with p covers_long_append [OF p(4) ps(4)] show ?case
    by (intro exI [of _ ht'] exI [of _ "ms @ ms'"]) (simp add: algebra_simps)
qed

section \<open>The partitions together\<close>

lemma first_match_part:
  "partition_of key K = p \<Longrightarrow> first_match (part_rows K p inner) key = first_match inner key"
  by (induction inner) (auto simp: first_match_def part_rows_def tuple_entry_def)

lemma join_part:
  "join_spec (part_rows K p inner) (part_rows K p outer) = probe_pairs (first_match inner) (part_rows K p outer)"
  unfolding join_spec_def
  by (rule probe_pairs_cong) (auto simp: part_rows_def intro: first_match_part [unfolded part_rows_def])

lemma mset_split_parts:
  assumes "distinct ps" "\<And>x. x \<in> set xs \<Longrightarrow> f x \<in> set ps"
  shows "mset (concat (map (\<lambda>p. probe_pairs m (filter (\<lambda>t. f t = p) xs)) ps)) = mset (probe_pairs m xs)"
  using assms(2)
proof (induction xs)
  case Nil
  then show ?case by (induction ps) auto
next
  case (Cons x xs)
  define A where "A = probe_pairs m [x]"
  have c: "probe_pairs m (x # ys) = A @ probe_pairs m ys" for ys by (simp add: A_def split: option.split)
  have one: "mset (concat (map (\<lambda>p. probe_pairs m (filter (\<lambda>t. f t = p) (x # xs))) qs)) =
      (if f x \<in> set qs then mset A else {#}) +
      mset (concat (map (\<lambda>p. probe_pairs m (filter (\<lambda>t. f t = p) xs)) qs))" if "distinct qs" for qs
    using that by (induction qs) (auto simp: c simp del: probe_pairs.simps(2))
  show ?case
    using one [OF assms(1)] Cons by (simp add: c del: probe_pairs.simps(2))
qed

lemma mset_join_parts:
  assumes "0 < K"
  shows "mset (concat (map (\<lambda>p. join_spec (part_rows K p inner) (part_rows K p outer)) (map of_nat [0..<unat K])))
    = mset (join_spec inner outer)"
proof -
  have d: "distinct (map of_nat [0..<unat K] :: u32 list)"
    by (auto simp: distinct_map intro!: inj_onI) (metis unat_of_nat_less)
  have "partition_of key K \<in> set (map of_nat [0..<unat K])" for key
    using partition_less [OF assms, of key] unsigned_less
    by (auto simp: image_iff word_less_nat_alt intro!: bexI [of _ "unat (partition_of key K)"])
  then show ?thesis
    unfolding join_part unfolding part_rows_def join_spec_def by (intro mset_split_parts d)
qed

section \<open>Accepted layouts\<close>

lemma grace_K:
  assumes "inner_total \<le> GRACE_MAX_INNER_ROWS" "grace_layout inner_total outer_total = (K, w)"
  shows "0 < K" "K \<le> GRACE_MAX_K"
proof -
  let ?q = "(inner_total + HT_MAX_ROWS - 1) div HT_MAX_ROWS"
  have K: "K = (if ?q = 0 then 1 else ?q)" using assms(2) by (auto simp: grace_layout_def Let_def)
  show "0 < K" unfolding K by (simp add: word_gt_0)
  have "unat inner_total \<le> 3145728" using assms(1) by (simp add: word_le_nat_alt)
  then have "unat (12287 + inner_total) = unat inner_total + 12287" by (simp add: unat_word_ariths)
  then have "unat ?q = (unat inner_total + 12287) div 12288" by (simp add: unat_div)
  also have "\<dots> \<le> 256" using \<open>unat inner_total \<le> 3145728\<close> by linarith
  finally show "K \<le> GRACE_MAX_K" unfolding K by (simp add: word_le_nat_alt)
qed

lemma check_configure_layout:
  assumes "check_configure ALGORITHM_B inner_total outer_total = (ERR_NONE, K, w)"
  shows "layout_ok K w"
proof -
  have n: "inner_total \<le> GRACE_MAX_INNER_ROWS" and l: "grace_layout inner_total outer_total = (K, w)"
    and d: "(6291456 :: u64) + ucast K * ucast w \<le> 16777216"
    using assms by (auto simp: check_configure_def not_le [symmetric] split: if_splits prod.splits)
  note K = grace_K [OF n l]
  have k256: "unat K \<le> 256" using K(2) by (simp add: word_le_nat_alt)
  have w32: "unat w < 4294967296" using unsigned_less [where 'a = nat, of w] by simp
  have p: "unat K * unat w \<le> 256 * 4294967296" using k256 w32 by (intro mult_le_mono) simp_all
  have uK: "unat (ucast K :: u64) = unat K" and uw: "unat (ucast w :: u64) = unat w"
    using k256 w32 by (simp_all add: unsigned_ucast_eq take_bit_nat_eq_self_iff)
  have "unat ((6291456 :: u64) + ucast K * ucast w) = 6291456 + unat K * unat w"
    using p by (simp add: unat_word_ariths uK uw)
  then show ?thesis using d K by (simp add: layout_ok_def word_le_nat_alt)
qed

text \<open>C17. Every layout the CONFIGURE check accepts keeps the tuples of both areas inside the DDR2
  buffer and apart: the inner tuples end below the outer base, the outer tuples begin there and
  end within the buffer.\<close>

theorem grace_layout_in_bounds:
  assumes "check_configure ALGORITHM_B inner_total outer_total = (ERR_NONE, K, w)"
    and "p < K" "i < HT_MAX_ROWS" "q < K" "j < w div GRACE_WORDS_PER_TUPLE"
  shows "unat (inner_slot_idx p i) + 1 < unat GRACE_OUTER_AREA_BASE \<and>
    unat GRACE_OUTER_AREA_BASE \<le> unat (outer_slot_idx w q j) \<and>
    unat (outer_slot_idx w q j) + 1 < unat GRACE_DDR2_TOTAL_WORDS"
proof -
  note l = check_configure_layout [OF assms(1)]
  have "p < 256" "i < 12288" "j < w div 2" using assms l by (auto simp: layout_ok_def)
  then show ?thesis
    using unat_inner_slot_idx [of p i] unat_outer_slot_idx [OF l assms(4)] by simp
qed

theorem grace_layout_in_bounds_witness:
  "check_configure ALGORITHM_B 20000 20000 = (ERR_NONE, 2, 40004) \<and>
   unat (inner_slot_idx 1 12287) + 1 < 6291456 \<and> 6291456 \<le> unat (outer_slot_idx 40004 1 20001) \<and>
   unat (outer_slot_idx 40004 1 20001) + 1 < 16777216"
proof -
  have c: "check_configure ALGORITHM_B 20000 20000 = (ERR_NONE, 2, 40004)" by code_simp
  show ?thesis using c grace_layout_in_bounds [OF c, of 1 12287 1 20001] by simp
qed

text \<open>A tuple written to DDR2 is read back unchanged, whatever the buffer held.\<close>

lemma unpack_pack_tuple: "unpack_tuple (pack_tuple buf idx t) idx = t"
  by (rule unpack_pack)

section \<open>A session of algorithm B\<close>

lemma reset_counts_rep: "K \<le> GRACE_MAX_K \<Longrightarrow> slot_rep K cap idx (reset_counts counts) buf []"
  by (rule rep_empty) (auto simp: reset_counts_def)

definition partition_joins :: "u32 \<Rightarrow> InputTuple list \<Rightarrow> InputTuple list \<Rightarrow> ResultPair list list" where
  "partition_joins K inner outer = map (\<lambda>p. join_spec (part_rows K p inner) (part_rows K p outer)) (map of_nat [0..<unat K])"

lemma join_all_partitions_ok:
  assumes "layout_ok (c_K c) (c_outer_slot_w c)"
    "outer_inv (c_K c) (c_outer_slot_w c) (k_inner_counts k) inner (k_outer_counts k) (k_ddr2_buf k) outer"
    "list_all (\<lambda>p. fst (build_all ht_insert (ht_reset ht_blank) (part_rows (c_K c) p inner)) = ERR_NONE)
       (map of_nat [0..<unat (c_K c)])"
  shows "\<exists>k' ms. join_all_partitions c k = (ERR_NONE, k') \<and> k_rx k' = k_rx k \<and>
    k_session_done k' = k_session_done k \<and> k_tx k' = k_tx k @ tx_of ms \<and>
    k_matched k' = of_nat (length (pairs_of ms)) \<and> mset (pairs_of ms) = mset (join_spec inner outer) \<and> results_only ms \<and>
    covers_long (partition_joins (c_K c) inner outer) ms"
proof -
  have K: "0 < c_K c" using assms(1) by (simp add: layout_ok_def)
  have ps: "list_all (\<lambda>p. p < c_K c) (map of_nat [0..<unat (c_K c)])"
    using unat_of_nat_less [of _ "c_K c"] by (auto simp: list_all_iff word_less_nat_alt)
  let ?k = "k\<lparr>k_matched := 0\<rparr>"
  obtain ht ms where "join_partition_loop c (map of_nat [0..<unat (c_K c)]) ?k = (ERR_NONE, ?k\<lparr>k_ht := ht,
      k_matched := k_matched ?k + of_nat (length (pairs_of ms)), k_tx := k_tx ?k @ tx_of ms\<rparr>)"
    "pairs_of ms = concat (map (\<lambda>p. join_spec (part_rows (c_K c) p inner) (part_rows (c_K c) p outer))
       (map of_nat [0..<unat (c_K c)]))" "results_only ms" "covers_long (partition_joins (c_K c) inner outer) ms"
    unfolding partition_joins_def using join_partition_loop_ok [OF assms(1) ps _ assms(3), of ?k outer] assms(2) by fastforce
  then show ?thesis
    using mset_join_parts [OF K, of inner outer]
    unfolding join_all_partitions_def by (intro exI [of _ "?k\<lparr>k_ht := ht,
      k_matched := k_matched ?k + of_nat (length (pairs_of ms)), k_tx := k_tx ?k @ tx_of ms\<rparr>"] exI [of _ ms])
      (simp only: , simp)
qed

lemma build_inner_partitions_ok:
  assumes c: "c_keytype c = kt" "c_inner_total c = of_nat (length (concat ifs))" and K: "0 < c_K c" "c_K c \<le> GRACE_MAX_K"
    and fr: "frames_ok kt ifs" and len: "length (concat ifs) \<le> 3145728" and fit: "inner_fits (c_K c) (concat ifs)"
    and rx: "k_rx k = map Some (host_frames kt MSG_INNER_DATA ifs) @ rest"
  shows "\<exists>buf ic. build_inner_partitions c k =
      (GRet ERR_NONE, k\<lparr>k_inner_counts := reset_counts (k_inner_counts k),
         k_outer_counts := reset_counts (k_outer_counts k), k_inner_received := 0, k_rx := rest, k_ddr2_buf := buf, k_inner_counts := ic,
         k_inner_received := c_inner_total c,
         k_tx := k_tx k @ tx_of (grace_ack_msgs PHASE_BUILDING (c_session_id c) (c_inner_total c) 0 ifs)\<rparr>) \<and>
    slot_rep (c_K c) HT_MAX_ROWS inner_slot_idx ic buf (concat ifs)"
proof -
  let ?k0 = "k\<lparr>k_inner_counts := reset_counts (k_inner_counts k),
    k_outer_counts := reset_counts (k_outer_counts k), k_inner_received := 0\<rparr>"
  have ni: "unat (c_inner_total c) = length (concat ifs)"
    unfolding c using len by (simp add: unsigned_of_nat take_bit_nat_eq_self_iff del: length_concat)
  have "\<exists>buf counts. build_inner_frame_loop c 0 ?k0 =
      (GRet ERR_NONE, ?k0\<lparr>k_rx := rest, k_ddr2_buf := buf, k_inner_counts := counts,
         k_inner_received := c_inner_total c,
         k_tx := k_tx ?k0 @ tx_of (grace_ack_msgs PHASE_BUILDING (c_session_id c) (c_inner_total c)
           (k_inner_received ?k0) ifs)\<rparr>) \<and>
    slot_rep (c_K c) HT_MAX_ROWS inner_slot_idx counts buf ([] @ concat ifs)"
    using fr rx c(1) ni len K fit length_frames_ok [OF fr]
    by (intro build_inner_frame_loop_ok) (simp_all add: word_le_nat_alt reset_counts_rep del: length_concat HT_MAX_ROWS_value)
  then show ?thesis by (simp add: build_inner_partitions_def)
qed

lemma algorithm_b_ok:
  assumes c: "c_keytype c = kt" "c_inner_total c = of_nat (length (concat ifs))"
    "c_outer_total c = of_nat (length (concat ofs))" "layout_ok (c_K c) (c_outer_slot_w c)"
    and fr: "frames_ok kt ifs" "frames_ok kt ofs"
    and len: "length (concat ifs) \<le> 3145728" "length (concat ofs) + 1 < 2 ^ 32"
    and fit: "inner_fits (c_K c) (concat ifs)" "outer_fits (c_K c) (c_outer_slot_w c) (concat ofs)"
    and b: "list_all (\<lambda>p. fst (build_all ht_insert (ht_reset ht_blank) (part_rows (c_K c) p (concat ifs))) = ERR_NONE)
      (map of_nat [0..<unat (c_K c)])"
    and rx: "k_rx k = map Some (host_frames kt MSG_INNER_DATA ifs @ host_frames kt MSG_OUTER_DATA ofs) @ rest"
    and k: "\<not> k_session_done k"
  shows "\<exists>k' ms. algorithm_b c k = (Continue, k') \<and> \<not> k_session_done k' \<and> k_rx k' = rest \<and>
    k_tx k' = k_tx k @ tx_of (grace_ack_msgs PHASE_BUILDING (c_session_id c) (c_inner_total c) 0 ifs @
      grace_ack_msgs PHASE_PROBING (c_session_id c) (c_outer_total c) 0 ofs @ ms) \<and> results_only ms \<and>
    covers_long (partition_joins (c_K c) (concat ifs) (concat ofs)) ms \<and> mset (pairs_of ms) = mset (join_spec (concat ifs) (concat ofs)) \<and> k_matched k' = of_nat (length (pairs_of ms))"
proof -
  let ?r = "map Some (host_frames kt MSG_OUTER_DATA ofs) @ rest"
  let ?k0 = "k\<lparr>k_inner_counts := reset_counts (k_inner_counts k),
    k_outer_counts := reset_counts (k_outer_counts k), k_inner_received := 0\<rparr>"
  have K: "0 < c_K c" "c_K c \<le> GRACE_MAX_K" using c(4) by (simp_all add: layout_ok_def)
  have no: "unat (c_outer_total c) = length (concat ofs)"
    unfolding c using len(2) by (simp add: unsigned_of_nat take_bit_nat_eq_self_iff del: length_concat)
  obtain buf ic where p1: "build_inner_partitions c k =
      (GRet ERR_NONE, ?k0\<lparr>k_rx := ?r, k_ddr2_buf := buf, k_inner_counts := ic,
         k_inner_received := c_inner_total c,
         k_tx := k_tx k @ tx_of (grace_ack_msgs PHASE_BUILDING (c_session_id c) (c_inner_total c) 0 ifs)\<rparr>)"
    and irep: "slot_rep (c_K c) HT_MAX_ROWS inner_slot_idx ic buf (concat ifs)"
    using build_inner_partitions_ok [OF c(1,2) K fr(1) len(1) fit(1), of k ?r] rx by auto
  let ?k1 = "?k0\<lparr>k_rx := ?r, k_ddr2_buf := buf, k_inner_counts := ic, k_inner_received := c_inner_total c,
    k_tx := k_tx k @ tx_of (grace_ack_msgs PHASE_BUILDING (c_session_id c) (c_inner_total c) 0 ifs),
    k_status_reg := ucast (phase_byte PHASE_PROBING)\<rparr>"
  let ?k2 = "?k1\<lparr>k_outer_received := 0\<rparr>"
  have "\<exists>buf counts. build_outer_frame_loop c 0 ?k2 =
      (GRet ERR_NONE, ?k2\<lparr>k_rx := rest, k_ddr2_buf := buf, k_outer_counts := counts,
         k_outer_received := c_outer_total c,
         k_tx := k_tx ?k2 @ tx_of (grace_ack_msgs PHASE_PROBING (c_session_id c) (c_outer_total c)
           (k_outer_received ?k2) ofs)\<rparr>) \<and>
    outer_inv (c_K c) (c_outer_slot_w c) ic (concat ifs) counts buf ([] @ concat ofs)"
    using fr(2) c(1,4) no len(2) K fit(2) length_frames_ok [OF fr(2)] irep reset_counts_rep [OF K(2)]
    by (intro build_outer_frame_loop_ok)
      (simp_all add: outer_inv_def del: length_concat HT_MAX_ROWS_value GRACE_WORDS_PER_TUPLE_def)
  then obtain buf' oc where p2: "build_outer_partitions c ?k1 =
      (GRet ERR_NONE, ?k2\<lparr>k_rx := rest, k_ddr2_buf := buf', k_outer_counts := oc,
         k_outer_received := c_outer_total c,
         k_tx := k_tx ?k2 @ tx_of (grace_ack_msgs PHASE_PROBING (c_session_id c) (c_outer_total c) 0 ofs)\<rparr>)"
    and orep: "outer_inv (c_K c) (c_outer_slot_w c) ic (concat ifs) oc buf' (concat ofs)"
    by (auto simp: build_outer_partitions_def)
  let ?k3 = "?k2\<lparr>k_rx := rest, k_ddr2_buf := buf', k_outer_counts := oc, k_outer_received := c_outer_total c,
    k_tx := k_tx ?k2 @ tx_of (grace_ack_msgs PHASE_PROBING (c_session_id c) (c_outer_total c) 0 ofs)\<rparr>"
  obtain k4 ms where p3: "join_all_partitions c ?k3 = (ERR_NONE, k4)" "k_rx k4 = rest"
      "k_session_done k4 = k_session_done k" "k_tx k4 = k_tx ?k3 @ tx_of ms"
      "k_matched k4 = of_nat (length (pairs_of ms))"
      "mset (pairs_of ms) = mset (join_spec (concat ifs) (concat ofs))" "results_only ms"
      "covers_long (partition_joins (c_K c) (concat ifs) (concat ofs)) ms"
    using join_all_partitions_ok [OF c(4) _ b, of ?k3 "concat ofs"] orep by auto
  have "algorithm_b c k = (Continue, k4)"
    unfolding algorithm_b_def p1 using k p2 p3(1) by (simp add: grace_result_def)
  then show ?thesis
    using p3 k by (intro exI [of _ k4] exI [of _ ms]) simp
qed

text \<open>While frames are missing the session waits for them.\<close>

lemma algorithm_b_waits_inner:
  assumes c: "c_keytype c = kt" "c_inner_total c = of_nat (length (concat (xs @ xs')))" "layout_ok (c_K c) (c_outer_slot_w c)"
    and fr: "frames_ok kt (xs @ xs')" "xs' \<noteq> []" and len: "length (concat (xs @ xs')) \<le> 3145728"
    and fit: "inner_fits (c_K c) (concat (xs @ xs'))"
    and rx: "k_rx k = map Some (host_frames kt MSG_INNER_DATA xs)"
  shows "\<exists>k'. algorithm_b c k = (Blocked, k') \<and>
    k_tx k' = k_tx k @ tx_of (grace_ack_msgs PHASE_BUILDING (c_session_id c) (c_inner_total c) 0 xs)"
proof -
  let ?k0 = "k\<lparr>k_inner_counts := reset_counts (k_inner_counts k),
    k_outer_counts := reset_counts (k_outer_counts k), k_inner_received := 0\<rparr>"
  have K: "0 < c_K c" "c_K c \<le> GRACE_MAX_K" using c(3) by (simp_all add: layout_ok_def)
  have ni: "unat (c_inner_total c) = length (concat (xs @ xs'))"
    unfolding c(2) using len by (intro unat_row_count) simp
  have fx: "frames_ok kt xs" "frames_ok kt xs'" using fr(1) by (auto simp: frames_ok_def)
  have lt: "length (concat xs) < length (concat (xs @ xs'))" using fx(2) fr(2) by (cases xs') (auto simp: frames_ok_def)
  have "inner_fits (c_K c) (concat xs)" using fit fits_prefix(1) [of "c_K c" "concat xs" "concat xs'"] by simp
  then have "\<exists>k'. build_inner_frame_loop c 0 ?k0 = (GBlocked, k') \<and>
    k_tx k' = k_tx ?k0 @ tx_of (grace_ack_msgs PHASE_BUILDING (c_session_id c) (c_inner_total c) (k_inner_received ?k0) xs)"
    using fx(1) rx c(1) ni len K length_frames_ok [OF fx(1)] lt reset_counts_rep [OF K(2)]
    by (intro build_inner_frame_loop_waits [where rows = "[]"]) (simp_all add: word_le_nat_alt del: length_concat HT_MAX_ROWS_value)
  then show ?thesis by (auto simp: algorithm_b_def build_inner_partitions_def)
qed

lemma algorithm_b_waits_outer:
  assumes c: "c_keytype c = kt" "c_inner_total c = of_nat (length (concat ifs))"
    "c_outer_total c = of_nat (length (concat (ys @ ys')))" "layout_ok (c_K c) (c_outer_slot_w c)"
    and fr: "frames_ok kt ifs" "frames_ok kt (ys @ ys')" "ys' \<noteq> []"
    and len: "length (concat ifs) \<le> 3145728" "length (concat (ys @ ys')) + 1 < 2 ^ 32"
    and fit: "inner_fits (c_K c) (concat ifs)" "outer_fits (c_K c) (c_outer_slot_w c) (concat (ys @ ys'))"
    and rx: "k_rx k = map Some (host_frames kt MSG_INNER_DATA ifs @ host_frames kt MSG_OUTER_DATA ys)" and k: "\<not> k_session_done k"
  shows "\<exists>k'. algorithm_b c k = (Blocked, k') \<and>
    k_tx k' = k_tx k @ tx_of (grace_ack_msgs PHASE_BUILDING (c_session_id c) (c_inner_total c) 0 ifs @
      grace_ack_msgs PHASE_PROBING (c_session_id c) (c_outer_total c) 0 ys)"
proof -
  have K: "0 < c_K c" "c_K c \<le> GRACE_MAX_K" using c(4) by (simp_all add: layout_ok_def)
  have no: "unat (c_outer_total c) = length (concat (ys @ ys'))"
    unfolding c(3) using len(2) by (intro unat_row_count) simp
  have fy: "frames_ok kt ys" "frames_ok kt ys'" using fr(2) by (auto simp: frames_ok_def)
  have lt: "length (concat ys) < length (concat (ys @ ys'))" using fy(2) fr(3) by (cases ys') (auto simp: frames_ok_def)
  obtain k1 buf ic where p1: "build_inner_partitions c k = (GRet ERR_NONE, k1)" "\<not> k_session_done k1"
    "k_rx k1 = map Some (host_frames kt MSG_OUTER_DATA ys)" "k_inner_counts k1 = ic" "k_ddr2_buf k1 = buf"
    "k_outer_counts k1 = reset_counts (k_outer_counts k)"
    "k_tx k1 = k_tx k @ tx_of (grace_ack_msgs PHASE_BUILDING (c_session_id c) (c_inner_total c) 0 ifs)"
    "slot_rep (c_K c) HT_MAX_ROWS inner_slot_idx ic buf (concat ifs)"
    using build_inner_partitions_ok [OF c(1,2) K fr(1) len(1) fit(1), of k "map Some (host_frames kt MSG_OUTER_DATA ys)"] rx k by auto
  let ?k2 = "k1\<lparr>k_status_reg := ucast (phase_byte PHASE_PROBING), k_outer_received := 0\<rparr>"
  have "outer_fits (c_K c) (c_outer_slot_w c) (concat ys)"
    using fit(2) fits_prefix(2) [of "c_K c" "c_outer_slot_w c" "concat ys" "concat ys'"] by simp
  then have "\<exists>k'. build_outer_frame_loop c 0 ?k2 = (GBlocked, k') \<and>
    k_tx k' = k_tx ?k2 @ tx_of (grace_ack_msgs PHASE_PROBING (c_session_id c) (c_outer_total c) (k_outer_received ?k2) ys)"
    using fy(1) p1(3-) c(1,4) no len(2) K length_frames_ok [OF fy(1)] lt reset_counts_rep [OF K(2)]
    by (intro build_outer_frame_loop_waits [where rows = "[]" and ic = ic and ir = "concat ifs"])
      (simp_all add: outer_inv_def del: length_concat HT_MAX_ROWS_value GRACE_WORDS_PER_TUPLE_def)
  with p1 show ?thesis by (auto simp: algorithm_b_def build_outer_partitions_def grace_result_def)
qed

section \<open>A whole session of algorithm B\<close>

text \<open>Inputs the algorithm can take: CONFIGURE is accepted, no partition exceeds its slot and the BRAM
  table takes every inner partition.\<close>

definition grace_admits :: "u32 \<Rightarrow> u32 \<Rightarrow> InputTuple list \<Rightarrow> InputTuple list \<Rightarrow> bool" where
  "grace_admits K w inner outer \<longleftrightarrow>
     check_configure ALGORITHM_B (of_nat (length inner)) (of_nat (length outer)) = (ERR_NONE, K, w) \<and>
     length inner \<le> unat GRACE_MAX_INNER_ROWS \<and> length outer + 1 < 2 ^ 32 \<and> inner_fits K inner \<and> outer_fits K w outer \<and>
     list_all (\<lambda>p. fst (build_all ht_insert (ht_reset ht_blank) (part_rows K p inner)) = ERR_NONE) (map of_nat [0..<unat K])"

lemma grace_admits_chk:
  assumes "grace_admits K w inner outer"
  shows "check_configure ALGORITHM_B (of_nat (length inner)) (of_nat (length outer)) = (ERR_NONE, K, w)" "layout_ok K w"
    "length inner \<le> 3145728" "length outer + 1 < 2 ^ 32" "inner_fits K inner" "outer_fits K w outer"
  using assms check_configure_layout by (auto simp: grace_admits_def)

lemma grace_configured:
  assumes a: "jc_algorithm cfg = ALGORITHM_B" and adm: "grace_admits K w inner outer"
    and rx: "k_rx k = map Some (serialize_configure cfg (of_nat (length inner)) (of_nat (length outer)) sid) @ rest"
  obtains c k1 where "configure_phase synth (session_init synth k) = (Continue, c, k1)" "k_rx k1 = rest" "\<not> k_session_done k1"
    "k_tx k1 = k_tx k @ tx_of (configure_msgs synth (of_nat (length inner)) sid)"
    "c_keytype c = jc_key_type cfg" "c_algorithm c = ALGORITHM_B" "c_session_id c = sid"
    "c_inner_total c = of_nat (length inner)" "c_outer_total c = of_nat (length outer)" "c_K c = K" "c_outer_slot_w c = w"
proof -
  let ?c = "session_config cfg (of_nat (length inner)) (of_nat (length outer)) sid"
  note chk = grace_admits_chk(1) [OF adm, folded a]
  obtain k1 where "configure_phase synth (session_init synth k) = (Continue, ?c, k1)" "k_rx k1 = rest" "\<not> k_session_done k1"
    "k_tx k1 = k_tx k @ tx_of (configure_msgs synth (of_nat (length inner)) sid)"
    using configure_phase_ok [OF rx chk, of synth] by auto
  moreover have "c_keytype ?c = jc_key_type cfg" "c_algorithm ?c = ALGORITHM_B" "c_session_id ?c = sid"
    "c_inner_total ?c = of_nat (length inner)" "c_outer_total ?c = of_nat (length outer)" "c_K ?c = K" "c_outer_slot_w ?c = w"
    using chk a by (simp_all add: session_config_def)
  ultimately show thesis by (rule that)
qed

text \<open>The messages after the last outer frame: the result frames, then DONE with the number of pairs.\<close>

definition grace_final :: "bool \<Rightarrow> u8 \<Rightarrow> KernelMsg list \<Rightarrow> KernelMsg list" where
  "grace_final synth sid ms = (ms @ debug_msgs synth DBG_INFO DBG_PROBE_DONE (of_nat (length (pairs_of ms)))) @
     [KStatus MSG_STATUS PHASE_DONE 0 (of_nat (length (pairs_of ms))) 0 sid]"

lemma kernel_session_grace:
  assumes a: "jc_algorithm cfg = ALGORITHM_B" and fr: "frames_ok (jc_key_type cfg) ifs" "frames_ok (jc_key_type cfg) ofs"
    and io: "inner = concat ifs" "outer = concat ofs" and adm: "grace_admits K w inner outer"
    and rx: "k_rx k = map Some (serialize_configure cfg (of_nat (length inner)) (of_nat (length outer)) sid
           @ host_frames (jc_key_type cfg) MSG_INNER_DATA ifs
           @ host_frames (jc_key_type cfg) MSG_OUTER_DATA ofs) @ rest"
  shows "\<exists>k' ms. kernel_session synth rtl k = (Continue, k') \<and> k_rx k' = rest \<and> results_only ms \<and>
    covers_long (partition_joins K inner outer) ms \<and> mset (pairs_of ms) = mset (join_spec inner outer) \<and>
    k_tx k' = k_tx k @ tx_of (configure_msgs synth (of_nat (length inner)) sid @
      grace_ack_msgs PHASE_BUILDING sid (of_nat (length inner)) 0 ifs @
      grace_ack_msgs PHASE_PROBING sid (of_nat (length outer)) 0 ofs @ grace_final synth sid ms) \<and>
    k_result_count_reg k' = of_nat (length (pairs_of ms)) \<and> k_error_code_reg k' = 0"
proof -
  note rx' = rx [unfolded map_append append.assoc]
  obtain c k1 where k1: "configure_phase synth (session_init synth k) = (Continue, c, k1)"
    "k_rx k1 = map Some (host_frames (jc_key_type cfg) MSG_INNER_DATA ifs) @
        map Some (host_frames (jc_key_type cfg) MSG_OUTER_DATA ofs) @ rest" "\<not> k_session_done k1"
    "k_tx k1 = k_tx k @ tx_of (configure_msgs synth (of_nat (length inner)) sid)"
    and c: "c_keytype c = jc_key_type cfg" "c_algorithm c = ALGORITHM_B" "c_session_id c = sid"
    "c_inner_total c = of_nat (length inner)" "c_outer_total c = of_nat (length outer)" "c_K c = K" "c_outer_slot_w c = w"
    by (rule grace_configured [OF a adm rx'])
  have "\<exists>k' ms. algorithm_b c k1 = (Continue, k') \<and> \<not> k_session_done k' \<and> k_rx k' = rest \<and>
    k_tx k' = k_tx k1 @ tx_of (grace_ack_msgs PHASE_BUILDING (c_session_id c) (c_inner_total c) 0 ifs @
      grace_ack_msgs PHASE_PROBING (c_session_id c) (c_outer_total c) 0 ofs @ ms) \<and> results_only ms \<and>
    covers_long (partition_joins (c_K c) (concat ifs) (concat ofs)) ms \<and> mset (pairs_of ms) = mset (join_spec (concat ifs) (concat ofs)) \<and> k_matched k' = of_nat (length (pairs_of ms))"
    using fr io k1(2,3) grace_admits_chk [OF adm] adm c
    by (intro algorithm_b_ok [where kt = "jc_key_type cfg"]) (simp_all add: grace_admits_def del: length_concat)
  then obtain k2 ms where k2: "algorithm_b c k1 = (Continue, k2)" "\<not> k_session_done k2" "k_rx k2 = rest"
    "k_tx k2 = k_tx k1 @ tx_of (grace_ack_msgs PHASE_BUILDING sid (of_nat (length inner)) 0 ifs @
      grace_ack_msgs PHASE_PROBING sid (of_nat (length outer)) 0 ofs @ ms)" "results_only ms" "covers_long (partition_joins K inner outer) ms"
    "mset (pairs_of ms) = mset (join_spec inner outer)" "k_matched k2 = of_nat (length (pairs_of ms))" using io c by auto
  let ?k = "finish_session synth rtl c k2"
  have "kernel_session synth rtl k = (Continue, ?k)"
    using k1(1,3) k2(1,2) c(2) by (simp add: kernel_session_def)
  then show ?thesis
    using k2(3-) k1(4) c
    by (intro exI [of _ ?k] exI [of _ ms]) (simp add: finish_session_def Let_def tx_messages grace_final_def)
qed

text \<open>With frames missing it waits for them, having acknowledged the ones it got.\<close>

lemma kernel_waits_inner:
  assumes a: "jc_algorithm cfg = ALGORITHM_B" and fr: "frames_ok (jc_key_type cfg) (xs @ xs')" "xs' \<noteq> []"
    and inner: "inner = concat (xs @ xs')" and adm: "grace_admits K w inner outer"
    and rx: "k_rx k = map Some (serialize_configure cfg (of_nat (length inner)) (of_nat (length outer)) sid
           @ host_frames (jc_key_type cfg) MSG_INNER_DATA xs)"
  shows "\<exists>k'. kernel_session synth rtl k = (Blocked, k') \<and>
    k_tx k' = k_tx k @ tx_of (configure_msgs synth (of_nat (length inner)) sid @
      grace_ack_msgs PHASE_BUILDING sid (of_nat (length inner)) 0 xs)"
proof -
  note rx' = rx [unfolded map_append append.assoc]
  obtain c k1 where k1: "configure_phase synth (session_init synth k) = (Continue, c, k1)"
    "k_rx k1 = map Some (host_frames (jc_key_type cfg) MSG_INNER_DATA xs)" "\<not> k_session_done k1"
    "k_tx k1 = k_tx k @ tx_of (configure_msgs synth (of_nat (length inner)) sid)"
    and c: "c_keytype c = jc_key_type cfg" "c_algorithm c = ALGORITHM_B" "c_session_id c = sid"
    "c_inner_total c = of_nat (length inner)" "c_outer_total c = of_nat (length outer)" "c_K c = K" "c_outer_slot_w c = w"
    by (rule grace_configured [OF a adm rx'])
  note adm = grace_admits_chk [OF adm]
  have "\<exists>k'. algorithm_b c k1 = (Blocked, k') \<and>
    k_tx k' = k_tx k1 @ tx_of (grace_ack_msgs PHASE_BUILDING (c_session_id c) (c_inner_total c) 0 xs)"
    using fr k1(2) c adm(2,3,5) unfolding inner
    by (intro algorithm_b_waits_inner [where kt = "jc_key_type cfg" and xs' = xs']) (simp_all del: length_concat)
  with k1 c show ?thesis by (auto simp: kernel_session_def)
qed

lemma kernel_waits_outer:
  assumes a: "jc_algorithm cfg = ALGORITHM_B" and fr: "frames_ok (jc_key_type cfg) ifs" "frames_ok (jc_key_type cfg) (ys @ ys')" "ys' \<noteq> []"
    and io: "inner = concat ifs" "outer = concat (ys @ ys')" and adm: "grace_admits K w inner outer"
    and rx: "k_rx k = map Some (serialize_configure cfg (of_nat (length inner)) (of_nat (length outer)) sid
           @ host_frames (jc_key_type cfg) MSG_INNER_DATA ifs @ host_frames (jc_key_type cfg) MSG_OUTER_DATA ys)"
  shows "\<exists>k'. kernel_session synth rtl k = (Blocked, k') \<and>
    k_tx k' = k_tx k @ tx_of (configure_msgs synth (of_nat (length inner)) sid @
      grace_ack_msgs PHASE_BUILDING sid (of_nat (length inner)) 0 ifs @
      grace_ack_msgs PHASE_PROBING sid (of_nat (length outer)) 0 ys)"
proof -
  note rx' = rx [unfolded map_append append.assoc]
  obtain c k1 where k1: "configure_phase synth (session_init synth k) = (Continue, c, k1)"
    "k_rx k1 = map Some (host_frames (jc_key_type cfg) MSG_INNER_DATA ifs) @ map Some (host_frames (jc_key_type cfg) MSG_OUTER_DATA ys)" "\<not> k_session_done k1"
    "k_tx k1 = k_tx k @ tx_of (configure_msgs synth (of_nat (length inner)) sid)"
    and c: "c_keytype c = jc_key_type cfg" "c_algorithm c = ALGORITHM_B" "c_session_id c = sid"
    "c_inner_total c = of_nat (length inner)" "c_outer_total c = of_nat (length outer)" "c_K c = K" "c_outer_slot_w c = w"
    by (rule grace_configured [OF a adm rx'])
  note adm = grace_admits_chk [OF adm]
  have "\<exists>k'. algorithm_b c k1 = (Blocked, k') \<and>
    k_tx k' = k_tx k1 @ tx_of (grace_ack_msgs PHASE_BUILDING (c_session_id c) (c_inner_total c) 0 ifs @
      grace_ack_msgs PHASE_PROBING (c_session_id c) (c_outer_total c) 0 ys)"
    using fr k1(2,3) c adm(2-6) unfolding io
    by (intro algorithm_b_waits_outer [where kt = "jc_key_type cfg" and ys' = ys']) (simp_all del: length_concat)
  with k1 c show ?thesis by (auto simp: kernel_session_def)
qed

text \<open>C16. A session of algorithm B computes the join. When CONFIGURE is accepted, no partition
  exceeds its slot and every inner partition fits the BRAM table, the kernel consumes exactly
  the host's frames and the result pairs it sends are, as a multiset, the join of the two
  inputs; DONE and the result register carry their number.\<close>

theorem grace_session_computes_join:
  assumes "jc_algorithm cfg = ALGORITHM_B"
    and "frames_ok (jc_key_type cfg) ifs" "frames_ok (jc_key_type cfg) ofs"
    and "inner = concat ifs" "outer = concat ofs"
    and "length inner \<le> unat GRACE_MAX_INNER_ROWS" "length outer + 1 < 2 ^ 32"
    and "check_configure ALGORITHM_B (of_nat (length inner)) (of_nat (length outer)) = (ERR_NONE, K, w)"
    and "inner_fits K inner" "outer_fits K w outer"
    and "list_all (\<lambda>p. fst (build_all ht_insert (ht_reset ht_blank) (part_rows K p inner)) = ERR_NONE)
           (map of_nat [0..<unat K])"
    and "k_rx k = map Some (serialize_configure cfg (of_nat (length inner)) (of_nat (length outer)) sid
           @ host_frames (jc_key_type cfg) MSG_INNER_DATA ifs
           @ host_frames (jc_key_type cfg) MSG_OUTER_DATA ofs) @ rest"
  shows "\<exists>k' ms. kernel_session synth rtl k = (Continue, k') \<and> k_rx k' = rest \<and>
    mset (pairs_of ms) = mset (join_spec inner outer) \<and>
    k_tx k' = k_tx k @ tx_of (ms @
      [KStatus MSG_STATUS PHASE_DONE 0 (of_nat (length (join_spec inner outer))) 0 sid]) \<and>
    k_result_count_reg k' = of_nat (length (join_spec inner outer)) \<and> k_error_code_reg k' = 0"
proof -
  have "grace_admits K w inner outer" using assms(6-11) by (simp add: grace_admits_def)
  from kernel_session_grace [OF assms(1-5) this assms(12)]
  obtain k' ms where k': "kernel_session synth rtl k = (Continue, k')" "k_rx k' = rest"
    "mset (pairs_of ms) = mset (join_spec inner outer)"
    "k_tx k' = k_tx k @ tx_of (configure_msgs synth (of_nat (length inner)) sid @
      grace_ack_msgs PHASE_BUILDING sid (of_nat (length inner)) 0 ifs @
      grace_ack_msgs PHASE_PROBING sid (of_nat (length outer)) 0 ofs @ grace_final synth sid ms)"
    "k_result_count_reg k' = of_nat (length (pairs_of ms))" "k_error_code_reg k' = 0" by blast
  have len: "length (pairs_of ms) = length (join_spec inner outer)" using k'(3) by (rule mset_eq_length)
  show ?thesis
    using k' by (intro exI [of _ k'] exI [of _ "configure_msgs synth (of_nat (length inner)) sid @
      grace_ack_msgs PHASE_BUILDING sid (of_nat (length inner)) 0 ifs @
      grace_ack_msgs PHASE_PROBING sid (of_nat (length outer)) 0 ofs @ ms @
      debug_msgs synth DBG_INFO DBG_PROBE_DONE (of_nat (length (pairs_of ms)))"])
      (simp add: grace_final_def configure_msgs_def len)
qed


theorem grace_session_computes_join_witness:
  "\<exists>k' ms. kernel_session False rtl_absent (kernel_blank (map Some
     (serialize_configure \<lparr>jc_algorithm = ALGORITHM_B, jc_key_type = KEY_INT64\<rparr> 2 2 9
      @ host_frames KEY_INT64 MSG_INNER_DATA [[\<lparr>it_key = 7, it_tid = \<lparr>blkno = 0, offno = 1\<rparr>\<rparr>,
          \<lparr>it_key = 9, it_tid = \<lparr>blkno = 0, offno = 2\<rparr>\<rparr>]]
      @ host_frames KEY_INT64 MSG_OUTER_DATA [[\<lparr>it_key = 9, it_tid = \<lparr>blkno = 1, offno = 1\<rparr>\<rparr>,
          \<lparr>it_key = 8, it_tid = \<lparr>blkno = 1, offno = 2\<rparr>\<rparr>]]))) = (Continue, k') \<and>
     k_rx k' = [] \<and>
     mset (pairs_of ms) = {#\<lparr>inner_tid = \<lparr>blkno = 0, offno = 2\<rparr>, outer_tid = \<lparr>blkno = 1, offno = 1\<rparr>\<rparr>#} \<and>
     k_tx k' = tx_of (ms @ [KStatus MSG_STATUS PHASE_DONE 0 1 0 9]) \<and>
     k_result_count_reg k' = 1 \<and> k_error_code_reg k' = 0"
proof -
  let ?ifs = "[[\<lparr>it_key = 7, it_tid = \<lparr>blkno = 0, offno = 1\<rparr>\<rparr>,
    \<lparr>it_key = 9, it_tid = \<lparr>blkno = 0, offno = 2\<rparr>\<rparr>]] :: InputTuple list list"
  let ?ofs = "[[\<lparr>it_key = 9, it_tid = \<lparr>blkno = 1, offno = 1\<rparr>\<rparr>,
    \<lparr>it_key = 8, it_tid = \<lparr>blkno = 1, offno = 2\<rparr>\<rparr>]] :: InputTuple list list"
  let ?cfg = "\<lparr>jc_algorithm = ALGORITHM_B, jc_key_type = KEY_INT64\<rparr>"
  let ?rx = "map Some (serialize_configure ?cfg 2 2 9 @ host_frames KEY_INT64 MSG_INNER_DATA ?ifs
    @ host_frames KEY_INT64 MSG_OUTER_DATA ?ofs)"
  have fr: "frames_ok KEY_INT64 ?ifs" "frames_ok KEY_INT64 ?ofs"
    by (simp_all add: frames_ok_def key_fits_def)
  have chk: "check_configure ALGORITHM_B 2 2 = (ERR_NONE, 1, 12)" by code_simp
  have len: "length (part_rows K p xs) \<le> length xs" for K p xs by (simp add: part_rows_def)
  have fit: "inner_fits 1 (concat ?ifs)" "outer_fits 1 12 (concat ?ofs)"
    by (auto simp: inner_fits_def outer_fits_def intro!: order_trans [OF len])
  have "fst (build_all ht_insert (ht_reset ht_blank) (part_rows 1 0 (concat ?ifs))) = ERR_NONE" by code_simp
  then have b: "list_all (\<lambda>p. fst (build_all ht_insert (ht_reset ht_blank) (part_rows 1 p (concat ?ifs))) = ERR_NONE)
      (map of_nat [0..<unat (1 :: u32)])" by simp
  have j: "join_spec (concat ?ifs) (concat ?ofs) =
      [\<lparr>inner_tid = \<lparr>blkno = 0, offno = 2\<rparr>, outer_tid = \<lparr>blkno = 1, offno = 1\<rparr>\<rparr>]" by code_simp
  show ?thesis
    using grace_session_computes_join [of ?cfg ?ifs ?ofs "concat ?ifs" "concat ?ofs" 1 12
        "kernel_blank ?rx" 9 "[]" False rtl_absent] fr j chk fit b
    by (auto simp: kernel_blank_def)
qed


end
