(* ===== verification/Rtl_Udp_Tx.thy ===== *)
theory Rtl_Udp_Tx
  imports Kernel_Stream "HOL-Library.Sublist"
begin

unbundle bit_operations_syntax

text \<open>
  The transmit framer of the board, \<^verbatim>\<open>src/rtl/udp_ipv4_tx.v\<close>. A clock edge is the function \<open>udp_tx_step\<close> from the
  registers and the inputs of the cycle to the registers after it; all right-hand sides read the old
  registers, as non-blocking assignments do. A datagram offered on the payload stream leaves as one
  Ethernet frame, whatever the pauses on either stream; its IPv4 checksum and its frame check sequence
  are those a receiver expects. A datagram longer than the payload memory blocks the framer for good.
\<close>

section \<open>Parameters, inputs and registers\<close>

type_synonym u48 = "48 word"

record UdpTxParams =
  LOCAL_MAC :: u48
  LOCAL_IP :: u32
  LOCAL_PORT :: u16
  REMOTE_MAC :: u48
  REMOTE_IP :: u32
  REMOTE_PORT :: u16
  MAX_PAYLOAD_BYTES :: nat

text \<open>The values of the parameters where the instance gives none.\<close>

definition udp_tx_default :: UdpTxParams where
  "udp_tx_default = \<lparr>LOCAL_MAC = 0x020000000001, LOCAL_IP = 0xA9FEF23C, LOCAL_PORT = 50000, REMOTE_MAC = 0x9C69D31F215E,
     REMOTE_IP = 0xA9FEF23B, REMOTE_PORT = 50000, MAX_PAYLOAD_BYTES = 1472\<rparr>"

datatype UdpTxState = TX_IDLE | TX_RECV | TX_SEND

record UdpTxIn =
  in_rst_n :: bool
  in_remote_mac :: u48
  in_remote_ip :: u32
  in_remote_port :: u16
  s_payload_tdata :: u8
  s_payload_tvalid :: bool
  s_payload_tlast :: bool
  m_frame_tready :: bool

record UdpTx =
  tx_state :: UdpTxState
  payload_len :: u16
  send_index :: u16
  data_len_no_fcs :: u16
  total_len_with_fcs :: u16
  crc_state :: u32
  fcs_latched :: u32
  tx_remote_mac :: u48
  tx_remote_ip :: u32
  tx_remote_port :: u16
  payload_mem :: "nat \<Rightarrow> u8"
  m_frame_tdata :: u8
  m_frame_tvalid :: bool
  m_frame_tlast :: bool
  packet_sent :: bool
  payload_overflow :: bool

definition HEADER_BYTES :: u16 where "HEADER_BYTES = 42"
definition MIN_FRAME_NO_FCS :: u16 where "MIN_FRAME_NO_FCS = 60"

section \<open>The combinational functions\<close>

definition mac_byte :: "u48 \<Rightarrow> 3 word \<Rightarrow> u8" where
  "mac_byte mac idx =
     (if idx = 0 then ucast (drop_bit 40 mac) else if idx = 1 then ucast (drop_bit 32 mac)
      else if idx = 2 then ucast (drop_bit 24 mac) else if idx = 3 then ucast (drop_bit 16 mac)
      else if idx = 4 then ucast (drop_bit 8 mac) else ucast mac)"

definition ip_byte :: "u32 \<Rightarrow> 2 word \<Rightarrow> u8" where
  "ip_byte ip idx =
     (if idx = 0 then ucast (drop_bit 24 ip) else if idx = 1 then ucast (drop_bit 16 ip)
      else if idx = 2 then ucast (drop_bit 8 ip) else ucast ip)"

text \<open>The sum is 20 bits wide; both halves of it are added twice.\<close>

definition csum_fold :: "20 word \<Rightarrow> 20 word" where
  "csum_fold sm = ucast (ucast sm :: u16) + drop_bit 16 sm"

definition ipv4_checksum :: "UdpTxParams \<Rightarrow> u32 \<Rightarrow> u16 \<Rightarrow> u16" where
  "ipv4_checksum p remote_ip total_len =
     (let sm = 0 + 0x4500 + ucast total_len + 0x0000 + 0x0000 + 0x4011 +
            ucast (ucast (drop_bit 16 (LOCAL_IP p)) :: u16) + ucast (ucast (LOCAL_IP p) :: u16) +
            ucast (ucast (drop_bit 16 remote_ip) :: u16) + ucast (ucast remote_ip :: u16) :: 20 word
      in NOT (ucast (csum_fold (csum_fold sm))))"

definition crc32_bit :: "u8 \<Rightarrow> nat \<Rightarrow> u32 \<Rightarrow> u32" where
  "crc32_bit data i c = (if bit c 0 \<noteq> bit data i then drop_bit 1 c XOR 0xEDB88320 else drop_bit 1 c)"

definition crc32_next :: "u32 \<Rightarrow> u8 \<Rightarrow> u32" where
  "crc32_next crc data = fold (crc32_bit data) [0..<8] crc"

definition fcs_byte :: "u32 \<Rightarrow> 2 word \<Rightarrow> u8" where
  "fcs_byte fcs idx =
     (if idx = 0 then ucast fcs else if idx = 1 then ucast (drop_bit 8 fcs)
      else if idx = 2 then ucast (drop_bit 16 fcs) else ucast (drop_bit 24 fcs))"

definition frame_data_byte :: "UdpTxParams \<Rightarrow> UdpTx \<Rightarrow> u16 \<Rightarrow> u8" where
  "frame_data_byte p s idx =
     (let ip_total_len = 28 + payload_len s; udp_len = 8 + payload_len s;
          csum = ipv4_checksum p (tx_remote_ip s) ip_total_len
      in if idx < 6 then mac_byte (tx_remote_mac s) (ucast idx)
         else if idx < 12 then mac_byte (LOCAL_MAC p) (ucast idx - 6)
         else if idx = 12 then 0x08 else if idx = 13 then 0x00
         else if idx = 14 then 0x45 else if idx = 15 then 0x00
         else if idx = 16 then ucast (drop_bit 8 ip_total_len) else if idx = 17 then ucast ip_total_len
         else if idx = 18 then 0x00 else if idx = 19 then 0x00
         else if idx = 20 then 0x00 else if idx = 21 then 0x00
         else if idx = 22 then 0x40 else if idx = 23 then 0x11
         else if idx = 24 then ucast (drop_bit 8 csum) else if idx = 25 then ucast csum
         else if idx = 26 then ip_byte (LOCAL_IP p) 0 else if idx = 27 then ip_byte (LOCAL_IP p) 1
         else if idx = 28 then ip_byte (LOCAL_IP p) 2 else if idx = 29 then ip_byte (LOCAL_IP p) 3
         else if idx = 30 then ip_byte (tx_remote_ip s) 0 else if idx = 31 then ip_byte (tx_remote_ip s) 1
         else if idx = 32 then ip_byte (tx_remote_ip s) 2 else if idx = 33 then ip_byte (tx_remote_ip s) 3
         else if idx = 34 then ucast (drop_bit 8 (LOCAL_PORT p)) else if idx = 35 then ucast (LOCAL_PORT p)
         else if idx = 36 then ucast (drop_bit 8 (tx_remote_port s)) else if idx = 37 then ucast (tx_remote_port s)
         else if idx = 38 then ucast (drop_bit 8 udp_len) else if idx = 39 then ucast udp_len
         else if idx = 40 then 0x00 else if idx = 41 then 0x00
         else if idx < HEADER_BYTES + payload_len s then payload_mem s (unat (idx - HEADER_BYTES))
         else 0x00)"

section \<open>A clock edge\<close>

definition s_payload_tready :: "UdpTxParams \<Rightarrow> UdpTx \<Rightarrow> bool" where
  "s_payload_tready p s \<longleftrightarrow> tx_state s = TX_IDLE \<or> (tx_state s = TX_RECV \<and> unat (payload_len s) < MAX_PAYLOAD_BYTES p)"

definition udp_tx_reset :: "UdpTxParams \<Rightarrow> UdpTx \<Rightarrow> UdpTx" where
  "udp_tx_reset p s = s\<lparr>tx_state := TX_IDLE, payload_len := 0, send_index := 0, data_len_no_fcs := 0,
     total_len_with_fcs := 0, crc_state := 0xFFFFFFFF, fcs_latched := 0, tx_remote_mac := REMOTE_MAC p,
     tx_remote_ip := REMOTE_IP p, tx_remote_port := REMOTE_PORT p, m_frame_tdata := 0, m_frame_tvalid := False,
     m_frame_tlast := False, packet_sent := False, payload_overflow := False\<rparr>"

text \<open>The branches of the three states; the start of a frame is shared by two of them.\<close>

definition start_frame :: "UdpTxIn \<Rightarrow> u16 \<Rightarrow> UdpTx \<Rightarrow> UdpTx" where
  "start_frame i len s = s\<lparr>data_len_no_fcs := len, total_len_with_fcs := len + 4, tx_state := TX_SEND,
     m_frame_tdata := mac_byte (in_remote_mac i) 0, m_frame_tvalid := True, m_frame_tlast := False\<rparr>"

definition udp_tx_idle :: "UdpTxParams \<Rightarrow> UdpTxIn \<Rightarrow> UdpTx \<Rightarrow> UdpTx" where
  "udp_tx_idle p i s =
     (let s' = s\<lparr>payload_len := 0, send_index := 0, crc_state := 0xFFFFFFFF, m_frame_tvalid := False,
            m_frame_tlast := False, payload_overflow := False\<rparr>
      in if s_payload_tvalid i then
           let s' = s'\<lparr>tx_remote_mac := in_remote_mac i, tx_remote_ip := in_remote_ip i, tx_remote_port := in_remote_port i,
                  payload_mem := (if MAX_PAYLOAD_BYTES p > 0 then (payload_mem s)(0 := s_payload_tdata i) else payload_mem s),
                  payload_len := 1\<rparr>
           in if s_payload_tlast i then start_frame i MIN_FRAME_NO_FCS s' else s'\<lparr>tx_state := TX_RECV\<rparr>
         else s')"

definition udp_tx_recv :: "UdpTxParams \<Rightarrow> UdpTxIn \<Rightarrow> UdpTx \<Rightarrow> UdpTx" where
  "udp_tx_recv p i s =
     (if s_payload_tvalid i \<and> s_payload_tready p s then
        let len = (if HEADER_BYTES + payload_len s + 1 < MIN_FRAME_NO_FCS then MIN_FRAME_NO_FCS else HEADER_BYTES + payload_len s + 1);
            s' = s\<lparr>payload_mem := (payload_mem s)(unat (payload_len s) := s_payload_tdata i), payload_len := payload_len s + 1\<rparr>
        in if s_payload_tlast i then start_frame i len s' else s'
      else if s_payload_tvalid i \<and> \<not> s_payload_tready p s then s\<lparr>payload_overflow := True\<rparr>
      else s)"

definition udp_tx_send :: "UdpTxParams \<Rightarrow> UdpTxIn \<Rightarrow> UdpTx \<Rightarrow> UdpTx" where
  "udp_tx_send p i s =
     (if m_frame_tvalid s \<and> m_frame_tready i then
        let crc_after_current = crc32_next (crc_state s) (m_frame_tdata s);
            next_send_index = send_index s + 1;
            s' = (if send_index s < data_len_no_fcs s then
                    s\<lparr>crc_state := crc_after_current,
                      fcs_latched := (if send_index s = data_len_no_fcs s - 1 then NOT crc_after_current else fcs_latched s)\<rparr>
                  else s)
        in if send_index s = total_len_with_fcs s - 1
           then s'\<lparr>tx_state := TX_IDLE, m_frame_tvalid := False, m_frame_tlast := False, packet_sent := True\<rparr>
           else s'\<lparr>send_index := next_send_index, m_frame_tlast := (next_send_index = total_len_with_fcs s - 1),
                  m_frame_tdata :=
                    (if next_send_index < data_len_no_fcs s then frame_data_byte p s next_send_index
                     else if send_index s = data_len_no_fcs s - 1 then fcs_byte (NOT crc_after_current) 0
                     else fcs_byte (fcs_latched s) (ucast (next_send_index - data_len_no_fcs s)))\<rparr>
      else s)"

definition udp_tx_step :: "UdpTxParams \<Rightarrow> UdpTxIn \<Rightarrow> UdpTx \<Rightarrow> UdpTx" where
  "udp_tx_step p i s =
     (if \<not> in_rst_n i then udp_tx_reset p s
      else let s = s\<lparr>packet_sent := False\<rparr>
           in case tx_state s of TX_IDLE \<Rightarrow> udp_tx_idle p i s | TX_RECV \<Rightarrow> udp_tx_recv p i s | TX_SEND \<Rightarrow> udp_tx_send p i s)"

text \<open>What is transferred on the frame stream in a cycle.\<close>

definition frame_transfer :: "UdpTxIn \<Rightarrow> UdpTx \<Rightarrow> tx_stream" where
  "frame_transfer i s = (if m_frame_tvalid s \<and> m_frame_tready i then [\<lparr>axis_data = m_frame_tdata s, axis_last = m_frame_tlast s\<rparr>] else [])"

section \<open>The checksum and the frame check sequence\<close>

definition header_sum :: "u16 list \<Rightarrow> nat" where
  "header_sum ws = sum_list (map unat ws)"

lemma csum_fold_mod: "unat (csum_fold s) mod 65535 = unat s mod 65535" and csum_fold_le: "unat (csum_fold s) \<le> 65535 + 15"
  and csum_fold_zero: "0 < unat s \<Longrightarrow> 0 < unat (csum_fold s)" and csum_fold_small: "unat s \<le> 65535 + 15 \<Longrightarrow> unat (csum_fold s) < 65536"
proof -
  have hi: "unat (drop_bit 16 s) = unat s div 65536" by (subst unat_drop_bit_eq) (simp add: drop_bit_eq_div)
  have lo: "unat (ucast (ucast s :: u16) :: 20 word) = unat s mod 65536"
    by (simp add: unsigned_ucast_eq take_bit_eq_mod unat_mod_distrib)
  have b: "unat s < 1048576" using unsigned_less [of s] by simp
  then have h: "unat s div 65536 \<le> 15" by (simp add: div_le_mono less_mult_imp_div_less flip: less_Suc_eq_le)
  have e: "unat (csum_fold s) = unat s mod 65536 + unat s div 65536"
    unfolding csum_fold_def using h by (subst unat_add_lem [THEN iffD1]) (simp_all add: hi lo, linarith?)
  have "unat s = 65536 * (unat s div 65536) + unat s mod 65536" by simp
  then have "unat s = (unat s div 65536) * 65535 + (unat s mod 65536 + unat s div 65536)" by linarith
  then show "unat (csum_fold s) mod 65535 = unat s mod 65535" unfolding e by (metis add.commute mod_mult_self1)
  show "unat (csum_fold s) \<le> 65535 + 15" unfolding e using h mod_less_divisor [of 65536 "unat s"] by linarith
  show "0 < unat (csum_fold s)" if "0 < unat s" using that unfolding e by (cases "unat s div 65536") auto
  show "unat (csum_fold s) < 65536" if "unat s \<le> 65535 + 15"
  proof (cases "unat s < 65536")
    case False
    then have "unat s = 65536 + (unat s - 65536)" by simp
    moreover define t where "t = unat s - 65536"
    ultimately have t: "unat s = 65536 + t" "t \<le> 14" using that by simp_all
    then show ?thesis unfolding e by simp
  qed (simp add: e)
qed


text \<open>The ten words of the IPv4 header the framer sends, and their sum: a multiple of 65535, which is what
  a receiver checks.\<close>

definition ipv4_words :: "UdpTxParams \<Rightarrow> u32 \<Rightarrow> u16 \<Rightarrow> u16 list" where
  "ipv4_words p remote_ip total_len =
     [0x4500, total_len, 0, 0, 0x4011, ipv4_checksum p remote_ip total_len,
      ucast (drop_bit 16 (LOCAL_IP p)), ucast (LOCAL_IP p), ucast (drop_bit 16 remote_ip), ucast remote_ip]"

lemma ipv4_checksum_valid:
  "header_sum (ipv4_words p remote_ip total_len) mod 65535 = 0" "header_sum (ipv4_words p remote_ip total_len) \<noteq> 0"
proof -
  define a b c d where "a = (ucast (drop_bit 16 (LOCAL_IP p)) :: u16)" and "b = (ucast (LOCAL_IP p) :: u16)"
    and "c = (ucast (drop_bit 16 remote_ip) :: u16)" and "d = (ucast remote_ip :: u16)"
  define n where "n = 0x4500 + unat total_len + 0x4011 + unat a + unat b + unat c + unat d"
  define sm where "sm = (0 + 0x4500 + ucast total_len + 0x0000 + 0x0000 + 0x4011 + ucast a + ucast b + ucast c + ucast d :: 20 word)"
  have lt: "unat w < 65536" for w :: u16 using unsigned_less [of w] by simp
  have "sm = of_nat n" unfolding sm_def n_def by (simp add: of_nat_unat)
  moreover have n: "n < 1048576" unfolding n_def using lt [of total_len] lt [of a] lt [of b] lt [of c] lt [of d] by linarith
  ultimately have sm: "unat sm = n" by (simp add: unsigned_of_nat take_bit_nat_eq_self_iff)
  define f where "f = csum_fold (csum_fold sm)"
  have f: "unat f < 65536" "unat f mod 65535 = n mod 65535"
    unfolding f_def using csum_fold_small [OF csum_fold_le] csum_fold_mod [of "csum_fold sm"] csum_fold_mod [of sm] sm by simp_all
  have "ipv4_checksum p remote_ip total_len = NOT (ucast f)"
    by (simp only: ipv4_checksum_def Let_def f_def sm_def a_def b_def c_def d_def)
  moreover have "NOT (ucast f :: u16) = 0xFFFF - ucast f" by (simp add: not_eq_complement)
  moreover have uf: "unat (ucast f :: u16) = unat f"
    using f(1) by (simp add: unsigned_ucast_eq take_bit_nat_eq_self)
  moreover have "unat (0xFFFF - ucast f :: u16) = 65535 - unat f"
    using f(1) by (subst unat_sub) (simp_all add: uf word_le_nat_alt)
  ultimately have c: "unat (ipv4_checksum p remote_ip total_len) = 65535 - unat f" by simp
  have h: "header_sum (ipv4_words p remote_ip total_len) = n + (65535 - unat f)"
    by (simp add: header_sum_def ipv4_words_def c n_def flip: a_def b_def c_def d_def)
  have "(n + (65535 - unat f)) mod 65535 = (unat f + (65535 - unat f)) mod 65535"
    using f(2) by (intro mod_add_cong) simp_all
  also have "\<dots> = 0" using f(1) by simp
  finally have "(n + (65535 - unat f)) mod 65535 = 0" .
  with h show "header_sum (ipv4_words p remote_ip total_len) mod 65535 = 0" by simp
  show "header_sum (ipv4_words p remote_ip total_len) \<noteq> 0" unfolding h by (simp add: n_def)
qed

text \<open>The checksum of a byte sequence, and its value once the complement of it has been appended: the
  constant every Ethernet receiver compares with.\<close>

definition crc32 :: "u32 \<Rightarrow> u8 list \<Rightarrow> u32" where
  "crc32 c bs = foldl crc32_next c bs"

definition fcs_bytes :: "u32 \<Rightarrow> u8 list" where
  "fcs_bytes fcs = map (fcs_byte fcs) [0, 1, 2, 3]"

definition residue_step :: "u32 \<Rightarrow> u32" where
  "residue_step r = (if bit r 0 then drop_bit 1 r else drop_bit 1 r XOR 0xEDB88320)"

lemma crc32_complement_bit:
  assumes "bit data j \<longleftrightarrow> \<not> bit x k"
  shows "crc32_bit data j (drop_bit k x XOR r) = drop_bit (Suc k) x XOR residue_step r"
proof -
  have "bit (drop_bit k x XOR r) 0 \<longleftrightarrow> bit x k \<noteq> bit r 0" by (simp add: bit_xor_iff bit_drop_bit_eq)
  then show ?thesis using assms by (auto simp: crc32_bit_def residue_step_def drop_bit_xor xor.assoc)
qed

lemma crc32_complement_bits:
  "(\<And>i. i < j \<Longrightarrow> bit data i \<longleftrightarrow> \<not> bit x (k + i)) \<Longrightarrow>
    fold (crc32_bit data) [0..<j] (drop_bit k x XOR r) = drop_bit (k + j) x XOR (residue_step ^^ j) r"
proof (induction j)
  case (Suc j)
  then show ?case using crc32_complement_bit [of data j x "k + j" "(residue_step ^^ j) r"] by simp
qed simp

lemma fcs_byte_simps [simp]:
  "fcs_byte fcs 0 = ucast fcs" "fcs_byte fcs 1 = ucast (drop_bit 8 fcs)"
  "fcs_byte fcs 2 = ucast (drop_bit 16 fcs)" "fcs_byte fcs 3 = ucast (drop_bit 24 fcs)"
  by (simp_all add: fcs_byte_def)

lemma crc32_next_complement:
  assumes "k + 8 \<le> 32"
  shows "crc32_next (drop_bit k x XOR r) (ucast (drop_bit k (NOT x))) = drop_bit (k + 8) x XOR (residue_step ^^ 8) r"
  unfolding crc32_next_def using assms
  by (intro crc32_complement_bits) (simp add: bit_ucast_iff bit_drop_bit_eq bit_not_iff)

lemma crc32_residue: "crc32 x (fcs_bytes (NOT x)) = 0xDEBB20E3"
proof -
  let ?R = "residue_step ^^ 8"
  have z: "drop_bit 32 x = 0" by (simp add: bit_eq_iff bit_drop_bit_eq)
  have 0: "crc32_next x (ucast (NOT x)) = drop_bit 8 x XOR ?R 0" using crc32_next_complement [of 0 x 0] by simp
  have 1: "crc32_next (drop_bit 8 x XOR ?R 0) (ucast (drop_bit 8 (NOT x))) = drop_bit 16 x XOR ?R (?R 0)"
    using crc32_next_complement [of 8 x "?R 0"] by simp
  have 2: "crc32_next (drop_bit 16 x XOR ?R (?R 0)) (ucast (drop_bit 16 (NOT x))) = drop_bit 24 x XOR ?R (?R (?R 0))"
    using crc32_next_complement [of 16 x "?R (?R 0)"] by simp
  have 3: "crc32_next (drop_bit 24 x XOR ?R (?R (?R 0))) (ucast (drop_bit 24 (NOT x))) = ?R (?R (?R (?R 0)))"
    using crc32_next_complement [of 24 x "?R (?R (?R 0))"] z by simp
  have "crc32 x (fcs_bytes (NOT x)) = ?R (?R (?R (?R 0)))"
    by (simp only: crc32_def fcs_bytes_def list.map foldl.simps fcs_byte_simps 0 1 2 3)
  moreover have R: "?R r = residue_step (residue_step (residue_step (residue_step (residue_step (residue_step (residue_step (residue_step r)))))))" for r
    by (simp add: numeral_eq_Suc)
  have "?R 0 = 0x2D02EF8D" "?R 0x2D02EF8D = 0xBE2612FF" "?R 0xBE2612FF = 0xBE2612" "?R 0xBE2612 = 0xDEBB20E3"
    unfolding R by (simp_all add: residue_step_def)
  ultimately show ?thesis by simp
qed


section \<open>The frame of a datagram\<close>

definition be16 :: "u16 \<Rightarrow> u8 list" where
  "be16 w = [ucast (drop_bit 8 w), ucast w]"

definition mac_bytes :: "u48 \<Rightarrow> u8 list" where
  "mac_bytes mac = map (mac_byte mac) [0, 1, 2, 3, 4, 5]"

text \<open>Destination and source address, type, the IPv4 and the UDP header, the data, and zeros up to the
  least size of a frame.\<close>

definition frame_header :: "UdpTxParams \<Rightarrow> u48 \<Rightarrow> u32 \<Rightarrow> u16 \<Rightarrow> u16 \<Rightarrow> u8 list" where
  "frame_header p rmac rip rport n =
     mac_bytes rmac @ mac_bytes (LOCAL_MAC p) @ [0x08, 0x00] @ concat (map be16 (ipv4_words p rip (28 + n))) @
     concat (map be16 [LOCAL_PORT p, rport, 8 + n, 0])"

definition eth_frame :: "UdpTxParams \<Rightarrow> u48 \<Rightarrow> u32 \<Rightarrow> u16 \<Rightarrow> u8 list \<Rightarrow> u8 list" where
  "eth_frame p rmac rip rport data =
     frame_header p rmac rip rport (of_nat (length data)) @ data @ replicate (18 - length data) 0"

lemma length_frame_header [simp]: "length (frame_header p rmac rip rport n) = 42"
  by (simp add: frame_header_def mac_bytes_def ipv4_words_def be16_def)

lemma length_eth_frame: "length (eth_frame p rmac rip rport data) = max 60 (42 + length data)"
  by (simp add: eth_frame_def)

lemma ip_byte_halves:
  "ip_byte ip 0 = ucast (drop_bit 8 (ucast (drop_bit 16 ip) :: u16))" "ip_byte ip 1 = ucast (ucast (drop_bit 16 ip) :: u16)"
  "ip_byte ip 2 = ucast (drop_bit 8 (ucast ip :: u16))" "ip_byte ip 3 = ucast (ucast ip :: u16)"
proof -
  have b: "ip_byte ip 0 = ucast (drop_bit 24 ip)" "ip_byte ip 1 = ucast (drop_bit 16 ip)" "ip_byte ip 2 = ucast (drop_bit 8 ip)"
    "ip_byte ip 3 = ucast ip" by (simp_all add: ip_byte_def)
  show "ip_byte ip 0 = ucast (drop_bit 8 (ucast (drop_bit 16 ip) :: u16))" "ip_byte ip 1 = ucast (ucast (drop_bit 16 ip) :: u16)"
    "ip_byte ip 2 = ucast (drop_bit 8 (ucast ip :: u16))" "ip_byte ip 3 = ucast (ucast ip :: u16)"
    unfolding b by (auto simp: bit_eq_iff bit_ucast_iff bit_drop_bit_eq)
qed

lemma header_values:
  "frame_data_byte p s 0 = mac_byte (tx_remote_mac s) 0" "frame_data_byte p s 1 = mac_byte (tx_remote_mac s) 1"
  "frame_data_byte p s 2 = mac_byte (tx_remote_mac s) 2" "frame_data_byte p s 3 = mac_byte (tx_remote_mac s) 3"
  "frame_data_byte p s 4 = mac_byte (tx_remote_mac s) 4" "frame_data_byte p s 5 = mac_byte (tx_remote_mac s) 5"
  "frame_data_byte p s 6 = mac_byte (LOCAL_MAC p) 0" "frame_data_byte p s 7 = mac_byte (LOCAL_MAC p) 1"
  "frame_data_byte p s 8 = mac_byte (LOCAL_MAC p) 2" "frame_data_byte p s 9 = mac_byte (LOCAL_MAC p) 3"
  "frame_data_byte p s 10 = mac_byte (LOCAL_MAC p) 4" "frame_data_byte p s 11 = mac_byte (LOCAL_MAC p) 5"
  "frame_data_byte p s 12 = 0x08" "frame_data_byte p s 13 = 0x00" "frame_data_byte p s 14 = 0x45"
  "frame_data_byte p s 15 = 0x00" "frame_data_byte p s 16 = ucast (drop_bit 8 (28 + payload_len s))"
  "frame_data_byte p s 17 = ucast (28 + payload_len s)" "frame_data_byte p s 18 = 0" "frame_data_byte p s 19 = 0"
  "frame_data_byte p s 20 = 0" "frame_data_byte p s 21 = 0" "frame_data_byte p s 22 = 0x40" "frame_data_byte p s 23 = 0x11"
  "frame_data_byte p s 24 = ucast (drop_bit 8 (ipv4_checksum p (tx_remote_ip s) (28 + payload_len s)))"
  "frame_data_byte p s 25 = ucast (ipv4_checksum p (tx_remote_ip s) (28 + payload_len s))"
  "frame_data_byte p s 26 = ip_byte (LOCAL_IP p) 0" "frame_data_byte p s 27 = ip_byte (LOCAL_IP p) 1"
  "frame_data_byte p s 28 = ip_byte (LOCAL_IP p) 2" "frame_data_byte p s 29 = ip_byte (LOCAL_IP p) 3"
  "frame_data_byte p s 30 = ip_byte (tx_remote_ip s) 0" "frame_data_byte p s 31 = ip_byte (tx_remote_ip s) 1"
  "frame_data_byte p s 32 = ip_byte (tx_remote_ip s) 2" "frame_data_byte p s 33 = ip_byte (tx_remote_ip s) 3"
  "frame_data_byte p s 34 = ucast (drop_bit 8 (LOCAL_PORT p))" "frame_data_byte p s 35 = ucast (LOCAL_PORT p)"
  "frame_data_byte p s 36 = ucast (drop_bit 8 (tx_remote_port s))" "frame_data_byte p s 37 = ucast (tx_remote_port s)"
  "frame_data_byte p s 38 = ucast (drop_bit 8 (8 + payload_len s))" "frame_data_byte p s 39 = ucast (8 + payload_len s)"
  "frame_data_byte p s 40 = 0" "frame_data_byte p s 41 = 0"
  by (simp_all add: frame_data_byte_def)

lemma header_byte:
  assumes "k < 42"
  shows "frame_data_byte p s (of_nat k) = frame_header p (tx_remote_mac s) (tx_remote_ip s) (tx_remote_port s) (payload_len s) ! k"
proof -
  have upt: "[0..<42] = [0, 1, 2, 3, 4, 5, 6, 7, 8, 9, 10, 11, 12, 13, 14, 15, 16, 17, 18, 19, 20, 21, 22, 23, 24, 25, 26, 27, 28, 29, 30, 31, 32, 33, 34, 35, 36, 37, 38, 39, 40, 41 :: nat]" by code_simp
  have "map (\<lambda>k. frame_data_byte p s (of_nat k)) [0..<42] = frame_header p (tx_remote_mac s) (tx_remote_ip s) (tx_remote_port s) (payload_len s)"
    unfolding upt by (simp add: header_values frame_header_def mac_bytes_def ipv4_words_def be16_def ip_byte_halves)
  then have "map (\<lambda>k. frame_data_byte p s (of_nat k)) [0..<42] ! k = frame_header p (tx_remote_mac s) (tx_remote_ip s) (tx_remote_port s) (payload_len s) ! k"
    by simp
  with assms show ?thesis by simp
qed

lemma frame_data_byte_spec:
  assumes "payload_len s = of_nat (length data)" "length data \<le> 1472" "\<And>i. i < length data \<Longrightarrow> payload_mem s i = data ! i"
    "k < length (eth_frame p (tx_remote_mac s) (tx_remote_ip s) (tx_remote_port s) data)"
  shows "frame_data_byte p s (of_nat k) = eth_frame p (tx_remote_mac s) (tx_remote_ip s) (tx_remote_port s) data ! k"
proof (cases "k < 42")
  case True
  then show ?thesis using header_byte [OF True, of p s] by (simp add: eth_frame_def nth_append assms(1))
next
  case False
  have k: "k < 2000" using assms(2,4) by (simp add: length_eth_frame)
  then have u: "unat (of_nat k :: u16) = k" by (simp add: unsigned_of_nat take_bit_nat_eq_self_iff)
  have w: "(of_nat k :: u16) = of_nat j \<longleftrightarrow> k = j" if "j < 2000" for j
    using that k by (auto simp: word_unat_eq_iff unsigned_of_nat take_bit_nat_eq_self)
  have n: "unat (HEADER_BYTES + payload_len s) = 42 + length data"
    using assms(2) by (simp add: HEADER_BYTES_def assms(1) unat_word_ariths unsigned_of_nat take_bit_nat_eq_self)
  have i: "unat ((of_nat k :: u16) - HEADER_BYTES) = k - 42"
    using False u by (subst unat_sub) (simp_all add: HEADER_BYTES_def word_le_nat_alt)
  have big: "\<not> of_nat k < (6 :: u16)" "\<not> of_nat k < (12 :: u16)" using False u by (simp_all add: word_less_nat_alt)
  have ne: "(of_nat k :: u16) \<noteq> numeral j" if "numeral j < (42 :: nat)" for j
  proof -
    have "numeral j < (2000 :: nat)" "k \<noteq> numeral j" using that False by linarith+
    from w [OF this(1)] this(2) show ?thesis by simp
  qed
  have "frame_data_byte p s (of_nat k) = (if k < 42 + length data then payload_mem s (k - 42) else 0)"
    unfolding frame_data_byte_def Let_def using big ne n u i by (simp add: word_less_nat_alt)
  also have "\<dots> = eth_frame p (tx_remote_mac s) (tx_remote_ip s) (tx_remote_port s) data ! k"
    using False assms(3,4) by (auto simp: eth_frame_def nth_append length_eth_frame)
  finally show ?thesis .
qed


section \<open>Sending\<close>

definition wire_frame :: "u8 list \<Rightarrow> u8 list" where
  "wire_frame fr = fr @ fcs_bytes (NOT (crc32 0xFFFFFFFF fr))"

lemma length_wire_frame [simp]: "length (wire_frame fr) = length fr + 4"
  by (simp add: wire_frame_def fcs_bytes_def)

lemma axis_frame_Cons: "axis_frame (b # bs) = \<lparr>axis_data = b, axis_last = (bs = [])\<rparr> # (if bs = [] then [] else axis_frame bs)"
  by (simp add: axis_frame_def axis_bytes_def)

text \<open>The byte at position \<open>j\<close> of the frame \<open>fr\<close> is offered.\<close>

definition tx_sending :: "UdpTxParams \<Rightarrow> u8 list \<Rightarrow> nat \<Rightarrow> UdpTx \<Rightarrow> bool" where
  "tx_sending p fr j s \<longleftrightarrow> tx_state s = TX_SEND \<and> m_frame_tvalid s \<and> send_index s = of_nat j \<and>
     data_len_no_fcs s = of_nat (length fr) \<and> total_len_with_fcs s = of_nat (length fr + 4) \<and> j < length fr + 4 \<and>
     60 \<le> length fr \<and> length fr < 2000 \<and> m_frame_tdata s = wire_frame fr ! j \<and> (m_frame_tlast s \<longleftrightarrow> j = length fr + 3) \<and>
     (if j < length fr then crc_state s = crc32 0xFFFFFFFF (take j fr) else fcs_latched s = NOT (crc32 0xFFFFFFFF fr)) \<and>
     (\<forall>k < length fr. frame_data_byte p s (of_nat k) = fr ! k)"

lemma frame_data_byte_cong:
  assumes "payload_len s' = payload_len s" "payload_mem s' = payload_mem s" "tx_remote_mac s' = tx_remote_mac s"
    "tx_remote_ip s' = tx_remote_ip s" "tx_remote_port s' = tx_remote_port s"
  shows "frame_data_byte p s' idx = frame_data_byte p s idx"
  unfolding frame_data_byte_def assms ..

lemma index_eq: "a < 4000 \<Longrightarrow> b < 4000 \<Longrightarrow> (of_nat a :: u16) = of_nat b \<longleftrightarrow> a = b"
  by (auto simp: word_unat_eq_iff unsigned_of_nat take_bit_nat_eq_self)

lemma index_less: "a < 4000 \<Longrightarrow> b < 4000 \<Longrightarrow> (of_nat a :: u16) < of_nat b \<longleftrightarrow> a < b"
  by (simp add: word_less_nat_alt unsigned_of_nat take_bit_nat_eq_self)

lemma index_pred: "0 < a \<Longrightarrow> (of_nat a - 1 :: u16) = of_nat (a - 1)"
  by (simp add: of_nat_diff)

lemma fcs_wire: "k < 4 \<Longrightarrow> wire_frame fr ! (length fr + k) = fcs_byte (NOT (crc32 0xFFFFFFFF fr)) (of_nat k)"
  by (auto simp: wire_frame_def fcs_bytes_def nth_append less_Suc_eq numeral_eq_Suc)

lemma crc32_take_Suc: "j < length fr \<Longrightarrow> crc32 c (take (Suc j) fr) = crc32_next (crc32 c (take j fr)) (fr ! j)"
  by (simp add: crc32_def take_Suc_conv_app_nth)

lemma tx_sending_step:
  assumes sd: "tx_sending p fr j s" and i: "in_rst_n i"
  shows "frame_transfer i s = (if m_frame_tready i then [\<lparr>axis_data = wire_frame fr ! j, axis_last = (j = length fr + 3)\<rparr>] else [])"
    and "\<not> m_frame_tready i \<Longrightarrow> tx_sending p fr j (udp_tx_step p i s)"
    and "m_frame_tready i \<Longrightarrow> j < length fr + 3 \<Longrightarrow> tx_sending p fr (Suc j) (udp_tx_step p i s)"
    and "m_frame_tready i \<Longrightarrow> j = length fr + 3 \<Longrightarrow> tx_state (udp_tx_step p i s) = TX_IDLE \<and> \<not> m_frame_tvalid (udp_tx_step p i s)"
proof -
  let ?s = "s\<lparr>packet_sent := False\<rparr>"
  note sd = sd [unfolded tx_sending_def]
  have step: "udp_tx_step p i s = udp_tx_send p i ?s" using sd i by (simp add: udp_tx_step_def)
  have fdb: "frame_data_byte p ?s idx = frame_data_byte p s idx" for idx by (rule frame_data_byte_cong) simp_all
  show "frame_transfer i s = (if m_frame_tready i then [\<lparr>axis_data = wire_frame fr ! j, axis_last = (j = length fr + 3)\<rparr>] else [])"
    using sd by (simp add: frame_transfer_def)
  show "tx_sending p fr j (udp_tx_step p i s)" if "\<not> m_frame_tready i"
    using sd that by (simp add: step udp_tx_send_def tx_sending_def fdb)
  have b: "60 \<le> length fr" "length fr < 2000" "j < length fr + 4" "length fr - Suc 0 < 4000" using sd by auto
  have idx: "send_index s + 1 = of_nat (Suc j)" "total_len_with_fcs s - 1 = of_nat (length fr + 3)" "data_len_no_fcs s - 1 = of_nat (length fr - 1)"
    using sd by (simp_all add: index_pred add.commute)
  have cmp: "send_index s = total_len_with_fcs s - 1 \<longleftrightarrow> j = length fr + 3" "send_index s + 1 = total_len_with_fcs s - 1 \<longleftrightarrow> Suc j = length fr + 3"
    "send_index s = data_len_no_fcs s - 1 \<longleftrightarrow> j = length fr - 1" "send_index s < data_len_no_fcs s \<longleftrightarrow> j < length fr"
    "send_index s + 1 < data_len_no_fcs s \<longleftrightarrow> Suc j < length fr"
    unfolding idx using sd b by (simp_all add: index_eq index_less del: of_nat_Suc of_nat_add of_nat_diff)
  show "tx_state (udp_tx_step p i s) = TX_IDLE \<and> \<not> m_frame_tvalid (udp_tx_step p i s)" if "m_frame_tready i" "j = length fr + 3"
    using sd that cmp by (simp add: step udp_tx_send_def Let_def)
  show "tx_sending p fr (Suc j) (udp_tx_step p i s)" if r: "m_frame_tready i" and j: "j < length fr + 3"
  proof -
    let ?crc = "crc32_next (crc_state s) (m_frame_tdata s)"
    let ?s' = "udp_tx_send p i ?s"
    have f: "tx_state ?s' = TX_SEND" "m_frame_tvalid ?s'" "send_index ?s' = of_nat (Suc j)" "data_len_no_fcs ?s' = of_nat (length fr)"
      "total_len_with_fcs ?s' = of_nat (length fr + 4)" "m_frame_tlast ?s' \<longleftrightarrow> Suc j = length fr + 3"
      "crc_state ?s' = (if j < length fr then ?crc else crc_state s)"
      "fcs_latched ?s' = (if j = length fr - 1 then NOT ?crc else fcs_latched s)"
      "m_frame_tdata ?s' = (if Suc j < length fr then frame_data_byte p s (of_nat (Suc j)) else if j = length fr - 1 then fcs_byte (NOT ?crc) 0
         else fcs_byte (fcs_latched s) (ucast (of_nat (Suc j) - of_nat (length fr) :: u16)))"
      using sd r j b cmp idx by (simp_all add: udp_tx_send_def Let_def fdb add.commute) (auto simp: add.commute)
    have g: "frame_data_byte p ?s' idx = frame_data_byte p s idx" for idx
      by (rule frame_data_byte_cong) (simp_all add: udp_tx_send_def Let_def)
    have crc: "?crc = crc32 0xFFFFFFFF (take (Suc j) fr)" if "j < length fr"
      using sd that by (simp add: crc32_take_Suc wire_frame_def nth_append)
    have "m_frame_tdata ?s' = wire_frame fr ! Suc j"
    proof -
      define k where "k = Suc j - length fr"
      have "Suc j < length fr \<or> Suc j = length fr \<or> (Suc j = length fr + k \<and> 0 < k \<and> k < 4)" using j by (auto simp: k_def)
      then consider "Suc j < length fr" | "Suc j = length fr" | "Suc j = length fr + k" "0 < k" "k < 4" by blast
      then show ?thesis
      proof cases
        case 1
        then show ?thesis using f(9) sd by (simp add: wire_frame_def nth_append del: of_nat_Suc)
      next
        case 2
        then show ?thesis using f(9) crc fcs_wire [of 0 fr] by auto
      next
        case 3
        then have "(of_nat (Suc j) - of_nat (length fr) :: u16) = of_nat k" by simp
        moreover have "k = 1 \<or> k = 2 \<or> k = 3" using 3(2,3) by auto
        then have "(ucast (of_nat k :: u16) :: 2 word) = of_nat k" by auto
        ultimately show ?thesis using f(9) 3 sd fcs_wire [OF 3(3), of fr] by auto
      qed
    qed
    then show ?thesis unfolding step tx_sending_def using f g sd crc j by (auto simp del: of_nat_Suc)
  qed
qed


section \<open>Receiving\<close>

type_synonym endpoint = "u48 \<times> u32 \<times> u16"

definition frame_of :: "UdpTxParams \<Rightarrow> endpoint \<Rightarrow> u8 list \<Rightarrow> u8 list" where
  "frame_of p adr d = (case adr of (rmac, rip, rport) \<Rightarrow> eth_frame p rmac rip rport d)"

definition from_endpoint :: "endpoint \<Rightarrow> UdpTxIn \<Rightarrow> bool" where
  "from_endpoint adr i \<longleftrightarrow> adr = (in_remote_mac i, in_remote_ip i, in_remote_port i)"

definition tx_quiet :: "UdpTx \<Rightarrow> bool" where
  "tx_quiet s \<longleftrightarrow> tx_state s = TX_IDLE \<and> \<not> m_frame_tvalid s"

text \<open>The bytes \<open>xs\<close> of a datagram are in the payload memory.\<close>

definition tx_holds :: "endpoint \<Rightarrow> u8 list \<Rightarrow> UdpTx \<Rightarrow> bool" where
  "tx_holds adr xs s \<longleftrightarrow> xs \<noteq> [] \<and> payload_len s = of_nat (length xs) \<and> (\<forall>i < length xs. payload_mem s i = xs ! i) \<and>
     send_index s = 0 \<and> crc_state s = 0xFFFFFFFF \<and> adr = (tx_remote_mac s, tx_remote_ip s, tx_remote_port s)"

definition tx_receiving :: "endpoint \<Rightarrow> u8 list \<Rightarrow> UdpTx \<Rightarrow> bool" where
  "tx_receiving adr xs s \<longleftrightarrow> tx_state s = TX_RECV \<and> \<not> m_frame_tvalid s \<and> tx_holds adr xs s"

lemma start_frame_sending:
  assumes "tx_holds adr xs s" "length xs \<le> 1472" "from_endpoint adr i" "len = of_nat (max 60 (42 + length xs))"
  shows "tx_sending p (frame_of p adr xs) 0 (start_frame i len s)"
proof -
  let ?s = "start_frame i len s"
  obtain rmac rip rport where adr: "adr = (rmac, rip, rport)" by (cases adr)
  have f: "tx_remote_mac ?s = rmac" "tx_remote_ip ?s = rip" "tx_remote_port ?s = rport" "payload_len ?s = of_nat (length xs)"
    "\<And>i. i < length xs \<Longrightarrow> payload_mem ?s i = xs ! i" "in_remote_mac i = rmac" "0 < length xs"
    using assms(1,3) adr by (simp_all add: start_frame_def tx_holds_def from_endpoint_def)
  have len: "length (frame_of p adr xs) = max 60 (42 + length xs)" by (simp add: frame_of_def adr length_eth_frame)
  have "frame_data_byte p ?s (of_nat k) = frame_of p adr xs ! k" if "k < length (frame_of p adr xs)" for k
    using frame_data_byte_spec [OF f(4) assms(2) f(5), of k p] that by (simp add: f(1-3) frame_of_def adr)
  moreover have "wire_frame (frame_of p adr xs) ! 0 = mac_byte rmac 0"
    by (simp add: wire_frame_def frame_of_def adr eth_frame_def frame_header_def mac_bytes_def)
  ultimately show ?thesis
    using assms(1,2,4) f(6,7) len by (auto simp: tx_sending_def start_frame_def tx_holds_def crc32_def nth_append max_def)
qed

lemma quiet_step:
  assumes q: "tx_quiet s" and i: "in_rst_n i" "from_endpoint adr i" and M: "0 < MAX_PAYLOAD_BYTES p"
  shows "frame_transfer i s = []" "s_payload_tready p s"
    and "\<not> s_payload_tvalid i \<Longrightarrow> tx_quiet (udp_tx_step p i s)"
    and "s_payload_tvalid i \<Longrightarrow> \<not> s_payload_tlast i \<Longrightarrow> tx_receiving adr [s_payload_tdata i] (udp_tx_step p i s)"
    and "s_payload_tvalid i \<Longrightarrow> s_payload_tlast i \<Longrightarrow> tx_sending p (frame_of p adr [s_payload_tdata i]) 0 (udp_tx_step p i s)"
proof -
  have step: "udp_tx_step p i s = udp_tx_idle p i (s\<lparr>packet_sent := False\<rparr>)"
    using q i by (simp add: udp_tx_step_def tx_quiet_def)
  show "frame_transfer i s = []" "s_payload_tready p s" using q by (simp_all add: tx_quiet_def frame_transfer_def s_payload_tready_def)
  show "tx_quiet (udp_tx_step p i s)" if "\<not> s_payload_tvalid i"
    using q that by (simp add: step udp_tx_idle_def tx_quiet_def Let_def)
  show "tx_receiving adr [s_payload_tdata i] (udp_tx_step p i s)" if "s_payload_tvalid i" "\<not> s_payload_tlast i"
    using that i M by (simp add: step udp_tx_idle_def Let_def tx_receiving_def tx_holds_def from_endpoint_def)
  let ?s = "s\<lparr>packet_sent := False, send_index := 0, crc_state := 0xFFFFFFFF, m_frame_tvalid := False,
            m_frame_tlast := False, payload_overflow := False, tx_remote_mac := in_remote_mac i, tx_remote_ip := in_remote_ip i,
            tx_remote_port := in_remote_port i, payload_mem := (payload_mem s)(0 := s_payload_tdata i), payload_len := 1\<rparr>"
  have "tx_holds adr [s_payload_tdata i] ?s" using i by (simp add: tx_holds_def from_endpoint_def)
  then have "tx_sending p (frame_of p adr [s_payload_tdata i]) 0 (start_frame i 60 ?s)"
    using i by (intro start_frame_sending) simp_all
  then show "tx_sending p (frame_of p adr [s_payload_tdata i]) 0 (udp_tx_step p i s)" if "s_payload_tvalid i" "s_payload_tlast i"
    using that M by (simp add: step udp_tx_idle_def Let_def MIN_FRAME_NO_FCS_def)
qed

lemma data_len_next:
  assumes "tx_holds adr xs s" "length xs < 1472"
  shows "(if HEADER_BYTES + payload_len s + 1 < MIN_FRAME_NO_FCS then MIN_FRAME_NO_FCS else HEADER_BYTES + payload_len s + 1) =
    of_nat (max 60 (43 + length xs))"
proof -
  have e: "HEADER_BYTES + payload_len s + 1 = of_nat (43 + length xs)" using assms(1) by (simp add: HEADER_BYTES_def tx_holds_def)
  have "(of_nat (43 + length xs) :: u16) < of_nat 60 \<longleftrightarrow> 43 + length xs < 60"
    using assms(2) by (intro index_less) simp_all
  then show ?thesis unfolding e MIN_FRAME_NO_FCS_def by (auto simp: max_def)
qed

lemma tx_receiving_step:
  assumes r: "tx_receiving adr xs s" and i: "in_rst_n i" "from_endpoint adr i" and M: "length xs \<le> MAX_PAYLOAD_BYTES p" "MAX_PAYLOAD_BYTES p \<le> 1472"
  shows "frame_transfer i s = []" "s_payload_tready p s \<longleftrightarrow> length xs < MAX_PAYLOAD_BYTES p"
    and "\<not> s_payload_tvalid i \<or> length xs = MAX_PAYLOAD_BYTES p \<Longrightarrow> tx_receiving adr xs (udp_tx_step p i s)"
    and "s_payload_tvalid i \<Longrightarrow> length xs < MAX_PAYLOAD_BYTES p \<Longrightarrow> \<not> s_payload_tlast i \<Longrightarrow>
      tx_receiving adr (xs @ [s_payload_tdata i]) (udp_tx_step p i s)"
    and "s_payload_tvalid i \<Longrightarrow> length xs < MAX_PAYLOAD_BYTES p \<Longrightarrow> s_payload_tlast i \<Longrightarrow>
      tx_sending p (frame_of p adr (xs @ [s_payload_tdata i])) 0 (udp_tx_step p i s)"
proof -
  let ?s = "s\<lparr>packet_sent := False\<rparr>"
  have step: "udp_tx_step p i s = udp_tx_recv p i ?s"
    using r i by (simp add: udp_tx_step_def tx_receiving_def)
  have h: "tx_holds adr xs s" and st: "tx_state s = TX_RECV" "\<not> m_frame_tvalid s" using r by (simp_all add: tx_receiving_def)
  have u: "unat (payload_len s) = length xs" using h M by (simp add: tx_holds_def unsigned_of_nat take_bit_nat_eq_self)
  show "frame_transfer i s = []" using st by (simp add: frame_transfer_def)
  show rdy: "s_payload_tready p s \<longleftrightarrow> length xs < MAX_PAYLOAD_BYTES p" using st u by (simp add: s_payload_tready_def)
  have rdy': "s_payload_tready p ?s \<longleftrightarrow> length xs < MAX_PAYLOAD_BYTES p" using st u by (simp add: s_payload_tready_def)
  show "tx_receiving adr xs (udp_tx_step p i s)" if "\<not> s_payload_tvalid i \<or> length xs = MAX_PAYLOAD_BYTES p"
    using that h st rdy' by (auto simp: step udp_tx_recv_def tx_receiving_def tx_holds_def)
  let ?b = "s_payload_tdata i"
  let ?s1 = "?s\<lparr>payload_mem := (payload_mem s)(length xs := ?b), payload_len := payload_len s + 1\<rparr>"
  have h1: "tx_holds adr (xs @ [?b]) ?s1"
    using h by (auto simp: tx_holds_def nth_append less_Suc_eq add.commute)
  have st1: "tx_state ?s1 = TX_RECV" "\<not> m_frame_tvalid ?s1" using st by simp_all
  show "tx_receiving adr (xs @ [?b]) (udp_tx_step p i s)" if "s_payload_tvalid i" "length xs < MAX_PAYLOAD_BYTES p" "\<not> s_payload_tlast i"
    using that h1 st1 rdy' u by (simp add: step udp_tx_recv_def tx_receiving_def Let_def)
  have len: "(if HEADER_BYTES + payload_len s + 1 < MIN_FRAME_NO_FCS then MIN_FRAME_NO_FCS else HEADER_BYTES + payload_len s + 1) =
      of_nat (max 60 (42 + length (xs @ [?b])))" if "length xs < MAX_PAYLOAD_BYTES p"
    using data_len_next [OF h] that M by simp
  show "tx_sending p (frame_of p adr (xs @ [?b])) 0 (udp_tx_step p i s)" if "s_payload_tvalid i" "length xs < MAX_PAYLOAD_BYTES p" "s_payload_tlast i"
  proof -
    have "tx_sending p (frame_of p adr (xs @ [?b])) 0 (start_frame i (of_nat (max 60 (42 + length (xs @ [?b])))) ?s1)"
      using h1 i that(2) M by (intro start_frame_sending) simp_all
    then show ?thesis
      unfolding len [OF that(2), symmetric] using that rdy' u by (simp add: step udp_tx_recv_def Let_def split del: if_split cong: if_cong)
  qed
qed


section \<open>A stream of datagrams\<close>

text \<open>A stream is connected to the payload side. In each cycle the source may pause (\<open>v\<close> false) and so may
  the receiver of the frames (\<open>r\<close> false).\<close>

definition cycle_in :: "endpoint \<Rightarrow> bool \<Rightarrow> bool \<Rightarrow> tx_stream \<Rightarrow> UdpTxIn" where
  "cycle_in adr v r stream = \<lparr>in_rst_n = True, in_remote_mac = fst adr, in_remote_ip = fst (snd adr), in_remote_port = snd (snd adr),
     s_payload_tdata = (case stream of [] \<Rightarrow> 0 | b # _ \<Rightarrow> axis_data b), s_payload_tvalid = (v \<and> stream \<noteq> []),
     s_payload_tlast = (case stream of [] \<Rightarrow> False | b # _ \<Rightarrow> axis_last b), m_frame_tready = r\<rparr>"

fun framer_loop :: "UdpTxParams \<Rightarrow> endpoint \<Rightarrow> (bool \<times> bool) list \<Rightarrow> tx_stream \<Rightarrow> UdpTx \<Rightarrow> tx_stream \<times> tx_stream \<times> UdpTx" where
  "framer_loop p adr [] stream s = ([], stream, s)"
| "framer_loop p adr ((v, r) # sched) stream s =
     (let i = cycle_in adr v r stream;
          rest = (if s_payload_tvalid i \<and> s_payload_tready p s then tl stream else stream)
      in case framer_loop p adr sched rest (udp_tx_step p i s) of (out, end) \<Rightarrow> (frame_transfer i s @ out, end))"

lemma cycle_in_simps [simp]:
  "in_rst_n (cycle_in adr v r stream)" "from_endpoint adr (cycle_in adr v r stream)" "m_frame_tready (cycle_in adr v r stream) = r"
  "s_payload_tvalid (cycle_in adr v r stream) \<longleftrightarrow> v \<and> stream \<noteq> []"
  "s_payload_tdata (cycle_in adr v r (b # bs)) = axis_data b" "s_payload_tlast (cycle_in adr v r (b # bs)) = axis_last b"
  by (simp_all add: cycle_in_def from_endpoint_def)

definition axis_frames :: "u8 list list \<Rightarrow> tx_stream" where
  "axis_frames ds = concat (map axis_frame ds)"

definition datagrams_ok :: "UdpTxParams \<Rightarrow> u8 list list \<Rightarrow> bool" where
  "datagrams_ok p ds \<longleftrightarrow> list_all (\<lambda>d. d \<noteq> [] \<and> length d \<le> MAX_PAYLOAD_BYTES p) ds"

definition frames_of :: "UdpTxParams \<Rightarrow> endpoint \<Rightarrow> u8 list list \<Rightarrow> tx_stream" where
  "frames_of p adr ds = axis_frames (map (\<lambda>d. wire_frame (frame_of p adr d)) ds)"

lemma axis_frames_simps [simp]: "axis_frames [] = []" "axis_frames (d # ds) = axis_frame d @ axis_frames ds"
  by (simp_all add: axis_frames_def)

lemma frames_of_simps [simp]:
  "frames_of p adr [] = []" "frames_of p adr (d # ds) = axis_frame (wire_frame (frame_of p adr d)) @ frames_of p adr ds"
  by (simp_all add: frames_of_def)

lemma axis_frame_not_Nil [simp]: "axis_frame bs \<noteq> []"
  by (simp add: axis_frame_def)

lemma axis_frames_Nil_iff [simp]: "axis_frames ds = [] \<longleftrightarrow> ds = []"
  by (cases ds) simp_all

lemma axis_frames_append: "axis_frames (a @ b) = axis_frames a @ axis_frames b"
  by (simp add: axis_frames_def)

lemma datagrams_ok_simps [simp]:
  "datagrams_ok p []" "datagrams_ok p (d # ds) \<longleftrightarrow> d \<noteq> [] \<and> length d \<le> MAX_PAYLOAD_BYTES p \<and> datagrams_ok p ds"
  by (simp_all add: datagrams_ok_def)

text \<open>What the framer still owes for the datagrams \<open>ds\<close> in front of \<open>behind\<close>; the last case is a datagram
  \<open>xs @ ys\<close> that is too long.\<close>

definition framer_owes :: "UdpTxParams \<Rightarrow> endpoint \<Rightarrow> tx_stream \<Rightarrow> tx_stream \<Rightarrow> UdpTx \<Rightarrow> tx_stream \<Rightarrow> bool" where
  "framer_owes p adr behind stream s owed \<longleftrightarrow>
     (\<exists>ds. datagrams_ok p ds \<and> tx_quiet s \<and> stream = axis_frames ds @ behind \<and> owed = frames_of p adr ds) \<or>
     (\<exists>xs ys ds. datagrams_ok p ((xs @ ys) # ds) \<and> ys \<noteq> [] \<and> tx_receiving adr xs s \<and> stream = axis_frame ys @ axis_frames ds @ behind \<and>
        owed = frames_of p adr ((xs @ ys) # ds)) \<or>
     (\<exists>fr j ds. datagrams_ok p ds \<and> tx_sending p fr j s \<and> stream = axis_frames ds @ behind \<and>
        owed = axis_frame (drop j (wire_frame fr)) @ frames_of p adr ds) \<or>
     (\<exists>xs ys tail. tx_receiving adr xs s \<and> length xs \<le> MAX_PAYLOAD_BYTES p \<and> MAX_PAYLOAD_BYTES p < length (xs @ ys) \<and>
        behind = axis_frame (xs @ ys) @ tail \<and> stream = axis_frame ys @ tail \<and> owed = [])"

text \<open>Nothing, or a datagram that is too long.\<close>

definition tx_blocked :: "UdpTxParams \<Rightarrow> tx_stream \<Rightarrow> bool" where
  "tx_blocked p behind \<longleftrightarrow> behind = [] \<or> (\<exists>big tail. MAX_PAYLOAD_BYTES p < length big \<and> behind = axis_frame big @ tail)"

lemma axis_frame_drop:
  "j < length w \<Longrightarrow> axis_frame (drop j w) = \<lparr>axis_data = w ! j, axis_last = (j = length w - 1)\<rparr> #
     (if j = length w - 1 then [] else axis_frame (drop (Suc j) w))"
  by (simp add: axis_frame_Cons flip: Cons_nth_drop_Suc) auto

lemma framer_owesI:
  "datagrams_ok p ds \<Longrightarrow> tx_quiet s \<Longrightarrow> framer_owes p adr behind (axis_frames ds @ behind) s (frames_of p adr ds)"
  "datagrams_ok p ((xs @ ys) # ds) \<Longrightarrow> ys \<noteq> [] \<Longrightarrow> tx_receiving adr xs s \<Longrightarrow>
    framer_owes p adr behind (axis_frame ys @ axis_frames ds @ behind) s (frames_of p adr ((xs @ ys) # ds))"
  "datagrams_ok p ds \<Longrightarrow> tx_sending p fr j s \<Longrightarrow>
    framer_owes p adr behind (axis_frames ds @ behind) s (axis_frame (drop j (wire_frame fr)) @ frames_of p adr ds)"
  "tx_receiving adr xs s \<Longrightarrow> length xs \<le> MAX_PAYLOAD_BYTES p \<Longrightarrow> MAX_PAYLOAD_BYTES p < length (xs @ ys) \<Longrightarrow>
    framer_owes p adr (axis_frame (xs @ ys) @ tail) (axis_frame ys @ tail) s []"
  unfolding framer_owes_def by blast+

text \<open>A cycle in which the framer takes the first byte of a datagram, or another one.\<close>

definition stream_rest :: "u8 list \<Rightarrow> tx_stream \<Rightarrow> tx_stream" where
  "stream_rest bs tail = (if bs = [] then tail else axis_frame bs @ tail)"

lemma tl_axis_frame: "tl (axis_frame (b # bs) @ tail) = stream_rest bs tail"
  by (simp add: axis_frame_Cons stream_rest_def)

lemma length_stream_rest: "length (stream_rest bs tail) < length (axis_frame (b # bs) @ tail)"
  by (simp add: axis_frame_Cons stream_rest_def)

lemma quiet_takes:
  assumes q: "tx_quiet s" and M: "0 < MAX_PAYLOAD_BYTES p" and i: "i = cycle_in adr True r (axis_frame (b # bs) @ tail)"
  shows "bs = [] \<Longrightarrow> tx_sending p (frame_of p adr [b]) 0 (udp_tx_step p i s)" "bs \<noteq> [] \<Longrightarrow> tx_receiving adr [b] (udp_tx_step p i s)"
  using quiet_step [OF q _ _ M, of i adr] by (simp_all add: i axis_frame_Cons)

lemma tx_receiving_takes:
  assumes r: "tx_receiving adr xs s" and M: "length xs < MAX_PAYLOAD_BYTES p" "MAX_PAYLOAD_BYTES p \<le> 1472"
    and i: "i = cycle_in adr True r (axis_frame (b # bs) @ tail)"
  shows "bs = [] \<Longrightarrow> tx_sending p (frame_of p adr (xs @ [b])) 0 (udp_tx_step p i s)"
    "bs \<noteq> [] \<Longrightarrow> tx_receiving adr (xs @ [b]) (udp_tx_step p i s)"
  using tx_receiving_step [OF r _ _ _ M(2), of i] M(1) by (simp_all add: i axis_frame_Cons)

lemma owes_after_byte:
  assumes ok: "datagrams_ok p ((xs @ b # bs) # ds)"
    and s: "bs = [] \<Longrightarrow> tx_sending p (frame_of p adr (xs @ [b])) 0 s" "bs \<noteq> [] \<Longrightarrow> tx_receiving adr (xs @ [b]) s"
  shows "framer_owes p adr behind (stream_rest bs (axis_frames ds @ behind)) s (frames_of p adr ((xs @ b # bs) # ds))"
proof (cases "bs = []")
  case True
  with s(1) framer_owesI(3) [of p ds "frame_of p adr (xs @ [b])" 0 s adr behind] ok show ?thesis by (simp add: stream_rest_def)
next
  case False
  with s(2) framer_owesI(2) [of p "xs @ [b]" bs ds adr s behind] ok show ?thesis by (simp add: stream_rest_def)
qed

text \<open>One cycle: what is sent was owed, and a cycle without pauses makes progress.\<close>

definition framer_cycle where
  "framer_cycle p adr behind v r stream s owed \<longleftrightarrow>
     (let i = cycle_in adr v r stream; rest = (if s_payload_tvalid i \<and> s_payload_tready p s then tl stream else stream)
      in \<exists>owed'. owed = frame_transfer i s @ owed' \<and> framer_owes p adr behind rest (udp_tx_step p i s) owed' \<and>
        (v \<and> r \<and> behind = [] \<and> (stream \<noteq> [] \<or> owed \<noteq> []) \<longrightarrow> length rest + length owed' < length stream + length owed))"

lemma quiet_cycle:
  assumes ds: "datagrams_ok p ds" and q: "tx_quiet s" and M: "0 < MAX_PAYLOAD_BYTES p" and bl: "tx_blocked p behind"
  shows "framer_cycle p adr behind v r (axis_frames ds @ behind) s (frames_of p adr ds)"
proof -
  let ?i = "cycle_in adr v r (axis_frames ds @ behind)"
  note st = quiet_step [OF q _ _ M, of ?i adr, simplified]
  have rest: "(if s_payload_tvalid ?i \<and> s_payload_tready p s then tl (axis_frames ds @ behind) else axis_frames ds @ behind) =
      (if v then tl (axis_frames ds @ behind) else axis_frames ds @ behind)" using st(2) by auto
  consider "\<not> v \<or> axis_frames ds @ behind = []" | d ds2 where "v" "ds = d # ds2" | "v" "ds = []" "behind \<noteq> []" by (cases ds) auto
  then show ?thesis
  proof cases
    case 1
    then have "tx_quiet (udp_tx_step p ?i s)" using st(3) by auto
    from framer_owesI(1) [OF ds this, of adr behind] 1 st(1) show ?thesis unfolding framer_cycle_def Let_def rest by auto
  next
    case (2 d ds2)
    obtain b bs where d: "d = b # bs" using ds 2 by (cases d) auto
    have i: "?i = cycle_in adr True r (axis_frame (b # bs) @ axis_frames ds2 @ behind)" using 2 d by simp
    have "framer_owes p adr behind (stream_rest bs (axis_frames ds2 @ behind)) (udp_tx_step p ?i s) (frames_of p adr ds)"
      using owes_after_byte [of p "[]" b bs ds2 adr "udp_tx_step p ?i s" behind] quiet_takes [OF q M i] ds 2 d by simp
    then show ?thesis using st(1) 2 d length_stream_rest [of bs "axis_frames ds2 @ behind" b] tl_axis_frame [of b bs "axis_frames ds2 @ behind"]
      unfolding framer_cycle_def Let_def rest by simp
  next
    case 3
    then obtain big tail where big: "MAX_PAYLOAD_BYTES p < length big" "behind = axis_frame big @ tail" using bl by (auto simp: tx_blocked_def)
    then obtain b bs where b: "big = b # bs" by (cases big) auto
    with big M have bs: "bs \<noteq> []" by auto
    have i: "?i = cycle_in adr True r (axis_frame (b # bs) @ tail)" using 3 big b by simp
    have "framer_owes p adr behind (stream_rest bs tail) (udp_tx_step p ?i s) []"
      using framer_owesI(4) [of adr "[b]" "udp_tx_step p ?i s" p bs tail] quiet_takes(2) [OF q M i bs] big b bs M by (simp add: stream_rest_def)
    then show ?thesis using st(1) 3 big b tl_axis_frame [of b bs tail] unfolding framer_cycle_def Let_def rest by simp
  qed
qed

lemma tx_receiving_cycle:
  assumes ds: "datagrams_ok p ((xs @ ys) # ds)" "ys \<noteq> []" and rc: "tx_receiving adr xs s" and M: "MAX_PAYLOAD_BYTES p \<le> 1472"
  shows "framer_cycle p adr behind v r (axis_frame ys @ axis_frames ds @ behind) s (frames_of p adr ((xs @ ys) # ds))"
proof -
  obtain b bs where ys: "ys = b # bs" using ds(2) by (cases ys) auto
  let ?tail = "axis_frames ds @ behind"
  let ?i = "cycle_in adr v r (axis_frame (b # bs) @ ?tail)"
  have len: "length xs < MAX_PAYLOAD_BYTES p" "length xs \<le> MAX_PAYLOAD_BYTES p" using ds ys by simp_all
  note st = tx_receiving_step [OF rc _ _ len(2) M, of ?i, simplified]
  have rest: "(if s_payload_tvalid ?i \<and> s_payload_tready p s then tl (axis_frame (b # bs) @ ?tail) else axis_frame (b # bs) @ ?tail) =
      (if v then stream_rest bs ?tail else axis_frame ys @ ?tail)" using st(2) len ys by (auto simp: axis_frame_Cons stream_rest_def)
  show ?thesis
  proof (cases v)
    case False
    then have "tx_receiving adr xs (udp_tx_step p ?i s)" using st(3) by simp
    from framer_owesI(2) [OF ds this, of behind] False st(1) show ?thesis unfolding ys framer_cycle_def Let_def rest [unfolded ys] by auto
  next
    case True
    then have i: "?i = cycle_in adr True r (axis_frame (b # bs) @ ?tail)" by simp
    have "framer_owes p adr behind (stream_rest bs ?tail) (udp_tx_step p ?i s) (frames_of p adr ((xs @ ys) # ds))"
      using owes_after_byte [of p xs b bs ds adr "udp_tx_step p ?i s" behind] tx_receiving_takes [OF rc len(1) M i] ds ys by simp
    then show ?thesis using st(1) True length_stream_rest [of bs ?tail b] unfolding ys framer_cycle_def Let_def rest [unfolded ys] by auto
  qed
qed

lemma tx_sending_cycle:
  assumes ds: "datagrams_ok p ds" and sd: "tx_sending p fr j s"
  shows "framer_cycle p adr behind v r (axis_frames ds @ behind) s (axis_frame (drop j (wire_frame fr)) @ frames_of p adr ds)"
proof -
  let ?i = "cycle_in adr v r (axis_frames ds @ behind)"
  let ?s = "udp_tx_step p ?i s"
  note st = tx_sending_step [OF sd, of ?i, simplified]
  have j: "j < length fr + 4" and "tx_state s = TX_SEND" using sd by (simp_all add: tx_sending_def)
  then have rest: "(if s_payload_tvalid ?i \<and> s_payload_tready p s then tl (axis_frames ds @ behind) else axis_frames ds @ behind) = axis_frames ds @ behind"
    by (simp add: s_payload_tready_def)
  have fr: "axis_frame (drop j (wire_frame fr)) = \<lparr>axis_data = wire_frame fr ! j, axis_last = (j = length fr + 3)\<rparr> #
      (if j = length fr + 3 then [] else axis_frame (drop (Suc j) (wire_frame fr)))"
    using axis_frame_drop [of j "wire_frame fr"] j by simp
  consider "\<not> r" | "r" "j < length fr + 3" | "r" "j = length fr + 3" using j by linarith
  then show ?thesis
  proof cases
    case 1
    from framer_owesI(3) [OF ds st(2) [OF 1], of adr behind] 1 st(1) show ?thesis unfolding framer_cycle_def Let_def rest by auto
  next
    case 2
    from framer_owesI(3) [OF ds st(3) [OF 2], of adr behind] 2 st(1) fr show ?thesis unfolding framer_cycle_def Let_def rest by auto
  next
    case 3
    then have "tx_quiet ?s" using st(4) by (simp add: tx_quiet_def)
    from framer_owesI(1) [OF ds this, of adr behind] 3 st(1) fr show ?thesis unfolding framer_cycle_def Let_def rest by auto
  qed
qed

lemma toolong_cycle:
  assumes rc: "tx_receiving adr xs s" and len: "length xs \<le> MAX_PAYLOAD_BYTES p" "MAX_PAYLOAD_BYTES p < length (xs @ ys)"
    and M: "MAX_PAYLOAD_BYTES p \<le> 1472"
  shows "framer_cycle p adr (axis_frame (xs @ ys) @ tail) v r (axis_frame ys @ tail) s []"
proof -
  obtain b bs where ys: "ys = b # bs" using len by (cases ys) auto
  let ?i = "cycle_in adr v r (axis_frame (b # bs) @ tail)"
  note st = tx_receiving_step [OF rc _ _ len(1) M, of ?i, simplified]
  have ne: "axis_frame (xs @ ys) @ tail \<noteq> []" by (simp add: axis_frame_def)
  show ?thesis
  proof (cases "v \<and> length xs < MAX_PAYLOAD_BYTES p")
    case False
    then have "tx_receiving adr xs (udp_tx_step p ?i s)" using st(3) len(1) by auto
    from framer_owesI(4) [OF this len, of tail] False st(1,2) ne show ?thesis unfolding ys framer_cycle_def Let_def by auto
  next
    case True
    then have i: "?i = cycle_in adr True r (axis_frame (b # bs) @ tail)" by simp
    have bs: "bs \<noteq> []" using True len ys by auto
    have "tx_receiving adr (xs @ [b]) (udp_tx_step p ?i s)" using tx_receiving_takes(2) [OF rc _ M i bs] True by simp
    from framer_owesI(4) [OF this, of p bs tail] True len ys bs st(1,2) ne tl_axis_frame [of b bs tail]
    show ?thesis unfolding ys framer_cycle_def Let_def by (auto simp: stream_rest_def)
  qed
qed

lemma framer_owes_cycle:
  assumes "framer_owes p adr behind stream s owed" "0 < MAX_PAYLOAD_BYTES p" "MAX_PAYLOAD_BYTES p \<le> 1472" "tx_blocked p behind"
  shows "framer_cycle p adr behind v r stream s owed"
  using assms(1) unfolding framer_owes_def
  by (elim disjE exE conjE) (simp_all add: quiet_cycle tx_receiving_cycle tx_sending_cycle toolong_cycle assms(2-) del: datagrams_ok_simps frames_of_simps)


text \<open>Cycles in which neither side pauses.\<close>

definition busy_cycles :: "(bool \<times> bool) list \<Rightarrow> nat" where
  "busy_cycles sched = length (filter (\<lambda>(v, r). v \<and> r) sched)"

lemma framer_loop_owes:
  assumes M: "0 < MAX_PAYLOAD_BYTES p" "MAX_PAYLOAD_BYTES p \<le> 1472" and bl: "tx_blocked p behind"
  shows "framer_owes p adr behind stream s owed \<Longrightarrow> framer_loop p adr sched stream s = (out, rest, s') \<Longrightarrow>
    \<exists>owed'. owed = out @ owed' \<and> framer_owes p adr behind rest s' owed' \<and>
      (behind = [] \<longrightarrow> rest = [] \<and> owed' = [] \<or> length rest + length owed' + busy_cycles sched \<le> length stream + length owed)"
proof (induction sched arbitrary: stream s owed out)
  case Nil
  then show ?case by (auto simp: busy_cycles_def)
next
  case (Cons vr sched)
  obtain v r where vr: "vr = (v, r)" by (cases vr)
  let ?i = "cycle_in adr v r stream"
  let ?rest = "if s_payload_tvalid ?i \<and> s_payload_tready p s then tl stream else stream"
  obtain owed1 where o1: "owed = frame_transfer ?i s @ owed1" "framer_owes p adr behind ?rest (udp_tx_step p ?i s) owed1"
    "v \<and> r \<and> behind = [] \<and> (stream \<noteq> [] \<or> owed \<noteq> []) \<longrightarrow> length ?rest + length owed1 < length stream + length owed"
    using framer_owes_cycle [OF Cons.prems(1) M bl, of v r] unfolding framer_cycle_def Let_def by blast
  obtain out1 where l1: "framer_loop p adr sched ?rest (udp_tx_step p ?i s) = (out1, rest, s')" "out = frame_transfer ?i s @ out1"
    using Cons.prems(2) by (auto simp: vr Let_def split: prod.splits)
  obtain owed' where o2: "owed1 = out1 @ owed'" "framer_owes p adr behind rest s' owed'"
    "behind = [] \<longrightarrow> rest = [] \<and> owed' = [] \<or> length rest + length owed' + busy_cycles sched \<le> length ?rest + length owed1"
    using Cons.IH [OF o1(2) l1(1)] by blast
  have le: "length ?rest \<le> length stream" "length owed1 \<le> length owed" using o1(1) by auto
  have b: "busy_cycles (vr # sched) = (if v \<and> r then 1 else 0) + busy_cycles sched" by (simp add: busy_cycles_def vr)
  have "rest = [] \<and> owed' = [] \<or> length rest + length owed' + busy_cycles (vr # sched) \<le> length stream + length owed" if "behind = []"
  proof (cases "stream = [] \<and> owed = []")
    case True
    then have "length ?rest + length owed1 = 0" using le by auto
    then show ?thesis using o2(3) that by auto
  next
    case False
    then show ?thesis using o1(3) o2(3) le b that by (auto split: if_splits)
  qed
  then show ?case using o1(1) o2(1,2) l1(2) by (intro exI [of _ owed']) auto
qed

section \<open>Properties\<close>

fun words_be :: "u8 list \<Rightarrow> u16 list" where
  "words_be (a # b # bs) = (push_bit 8 (ucast a) OR ucast b) # words_be bs"
| "words_be _ = []"

lemma words_be_be16: "words_be (be16 w @ bs) = w # words_be bs"
  by (auto simp: be16_def bit_eq_iff bit_simps)

lemma words_be_concat: "words_be (concat (map be16 ws)) = ws"
proof (induction ws)
  case (Cons w ws)
  then show ?case using words_be_be16 [of w "concat (map be16 ws)"] by simp
qed simp


text \<open>A stream of datagrams that fit the payload memory leaves the framer as the frames of these
  datagrams, in order and without loss: whatever the pauses on both sides what was sent is a prefix of them, and
  once neither side paused often enough everything is sent.\<close>

lemma datagrams_framed:
  assumes "tx_quiet s" "datagrams_ok p ds" "0 < MAX_PAYLOAD_BYTES p" "MAX_PAYLOAD_BYTES p \<le> 1472"
    and "framer_loop p adr sched (axis_frames ds) s = (out, rest, s')"
  shows "prefix out (frames_of p adr ds) \<and>
    (length (axis_frames ds) + length (frames_of p adr ds) < busy_cycles sched \<longrightarrow> out = frames_of p adr ds \<and> rest = [] \<and> tx_quiet s')"
proof -
  have "framer_owes p adr [] (axis_frames ds) s (frames_of p adr ds)" using framer_owesI(1) [OF assms(2,1), of adr "[]"] by simp
  from framer_loop_owes [OF assms(3,4) _ this assms(5)]
  obtain owed' where o: "frames_of p adr ds = out @ owed'" "framer_owes p adr [] rest s' owed'"
    "rest = [] \<and> owed' = [] \<or> length rest + length owed' + busy_cycles sched \<le> length (axis_frames ds) + length (frames_of p adr ds)"
    by (auto simp: tx_blocked_def)
  then show ?thesis by (auto simp: framer_owes_def)
qed

definition udp_tx_zero :: UdpTx where
  "udp_tx_zero = \<lparr>tx_state = TX_IDLE, payload_len = 0, send_index = 0, data_len_no_fcs = 0, total_len_with_fcs = 0, crc_state = 0,
     fcs_latched = 0, tx_remote_mac = 0, tx_remote_ip = 0, tx_remote_port = 0, payload_mem = (\<lambda>_. 0), m_frame_tdata = 0,
     m_frame_tvalid = False, m_frame_tlast = False, packet_sent = False, payload_overflow = False\<rparr>"

lemma udp_tx_reset_quiet: "tx_quiet (udp_tx_reset p s)"
  by (simp add: udp_tx_reset_def tx_quiet_def)

text \<open>A datagram longer than the payload memory blocks the framer for good: in front of it everything
  may be sent, but of it and of what follows not a single byte leaves, and the stream is never read to its end.\<close>

lemma oversized_datagram_blocks:
  assumes "tx_quiet s" "datagrams_ok p ds" "0 < MAX_PAYLOAD_BYTES p" "MAX_PAYLOAD_BYTES p \<le> 1472" "MAX_PAYLOAD_BYTES p < length big"
    and "framer_loop p adr sched (axis_frames ds @ axis_frame big @ tail) s = (out, rest, s')"
  shows "prefix out (frames_of p adr ds) \<and> rest \<noteq> []"
proof -
  let ?b = "axis_frame big @ tail"
  have "framer_owes p adr ?b (axis_frames ds @ ?b) s (frames_of p adr ds)" using framer_owesI(1) [OF assms(2,1)] .
  from framer_loop_owes [OF assms(3,4) _ this assms(6)]
  obtain owed' where o: "frames_of p adr ds = out @ owed'" "framer_owes p adr ?b rest s' owed'"
    using assms(5) by (auto simp: tx_blocked_def)
  then show ?thesis by (auto simp: framer_owes_def)
qed



end
