(* ===== verification/Rtl_Udp_Rx.thy ===== *)
theory Rtl_Udp_Rx
  imports Rtl_Udp_Tx
begin

unbundle bit_operations_syntax

text \<open>
  The receive filter of the board, \<^verbatim>\<open>src/rtl/udp_ipv4_rx.v\<close>. A clock edge is \<open>udp_rx_step\<close>; its parts (the payload
  output, the start of a frame, its end, a byte) read the registers \<open>s\<close> before the edge and write to the
  registers \<open>n\<close> after it, a later assignment taking precedence as in the source. The header of a frame is
  accepted exactly when it is a UDP datagram for this board; the payload of an accepted frame is
  delivered once, and frames of the board's own framer are accepted by another board.
\<close>

section \<open>Parameters, inputs and registers\<close>

record UdpRxParams =
  RX_LOCAL_MAC :: u48
  RX_LOCAL_IP :: u32
  SUBNET_BROADCAST_IP :: u32
  RX_LOCAL_PORT :: u16
  ACCEPT_ANY_DEST_MAC :: bool
  RX_MAX_PAYLOAD_BYTES :: nat

definition udp_rx_default :: UdpRxParams where
  "udp_rx_default = \<lparr>RX_LOCAL_MAC = 0x020000000001, RX_LOCAL_IP = 0xA9FEF23C, SUBNET_BROADCAST_IP = 0xA9FEFFFF,
     RX_LOCAL_PORT = 50000, ACCEPT_ANY_DEST_MAC = False, RX_MAX_PAYLOAD_BYTES = 1472\<rparr>"

datatype UdpRxState = RX_IDLE | RX_ETH | RX_IP | RX_UDP | RX_PAYLOAD | RX_DROP

record UdpRxIn =
  rxi_rst_n :: bool
  rxi_byte :: u8
  rxi_byte_valid :: bool
  rxi_frame_start :: bool
  rxi_frame_end :: bool
  rxi_frame_error :: bool
  m_payload_tready :: bool

record UdpRx =
  rx_state :: UdpRxState
  rx_index :: "6 word"
  dst_mac_match :: bool
  dst_mac_bcast :: bool
  ethertype_ipv4 :: bool
  ip_ok :: bool
  dst_ip_match :: bool
  dst_ip_bcast :: bool
  dst_ip_subnet_bcast :: bool
  udp_port_match :: bool
  ip_total_length :: u16
  udp_length :: u16
  payload_remaining :: u16
  rx_payload_len :: u16
  write_buf :: bool
  read_buf :: bool
  output_active :: bool
  read_len :: u16
  read_index :: u16
  buf_len0 :: u16
  buf_len1 :: u16
  buf_pending0 :: bool
  buf_pending1 :: bool
  packet_src_mac :: u48
  packet_src_ip :: u32
  packet_src_port :: u16
  payload_mem0 :: "nat \<Rightarrow> u8"
  payload_mem1 :: "nat \<Rightarrow> u8"
  m_payload_tdata :: u8
  m_payload_tvalid :: bool
  m_payload_tlast :: bool
  packet_seen :: bool
  packet_dropped :: bool
  parser_error :: bool
  debug_dst_mac_accepted :: bool
  debug_ethertype_hi_accepted :: bool
  debug_eth_accepted :: bool
  debug_ip_accepted :: bool
  remote_mac :: u48
  remote_ip :: u32
  remote_port :: u16

section \<open>The parts of a clock edge\<close>

definition udp_rx_reset :: "UdpRx \<Rightarrow> UdpRx" where
  "udp_rx_reset s = s\<lparr>rx_state := RX_IDLE, rx_index := 0, dst_mac_match := False, dst_mac_bcast := False, ethertype_ipv4 := False,
     ip_ok := False, dst_ip_match := False, dst_ip_bcast := False, dst_ip_subnet_bcast := False, udp_port_match := False,
     ip_total_length := 0, udp_length := 0, payload_remaining := 0, rx_payload_len := 0, write_buf := False, read_buf := False,
     output_active := False, read_len := 0, read_index := 0, buf_len0 := 0, buf_len1 := 0, buf_pending0 := False, buf_pending1 := False,
     packet_src_mac := 0, packet_src_ip := 0, packet_src_port := 0, m_payload_tdata := 0, m_payload_tvalid := False,
     m_payload_tlast := False, packet_seen := False, packet_dropped := False, parser_error := False,
     debug_dst_mac_accepted := False, debug_ethertype_hi_accepted := False, debug_eth_accepted := False, debug_ip_accepted := False,
     remote_mac := 0, remote_ip := 0, remote_port := 0\<rparr>"

definition write_buf0_busy :: "UdpRx \<Rightarrow> bool" where
  "write_buf0_busy s \<longleftrightarrow> buf_pending0 s \<or> (output_active s \<and> \<not> read_buf s)"

definition write_buf1_busy :: "UdpRx \<Rightarrow> bool" where
  "write_buf1_busy s \<longleftrightarrow> buf_pending1 s \<or> (output_active s \<and> read_buf s)"

definition write_buf_busy :: "UdpRx \<Rightarrow> bool" where
  "write_buf_busy s \<longleftrightarrow> (if write_buf s then write_buf1_busy s else write_buf0_busy s)"

text \<open>The payload output.\<close>

definition rx_output :: "UdpRxIn \<Rightarrow> UdpRx \<Rightarrow> UdpRx \<Rightarrow> UdpRx" where
  "rx_output i s n =
     (if \<not> output_active s \<and> \<not> m_payload_tvalid s then
        if buf_pending0 s then
          n\<lparr>output_active := True, read_buf := False, read_len := buf_len0 s, read_index := 0, m_payload_tdata := payload_mem0 s 0,
            m_payload_tvalid := True, m_payload_tlast := (buf_len0 s = 1)\<rparr>
        else if buf_pending1 s then
          n\<lparr>output_active := True, read_buf := True, read_len := buf_len1 s, read_index := 0, m_payload_tdata := payload_mem1 s 0,
            m_payload_tvalid := True, m_payload_tlast := (buf_len1 s = 1)\<rparr>
        else n
      else if m_payload_tvalid s \<and> m_payload_tready i then
        if m_payload_tlast s then
          let n = n\<lparr>m_payload_tvalid := False, m_payload_tlast := False, output_active := False\<rparr>
          in if read_buf s then n\<lparr>buf_pending1 := False\<rparr> else n\<lparr>buf_pending0 := False\<rparr>
        else
          n\<lparr>read_index := read_index s + 1,
            m_payload_tdata := (if read_buf s then payload_mem1 s (unat (read_index s + 1)) else payload_mem0 s (unat (read_index s + 1))),
            m_payload_tlast := (read_index s + 1 = read_len s - 1)\<rparr>
      else n)"

definition rx_start :: "UdpRx \<Rightarrow> UdpRx \<Rightarrow> UdpRx" where
  "rx_start s n =
     (if write_buf_busy s then n\<lparr>rx_state := RX_DROP, parser_error := True\<rparr>
      else n\<lparr>rx_state := RX_ETH, rx_index := 0, dst_mac_match := True, dst_mac_bcast := True, ethertype_ipv4 := False,
             ip_ok := True, dst_ip_match := True, dst_ip_bcast := True, dst_ip_subnet_bcast := True, udp_port_match := True,
             ip_total_length := 0, udp_length := 0, payload_remaining := 0, rx_payload_len := 0,
             packet_src_mac := 0, packet_src_ip := 0, packet_src_port := 0\<rparr>)"

definition rx_end :: "UdpRxIn \<Rightarrow> UdpRx \<Rightarrow> UdpRx \<Rightarrow> UdpRx" where
  "rx_end i s n =
     (let n = n\<lparr>rx_state := RX_IDLE\<rparr>;
          n = (if rx_state s = RX_PAYLOAD \<and> payload_remaining s \<noteq> 0 then n\<lparr>parser_error := True\<rparr> else n)
      in if rxi_frame_error i then n\<lparr>parser_error := True\<rparr> else n)"

definition drop_packet :: "UdpRx \<Rightarrow> UdpRx" where
  "drop_packet n = n\<lparr>rx_state := RX_DROP, packet_dropped := True\<rparr>"

text \<open>Assignment of one byte of a register, the lowest bit of which is \<open>sh\<close>.\<close>

definition set_byte :: "nat \<Rightarrow> u8 \<Rightarrow> 'a::len word \<Rightarrow> 'a word" where
  "set_byte sh b w = (w AND NOT (push_bit sh 0xFF)) OR push_bit sh (ucast b)"

definition rx_eth :: "UdpRxParams \<Rightarrow> u8 \<Rightarrow> UdpRx \<Rightarrow> UdpRx \<Rightarrow> UdpRx" where
  "rx_eth p b s n =
     (let n = (if rx_index s < 6 then
                 n\<lparr>dst_mac_match := (if b \<noteq> mac_byte (RX_LOCAL_MAC p) (ucast (rx_index s)) then False else dst_mac_match n),
                   dst_mac_bcast := (if b \<noteq> 0xFF then False else dst_mac_bcast n)\<rparr>
               else if rx_index s < 12 then
                 n\<lparr>packet_src_mac :=
                     (if rx_index s = 6 then set_byte 40 b (packet_src_mac n) else if rx_index s = 7 then set_byte 32 b (packet_src_mac n)
                      else if rx_index s = 8 then set_byte 24 b (packet_src_mac n) else if rx_index s = 9 then set_byte 16 b (packet_src_mac n)
                      else if rx_index s = 10 then set_byte 8 b (packet_src_mac n) else set_byte 0 b (packet_src_mac n))\<rparr>
               else if rx_index s = 12 then
                 n\<lparr>ethertype_ipv4 := (b = 0x08), debug_ethertype_hi_accepted := (if b = 0x08 then True else debug_ethertype_hi_accepted n)\<rparr>
               else if rx_index s = 13 then
                 let n = n\<lparr>ethertype_ipv4 := (ethertype_ipv4 s \<and> b = 0x00)\<rparr>
                 in if \<not> (ACCEPT_ANY_DEST_MAC p \<or> dst_mac_match s \<or> dst_mac_bcast s) \<or> \<not> (ethertype_ipv4 s \<and> b = 0x00)
                    then drop_packet n else n\<lparr>rx_state := RX_IP, rx_index := 0\<rparr>
               else n)
      in if rx_index s \<noteq> 13 then n\<lparr>rx_index := rx_index s + 1\<rparr> else n)"

definition rx_ip :: "UdpRxParams \<Rightarrow> u8 \<Rightarrow> UdpRx \<Rightarrow> UdpRx \<Rightarrow> UdpRx" where
  "rx_ip p b s n =
     (let k = rx_index s;
          n = (if k = 0 then n\<lparr>ip_ok := (b = 0x45)\<rparr>
               else if k = 2 then n\<lparr>ip_total_length := set_byte 8 b (ip_total_length n)\<rparr>
               else if k = 3 then n\<lparr>ip_total_length := set_byte 0 b (ip_total_length n)\<rparr>
               else if k = 6 then n\<lparr>ip_ok := (if b AND 0x3F \<noteq> 0 then False else ip_ok n)\<rparr>
               else if k = 7 then n\<lparr>ip_ok := (if b \<noteq> 0 then False else ip_ok n)\<rparr>
               else if k = 9 then n\<lparr>ip_ok := (if b \<noteq> 0x11 then False else ip_ok n)\<rparr>
               else if k = 12 then n\<lparr>packet_src_ip := set_byte 24 b (packet_src_ip n)\<rparr>
               else if k = 13 then n\<lparr>packet_src_ip := set_byte 16 b (packet_src_ip n)\<rparr>
               else if k = 14 then n\<lparr>packet_src_ip := set_byte 8 b (packet_src_ip n)\<rparr>
               else if k = 15 then n\<lparr>packet_src_ip := set_byte 0 b (packet_src_ip n)\<rparr>
               else if k = 16 \<or> k = 17 \<or> k = 18 \<or> k = 19 then
                 n\<lparr>dst_ip_match := (if b \<noteq> ip_byte (RX_LOCAL_IP p) (ucast k) then False else dst_ip_match n),
                   dst_ip_bcast := (if b \<noteq> 0xFF then False else dst_ip_bcast n),
                   dst_ip_subnet_bcast := (if b \<noteq> ip_byte (SUBNET_BROADCAST_IP p) (ucast k) then False else dst_ip_subnet_bcast n)\<rparr>
               else n)
      in if k = 19 then
           if \<not> ip_ok s \<or> ip_total_length s < 28 \<or>
              \<not> ((dst_ip_match s \<and> b = ip_byte (RX_LOCAL_IP p) 3) \<or> (dst_ip_bcast s \<and> b = 0xFF) \<or>
                 (dst_ip_subnet_bcast s \<and> b = ip_byte (SUBNET_BROADCAST_IP p) 3))
           then drop_packet n
           else n\<lparr>debug_dst_mac_accepted := True, rx_state := RX_UDP, rx_index := 0\<rparr>
         else n\<lparr>rx_index := k + 1\<rparr>)"

text \<open>The source of an accepted packet becomes the address for replies.\<close>

definition capture_remote :: "UdpRx \<Rightarrow> UdpRx \<Rightarrow> UdpRx" where
  "capture_remote s n = n\<lparr>remote_mac := packet_src_mac s, remote_ip := packet_src_ip s, remote_port := packet_src_port s\<rparr>"

definition rx_udp :: "UdpRxParams \<Rightarrow> u8 \<Rightarrow> UdpRx \<Rightarrow> UdpRx \<Rightarrow> UdpRx" where
  "rx_udp p b s n =
     (let k = rx_index s;
          n = (if k = 0 then n\<lparr>packet_src_port := set_byte 8 b (packet_src_port n)\<rparr>
               else if k = 1 then n\<lparr>packet_src_port := set_byte 0 b (packet_src_port n)\<rparr>
               else if k = 2 then n\<lparr>udp_port_match := (if b \<noteq> ucast (drop_bit 8 (RX_LOCAL_PORT p)) then False else udp_port_match n)\<rparr>
               else if k = 3 then
                 if b \<noteq> ucast (RX_LOCAL_PORT p) then n\<lparr>udp_port_match := False\<rparr>
                 else n\<lparr>debug_eth_accepted := (if udp_port_match s then True else debug_eth_accepted n)\<rparr>
               else if k = 4 then n\<lparr>udp_length := set_byte 8 b (udp_length n)\<rparr>
               else if k = 5 then n\<lparr>udp_length := set_byte 0 b (udp_length n)\<rparr>
               else n)
      in if k = 7 then
           let n = (if udp_length s \<ge> 8 then n\<lparr>debug_ip_accepted := True\<rparr> else n)
           in if \<not> udp_port_match s \<or> udp_length s < 8 \<or> udp_length s > ip_total_length s - 20 then drop_packet n
              else let n = n\<lparr>payload_remaining := udp_length s - 8, rx_payload_len := 0\<rparr>;
                       n = (if udp_length s = 8 then (capture_remote s n)\<lparr>packet_seen := True, rx_state := RX_DROP\<rparr>
                            else n\<lparr>rx_state := RX_PAYLOAD\<rparr>)
                   in n\<lparr>rx_index := 0\<rparr>
         else n\<lparr>rx_index := k + 1\<rparr>)"

definition rx_payload :: "UdpRxParams \<Rightarrow> u8 \<Rightarrow> UdpRx \<Rightarrow> UdpRx \<Rightarrow> UdpRx" where
  "rx_payload p b s n =
     (if payload_remaining s \<noteq> 0 then
        if unat (rx_payload_len s) < RX_MAX_PAYLOAD_BYTES p then
          let k = unat (rx_payload_len s);
              n = (if write_buf s then n\<lparr>payload_mem1 := (payload_mem1 s)(k := b)\<rparr> else n\<lparr>payload_mem0 := (payload_mem0 s)(k := b)\<rparr>);
              n = n\<lparr>rx_payload_len := rx_payload_len s + 1, payload_remaining := payload_remaining s - 1\<rparr>
          in if payload_remaining s = 1 then
               let n = (capture_remote s n)\<lparr>rx_state := RX_DROP\<rparr>
               in if write_buf s
                  then n\<lparr>buf_len1 := rx_payload_len s + 1, buf_pending1 := True, packet_seen := True,
                         write_buf := (if \<not> write_buf0_busy s then False else write_buf n)\<rparr>
                  else n\<lparr>buf_len0 := rx_payload_len s + 1, buf_pending0 := True, packet_seen := True,
                         write_buf := (if \<not> write_buf1_busy s then True else write_buf n)\<rparr>
             else n
        else drop_packet (n\<lparr>parser_error := True\<rparr>)
      else n)"

definition rx_parse :: "UdpRxParams \<Rightarrow> u8 \<Rightarrow> UdpRx \<Rightarrow> UdpRx \<Rightarrow> UdpRx" where
  "rx_parse p b s n =
     (case rx_state s of
        RX_ETH \<Rightarrow> rx_eth p b s n
      | RX_IP \<Rightarrow> rx_ip p b s n
      | RX_UDP \<Rightarrow> rx_udp p b s n
      | RX_PAYLOAD \<Rightarrow> rx_payload p b s n
      | RX_DROP \<Rightarrow> n
      | RX_IDLE \<Rightarrow> n\<lparr>rx_state := RX_IDLE\<rparr>)"

definition rx_pulses :: "UdpRx \<Rightarrow> UdpRx" where
  "rx_pulses s = s\<lparr>packet_seen := False, packet_dropped := False, parser_error := False\<rparr>"

definition udp_rx_step :: "UdpRxParams \<Rightarrow> UdpRxIn \<Rightarrow> UdpRx \<Rightarrow> UdpRx" where
  "udp_rx_step p i s =
     (if \<not> rxi_rst_n i then udp_rx_reset s
      else let n = rx_output i s (rx_pulses s);
               n = (if rxi_frame_start i then rx_start s n else n)
           in if rxi_frame_end i then rx_end i s n
              else if rxi_byte_valid i then rx_parse p (rxi_byte i) s n
              else n)"


section \<open>Parsing the headers\<close>

text \<open>An edge with a byte while the payload output is idle.\<close>

definition rx_byte_edge :: "UdpRxParams \<Rightarrow> u8 \<Rightarrow> UdpRx \<Rightarrow> UdpRx" where
  "rx_byte_edge p b s = rx_parse p b s (rx_pulses s)"

lemmas rx_parse_defs = rx_byte_edge_def rx_parse_def rx_pulses_def rx_eth_def rx_ip_def rx_udp_def rx_payload_def
  drop_packet_def capture_remote_def

text \<open>The numbers in the headers are big endian.\<close>

definition be_word :: "u8 list \<Rightarrow> 'a::len word" where
  "be_word bs = foldl (\<lambda>w b. push_bit 8 w OR ucast b) 0 bs"

text \<open>What the three headers have to be.\<close>

definition eth_ok :: "UdpRxParams \<Rightarrow> u8 list \<Rightarrow> bool" where
  "eth_ok p fr \<longleftrightarrow> (ACCEPT_ANY_DEST_MAC p \<or> take 6 fr = mac_bytes (RX_LOCAL_MAC p) \<or> take 6 fr = replicate 6 0xFF) \<and>
     fr ! 12 = 0x08 \<and> fr ! 13 = 0x00"

definition ip_bytes :: "u32 \<Rightarrow> u8 list" where
  "ip_bytes ip = map (ip_byte ip) [0, 1, 2, 3]"

definition ip_len :: "u8 list \<Rightarrow> u16" where
  "ip_len h = be_word [h ! 2, h ! 3]"

definition ip_hdr_ok :: "UdpRxParams \<Rightarrow> u8 list \<Rightarrow> bool" where
  "ip_hdr_ok p h \<longleftrightarrow> h ! 0 = 0x45 \<and> h ! 6 AND 0x3F = 0 \<and> h ! 7 = 0 \<and> h ! 9 = 0x11 \<and> 28 \<le> ip_len h \<and>
     [h ! 16, h ! 17, h ! 18, h ! 19] \<in> {ip_bytes (RX_LOCAL_IP p), replicate 4 0xFF, ip_bytes (SUBNET_BROADCAST_IP p)}"

definition udp_len :: "u8 list \<Rightarrow> u16" where
  "udp_len u = be_word [u ! 4, u ! 5]"

definition udp_hdr_ok :: "UdpRxParams \<Rightarrow> u16 \<Rightarrow> u8 list \<Rightarrow> bool" where
  "udp_hdr_ok p iplen u \<longleftrightarrow> [u ! 2, u ! 3] = be16 (RX_LOCAL_PORT p) \<and> 8 \<le> udp_len u \<and> udp_len u \<le> iplen - 20"

text \<open>The registers the header bytes leave alone.\<close>

definition rx_buffers_kept :: "UdpRx \<Rightarrow> UdpRx \<Rightarrow> bool" where
  "rx_buffers_kept s s' \<longleftrightarrow> write_buf s' = write_buf s \<and> output_active s' = output_active s \<and> m_payload_tvalid s' = m_payload_tvalid s \<and>
     buf_pending0 s' = buf_pending0 s \<and> buf_pending1 s' = buf_pending1 s \<and> payload_mem0 s' = payload_mem0 s \<and> payload_mem1 s' = payload_mem1 s"

definition remote_of :: "UdpRx \<Rightarrow> endpoint" where
  "remote_of s = (remote_mac s, remote_ip s, remote_port s)"

lemma take_nth_upt: "k \<le> length xs \<Longrightarrow> take k xs = map (\<lambda>i. xs ! i) [0..<k]"
  by (simp add: list_eq_iff_nth_eq)

lemma take_bytes:
  "6 \<le> length xs \<Longrightarrow> take 6 xs = [xs ! 0, xs ! 1, xs ! 2, xs ! 3, xs ! 4, xs ! 5]"
  "8 \<le> length xs \<Longrightarrow> take 8 xs = [xs ! 0, xs ! 1, xs ! 2, xs ! 3, xs ! 4, xs ! 5, xs ! 6, xs ! 7]"
  "14 \<le> length xs \<Longrightarrow> take 14 xs = [xs ! 0, xs ! 1, xs ! 2, xs ! 3, xs ! 4, xs ! 5, xs ! 6, xs ! 7, xs ! 8, xs ! 9, xs ! 10, xs ! 11, xs ! 12, xs ! 13]"
  "20 \<le> length xs \<Longrightarrow> take 20 xs = [xs ! 0, xs ! 1, xs ! 2, xs ! 3, xs ! 4, xs ! 5, xs ! 6, xs ! 7, xs ! 8, xs ! 9, xs ! 10, xs ! 11, xs ! 12, xs ! 13, xs ! 14, xs ! 15, xs ! 16, xs ! 17, xs ! 18, xs ! 19]"
proof -
  have u: "[0..<6] = [0, 1, 2, 3, 4, 5 :: nat]" "[0..<8] = [0, 1, 2, 3, 4, 5, 6, 7 :: nat]"
    "[0..<14] = [0, 1, 2, 3, 4, 5, 6, 7, 8, 9, 10, 11, 12, 13 :: nat]"
    "[0..<20] = [0, 1, 2, 3, 4, 5, 6, 7, 8, 9, 10, 11, 12, 13, 14, 15, 16, 17, 18, 19 :: nat]"
    by code_simp+
  show "6 \<le> length xs \<Longrightarrow> take 6 xs = [xs ! 0, xs ! 1, xs ! 2, xs ! 3, xs ! 4, xs ! 5]"
    "8 \<le> length xs \<Longrightarrow> take 8 xs = [xs ! 0, xs ! 1, xs ! 2, xs ! 3, xs ! 4, xs ! 5, xs ! 6, xs ! 7]"
    "14 \<le> length xs \<Longrightarrow> take 14 xs = [xs ! 0, xs ! 1, xs ! 2, xs ! 3, xs ! 4, xs ! 5, xs ! 6, xs ! 7, xs ! 8, xs ! 9, xs ! 10, xs ! 11, xs ! 12, xs ! 13]"
    "20 \<le> length xs \<Longrightarrow> take 20 xs = [xs ! 0, xs ! 1, xs ! 2, xs ! 3, xs ! 4, xs ! 5, xs ! 6, xs ! 7, xs ! 8, xs ! 9, xs ! 10, xs ! 11, xs ! 12, xs ! 13, xs ! 14, xs ! 15, xs ! 16, xs ! 17, xs ! 18, xs ! 19]"
    by (simp_all only: take_nth_upt u list.map)
qed

lemma replicate_6: "replicate 6 x = [x, x, x, x, x, x]"
  by (simp add: numeral_eq_Suc)

lemma if_bool: "(if P then False else Q) = (\<not> P \<and> Q)" "(if P then True else Q) = (P \<or> Q)"
  by simp_all

lemma bit_set_byte:
  "bit (set_byte sh b w) n \<longleftrightarrow> n < LENGTH('a) \<and> (if sh \<le> n \<and> n < sh + 8 then bit b (n - sh) else bit w n)" for w :: "'a::len word"
proof -
  have m: "(0xFF :: 'a word) = mask 8" by (simp add: mask_eq_exp_minus_1)
  have "\<not> bit b (n - sh)" if "\<not> n < sh + 8" "sh \<le> n" using that bit_imp_le_length [of b "n - sh"] by auto
  then show ?thesis
    unfolding set_byte_def m by (auto simp: bit_simps)
qed

lemma bit_byte_less: "bit (b :: u8) n \<Longrightarrow> n < 8"
  using bit_imp_le_length [of b n] by simp

lemma set_bytes:
  "set_byte 0 b1 (set_byte 8 b0 0) = (be_word [b0, b1] :: u16)"
  "set_byte 0 b3 (set_byte 8 b2 (set_byte 16 b1 (set_byte 24 b0 0))) = (be_word [b0, b1, b2, b3] :: u32)"
  "set_byte 0 b5 (set_byte 8 b4 (set_byte 16 b3 (set_byte 24 b2 (set_byte 32 b1 (set_byte 40 b0 0))))) =
     (be_word [b0, b1, b2, b3, b4, b5] :: u48)"
  by (auto simp: bit_eq_iff bit_set_byte be_word_def bit_push_bit_iff bit_or_iff bit_ucast_iff dest: bit_byte_less)

definition eth_done :: "UdpRxParams \<Rightarrow> u8 list \<Rightarrow> UdpRx \<Rightarrow> UdpRx \<Rightarrow> bool" where
  "eth_done p fr s s' \<longleftrightarrow> rx_state s' = (if eth_ok p fr then RX_IP else RX_DROP) \<and> (eth_ok p fr \<longrightarrow> rx_index s' = 0) \<and>
     packet_dropped s' = (\<not> eth_ok p fr) \<and> packet_src_mac s' = set_byte 0 (fr ! 11) (set_byte 8 (fr ! 10) (set_byte 16 (fr ! 9) (set_byte 24 (fr ! 8)
       (set_byte 32 (fr ! 7) (set_byte 40 (fr ! 6) (packet_src_mac s)))))) \<and>
     ip_total_length s' = ip_total_length s \<and> dst_ip_match s' = dst_ip_match s \<and> dst_ip_bcast s' = dst_ip_bcast s \<and>
     dst_ip_subnet_bcast s' = dst_ip_subnet_bcast s \<and> udp_port_match s' = udp_port_match s \<and> udp_length s' = udp_length s \<and>
     packet_src_ip s' = packet_src_ip s \<and> packet_src_port s' = packet_src_port s \<and> remote_of s' = remote_of s \<and> rx_buffers_kept s s'"

lemma eth_chunk:
  assumes "14 \<le> length fr" "rx_state s = RX_ETH" "rx_index s = 0" "dst_mac_match s" "dst_mac_bcast s"
  shows "eth_done p fr s (fold (rx_byte_edge p) (take 14 fr) s)"
proof -
  have e: "eth_ok p fr \<longleftrightarrow> (ACCEPT_ANY_DEST_MAC p \<or> [fr ! 0, fr ! 1, fr ! 2, fr ! 3, fr ! 4, fr ! 5] = mac_bytes (RX_LOCAL_MAC p) \<or>
      [fr ! 0, fr ! 1, fr ! 2, fr ! 3, fr ! 4, fr ! 5] = [0xFF, 0xFF, 0xFF, 0xFF, 0xFF, 0xFF]) \<and> fr ! 12 = 0x08 \<and> fr ! 13 = 0x00"
    using assms(1) by (simp add: eth_ok_def take_bytes(1) replicate_6)
  show ?thesis
    unfolding take_bytes(3) [OF assms(1)] using assms(2-5)
    by (simp add: rx_parse_defs if_bool Let_def) (simp add: e mac_bytes_def eth_done_def rx_buffers_kept_def remote_of_def, blast)
qed

definition ip_done :: "UdpRxParams \<Rightarrow> u8 list \<Rightarrow> UdpRx \<Rightarrow> UdpRx \<Rightarrow> bool" where
  "ip_done p h s s' \<longleftrightarrow> rx_state s' = (if ip_hdr_ok p h then RX_UDP else RX_DROP) \<and> (ip_hdr_ok p h \<longrightarrow> rx_index s' = 0) \<and>
     packet_dropped s' = (\<not> ip_hdr_ok p h) \<and>
     packet_src_ip s' = set_byte 0 (h ! 15) (set_byte 8 (h ! 14) (set_byte 16 (h ! 13) (set_byte 24 (h ! 12) (packet_src_ip s)))) \<and>
     ip_total_length s' = ip_len h \<and> udp_port_match s' = udp_port_match s \<and> udp_length s' = udp_length s \<and>
     packet_src_mac s' = packet_src_mac s \<and> packet_src_port s' = packet_src_port s \<and> remote_of s' = remote_of s \<and> rx_buffers_kept s s'"

lemma ip_chunk:
  assumes "20 \<le> length h" "rx_state s = RX_IP" "rx_index s = 0" "dst_ip_match s" "dst_ip_bcast s" "dst_ip_subnet_bcast s" "ip_total_length s = 0"
  shows "ip_done p h s (fold (rx_byte_edge p) (take 20 h) s)"
proof -
  have r: "replicate 4 (0xFF :: u8) = [0xFF, 0xFF, 0xFF, 0xFF]" by (simp add: numeral_eq_Suc)
  have w: "(16 :: 2 word) = 0" "(17 :: 2 word) = 1" "(18 :: 2 word) = 2" by simp_all
  show ?thesis
    unfolding take_bytes(4) [OF assms(1)] using assms(2-7)
    by (simp add: rx_parse_defs if_bool Let_def set_bytes)
      (simp add: ip_done_def ip_hdr_ok_def ip_len_def r w not_less ip_bytes_def rx_buffers_kept_def remote_of_def)
qed

definition udp_done :: "UdpRxParams \<Rightarrow> u8 list \<Rightarrow> UdpRx \<Rightarrow> UdpRx \<Rightarrow> bool" where
  "udp_done p u s s' \<longleftrightarrow>
     rx_state s' = (if udp_hdr_ok p (ip_total_length s) u then if udp_len u = 8 then RX_DROP else RX_PAYLOAD else RX_DROP) \<and>
     packet_dropped s' = (\<not> udp_hdr_ok p (ip_total_length s) u) \<and> packet_src_mac s' = packet_src_mac s \<and> packet_src_ip s' = packet_src_ip s \<and>
     packet_src_port s' = set_byte 0 (u ! 1) (set_byte 8 (u ! 0) (packet_src_port s)) \<and>
     (udp_hdr_ok p (ip_total_length s) u \<longrightarrow> payload_remaining s' = udp_len u - 8 \<and> rx_payload_len s' = 0) \<and>
     (\<not> udp_hdr_ok p (ip_total_length s) u \<longrightarrow> remote_of s' = remote_of s) \<and> rx_buffers_kept s s'"

lemma udp_chunk:
  assumes "8 \<le> length u" "rx_state s = RX_UDP" "rx_index s = 0" "udp_port_match s" "udp_length s = 0"
  shows "udp_done p u s (fold (rx_byte_edge p) (take 8 u) s)"
  unfolding take_bytes(2) [OF assms(1)] using assms(2-5)
  by (simp add: rx_parse_defs if_bool Let_def set_bytes)
    (simp add: udp_done_def udp_hdr_ok_def udp_len_def be16_def not_less [symmetric] rx_buffers_kept_def remote_of_def, auto split: if_splits)

text \<open>The whole header: a datagram for this board, or not.\<close>

definition rx_accepts :: "UdpRxParams \<Rightarrow> u8 list \<Rightarrow> bool" where
  "rx_accepts p fr \<longleftrightarrow> eth_ok p fr \<and> ip_hdr_ok p (drop 14 fr) \<and> udp_hdr_ok p (ip_len (drop 14 fr)) (drop 34 fr)"

definition payload_size :: "u8 list \<Rightarrow> nat" where
  "payload_size fr = unat (udp_len (drop 34 fr)) - 8"

definition source_of :: "u8 list \<Rightarrow> endpoint" where
  "source_of fr = (be_word [fr ! 6, fr ! 7, fr ! 8, fr ! 9, fr ! 10, fr ! 11], be_word [fr ! 26, fr ! 27, fr ! 28, fr ! 29], be_word [fr ! 34, fr ! 35])"

definition packet_src :: "UdpRx \<Rightarrow> endpoint" where
  "packet_src s = (packet_src_mac s, packet_src_ip s, packet_src_port s)"

definition rx_fresh :: "UdpRx \<Rightarrow> bool" where
  "rx_fresh s \<longleftrightarrow> rx_state s = RX_ETH \<and> rx_index s = 0 \<and> dst_mac_match s \<and> dst_mac_bcast s \<and> dst_ip_match s \<and> dst_ip_bcast s \<and>
     dst_ip_subnet_bcast s \<and> udp_port_match s \<and> ip_total_length s = 0 \<and> udp_length s = 0 \<and> packet_src_mac s = 0 \<and> packet_src_ip s = 0 \<and> packet_src_port s = 0"

lemma buffers_kept_trans [trans]: "rx_buffers_kept a b \<Longrightarrow> rx_buffers_kept b c \<Longrightarrow> rx_buffers_kept a c"
  by (simp add: rx_buffers_kept_def)

text \<open>Nothing happens any more once a frame is dropped.\<close>

lemma dropped_bytes:
  assumes "rx_state s = RX_DROP"
  shows "rx_state (fold (rx_byte_edge p) bs s) = RX_DROP \<and> rx_buffers_kept s (fold (rx_byte_edge p) bs s) \<and>
    remote_of (fold (rx_byte_edge p) bs s) = remote_of s"
  using assms
proof (induction bs arbitrary: s)
  case (Cons b bs)
  have "rx_byte_edge p b s = rx_pulses s" using Cons.prems by (simp add: rx_byte_edge_def rx_parse_def)
  then show ?case using Cons.IH [of "rx_pulses s"] Cons.prems by (simp add: rx_pulses_def rx_buffers_kept_def remote_of_def)
qed (simp add: rx_buffers_kept_def)

definition header_done :: "UdpRxParams \<Rightarrow> u8 list \<Rightarrow> UdpRx \<Rightarrow> UdpRx \<Rightarrow> bool" where
  "header_done p fr s s' \<longleftrightarrow> rx_state s' = (if rx_accepts p fr \<and> payload_size fr \<noteq> 0 then RX_PAYLOAD else RX_DROP) \<and> rx_buffers_kept s s' \<and>
     (\<not> rx_accepts p fr \<longrightarrow> remote_of s' = remote_of s) \<and>
     (rx_accepts p fr \<longrightarrow> unat (payload_remaining s') = payload_size fr \<and> rx_payload_len s' = 0 \<and> packet_src s' = source_of fr)"

lemma header_dropped:
  assumes "rx_state a = RX_DROP" "rx_buffers_kept s a" "remote_of a = remote_of s" "\<not> rx_accepts p fr"
  shows "header_done p fr s (fold (rx_byte_edge p) bs a)"
  using dropped_bytes [OF assms(1), of p bs] assms buffers_kept_trans by (auto simp: header_done_def)

lemma header_parsed:
  assumes s: "rx_fresh s" and len: "42 \<le> length fr"
  shows "header_done p fr s (fold (rx_byte_edge p) (take 42 fr) s)"
proof -
  let ?B = "fold (rx_byte_edge p)" and ?ip = "drop 14 fr" and ?udp = "drop 34 fr"
  let ?a = "?B (take 14 fr) s"
  let ?b = "?B (take 20 ?ip) ?a"
  let ?c = "?B (take 8 ?udp) ?b"
  have "take 42 fr = take 14 fr @ take 20 ?ip @ take 8 ?udp"
    using take_add [of 14 28 fr] take_add [of 20 8 ?ip] by simp
  then have s': "?B (take 42 fr) s = ?c" by simp
  have nth: "?ip ! k = fr ! (14 + k)" "?udp ! l = fr ! (34 + l)" if "k < 28" "l < 8" for k l using that len by simp_all
  have a: "eth_done p fr s ?a" using s len by (intro eth_chunk) (simp_all add: rx_fresh_def)
  show ?thesis
  proof (cases "eth_ok p fr")
    case False
    with a have "header_done p fr s (?B (take 20 ?ip @ take 8 ?udp) ?a)"
      by (intro header_dropped) (simp_all add: eth_done_def rx_accepts_def)
    then show ?thesis by (simp add: s')
  next
    case eth: True
    have b: "ip_done p ?ip ?a ?b" using a s len eth by (intro ip_chunk) (simp_all add: rx_fresh_def eth_done_def)
    have "rx_buffers_kept s ?a" "rx_buffers_kept ?a ?b" using a b by (simp_all add: eth_done_def ip_done_def)
    then have kb: "rx_buffers_kept s ?b" by (rule buffers_kept_trans)
    show ?thesis
    proof (cases "ip_hdr_ok p ?ip")
      case False
      with a b kb have "header_done p fr s ?c"
        by (intro header_dropped) (simp_all add: ip_done_def eth_done_def rx_accepts_def)
      then show ?thesis by (simp only: s')
    next
      case ip: True
      have c: "udp_done p ?udp ?b ?c" using a b s len ip by (intro udp_chunk) (simp_all add: rx_fresh_def eth_done_def ip_done_def)
      have acc: "rx_accepts p fr \<longleftrightarrow> udp_hdr_ok p (ip_total_length ?b) ?udp" using eth ip b by (simp add: rx_accepts_def ip_done_def)
      have k: "rx_buffers_kept s ?c" using buffers_kept_trans [OF kb] c by (simp add: udp_done_def)
      have ps: "payload_size fr = 0 \<longleftrightarrow> udp_len ?udp = 8" "unat (udp_len ?udp - 8) = payload_size fr" if "rx_accepts p fr"
      proof -
        have g: "8 \<le> udp_len ?udp" using that acc by (simp add: udp_hdr_ok_def)
        then show "unat (udp_len ?udp - 8) = payload_size fr" by (simp add: payload_size_def unat_sub)
        then show "payload_size fr = 0 \<longleftrightarrow> udp_len ?udp = 8" by (metis unat_eq_0 eq_iff_diff_eq_0)
      qed
      have src: "packet_src ?c = source_of fr"
        using a b c s len by (simp add: packet_src_def source_of_def eth_done_def ip_done_def udp_done_def rx_fresh_def set_bytes)
      from k ps src c acc a b show ?thesis
        by (simp add: s' header_done_def udp_done_def eth_done_def ip_done_def)
    qed
  qed
qed

text \<open>Before the 42 bytes of the headers are read no payload is expected.\<close>

definition rx_position :: "nat \<Rightarrow> UdpRx \<Rightarrow> bool" where
  "rx_position k s \<longleftrightarrow> (case rx_state s of
     RX_ETH \<Rightarrow> unat (rx_index s) = k \<and> k < 14
   | RX_IP \<Rightarrow> 14 + unat (rx_index s) = k \<and> k < 34
   | RX_UDP \<Rightarrow> 34 + unat (rx_index s) = k \<and> k < 42
   | RX_PAYLOAD \<Rightarrow> 42 \<le> k
   | _ \<Rightarrow> True)"

lemma index_Suc: "unat i < 63 \<Longrightarrow> unat (i + 1) = Suc (unat i)" for i :: "6 word"
  by (simp add: unat_word_ariths)

lemmas rx_next_simps = rx_byte_edge_def rx_parse_def rx_eth_def rx_ip_def rx_udp_def Let_def drop_packet_def capture_remote_def rx_pulses_def
  if_distrib [of rx_state] if_distrib [of rx_index]

lemma rx_next:
  "rx_state s = RX_ETH \<Longrightarrow> if rx_index s = 13 then rx_state (rx_byte_edge p b s) = RX_DROP \<or> rx_state (rx_byte_edge p b s) = RX_IP \<and> rx_index (rx_byte_edge p b s) = 0
     else rx_state (rx_byte_edge p b s) = RX_ETH \<and> rx_index (rx_byte_edge p b s) = rx_index s + 1"
  "rx_state s = RX_IP \<Longrightarrow> if rx_index s = 19 then rx_state (rx_byte_edge p b s) = RX_DROP \<or> rx_state (rx_byte_edge p b s) = RX_UDP \<and> rx_index (rx_byte_edge p b s) = 0
     else rx_state (rx_byte_edge p b s) = RX_IP \<and> rx_index (rx_byte_edge p b s) = rx_index s + 1"
  "rx_state s = RX_UDP \<Longrightarrow> if rx_index s = 7 then rx_state (rx_byte_edge p b s) = RX_DROP \<or> rx_state (rx_byte_edge p b s) = RX_PAYLOAD
     else rx_state (rx_byte_edge p b s) = RX_UDP \<and> rx_index (rx_byte_edge p b s) = rx_index s + 1"
  by (simp_all add: rx_next_simps cong: if_cong split del: if_split) (auto split: if_splits)

lemma rx_position_step:
  assumes "rx_position k s"
  shows "rx_position (Suc k) (rx_byte_edge p b s)"
proof -
  have i: "i = 13 \<longleftrightarrow> unat i = 13" "i = 19 \<longleftrightarrow> unat i = 19" "i = 7 \<longleftrightarrow> unat i = 7" for i :: "6 word"
    by (simp_all add: word_unat_eq_iff)
  show ?thesis
    using assms index_Suc [of "rx_index s"] rx_next [of s p b]
    by (cases "rx_state s") (auto simp: rx_position_def i rx_byte_edge_def rx_parse_def rx_payload_def rx_pulses_def Let_def drop_packet_def capture_remote_def split: if_splits)
qed

lemma kept_step: "rx_state s \<noteq> RX_PAYLOAD \<Longrightarrow> rx_buffers_kept s (rx_byte_edge p b s)"
  by (cases "rx_state s") (simp_all add: rx_buffers_kept_def rx_next_simps cong: if_cong)

section \<open>Storing the payload\<close>

definition rx_mem :: "bool \<Rightarrow> UdpRx \<Rightarrow> nat \<Rightarrow> u8" where
  "rx_mem w s = (if w then payload_mem1 s else payload_mem0 s)"

definition rx_pending :: "bool \<Rightarrow> UdpRx \<Rightarrow> bool" where
  "rx_pending w s = (if w then buf_pending1 s else buf_pending0 s)"

definition rx_buf_len :: "bool \<Rightarrow> UdpRx \<Rightarrow> u16" where
  "rx_buf_len w s = (if w then buf_len1 s else buf_len0 s)"

text \<open>The output has nothing to do.\<close>

definition rx_out_idle :: "UdpRx \<Rightarrow> bool" where
  "rx_out_idle s \<longleftrightarrow> \<not> output_active s \<and> \<not> m_payload_tvalid s \<and> \<not> buf_pending0 s \<and> \<not> buf_pending1 s"

text \<open>\<open>j\<close> bytes of the payload \<open>d\<close> are stored.\<close>

definition rx_filling :: "u8 list \<Rightarrow> endpoint \<Rightarrow> nat \<Rightarrow> UdpRx \<Rightarrow> bool" where
  "rx_filling d src j s \<longleftrightarrow> rx_state s = RX_PAYLOAD \<and> rx_out_idle s \<and> j < length d \<and> length d < 65528 \<and> packet_src s = src \<and>
     payload_remaining s = of_nat (length d - j) \<and> rx_payload_len s = of_nat j \<and> (\<forall>i < j. rx_mem (write_buf s) s i = d ! i)"

text \<open>The payload is stored and waits in the buffer \<open>w\<close>.\<close>

definition rx_loaded :: "bool \<Rightarrow> u8 list \<Rightarrow> endpoint \<Rightarrow> UdpRx \<Rightarrow> bool" where
  "rx_loaded w d src s \<longleftrightarrow> rx_state s \<in> {RX_DROP, RX_IDLE} \<and> \<not> output_active s \<and> \<not> m_payload_tvalid s \<and> rx_pending w s \<and> \<not> rx_pending (\<not> w) s \<and>
     rx_buf_len w s = of_nat (length d) \<and> (\<forall>i < length d. rx_mem w s i = d ! i) \<and> remote_of s = src"

lemma rx_filling_regs:
  assumes "rx_filling d src j s"
  shows "unat (rx_payload_len s) = j" "unat (payload_remaining s) = length d - j" "rx_state s = RX_PAYLOAD" "rx_out_idle s" "payload_remaining s \<noteq> 0"
proof -
  have l: "j < length d" "length d < 65528" "length d - j < 65536" using assms by (auto simp: rx_filling_def)
  then show "unat (rx_payload_len s) = j" "rx_state s = RX_PAYLOAD" "rx_out_idle s" and r: "unat (payload_remaining s) = length d - j"
    using assms by (simp_all add: rx_filling_def unsigned_of_nat take_bit_nat_eq_self del: of_nat_diff)
  with l(1) show "payload_remaining s \<noteq> 0" by auto
qed

lemma rx_filling_step:
  assumes f: "rx_filling d src j s" and M: "j < RX_MAX_PAYLOAD_BYTES p"
  shows "Suc j < length d \<Longrightarrow> rx_filling d src (Suc j) (rx_byte_edge p (d ! j) s)"
    and "Suc j = length d \<Longrightarrow> rx_loaded (write_buf s) d src (rx_byte_edge p (d ! j) s)"
proof -
  note j = rx_filling_regs [OF f]
  have z: "payload_remaining s = 1 \<longleftrightarrow> Suc j = length d"
    using f j(2) by (auto simp: rx_filling_def word_unat_eq_iff simp del: of_nat_diff)
  show "rx_filling d src (Suc j) (rx_byte_edge p (d ! j) s)" if "Suc j < length d"
    using f that M z j by (auto simp: rx_filling_def rx_byte_edge_def rx_parse_def rx_payload_def Let_def rx_pulses_def rx_mem_def
       rx_out_idle_def packet_src_def less_Suc_eq of_nat_diff split: if_splits)
  show "rx_loaded (write_buf s) d src (rx_byte_edge p (d ! j) s)" if "Suc j = length d"
    using f that [symmetric] M z j by (auto simp: rx_filling_def rx_loaded_def rx_byte_edge_def rx_parse_def rx_payload_def Let_def rx_pulses_def rx_mem_def
       rx_out_idle_def packet_src_def less_Suc_eq rx_pending_def rx_buf_len_def remote_of_def capture_remote_def split: if_splits)
qed

lemma rx_too_long_step:
  assumes "rx_filling d src j s" "\<not> j < RX_MAX_PAYLOAD_BYTES p"
  shows "rx_state (rx_byte_edge p b s) = RX_DROP" "rx_out_idle (rx_byte_edge p b s)"
  using rx_filling_regs [OF assms(1)] assms(2)
  by (simp_all add: rx_byte_edge_def rx_parse_def rx_payload_def drop_packet_def rx_pulses_def rx_out_idle_def)

text \<open>The frame delivers a payload.\<close>

definition rx_deliverable :: "UdpRxParams \<Rightarrow> u8 list \<Rightarrow> bool" where
  "rx_deliverable p fr \<longleftrightarrow> 42 + payload_size fr \<le> length fr \<and> rx_accepts p fr \<and> 0 < payload_size fr \<and> payload_size fr \<le> RX_MAX_PAYLOAD_BYTES p"

definition payload_of :: "u8 list \<Rightarrow> u8 list" where
  "payload_of fr = take (payload_size fr) (drop 42 fr)"

lemma payload_size_less: "payload_size fr < 65528"
proof -
  have "unat (udp_len (drop 34 fr)) < 2 ^ LENGTH(16)" by (rule unsigned_less)
  then show ?thesis by (simp add: payload_size_def)
qed

lemma idle_kept: "rx_out_idle s \<Longrightarrow> rx_buffers_kept s s' \<Longrightarrow> rx_out_idle s'"
  by (simp add: rx_out_idle_def rx_buffers_kept_def)

text \<open>The registers after the first \<open>k\<close> bytes of a frame.\<close>

definition rx_read :: "UdpRxParams \<Rightarrow> u8 list \<Rightarrow> UdpRx \<Rightarrow> nat \<Rightarrow> UdpRx" where
  "rx_read p fr s k = fold (rx_byte_edge p) (take k fr) s"

lemma rx_read_Suc: "k < length fr \<Longrightarrow> rx_read p fr s (Suc k) = rx_byte_edge p (fr ! k) (rx_read p fr s k)"
  by (simp add: rx_read_def take_Suc_conv_app_nth)

lemma rx_read_headers:
  assumes "rx_fresh s" "rx_out_idle s" "k \<le> length fr" "k \<le> 42"
  shows "rx_position k (rx_read p fr s k)" "rx_buffers_kept s (rx_read p fr s k)"
proof -
  have "rx_position k (rx_read p fr s k) \<and> rx_buffers_kept s (rx_read p fr s k)" using assms(3,4)
  proof (induction k)
    case 0
    then show ?case using assms(1) by (simp add: rx_read_def rx_position_def rx_fresh_def rx_buffers_kept_def)
  next
    case (Suc k)
    then have "rx_state (rx_read p fr s k) \<noteq> RX_PAYLOAD" by (auto simp: rx_position_def)
    with Suc show ?case by (auto simp: rx_read_Suc intro: rx_position_step kept_step buffers_kept_trans)
  qed
  then show "rx_position k (rx_read p fr s k)" "rx_buffers_kept s (rx_read p fr s k)" by simp_all
qed

text \<open>The rest of a frame without a payload for the output, and the payload while it is stored.\<close>

lemma rx_read_dropped:
  assumes "rx_state (rx_read p fr s k) = RX_DROP" "rx_out_idle (rx_read p fr s k)" "k \<le> l"
  shows "rx_state (rx_read p fr s l) = RX_DROP \<and> rx_out_idle (rx_read p fr s l)"
proof -
  have "take l fr = take k fr @ take (l - k) (drop k fr)" using assms(3) by (metis le_add_diff_inverse take_add)
  then have "rx_read p fr s l = fold (rx_byte_edge p) (take (l - k) (drop k fr)) (rx_read p fr s k)" by (simp add: rx_read_def)
  with dropped_bytes [OF assms(1)] assms(2) idle_kept show ?thesis by simp
qed

lemma rx_read_payload:
  assumes s: "rx_fresh s" "rx_out_idle s" and a: "rx_accepts p fr" "42 + j \<le> length fr" "j < payload_size fr" "j \<le> RX_MAX_PAYLOAD_BYTES p"
    and d: "length d = payload_size fr" "\<And>i. i < payload_size fr \<Longrightarrow> 42 + i < length fr \<Longrightarrow> d ! i = fr ! (42 + i)"
  shows "rx_filling d (source_of fr) j (rx_read p fr s (42 + j)) \<and> write_buf (rx_read p fr s (42 + j)) = write_buf s"
  using a(2-4)
proof (induction j)
  case 0
  then have h: "header_done p fr s (rx_read p fr s 42)" using s unfolding rx_read_def by (intro header_parsed) simp_all
  moreover then have "rx_out_idle (rx_read p fr s 42)" "write_buf (rx_read p fr s 42) = write_buf s"
    using s idle_kept by (auto simp: header_done_def rx_buffers_kept_def)
  moreover have "payload_remaining (rx_read p fr s 42) = of_nat (payload_size fr)"
  proof -
    have e: "payload_size fr = unat (payload_remaining (rx_read p fr s 42))" using h a(1) by (simp add: header_done_def)
    show ?thesis unfolding e by simp
  qed
  ultimately show ?case using a(1) 0 d(1) payload_size_less [of fr] by (simp add: header_done_def rx_filling_def)
next
  case (Suc j)
  then have "rx_read p fr s (42 + Suc j) = rx_byte_edge p (d ! j) (rx_read p fr s (42 + j))" using rx_read_Suc [of "42 + j"] d(2) by simp
  moreover have f: "rx_filling d (source_of fr) j (rx_read p fr s (42 + j))" "write_buf (rx_read p fr s (42 + j)) = write_buf s" using Suc by simp_all
  moreover have "write_buf (rx_byte_edge p b r) = write_buf r" if "rx_filling d (source_of fr) j r" for r b
    using that rx_filling_regs [OF that] Suc.prems d(1) 
    by (auto simp: rx_byte_edge_def rx_parse_def rx_payload_def rx_pulses_def drop_packet_def Let_def word_unat_eq_iff)
  ultimately show ?case using rx_filling_step(1) [OF f(1)] Suc.prems d(1) by simp
qed

lemma rx_read_idle:
  assumes s: "rx_fresh s" "rx_out_idle s" and k: "k \<le> length fr" "rx_deliverable p fr \<Longrightarrow> k < 42 + payload_size fr"
  shows "rx_out_idle (rx_read p fr s k)"
proof (cases "k \<le> 42")
  case True
  then show ?thesis using rx_read_headers(2) [OF s k(1)] s(2) idle_kept by blast
next
  case False
  let ?n = "payload_size fr" and ?M = "RX_MAX_PAYLOAD_BYTES p"
  have h: "header_done p fr s (rx_read p fr s 42)" using s k False unfolding rx_read_def by (intro header_parsed) simp_all
  then have i: "rx_out_idle (rx_read p fr s 42)" using s(2) idle_kept by (auto simp: header_done_def)
  show ?thesis
  proof (cases "rx_accepts p fr \<and> ?n \<noteq> 0")
    case no: False
    then show ?thesis using rx_read_dropped [OF _ i, of k] h False by (simp add: header_done_def)
  next
    case acc: True
    define d where "d = payload_of fr @ replicate (?n - length (payload_of fr)) 0"
    have d: "length d = ?n" "\<And>i. i < ?n \<Longrightarrow> 42 + i < length fr \<Longrightarrow> d ! i = fr ! (42 + i)"
      by (auto simp: d_def payload_of_def nth_append)
    note fill = rx_read_payload [OF s conjunct1 [OF acc] _ _ _ d]
    show ?thesis
    proof (cases "k - 42 < ?n \<and> k - 42 \<le> ?M")
      case True
      moreover have "42 + (k - 42) = k" using False by simp
      ultimately have "rx_filling d (source_of fr) (k - 42) (rx_read p fr s k)" using fill [of "k - 42"] k(1) by simp
      then show ?thesis by (rule rx_filling_regs(4))
    next
      case over: False
      obtain j where j: "k = 42 + j" using False by (metis nat_le_linear le_Suc_ex)
      have 1: "?n \<le> j \<or> ?M < j" using over j by auto
      have 2: "42 + j \<le> length fr" using k(1) j by simp
      have n: "?M < ?n"
      proof (rule ccontr)
        assume "\<not> ?M < ?n"
        with 1 have le: "?n \<le> ?M" "?n \<le> j" by linarith+
        with 2 have "rx_deliverable p fr" using acc by (simp add: rx_deliverable_def)
        with k(2) j le show False by simp
      qed
      with 1 j have M: "?M < ?n" "?M < k - 42" by auto
      then have f: "rx_filling d (source_of fr) ?M (rx_read p fr s (42 + ?M))" using fill [of ?M] k(1) by simp
      have "rx_read p fr s (Suc (42 + ?M)) = rx_byte_edge p (fr ! (42 + ?M)) (rx_read p fr s (42 + ?M))" using M k(1) by (intro rx_read_Suc) simp
      with rx_too_long_step [OF f, of p] have "rx_state (rx_read p fr s (Suc (42 + ?M))) = RX_DROP" "rx_out_idle (rx_read p fr s (Suc (42 + ?M)))" by simp_all
      from rx_read_dropped [OF this, of k] M show ?thesis by simp
    qed
  qed
qed

lemma rx_read_loaded:
  assumes s: "rx_fresh s" "rx_out_idle s" and d: "rx_deliverable p fr"
  shows "rx_loaded (write_buf s) (payload_of fr) (source_of fr) (rx_read p fr s (42 + payload_size fr))"
proof -
  let ?d = "payload_of fr"
  obtain m where n: "payload_size fr = Suc m" using d by (auto simp: rx_deliverable_def gr0_conv_Suc)
  have l: "length ?d = Suc m" "\<And>i. i < payload_size fr \<Longrightarrow> 42 + i < length fr \<Longrightarrow> ?d ! i = fr ! (42 + i)"
    using d n by (auto simp: payload_of_def rx_deliverable_def)
  have f: "rx_filling ?d (source_of fr) m (rx_read p fr s (42 + m))" "write_buf (rx_read p fr s (42 + m)) = write_buf s"
    using rx_read_payload [OF s, of p fr m ?d] l d n by (simp_all add: rx_deliverable_def)
  have "rx_read p fr s (42 + payload_size fr) = rx_byte_edge p (?d ! m) (rx_read p fr s (42 + m))"
    using rx_read_Suc [of "42 + m" fr] l d n by (simp add: rx_deliverable_def)
  then show ?thesis using rx_filling_step(2) [OF f(1), of p] f(2) l d n by (simp add: rx_deliverable_def)
qed

section \<open>The output\<close>

definition payload_transfer :: "UdpRxIn \<Rightarrow> UdpRx \<Rightarrow> tx_stream" where
  "payload_transfer i s = (if m_payload_tvalid s \<and> m_payload_tready i then [\<lparr>axis_data = m_payload_tdata s, axis_last = m_payload_tlast s\<rparr>] else [])"

fun rx_outs :: "UdpRxParams \<Rightarrow> UdpRxIn list \<Rightarrow> UdpRx \<Rightarrow> tx_stream" where
  "rx_outs p [] s = []"
| "rx_outs p (i # is) s = payload_transfer i s @ rx_outs p is (udp_rx_step p i s)"

definition rx_after :: "UdpRxParams \<Rightarrow> UdpRxIn list \<Rightarrow> UdpRx \<Rightarrow> UdpRx" where
  "rx_after p is s = fold (udp_rx_step p) is s"

text \<open>Byte \<open>j\<close> of the payload \<open>d\<close> is offered.\<close>

definition rx_emitting :: "bool \<Rightarrow> u8 list \<Rightarrow> endpoint \<Rightarrow> nat \<Rightarrow> UdpRx \<Rightarrow> bool" where
  "rx_emitting w d src j s \<longleftrightarrow> rx_state s \<in> {RX_DROP, RX_IDLE} \<and> output_active s \<and> m_payload_tvalid s \<and> read_buf s = w \<and> rx_pending w s \<and> \<not> rx_pending (\<not> w) s \<and>
     j < length d \<and> length d < 65528 \<and> read_len s = of_nat (length d) \<and> read_index s = of_nat j \<and> m_payload_tdata s = d ! j \<and>
     m_payload_tlast s = (Suc j = length d) \<and> (\<forall>i < length d. rx_mem w s i = d ! i) \<and> remote_of s = src"

definition rx_done :: "endpoint \<Rightarrow> UdpRx \<Rightarrow> bool" where
  "rx_done src s \<longleftrightarrow> rx_state s \<in> {RX_DROP, RX_IDLE} \<and> rx_out_idle s \<and> remote_of s = src"

definition rx_off :: "UdpRxIn \<Rightarrow> bool" where
  "rx_off i \<longleftrightarrow> rxi_rst_n i \<and> \<not> rxi_frame_start i"

lemma rx_off_step:
  assumes "rx_off i" "rx_state s \<in> {RX_DROP, RX_IDLE}"
  obtains n where "n = rx_output i s (rx_pulses s)"
    "udp_rx_step p i s \<in> {n, n\<lparr>rx_state := RX_IDLE\<rparr>, n\<lparr>rx_state := RX_IDLE, parser_error := True\<rparr>}"
  using assms by (auto simp: rx_off_def udp_rx_step_def rx_end_def rx_parse_def Let_def)

text \<open>What the output side still owes, and how many cycles with a ready receiver it takes.\<close>

definition rx_owes :: "u8 list \<Rightarrow> endpoint \<Rightarrow> UdpRx \<Rightarrow> tx_stream \<Rightarrow> nat \<Rightarrow> bool" where
  "rx_owes d src s owed m \<longleftrightarrow> d \<noteq> [] \<and> length d < 65528 \<and>
     ((\<exists>w. rx_loaded w d src s \<and> owed = axis_frame d \<and> m = Suc (length d)) \<or>
      (\<exists>w j. rx_emitting w d src j s \<and> owed = drop j (axis_frame d) \<and> m = length d - j) \<or>
      rx_done src s \<and> owed = [] \<and> m = 0)"

lemmas rx_out_simps = rx_output_def rx_pulses_def Let_def rx_pending_def rx_buf_len_def rx_mem_def remote_of_def rx_out_idle_def

lemma off_variants:
  assumes "x \<in> {n, n\<lparr>rx_state := RX_IDLE\<rparr>, n\<lparr>rx_state := RX_IDLE, parser_error := True\<rparr>}"
  shows "rx_emitting w d src j n \<Longrightarrow> rx_emitting w d src j x" "rx_done src n \<Longrightarrow> rx_done src x"
  using assms by (auto simp: rx_emitting_def rx_done_def rx_pending_def rx_mem_def remote_of_def rx_out_idle_def)

lemma u16_eq: "a < 65536 \<Longrightarrow> b < 65536 \<Longrightarrow> (of_nat a :: u16) = of_nat b \<longleftrightarrow> a = b"
  by (simp add: word_of_nat_eq_iff take_bit_nat_eq_self)

lemma loaded_off:
  assumes "rx_off i" "rx_loaded w d src s" "d \<noteq> []" "length d < 65528"
  shows "payload_transfer i s = []" "rx_emitting w d src 0 (udp_rx_step p i s)"
proof -
  have l: "(of_nat (length d) :: u16) = 1 \<longleftrightarrow> length d = 1" using assms(4) u16_eq [of "length d" 1] by simp
  have st: "rx_state s \<in> {RX_DROP, RX_IDLE}" using assms(2) by (simp add: rx_loaded_def)
  show "payload_transfer i s = []" using assms(2) by (simp add: rx_loaded_def payload_transfer_def)
  from rx_off_step [OF assms(1) st] obtain n where n: "n = rx_output i s (rx_pulses s)"
    "udp_rx_step p i s \<in> {n, n\<lparr>rx_state := RX_IDLE\<rparr>, n\<lparr>rx_state := RX_IDLE, parser_error := True\<rparr>}" .
  have "rx_emitting w d src 0 n" using assms l unfolding n by (cases w) (simp_all add: rx_loaded_def rx_emitting_def rx_out_simps eq_commute [of "Suc 0"])
  then show "rx_emitting w d src 0 (udp_rx_step p i s)" by (rule off_variants(1) [OF n(2)])
qed

lemma emitting_off:
  assumes "rx_off i" "rx_emitting w d src j s"
  shows "\<not> m_payload_tready i \<Longrightarrow> payload_transfer i s = [] \<and> rx_emitting w d src j (udp_rx_step p i s)"
    and "m_payload_tready i \<Longrightarrow> payload_transfer i s = [\<lparr>axis_data = d ! j, axis_last = (Suc j = length d)\<rparr>]"
    and "m_payload_tready i \<Longrightarrow> Suc j = length d \<Longrightarrow> rx_done src (udp_rx_step p i s)"
    and "m_payload_tready i \<Longrightarrow> Suc j \<noteq> length d \<Longrightarrow> rx_emitting w d src (Suc j) (udp_rx_step p i s)"
proof -
  have st: "rx_state s \<in> {RX_DROP, RX_IDLE}" and jd: "j < length d" "length d < 65528" using assms(2) by (simp_all add: rx_emitting_def)
  have "of_nat j + 1 = (of_nat (Suc j) :: u16)" "(of_nat (length d) - 1 :: u16) = of_nat (length d - 1)"
    using jd by simp_all
  then have l: "of_nat j + 1 = (of_nat (length d) - 1 :: u16) \<longleftrightarrow> Suc (Suc j) = length d" "unat (of_nat j + 1 :: u16) = Suc j"
    using u16_eq [of "Suc j" "length d - 1"] jd by (auto simp del: of_nat_Suc of_nat_diff simp: unsigned_of_nat take_bit_nat_eq_self)
  from rx_off_step [OF assms(1) st] obtain n where n: "n = rx_output i s (rx_pulses s)"
    "udp_rx_step p i s \<in> {n, n\<lparr>rx_state := RX_IDLE\<rparr>, n\<lparr>rx_state := RX_IDLE, parser_error := True\<rparr>}" .
  show "payload_transfer i s = [\<lparr>axis_data = d ! j, axis_last = (Suc j = length d)\<rparr>]" if "m_payload_tready i"
    using that assms(2) by (simp add: payload_transfer_def rx_emitting_def)
  show "payload_transfer i s = [] \<and> rx_emitting w d src j (udp_rx_step p i s)" if r: "\<not> m_payload_tready i"
  proof -
    have "rx_emitting w d src j n" using assms r unfolding n by (cases w) (simp_all add: rx_emitting_def rx_out_simps)
    then show ?thesis using r off_variants(1) [OF n(2)] by (simp add: payload_transfer_def)
  qed
  show "rx_done src (udp_rx_step p i s)" if r: "m_payload_tready i" "Suc j = length d"
  proof -
    have "rx_done src n" using assms r unfolding n by (cases w) (simp_all add: rx_emitting_def rx_done_def rx_out_simps)
    then show ?thesis by (rule off_variants(2) [OF n(2)])
  qed
  show "rx_emitting w d src (Suc j) (udp_rx_step p i s)" if r: "m_payload_tready i" "Suc j \<noteq> length d"
  proof -
    have "rx_emitting w d src (Suc j) n" using assms r l unfolding n by (cases w) (auto simp: rx_emitting_def rx_out_simps)
    then show ?thesis by (rule off_variants(1) [OF n(2)])
  qed
qed

lemma done_off:
  assumes "rx_off i" "rx_done src s"
  shows "payload_transfer i s = []" "rx_done src (udp_rx_step p i s)"
proof -
  have st: "rx_state s \<in> {RX_DROP, RX_IDLE}" using assms(2) by (simp add: rx_done_def)
  show "payload_transfer i s = []" using assms(2) by (simp add: rx_done_def rx_out_idle_def payload_transfer_def)
  from rx_off_step [OF assms(1) st] obtain n where n: "n = rx_output i s (rx_pulses s)"
    "udp_rx_step p i s \<in> {n, n\<lparr>rx_state := RX_IDLE\<rparr>, n\<lparr>rx_state := RX_IDLE, parser_error := True\<rparr>}" .
  have "rx_done src n" using assms unfolding n by (simp add: rx_done_def rx_out_simps)
  then show "rx_done src (udp_rx_step p i s)" by (rule off_variants(2) [OF n(2)])
qed

lemma axis_frame_beat:
  assumes "j < length d"
  shows "drop j (axis_frame d) = \<lparr>axis_data = d ! j, axis_last = (Suc j = length d)\<rparr> # drop (Suc j) (axis_frame d)"
proof -
  let ?b = "\<lparr>axis_data = d ! j, axis_last = (Suc j = length d)\<rparr>"
  have "d \<noteq> []" using assms by auto
  then have "length (axis_frame d) = length d" by (simp add: axis_frame_def axis_bytes_def)
  moreover have "axis_frame d ! j = ?b"
  proof (cases "Suc j = length d")
    case True
    then have "j = length d - 1" by simp
    with True \<open>d \<noteq> []\<close> show ?thesis by (simp add: axis_frame_def axis_bytes_def nth_append last_conv_nth)
  next
    case False
    with assms have "j < length d - 1" by simp
    with False show ?thesis by (simp add: axis_frame_def axis_bytes_def nth_append nth_butlast)
  qed
  ultimately show ?thesis using assms Cons_nth_drop_Suc [of j "axis_frame d"] by simp
qed

lemma rx_owes_step:
  assumes "rx_off i" "rx_owes d src s owed m"
  shows "\<exists>owed' m'. owed = payload_transfer i s @ owed' \<and> rx_owes d src (udp_rx_step p i s) owed' m' \<and>
    m' \<le> m \<and> (m_payload_tready i \<and> 0 < m \<longrightarrow> m' < m) \<and> (m = Suc (length d) \<longrightarrow> m' < m)"
proof -
  have d: "d \<noteq> []" "length d < 65528" using assms(2) by (simp_all add: rx_owes_def)
  have L: "length (axis_frame d) = length d" using d(1) by (simp add: axis_frame_def axis_bytes_def)
  from assms(2) consider (load) w where "rx_loaded w d src s" "owed = axis_frame d" "m = Suc (length d)"
    | (emit) w j where "rx_emitting w d src j s" "owed = drop j (axis_frame d)" "m = length d - j"
    | (fin) "rx_done src s" "owed = []" "m = 0" by (auto simp: rx_owes_def)
  then show ?thesis
  proof cases
    case load
    with loaded_off(1) [OF assms(1) load(1) d] loaded_off(2) [OF assms(1) load(1) d, of p] d show ?thesis
      by (intro exI [of _ "axis_frame d"] exI [of _ "length d"]) (force simp: rx_owes_def)
  next
    case emit
    then have j: "j < length d" by (simp add: rx_emitting_def)
    note E = emitting_off [OF assms(1) emit(1)] axis_frame_beat [OF j]
    consider "\<not> m_payload_tready i" | "m_payload_tready i" "Suc j = length d" | "m_payload_tready i" "Suc j \<noteq> length d" by blast
    then show ?thesis
    proof cases
      case 1
      then show ?thesis using E(1) emit d j by (intro exI [of _ owed] exI [of _ m]) (auto simp: rx_owes_def)
    next
      case 2
      then show ?thesis using E(2,3,5) emit d j L by (intro exI [of _ "[]"] exI [of _ 0]) (auto simp: rx_owes_def)
    next
      case 3
      then show ?thesis using E(2,4,5) emit d j by (intro exI [of _ "drop (Suc j) (axis_frame d)"] exI [of _ "length d - Suc j"]) (auto simp: rx_owes_def)
    qed
  next
    case fin
    with done_off(1) [OF assms(1) fin(1)] done_off(2) [OF assms(1) fin(1), of p] d show ?thesis by (intro exI [of _ "[]"] exI [of _ 0]) (auto simp: rx_owes_def)
  qed
qed

definition ready_cycles :: "UdpRxIn list \<Rightarrow> nat" where
  "ready_cycles is = length (filter m_payload_tready is)"

lemma rx_owes_cycles:
  assumes "list_all rx_off is" "rx_owes d src s owed m"
  shows "\<exists>owed' m'. owed = rx_outs p is s @ owed' \<and> rx_owes d src (rx_after p is s) owed' m' \<and> m' \<le> m - ready_cycles is \<and> m' \<le> m"
  using assms
proof (induction "is" arbitrary: s owed m)
  case Nil
  then show ?case by (auto simp: rx_after_def ready_cycles_def)
next
  case (Cons i "is")
  then have i: "rx_off i" "list_all rx_off is" by simp_all
  obtain o1 m1 where 1: "owed = payload_transfer i s @ o1" "rx_owes d src (udp_rx_step p i s) o1 m1" "m1 \<le> m" "m_payload_tready i \<and> 0 < m \<longrightarrow> m1 < m"
    using rx_owes_step [OF i(1) Cons.prems(2), of p] by blast
  obtain o2 m2 where 2: "o1 = rx_outs p is (udp_rx_step p i s) @ o2" "rx_owes d src (rx_after p is (udp_rx_step p i s)) o2 m2" "m2 \<le> m1 - ready_cycles is" "m2 \<le> m1"
    using Cons.IH [OF i(2) 1(2)] by blast
  have "m2 \<le> m - ready_cycles (i # is)" using 1(3,4) 2(3) by (auto simp: ready_cycles_def)
  with 1 2 show ?case by (intro exI [of _ o2] exI [of _ m2]) (simp add: rx_after_def)
qed

section \<open>Frames that arrive\<close>

definition rx_body :: "UdpRxIn \<Rightarrow> bool" where
  "rx_body i \<longleftrightarrow> rxi_rst_n i \<and> \<not> rxi_frame_start i \<and> \<not> rxi_frame_end i"

definition rx_bytes :: "UdpRxIn list \<Rightarrow> u8 list" where
  "rx_bytes is = map rxi_byte (filter rxi_byte_valid is)"

lemma edge_pulses: "rx_byte_edge p b (rx_pulses s) = rx_byte_edge p b s"
proof -
  have "rx_pulses (rx_pulses s) = rx_pulses s" by (simp add: rx_pulses_def)
  moreover have "rx_parse p b (rx_pulses s) n = rx_parse p b s n" for n
    by (cases "rx_state s") (simp_all add: rx_parse_def rx_eth_def rx_ip_def rx_udp_def rx_payload_def rx_pulses_def capture_remote_def
      write_buf0_busy_def write_buf1_busy_def Let_def cong: if_cong)
  ultimately show ?thesis by (simp add: rx_byte_edge_def)
qed

lemma pulses_cong: "rx_pulses s = rx_pulses s' \<Longrightarrow> rx_byte_edge p b s = rx_byte_edge p b s'"
  by (metis edge_pulses)

lemma idle_body:
  assumes "rx_body i" "rx_out_idle s"
  shows "payload_transfer i s = []" "udp_rx_step p i s = (if rxi_byte_valid i then rx_byte_edge p (rxi_byte i) s else rx_pulses s)"
  using assms by (simp_all add: rx_body_def rx_out_idle_def payload_transfer_def udp_rx_step_def rx_byte_edge_def rx_output_def)

text \<open>The bytes of a frame, with any pauses: the registers are those after the bytes up to the pulses, until the
  payload is complete; from then on the payload is owed.\<close>

definition rx_parsing :: "UdpRxParams \<Rightarrow> u8 list \<Rightarrow> UdpRx \<Rightarrow> nat \<Rightarrow> UdpRx \<Rightarrow> bool" where
  "rx_parsing p fr s0 k s \<longleftrightarrow> rx_pulses s = rx_pulses (rx_read p fr s0 k)"

lemma idle_of_pulses: "rx_out_idle (rx_pulses s) = rx_out_idle s"
  by (simp add: rx_pulses_def rx_out_idle_def)

lemma loaded_of_pulses: "rx_loaded w d src (rx_pulses s) = rx_loaded w d src s"
  by (simp add: rx_pulses_def rx_loaded_def rx_pending_def rx_buf_len_def rx_mem_def remote_of_def)

lemma rx_parsing_idle:
  assumes "rx_parsing p fr s0 k s" "rx_out_idle (rx_read p fr s0 k)"
  shows "rx_out_idle s"
  using assms idle_of_pulses by (metis rx_parsing_def)

lemma rx_parsing_step:
  assumes b: "rx_body i" and s: "rx_parsing p fr s0 k s" "rx_out_idle s" and fr: "rxi_byte_valid i \<Longrightarrow> k < length fr \<and> rxi_byte i = fr ! k"
  shows "payload_transfer i s = []" "rx_parsing p fr s0 (if rxi_byte_valid i then Suc k else k) (udp_rx_step p i s)"
proof -
  show "payload_transfer i s = []" by (rule idle_body(1) [OF b s(2)])
  show "rx_parsing p fr s0 (if rxi_byte_valid i then Suc k else k) (udp_rx_step p i s)"
  proof (cases "rxi_byte_valid i")
    case True
    then have "udp_rx_step p i s = rx_byte_edge p (fr ! k) (rx_read p fr s0 k)"
      using idle_body(2) [OF b s(2), of p] fr pulses_cong [OF s(1) [unfolded rx_parsing_def], of p "fr ! k"] by simp
    with True fr show ?thesis by (simp add: rx_parsing_def rx_read_Suc)
  next
    case False
    have "rx_pulses (rx_pulses s) = rx_pulses s" by (simp add: rx_pulses_def)
    with False s(1) idle_body(2) [OF b s(2), of p] show ?thesis by (simp add: rx_parsing_def)
  qed
qed

text \<open>A frame is read while the output has nothing to do; once its payload is complete it is owed.\<close>

definition rx_reading :: "UdpRxParams \<Rightarrow> u8 list \<Rightarrow> UdpRx \<Rightarrow> nat \<Rightarrow> UdpRx \<Rightarrow> tx_stream \<Rightarrow> bool" where
  "rx_reading p fr s0 k s owed \<longleftrightarrow>
     (if rx_deliverable p fr \<and> 42 + payload_size fr \<le> k then \<exists>m \<le> Suc (payload_size fr). rx_owes (payload_of fr) (source_of fr) s owed m
      else rx_parsing p fr s0 k s \<and> owed = (if rx_deliverable p fr then axis_frame (payload_of fr) else []))"

lemma rx_reading_step:
  assumes s0: "rx_fresh s0" "rx_out_idle s0" and b: "rx_body i" and s: "rx_reading p fr s0 k s owed"
    and fr: "k \<le> length fr" "rxi_byte_valid i \<Longrightarrow> k < length fr \<and> rxi_byte i = fr ! k"
  shows "\<exists>owed'. owed = payload_transfer i s @ owed' \<and> rx_reading p fr s0 (if rxi_byte_valid i then Suc k else k) (udp_rx_step p i s) owed'"
proof (cases "rx_deliverable p fr \<and> 42 + payload_size fr \<le> k")
  case True
  have off: "rx_off i" using b by (simp add: rx_off_def rx_body_def)
  from True s obtain m where m: "m \<le> Suc (payload_size fr)" "rx_owes (payload_of fr) (source_of fr) s owed m" by (auto simp: rx_reading_def)
  from rx_owes_step [OF off m(2), of p] obtain o1 m1 where "owed = payload_transfer i s @ o1"
    "rx_owes (payload_of fr) (source_of fr) (udp_rx_step p i s) o1 m1" "m1 \<le> m" by blast
  with True m(1) show ?thesis by (intro exI [of _ o1]) (auto simp: rx_reading_def intro: le_trans)
next
  case False
  let ?k = "if rxi_byte_valid i then Suc k else k"
  from False s have par: "rx_parsing p fr s0 k s" and owed: "owed = (if rx_deliverable p fr then axis_frame (payload_of fr) else [])"
    by (simp_all add: rx_reading_def)
  have "rx_out_idle (rx_read p fr s0 k)" using rx_read_idle [OF s0 fr(1)] False by auto
  then have idle: "rx_out_idle s" by (rule rx_parsing_idle [OF par])
  note step = rx_parsing_step [OF b par idle fr(2)]
  show ?thesis
  proof (cases "rx_deliverable p fr \<and> 42 + payload_size fr \<le> ?k")
    case fin: True
    with False have k: "?k = 42 + payload_size fr" by (auto split: if_splits)
    have d: "length (payload_of fr) = payload_size fr" "0 < payload_size fr" using fin by (auto simp: payload_of_def rx_deliverable_def)
    have "rx_loaded (write_buf s0) (payload_of fr) (source_of fr) (rx_read p fr s0 ?k)"
      unfolding k using rx_read_loaded [OF s0] fin by simp
    then have "rx_loaded (write_buf s0) (payload_of fr) (source_of fr) (udp_rx_step p i s)"
      using step(2) loaded_of_pulses by (metis rx_parsing_def)
    then have "rx_owes (payload_of fr) (source_of fr) (udp_rx_step p i s) owed (Suc (payload_size fr))"
      using d fin owed payload_size_less [of fr] by (auto simp: rx_owes_def)
    with fin step(1) show ?thesis by (intro exI [of _ owed]) (auto simp: rx_reading_def)
  next
    case False
    with step owed show ?thesis by (intro exI [of _ owed]) (auto simp: rx_reading_def)
  qed
qed

lemma rx_reading_cycles:
  assumes s0: "rx_fresh s0" "rx_out_idle s0" and "list_all rx_body is" "rx_reading p fr s0 k s owed" "k \<le> length fr" "drop k fr = rx_bytes is"
  shows "\<exists>owed'. owed = rx_outs p is s @ owed' \<and> rx_reading p fr s0 (length fr) (rx_after p is s) owed'"
  using assms(3-)
proof (induction "is" arbitrary: k s owed)
  case Nil
  then have "k = length fr" by (simp add: rx_bytes_def)
  with Nil show ?case by (simp add: rx_after_def)
next
  case (Cons i "is")
  let ?k = "if rxi_byte_valid i then Suc k else k"
  have b: "rx_body i" "list_all rx_body is" using Cons.prems(1) by simp_all
  have v: "k < length fr \<and> rxi_byte i = fr ! k" "drop (Suc k) fr = rx_bytes is" if "rxi_byte_valid i"
  proof -
    have c: "drop k fr = rxi_byte i # rx_bytes is" using that Cons.prems(4) by (simp add: rx_bytes_def)
    then have k: "k < length fr" by (metis drop_all leI list.distinct(1))
    with c Cons_nth_drop_Suc [OF k] show "k < length fr \<and> rxi_byte i = fr ! k" "drop (Suc k) fr = rx_bytes is" by simp_all
  qed
  obtain o1 where o1: "owed = payload_transfer i s @ o1" "rx_reading p fr s0 ?k (udp_rx_step p i s) o1"
    using rx_reading_step [OF s0 b(1) Cons.prems(2,3) v(1)] by blast
  have "?k \<le> length fr" "drop ?k fr = rx_bytes is" using v Cons.prems(3,4) by (auto simp: rx_bytes_def)
  from Cons.IH [OF b(2) o1(2) this] o1(1) show ?case by (auto simp: rx_after_def)
qed

text \<open>A frame that arrives: its start, the cycles with its bytes, its end, and the cycles until the next one.
  The payload is taken before the next frame when the receiver is ready often enough.\<close>

type_synonym arrival = "bool \<times> UdpRxIn list \<times> UdpRxIn \<times> UdpRxIn list"

definition rx_start_in :: "bool \<Rightarrow> UdpRxIn" where
  "rx_start_in r = \<lparr>rxi_rst_n = True, rxi_byte = 0, rxi_byte_valid = False, rxi_frame_start = True, rxi_frame_end = False,
     rxi_frame_error = False, m_payload_tready = r\<rparr>"

fun arrival_inputs :: "arrival \<Rightarrow> UdpRxIn list" where
  "arrival_inputs (r, pre, e, post) = rx_start_in r # pre @ e # post"

fun arrival_frame :: "arrival \<Rightarrow> u8 list" where
  "arrival_frame (r, pre, e, post) = rx_bytes pre"

fun arrival_ok :: "UdpRxParams \<Rightarrow> arrival \<Rightarrow> bool" where
  "arrival_ok p (r, pre, e, post) \<longleftrightarrow> list_all rx_body pre \<and> rx_off e \<and> rxi_frame_end e \<and> list_all rx_off post \<and>
     (rx_deliverable p (rx_bytes pre) \<longrightarrow> payload_size (rx_bytes pre) \<le> ready_cycles post)"

lemma rx_outs_append: "rx_outs p (a @ b) s = rx_outs p a s @ rx_outs p b (rx_after p a s)"
  by (induction a arbitrary: s) (simp_all add: rx_after_def)

lemma rx_after_append: "rx_after p (a @ b) s = rx_after p b (rx_after p a s)" "rx_after p (i # b) s = rx_after p b (udp_rx_step p i s)"
  by (simp_all add: rx_after_def)

lemma start_fresh:
  assumes "rx_out_idle s"
  shows "payload_transfer (rx_start_in r) s = []" "rx_fresh (udp_rx_step p (rx_start_in r) s)" "rx_out_idle (udp_rx_step p (rx_start_in r) s)"
  using assms by (simp_all add: rx_out_idle_def payload_transfer_def udp_rx_step_def rx_start_in_def rx_output_def rx_start_def rx_fresh_def
    write_buf_busy_def write_buf0_busy_def write_buf1_busy_def rx_pulses_def Let_def)

lemma end_idle:
  assumes "rx_off e" "rxi_frame_end e" "rx_out_idle s"
  shows "payload_transfer e s = []" "rx_done (remote_of s) (udp_rx_step p e s)"
  using assms by (simp_all add: rx_out_idle_def payload_transfer_def udp_rx_step_def rx_off_def rx_output_def rx_end_def rx_done_def
    rx_pulses_def Let_def remote_of_def)

lemma done_cycles:
  assumes "list_all rx_off is" "rx_done src s"
  shows "rx_outs p is s = []" "rx_done src (rx_after p is s)"
proof -
  have "rx_outs p is s = [] \<and> rx_done src (rx_after p is s)" using assms
    by (induction "is" arbitrary: s) (simp_all add: rx_after_def done_off)
  then show "rx_outs p is s = []" "rx_done src (rx_after p is s)" by simp_all
qed

lemma owed_delivered:
  assumes e: "rx_off e" "list_all rx_off post" and o: "rx_owes d src s owed m" "m \<le> Suc (length d)" "length d \<le> ready_cycles post"
  shows "rx_outs p (e # post) s = owed \<and> rx_done src (rx_after p (e # post) s)"
proof -
  obtain o1 m1 where 1: "owed = payload_transfer e s @ o1" "rx_owes d src (udp_rx_step p e s) o1 m1" "m1 \<le> m" "m = Suc (length d) \<longrightarrow> m1 < m"
    using rx_owes_step [OF e(1) o(1), of p] by blast
  obtain o2 m2 where 2: "o1 = rx_outs p post (udp_rx_step p e s) @ o2" "rx_owes d src (rx_after p post (udp_rx_step p e s)) o2 m2"
    "m2 \<le> m1 - ready_cycles post" using rx_owes_cycles [OF e(2) 1(2), of p] by blast
  have "m2 = 0" using 1(3,4) 2(3) o(2,3) by linarith
  with 2(2) have "rx_done src (rx_after p post (udp_rx_step p e s))" "o2 = []" by (auto simp: rx_owes_def rx_emitting_def)
  with 1(1) 2(1) show ?thesis by (simp add: rx_after_append)
qed

lemma arrival_delivered:
  assumes "rx_out_idle s" "arrival_ok p a"
  shows "rx_outs p (arrival_inputs a) s = (if rx_deliverable p (arrival_frame a) then axis_frame (payload_of (arrival_frame a)) else [])"
    and "rx_out_idle (rx_after p (arrival_inputs a) s)"
    and "rx_deliverable p (arrival_frame a) \<Longrightarrow> remote_of (rx_after p (arrival_inputs a) s) = source_of (arrival_frame a)"
proof -
  obtain r pre e post where a: "a = (r, pre, e, post)" by (cases a)
  let ?fr = "rx_bytes pre" and ?s0 = "udp_rx_step p (rx_start_in r) s"
  let ?s1 = "rx_after p pre ?s0" and ?owed = "if rx_deliverable p (rx_bytes pre) then axis_frame (payload_of (rx_bytes pre)) else []"
  have ok: "list_all rx_body pre" "rx_off e" "rxi_frame_end e" "list_all rx_off post" using assms(2) a by simp_all
  note s0 = start_fresh(2,3) [OF assms(1), of p r]
  have "rx_reading p ?fr ?s0 0 ?s0 ?owed" by (simp add: rx_reading_def rx_parsing_def rx_read_def)
  from rx_reading_cycles [OF s0 ok(1) this] obtain o1 where o1: "?owed = rx_outs p pre ?s0 @ o1" "rx_reading p ?fr ?s0 (length ?fr) ?s1 o1" by auto
  have ins: "rx_outs p (arrival_inputs a) s = rx_outs p pre ?s0 @ rx_outs p (e # post) ?s1" "rx_after p (arrival_inputs a) s = rx_after p (e # post) ?s1"
    by (simp_all add: a start_fresh(1) [OF assms(1)] rx_outs_append rx_after_append)
  have fr: "arrival_frame a = ?fr" by (simp add: a)
  obtain src where t: "rx_outs p (e # post) ?s1 = o1" "rx_done src (rx_after p (e # post) ?s1)" "rx_deliverable p ?fr \<longrightarrow> src = source_of ?fr"
  proof (cases "rx_deliverable p ?fr")
    case True
    then obtain m where m: "m \<le> Suc (payload_size ?fr)" "rx_owes (payload_of ?fr) (source_of ?fr) ?s1 o1 m"
      using o1(2) by (auto simp: rx_reading_def rx_deliverable_def)
    have "length (payload_of ?fr) = payload_size ?fr" using True by (auto simp: payload_of_def rx_deliverable_def)
    with owed_delivered [OF ok(2,4) m(2), of p] m(1) assms(2) a True that show ?thesis by simp
  next
    case False
    then have par: "rx_parsing p ?fr ?s0 (length ?fr) ?s1" "o1 = []" using o1 by (simp_all add: rx_reading_def)
    have "rx_out_idle ?s1" using rx_parsing_idle [OF par(1)] rx_read_idle [OF s0, of "length ?fr" ?fr p] False by simp
    note e = end_idle [OF ok(2,3) this]
    from e(1) done_cycles [OF ok(4) e(2), of p] par(2) False that [of "remote_of ?s1"] show ?thesis by (simp add: rx_after_append)
  qed
  show "rx_outs p (arrival_inputs a) s = (if rx_deliverable p (arrival_frame a) then axis_frame (payload_of (arrival_frame a)) else [])"
    unfolding ins fr t(1) by (rule o1(1) [symmetric])
  show "rx_out_idle (rx_after p (arrival_inputs a) s)" unfolding ins using t(2) by (simp add: rx_done_def)
  show "remote_of (rx_after p (arrival_inputs a) s) = source_of (arrival_frame a)" if "rx_deliverable p (arrival_frame a)"
    unfolding ins fr using t(2,3) that fr by (simp add: rx_done_def)
qed

section \<open>Properties\<close>


lemma be_word_bytes:
  shows "be_word (be16 w) = w" and "be_word (ip_bytes i) = i" and "be_word (mac_bytes m) = m"
proof -
  have "bit (be_word (be16 w) :: u16) n = bit w n" if "n < 16" for n
    unfolding be16_def set_bytes [symmetric] using that by (auto simp: bit_set_byte bit_ucast_iff bit_drop_bit_eq)
  then show "be_word (be16 w) = w" by (intro bit_word_eqI) simp
  have "bit (be_word (ip_bytes i) :: u32) n = bit i n" if "n < 32" for n
    unfolding ip_bytes_def list.map set_bytes [symmetric] using that by (auto simp: bit_set_byte ip_byte_def bit_ucast_iff bit_drop_bit_eq)
  then show "be_word (ip_bytes i) = i" by (intro bit_word_eqI) simp
  have "bit (be_word (mac_bytes m) :: u48) n = bit m n" if "n < 48" for n
    unfolding mac_bytes_def list.map set_bytes [symmetric] using that by (auto simp: bit_set_byte mac_byte_def bit_ucast_iff bit_drop_bit_eq)
  then show "be_word (mac_bytes m) = m" by (intro bit_word_eqI) simp
qed

lemma frame_header_nth:
  "frame_header p rmac rip rport n = mac_bytes rmac @ mac_bytes (LOCAL_MAC p) @ [0x08, 0x00, 0x45, 0] @ be16 (28 + n) @ [0, 0, 0, 0, 0x40, 0x11] @
     be16 (ipv4_checksum p rip (28 + n)) @ ip_bytes (LOCAL_IP p) @ ip_bytes rip @ be16 (LOCAL_PORT p) @ be16 rport @ be16 (8 + n) @ [0, 0]"
  by (simp add: frame_header_def ipv4_words_def be16_def ip_bytes_def ip_byte_halves)

lemma frame_prefix:
  "wire_frame (frame_of p (rmac, rip, rport) d) = frame_header p rmac rip rport (of_nat (length d)) @ d @ replicate (18 - length d) 0 @
     fcs_bytes (NOT (crc32 0xFFFFFFFF (frame_of p (rmac, rip, rport) d)))"
  by (simp add: wire_frame_def frame_of_def eth_frame_def)

lemma frame_fields:
  fixes p rmac rip rport d
  assumes "length d < 60000"
  defines "fr \<equiv> wire_frame (frame_of p (rmac, rip, rport) d)"
  shows "take 6 fr = mac_bytes rmac" "fr ! 12 = 0x08" "fr ! 13 = 0x00"
    and "drop 14 fr ! 0 = 0x45" "drop 14 fr ! 6 = 0" "drop 14 fr ! 7 = 0" "drop 14 fr ! 9 = 0x11" "ip_len (drop 14 fr) = 28 + of_nat (length d)"
    and "[drop 14 fr ! 16, drop 14 fr ! 17, drop 14 fr ! 18, drop 14 fr ! 19] = ip_bytes rip"
    and "[drop 34 fr ! 2, drop 34 fr ! 3] = be16 rport" "udp_len (drop 34 fr) = 8 + of_nat (length d)"
    and "source_of fr = (LOCAL_MAC p, LOCAL_IP p, LOCAL_PORT p)"
proof -
  have n: "fr ! k = frame_header p rmac rip rport (of_nat (length d)) ! k" if "k < 42" for k
    using that by (simp add: fr_def frame_prefix nth_append)
  have len: "42 \<le> length fr" by (simp add: fr_def frame_prefix)
  have m: "drop 14 fr ! k = fr ! (14 + k)" "drop 34 fr ! k = fr ! (34 + k)" if "k < 28" for k using len by simp_all
  note w = be_word_bytes(1) [unfolded be16_def] be_word_bytes(2) [unfolded ip_bytes_def, simplified] be_word_bytes(3) [unfolded mac_bytes_def, simplified]
  note h = frame_header_nth mac_bytes_def ip_bytes_def be16_def
  show "take 6 fr = mac_bytes rmac" by (simp add: fr_def frame_prefix h)
  show "fr ! 12 = 0x08" "fr ! 13 = 0x00" "drop 14 fr ! 0 = 0x45" "drop 14 fr ! 6 = 0" "drop 14 fr ! 7 = 0" "drop 14 fr ! 9 = 0x11"
    by (simp_all add: m n h)
  show "ip_len (drop 14 fr) = 28 + of_nat (length d)" "[drop 14 fr ! 16, drop 14 fr ! 17, drop 14 fr ! 18, drop 14 fr ! 19] = ip_bytes rip"
    "[drop 34 fr ! 2, drop 34 fr ! 3] = be16 rport" "udp_len (drop 34 fr) = 8 + of_nat (length d)"
    by (simp_all add: m n h ip_len_def udp_len_def w)
  show "source_of fr = (LOCAL_MAC p, LOCAL_IP p, LOCAL_PORT p)" by (simp add: source_of_def n h w)
qed

definition rx_endpoint :: "UdpRxParams \<Rightarrow> endpoint" where
  "rx_endpoint p = (RX_LOCAL_MAC p, RX_LOCAL_IP p, RX_LOCAL_PORT p)"

definition tx_endpoint :: "UdpTxParams \<Rightarrow> endpoint" where
  "tx_endpoint p = (LOCAL_MAC p, LOCAL_IP p, LOCAL_PORT p)"

lemma own_frame:
  fixes pt d p
  assumes "d \<noteq> []" "length d \<le> RX_MAX_PAYLOAD_BYTES p" "length d < 60000"
  defines "fr \<equiv> wire_frame (frame_of pt (rx_endpoint p) d)"
  shows "payload_size fr = length d" "rx_deliverable p fr" "payload_of fr = d" "source_of fr = tx_endpoint pt"
proof -
  note f = frame_fields [OF assms(3), of pt "RX_LOCAL_MAC p" "RX_LOCAL_IP p" "RX_LOCAL_PORT p", folded rx_endpoint_def, folded fr_def]
  have u: "unat (8 + of_nat (length d) :: u16) = 8 + length d" "unat (28 + of_nat (length d) :: u16) = 28 + length d"
    using assms(3) by (simp_all add: unat_word_ariths unsigned_of_nat take_bit_nat_eq_self)
  show n: "payload_size fr = length d" by (simp add: payload_size_def f u)
  have ip: "28 \<le> (28 + of_nat (length d) :: u16)" by (simp add: word_le_nat_alt u)
  have "unat (28 + of_nat (length d) - 20 :: u16) = 8 + length d" using u(2) by (subst unat_sub) (simp_all add: word_le_nat_alt)
  then have udp: "8 \<le> (8 + of_nat (length d) :: u16)" "8 + of_nat (length d) \<le> (28 + of_nat (length d) - 20 :: u16)" by (simp_all add: word_le_nat_alt u)
  have acc: "rx_accepts p fr" using f ip udp by (simp add: rx_accepts_def eth_ok_def ip_hdr_ok_def udp_hdr_ok_def)
  have "fr = frame_header pt (RX_LOCAL_MAC p) (RX_LOCAL_IP p) (RX_LOCAL_PORT p) (of_nat (length d)) @ d @ replicate (18 - length d) 0 @
      fcs_bytes (NOT (crc32 0xFFFFFFFF (frame_of pt (rx_endpoint p) d)))" by (simp add: fr_def frame_prefix rx_endpoint_def)
  then have l: "42 + length d \<le> length fr" "take (length d) (drop 42 fr) = d" by simp_all
  show "rx_deliverable p fr" using acc l assms(1,2) by (simp add: rx_deliverable_def n)
  show "payload_of fr = d" using l by (simp add: payload_of_def n)
  show "source_of fr = tx_endpoint pt" by (simp add: f tx_endpoint_def)
qed

text \<open>The frames of a stream, cut at the last-byte marks.\<close>

fun axis_split :: "u8 list \<Rightarrow> tx_stream \<Rightarrow> u8 list list" where
  "axis_split acc [] = []"
| "axis_split acc (b # bs) = (if axis_last b then rev (axis_data b # acc) # axis_split [] bs else axis_split (axis_data b # acc) bs)"

lemma axis_split_frame: "w \<noteq> [] \<Longrightarrow> axis_split acc (axis_frame w @ bs) = (rev acc @ w) # axis_split [] bs"
proof (induction w arbitrary: acc)
  case (Cons b w)
  then show ?case by (cases "w = []") (simp_all add: axis_frame_Cons axis_frame_def axis_bytes_def)
qed simp

lemma axis_split_frames: "list_all (\<lambda>w. w \<noteq> []) ws \<Longrightarrow> axis_split [] (axis_frames ws) = ws"
  by (induction ws) (simp_all add: axis_split_frame)

lemma frames_split: "axis_split [] (frames_of p adr ds) = map (\<lambda>d. wire_frame (frame_of p adr d)) ds"
  unfolding frames_of_def by (rule axis_split_frames) (auto simp: list_all_iff wire_frame_def fcs_bytes_def)


definition udp_rx_zero :: UdpRx where
  "udp_rx_zero = \<lparr>rx_state = RX_IDLE, rx_index = 0, dst_mac_match = False, dst_mac_bcast = False, ethertype_ipv4 = False, ip_ok = False,
     dst_ip_match = False, dst_ip_bcast = False, dst_ip_subnet_bcast = False, udp_port_match = False, ip_total_length = 0, udp_length = 0,
     payload_remaining = 0, rx_payload_len = 0, write_buf = False, read_buf = False, output_active = False, read_len = 0, read_index = 0,
     buf_len0 = 0, buf_len1 = 0, buf_pending0 = False, buf_pending1 = False, packet_src_mac = 0, packet_src_ip = 0, packet_src_port = 0,
     payload_mem0 = (\<lambda>_. 0), payload_mem1 = (\<lambda>_. 0), m_payload_tdata = 0, m_payload_tvalid = False, m_payload_tlast = False,
     packet_seen = False, packet_dropped = False, parser_error = False, debug_dst_mac_accepted = False, debug_ethertype_hi_accepted = False,
     debug_eth_accepted = False, debug_ip_accepted = False, remote_mac = 0, remote_ip = 0, remote_port = 0\<rparr>"

lemma udp_rx_reset_idle: "rx_out_idle (udp_rx_reset s)"
  by (simp add: udp_rx_reset_def rx_out_idle_def)

text \<open>A frame without pauses, followed by \<open>k\<close> cycles.\<close>

definition quick_cycle :: "bool \<Rightarrow> UdpRxIn" where
  "quick_cycle r = (rx_start_in r)\<lparr>rxi_frame_start := False\<rparr>"

definition quick_arrival :: "bool \<Rightarrow> u8 list \<Rightarrow> nat \<Rightarrow> arrival" where
  "quick_arrival r fr k = (r, map (\<lambda>b. (quick_cycle r)\<lparr>rxi_byte := b, rxi_byte_valid := True\<rparr>) fr, (quick_cycle r)\<lparr>rxi_frame_end := True\<rparr>,
     replicate k (quick_cycle r))"

lemma quick_arrival_ok:
  "arrival_frame (quick_arrival True fr k) = fr" "arrival_ok p (quick_arrival True fr k) \<longleftrightarrow> (rx_deliverable p fr \<longrightarrow> payload_size fr \<le> k)"
proof -
  have "list_all rx_body (map (\<lambda>b. (quick_cycle True)\<lparr>rxi_byte := b, rxi_byte_valid := True\<rparr>) fr)"
    by (simp add: list_all_iff rx_body_def quick_cycle_def rx_start_in_def)
  moreover have b: "rx_bytes (map (\<lambda>b. (quick_cycle True)\<lparr>rxi_byte := b, rxi_byte_valid := True\<rparr>) fr) = fr"
    by (simp add: rx_bytes_def comp_def)
  ultimately show "arrival_ok p (quick_arrival True fr k) \<longleftrightarrow> (rx_deliverable p fr \<longrightarrow> payload_size fr \<le> k)"
    by (simp add: quick_arrival_def rx_off_def quick_cycle_def rx_start_in_def ready_cycles_def list_all_iff)
  show "arrival_frame (quick_arrival True fr k) = fr" using b by (simp add: quick_arrival_def)
qed



text \<open>A frame with one byte of payload; two of them, the first of which is then taken.\<close>

definition small_frame :: "u8 list" where
  "small_frame = frame_header udp_tx_default (RX_LOCAL_MAC udp_rx_default) (RX_LOCAL_IP udp_rx_default) (RX_LOCAL_PORT udp_rx_default) 1 @ [7]"

definition two_waiting :: "UdpRxIn list" where
  "two_waiting = arrival_inputs (quick_arrival False small_frame 1) @ arrival_inputs (quick_arrival False small_frame 1) @ [quick_cycle True, quick_cycle False]"


end
