(* ===== verification/Board_Ethernet.thy ===== *)
theory Board_Ethernet
  imports Grace_Session Rtl_Udp_Rx
begin

text \<open>
  The kernel behind the transmit framer, as \<^verbatim>\<open>src/rtl/rmii_udp_stream_bridge.v\<close> connects them: the output stream of a session
  (\<^verbatim>\<open>src/src/hash_join_kernel.cpp\<close>) is the payload stream of the framer, and every message of the kernel is one datagram. The messages
  of algorithm A fit a datagram, and a session of it is sent completely; algorithm B fills its result buffer up to
  \<open>TX_BUF_SIZE\<close> pairs, and the framer never gets past the first result frame of more than 122 pairs.
\<close>

section \<open>Messages and datagrams\<close>

lemma tx_of_axis_frames: "tx_of ms = axis_frames (map msg_bytes ms)"
  by (simp add: tx_of_def axis_frames_def comp_def)

lemma length_result_bytes: "length (result_bytes rs) = 3 + 12 * length rs"
  by (induction rs) (simp_all add: result_bytes_def pair_bytes_def tid_bytes_def le16_def le32_def)

text \<open>The longest message of algorithm A carries \<open>RESULT_FLUSH_PAIRS\<close> pairs, in 1419 bytes.\<close>

definition short_msg :: "KernelMsg \<Rightarrow> bool" where
  "short_msg m \<longleftrightarrow> length (msg_pairs m) \<le> unat RESULT_FLUSH_PAIRS"

lemma short_msg_bytes: "msg_bytes m \<noteq> []" "short_msg m \<Longrightarrow> length (msg_bytes m) \<le> 1419"
proof -
  show "msg_bytes m \<noteq> []" by (cases m) (simp_all add: status_bytes_def error_bytes_def result_bytes_def timing_bytes_def debug_bytes_def)
  show "length (msg_bytes m) \<le> 1419" if "short_msg m"
    using that by (cases m) (simp_all add: short_msg_def length_result_bytes status_bytes_def error_bytes_def timing_bytes_def debug_bytes_def le16_def le32_def)
qed

lemma short_msgs [simp]:
  "short_msg (KStatus t ph pr ma cr sid)" "short_msg (KTiming tm)"
  "short_msg (KResult rs) \<longleftrightarrow> length rs \<le> 118" "list_all short_msg (debug_msgs synth lv code v)"
  by (simp_all add: debug_msgs_def short_msg_def)

lemma short_build_msgs [simp]:
  "list_all short_msg (configure_msgs synth n sid)" "list_all short_msg (build_msgs synth c pending received fs)"
proof -
  show "list_all short_msg (configure_msgs synth n sid)" by (simp add: configure_msgs_def)
  show "list_all short_msg (build_msgs synth c pending received fs)"
    by (induction synth c pending received fs rule: build_msgs.induct) (simp_all add: Let_def)
qed

lemma short_probe_rows: "length buf < 118 \<Longrightarrow> list_all short_msg (fst (probe_row_msgs synth m i buf ts))"
proof (induction ts arbitrary: i buf)
  case (Cons t ts)
  have "length (probe_pairs m [t]) \<le> 1" by (simp split: option.splits)
  then show ?case using Cons by (auto simp: Let_def split_beta)
qed simp

lemma short_probe_msgs: "length buf < 118 \<Longrightarrow> list_all short_msg (probe_msgs synth m c pending received matched buf fs)"
proof (induction fs arbitrary: pending received matched buf)
  case Nil
  then show ?case by (simp add: result_msgs_def)
next
  case (Cons f fs)
  then show ?case using short_probe_rows [of buf synth m 0 f] probe_row_msgs_buf [of buf synth m 0 f]
    by (auto simp: Let_def split_beta)
qed

lemma short_linear_session: "list_all short_msg (linear_session_msgs synth m c ifs ofs)"
  by (simp add: linear_session_msgs_def short_probe_msgs)

section \<open>Algorithm A\<close>

text \<open>C10. A session of algorithm A gets through the Ethernet framer: every message of the kernel fits a
  datagram, what leaves the board is at any time a prefix of the frames of these messages, one frame for each
  message in order, and all of it leaves the board once neither side has paused often enough.\<close>

theorem linear_session_on_ethernet:
  assumes "jc_algorithm cfg = ALGORITHM_A"
    and "frames_ok (jc_key_type cfg) ifs" "frames_ok (jc_key_type cfg) ofs"
    and "inner = concat ifs" "outer = concat ofs"
    and "length inner \<le> unat HT_MAX_ROWS" "length outer < 2 ^ 32" "length ofs \<le> 1000000"
    and "build_all ht_insert (ht_reset (k_ht k)) inner = (ERR_NONE, h)"
    and "k_rx k = map Some (serialize_configure cfg (of_nat (length inner)) (of_nat (length outer)) sid
           @ host_frames (jc_key_type cfg) MSG_INNER_DATA ifs
           @ host_frames (jc_key_type cfg) MSG_OUTER_DATA ofs) @ rest"
    and "k_tx k = []" "tx_quiet s" "1419 \<le> MAX_PAYLOAD_BYTES p" "MAX_PAYLOAD_BYTES p \<le> 1472"
    and "framer_loop p adr sched (k_tx (snd (kernel_session synth rtl k))) s = (out, left, s')"
  shows "\<exists>k' ms. kernel_session synth rtl k = (Continue, k') \<and> k_tx k' = tx_of ms \<and> pairs_of ms = join_spec inner outer \<and>
    prefix out (frames_of p adr (map msg_bytes ms)) \<and>
    (length (tx_of ms) + length (frames_of p adr (map msg_bytes ms)) < busy_cycles sched \<longrightarrow>
       out = frames_of p adr (map msg_bytes ms) \<and> left = [])"
proof -
  obtain k' where k': "kernel_session synth rtl k = (Continue, k')" "session_done_with sid (of_nat (length outer)) (of_nat (length (probe_pairs (ht_lookup h) outer)))
      (k_tx k @ tx_of (linear_session_msgs synth (ht_lookup h) (session_config cfg (of_nat (length inner)) (of_nat (length outer)) sid) ifs ofs)) k'"
    using kernel_session_linear [OF assms(1-10), of synth rtl] by blast
  let ?c = "session_config cfg (of_nat (length inner)) (of_nat (length outer)) sid"
  define ms where "ms = linear_session_msgs synth (ht_lookup h) ?c ifs ofs @
    [KTiming (k_timing k'), KStatus MSG_STATUS PHASE_DONE (of_nat (length outer)) (of_nat (length (probe_pairs (ht_lookup h) outer))) 0 sid]"
  have tx: "k_tx k' = tx_of ms" using k'(2) assms(11) by (simp add: session_done_with_def ms_def)
  have "probe_pairs (ht_lookup h) outer = join_spec inner outer"
    using lht.build_then_probe [of "k_ht k" inner outer] assms(9) by simp
  then have pairs: "pairs_of ms = join_spec inner outer" using assms(5) by (simp add: ms_def pairs_of_linear_session_msgs)
  have "list_all short_msg ms" by (simp add: ms_def short_linear_session)
  then have ok: "datagrams_ok p (map msg_bytes ms)" using assms(13) short_msg_bytes by (fastforce simp: datagrams_ok_def list_all_iff)
  have loop: "framer_loop p adr sched (axis_frames (map msg_bytes ms)) s = (out, left, s')" using assms(15) k'(1) tx by (simp add: tx_of_axis_frames)
  from datagrams_framed [OF assms(12) ok _ assms(14) loop] assms(13) k'(1) tx pairs show ?thesis
    by (intro exI [of _ k'] exI [of _ ms]) (simp add: tx_of_axis_frames)
qed

section \<open>Algorithm B\<close>

text \<open>C38. Algorithm B cannot send large results over Ethernet: when the join of one partition has more than 122
  pairs, the session ends with a result frame that no datagram can hold in its output; the framer sends at most what
  comes before that frame, whatever the pauses, and its input is never empty again. In particular
  the host gets no DONE.\<close>

theorem grace_results_stall_ethernet:
  assumes "jc_algorithm cfg = ALGORITHM_B" "frames_ok (jc_key_type cfg) ifs" "frames_ok (jc_key_type cfg) ofs"
    and "inner = concat ifs" "outer = concat ofs" "grace_admits K w inner outer"
    and "k_rx k = map Some (serialize_configure cfg (of_nat (length inner)) (of_nat (length outer)) sid
           @ host_frames (jc_key_type cfg) MSG_INNER_DATA ifs @ host_frames (jc_key_type cfg) MSG_OUTER_DATA ofs) @ rest"
    and "list_ex (\<lambda>j. 122 < length j) (partition_joins K inner outer)"
    and "k_tx k = []" "tx_quiet s" "0 < MAX_PAYLOAD_BYTES p" "MAX_PAYLOAD_BYTES p \<le> 1472"
    and "framer_loop p adr sched (k_tx (snd (kernel_session synth rtl k))) s = (out, left, s')"
  shows "\<exists>k' ms big ms'. kernel_session synth rtl k = (Continue, k') \<and> k_tx k' = tx_of (ms @ big # ms') \<and> ms' \<noteq> [] \<and>
    MAX_PAYLOAD_BYTES p < length (msg_bytes big) \<and> prefix out (frames_of p adr (map msg_bytes ms)) \<and> left \<noteq> []"
proof -
  obtain k' rs where k': "kernel_session synth rtl k = (Continue, k')" "covers_long (partition_joins K inner outer) rs"
    "k_tx k' = tx_of (configure_msgs synth (of_nat (length inner)) sid @ grace_ack_msgs PHASE_BUILDING sid (of_nat (length inner)) 0 ifs @
      grace_ack_msgs PHASE_PROBING sid (of_nat (length outer)) 0 ofs @ grace_final synth sid rs)"
    using kernel_session_grace [OF assms(1-7), of synth rtl] assms(9) by auto
  define pre where "pre = configure_msgs synth (of_nat (length inner)) sid @ grace_ack_msgs PHASE_BUILDING sid (of_nat (length inner)) 0 ifs @
      grace_ack_msgs PHASE_PROBING sid (of_nat (length outer)) 0 ofs @ rs"
  obtain fin where fin: "grace_final synth sid rs = rs @ fin" "fin \<noteq> []" by (simp add: grace_final_def)
  have tx: "k_tx k' = tx_of (pre @ fin)" using k'(3) fin by (simp add: pre_def)
  let ?long = "\<lambda>m. MAX_PAYLOAD_BYTES p < length (msg_bytes m)"
  have long: "?long m" if "122 < length (msg_pairs m)" for m using that assms(12) by (cases m) (simp_all add: length_result_bytes)
  have "\<exists>m \<in> set pre. ?long m" using k'(2) assms(8) long by (auto simp: covers_long_def list_ex_iff pre_def)
  then obtain ms big post where ms: "pre = ms @ big # post" "?long big" "\<forall>m \<in> set ms. \<not> ?long m" by (rule split_list_first_propE)
  have ok: "datagrams_ok p (map msg_bytes ms)" using ms(3) short_msg_bytes(1) by (auto simp: datagrams_ok_def list_all_iff)
  have "framer_loop p adr sched (axis_frames (map msg_bytes ms) @ axis_frame (msg_bytes big) @ tx_of (post @ fin)) s = (out, left, s')"
    using assms(13) k'(1) tx ms(1) by (simp add: tx_of_axis_frames axis_frames_append)
  from oversized_datagram_blocks [OF assms(10) ok assms(11,12) ms(2) this] k'(1) tx ms fin show ?thesis
    by (intro exI [of _ k'] exI [of _ ms] exI [of _ big] exI [of _ "post @ fin"]) simp
qed

theorem linear_session_on_ethernet_witness:
  "\<exists>k' ms left s'. kernel_session False rtl_absent (kernel_blank (map Some
     (serialize_configure \<lparr>jc_algorithm = ALGORITHM_A, jc_key_type = KEY_INT32\<rparr> 1 1 9
      @ host_frames KEY_INT32 MSG_INNER_DATA [[\<lparr>it_key = 9, it_tid = \<lparr>blkno = 0, offno = 2\<rparr>\<rparr>]]
      @ host_frames KEY_INT32 MSG_OUTER_DATA [[\<lparr>it_key = 9, it_tid = \<lparr>blkno = 1, offno = 1\<rparr>\<rparr>]]))) = (Continue, k') \<and>
     pairs_of ms = [\<lparr>inner_tid = \<lparr>blkno = 0, offno = 2\<rparr>, outer_tid = \<lparr>blkno = 1, offno = 1\<rparr>\<rparr>] \<and>
     framer_loop udp_tx_default (0x9C69D31F215E, 0xA9FEF23B, 50000)
       (replicate (Suc (length (tx_of ms) + length (frames_of udp_tx_default (0x9C69D31F215E, 0xA9FEF23B, 50000) (map msg_bytes ms)))) (True, True))
       (k_tx k') (udp_tx_reset udp_tx_default udp_tx_zero) =
     (frames_of udp_tx_default (0x9C69D31F215E, 0xA9FEF23B, 50000) (map msg_bytes ms), left, s') \<and> left = []"
proof -
  let ?ifs = "[[\<lparr>it_key = 9, it_tid = \<lparr>blkno = 0, offno = 2\<rparr>\<rparr>]] :: InputTuple list list"
  let ?ofs = "[[\<lparr>it_key = 9, it_tid = \<lparr>blkno = 1, offno = 1\<rparr>\<rparr>]] :: InputTuple list list"
  let ?cfg = "\<lparr>jc_algorithm = ALGORITHM_A, jc_key_type = KEY_INT32\<rparr>"
  let ?rx = "map Some (serialize_configure ?cfg 1 1 9 @ host_frames KEY_INT32 MSG_INNER_DATA ?ifs @ host_frames KEY_INT32 MSG_OUTER_DATA ?ofs)"
  let ?k = "kernel_blank ?rx" and ?p = udp_tx_default and ?adr = "(0x9C69D31F215E, 0xA9FEF23B, 50000) :: endpoint" and ?s = "udp_tx_reset udp_tx_default udp_tx_zero"
  have fr: "frames_ok KEY_INT32 ?ifs" "frames_ok KEY_INT32 ?ofs" by (simp_all add: frames_ok_def key_fits_def)
  have "fst (build_all ht_insert (ht_reset ht_blank) (concat ?ifs)) = ERR_NONE" by code_simp
  then have b: "build_all ht_insert (ht_reset (k_ht ?k)) (concat ?ifs) = (ERR_NONE, snd (build_all ht_insert (ht_reset ht_blank) (concat ?ifs)))"
    by (simp add: kernel_blank_def prod_eq_iff)
  have j: "join_spec (concat ?ifs) (concat ?ofs) = [\<lparr>inner_tid = \<lparr>blkno = 0, offno = 2\<rparr>, outer_tid = \<lparr>blkno = 1, offno = 1\<rparr>\<rparr>]" by code_simp
  have P: "1419 \<le> MAX_PAYLOAD_BYTES ?p" "MAX_PAYLOAD_BYTES ?p \<le> 1472" by (simp_all add: udp_tx_default_def)
  have T: "\<exists>k' ms. kernel_session False rtl_absent ?k = (Continue, k') \<and> k_tx k' = tx_of ms \<and> pairs_of ms = join_spec (concat ?ifs) (concat ?ofs) \<and>
      prefix out (frames_of ?p ?adr (map msg_bytes ms)) \<and>
      (length (tx_of ms) + length (frames_of ?p ?adr (map msg_bytes ms)) < busy_cycles sched \<longrightarrow> out = frames_of ?p ?adr (map msg_bytes ms) \<and> left = [])"
    if "framer_loop ?p ?adr sched (k_tx (snd (kernel_session False rtl_absent ?k))) ?s = (out, left, s')" for sched out left s'
    by (rule linear_session_on_ethernet [OF _ _ _ refl refl _ _ _ b _ _ udp_tx_reset_quiet P that, of ?cfg ?ofs 9 "[]"])
      (use fr in \<open>simp_all add: kernel_blank_def\<close>)
  obtain k' ms where k': "kernel_session False rtl_absent ?k = (Continue, k')" "k_tx k' = tx_of ms" "pairs_of ms = join_spec (concat ?ifs) (concat ?ofs)"
    using T [of "[]" "[]"] by auto
  define n sched where "n = Suc (length (tx_of ms) + length (frames_of ?p ?adr (map msg_bytes ms)))" and "sched = replicate n (True, True)"
  obtain out left s' where l: "framer_loop ?p ?adr sched (k_tx k') ?s = (out, left, s')" by (metis prod_cases3)
  then have "framer_loop ?p ?adr sched (k_tx (snd (kernel_session False rtl_absent ?k))) ?s = (out, left, s')" unfolding k'(1) by simp
  from T [OF this] obtain ms2 where ms2: "tx_of ms2 = tx_of ms" "length (tx_of ms2) + length (frames_of ?p ?adr (map msg_bytes ms2)) < busy_cycles sched \<longrightarrow>
      out = frames_of ?p ?adr (map msg_bytes ms2) \<and> left = []" unfolding k'(1) using k'(2) by auto
  have "axis_split [] (tx_of xs) = map msg_bytes xs" for xs
    unfolding tx_of_axis_frames by (rule axis_split_frames) (simp add: list_all_iff short_msg_bytes)
  then have "map msg_bytes ms2 = map msg_bytes ms" using ms2(1) by metis
  with ms2 have o: "out = frames_of ?p ?adr (map msg_bytes ms)" "left = []" by (simp_all add: busy_cycles_def sched_def n_def)
  have "framer_loop ?p ?adr sched (k_tx k') ?s = (frames_of ?p ?adr (map msg_bytes ms), left, s')" using l o(1) by (simp only:)
  with k'(1) k'(3) [unfolded j] o(2) show ?thesis unfolding sched_def n_def
    by (intro exI [of _ k'] exI [of _ ms] exI [of _ left] exI [of _ s'] conjI)
qed

definition wide_join_outer :: "InputTuple list" where
  "wide_join_outer = replicate 123 \<lparr>it_key = 9, it_tid = \<lparr>blkno = 1, offno = 1\<rparr>\<rparr>"

theorem grace_results_stall_ethernet_witness:
  "\<exists>out left s'. framer_loop udp_tx_default (0x9C69D31F215E, 0xA9FEF23B, 50000) (replicate 100000 (True, True))
     (k_tx (snd (kernel_session False rtl_absent (kernel_blank (map Some
       (serialize_configure \<lparr>jc_algorithm = ALGORITHM_B, jc_key_type = KEY_INT64\<rparr> 1 123 9
        @ host_frames KEY_INT64 MSG_INNER_DATA [[\<lparr>it_key = 9, it_tid = \<lparr>blkno = 0, offno = 2\<rparr>\<rparr>]]
        @ host_frames KEY_INT64 MSG_OUTER_DATA [wide_join_outer])))))) (udp_tx_reset udp_tx_default udp_tx_zero) = (out, left, s') \<and> left \<noteq> []"
proof -
  let ?ifs = "[[\<lparr>it_key = 9, it_tid = \<lparr>blkno = 0, offno = 2\<rparr>\<rparr>]] :: InputTuple list list"
  let ?ofs = "[wide_join_outer]"
  let ?cfg = "\<lparr>jc_algorithm = ALGORITHM_B, jc_key_type = KEY_INT64\<rparr>"
  let ?rx = "map Some (serialize_configure ?cfg 1 123 9 @ host_frames KEY_INT64 MSG_INNER_DATA ?ifs @ host_frames KEY_INT64 MSG_OUTER_DATA ?ofs)"
  let ?k = "kernel_blank ?rx" and ?p = udp_tx_default and ?adr = "(0x9C69D31F215E, 0xA9FEF23B, 50000) :: endpoint" and ?s = "udp_tx_reset udp_tx_default udp_tx_zero"
  obtain out left s' where l: "framer_loop ?p ?adr (replicate 100000 (True, True)) (k_tx (snd (kernel_session False rtl_absent ?k))) ?s = (out, left, s')"
    by (metis prod_cases3)
  have fr: "frames_ok KEY_INT64 ?ifs" "frames_ok KEY_INT64 ?ofs"
    by (simp_all add: frames_ok_def key_fits_def wide_join_outer_def list_all_iff)
  have n: "length (concat ?ofs) = 123" by (simp add: wide_join_outer_def)
  have chk: "check_configure ALGORITHM_B 1 123 = (ERR_NONE, 1, 496)" by code_simp
  have len: "length (part_rows K p xs) \<le> length xs" for K p xs by (simp add: part_rows_def)
  have fit: "inner_fits 1 (concat ?ifs)" "outer_fits 1 496 (concat ?ofs)"
    by (auto simp: inner_fits_def outer_fits_def wide_join_outer_def intro!: order_trans [OF len])
  have "fst (build_all ht_insert (ht_reset ht_blank) (part_rows 1 0 (concat ?ifs))) = ERR_NONE" by code_simp
  then have adm: "grace_admits 1 496 (concat ?ifs) (concat ?ofs)" using chk fit n by (simp add: grace_admits_def)
  have "length (join_spec (part_rows 1 0 (concat ?ifs)) (part_rows 1 0 (concat ?ofs))) = 123" by code_simp
  then have long: "list_ex (\<lambda>j. 122 < length j) (partition_joins 1 (concat ?ifs) (concat ?ofs))" by (simp add: partition_joins_def)
  have P: "0 < MAX_PAYLOAD_BYTES ?p" "MAX_PAYLOAD_BYTES ?p \<le> 1472" by (simp_all add: udp_tx_default_def)
  from grace_results_stall_ethernet [OF _ _ _ refl refl adm _ long _ udp_tx_reset_quiet P l, of ?cfg 9 "[]"] fr n l
  show ?thesis by (auto simp: kernel_blank_def)
qed

end
