(* ===== verification/Host_Transport.thy ===== *)
theory Host_Transport
  imports Wire_Types
begin

text \<open>
  The transport interface of the host (\<^verbatim>\<open>src/host/include/transport.hpp\<close>), the mock transport
  (\<^verbatim>\<open>src/host/include/mock_transport.hpp\<close>) and the contract the protocol code relies on. An
  operation that may throw returns \<open>Inl\<close> of the exception, with the state it leaves behind.
\<close>

section \<open>Exceptions\<close>

text \<open>What the host code throws. Two values are not exceptions of the code: \<open>Diverged\<close> is the outcome of a
  loop that has used up its fuel, \<open>OutOfBounds\<close> that of an access outside a buffer, which C++ leaves
  undefined.\<close>

datatype exn =
    FpgaException string
  | FpgaTimeoutException
  | FpgaErrorException u8
  | RuntimeError string
  | TransportError string
  | Diverged
  | OutOfBounds

text \<open>Running one operation after another: an exception skips the rest.\<close>

definition bindx :: "('s \<Rightarrow> (exn + 'a) \<times> 's) \<Rightarrow> ('a \<Rightarrow> 's \<Rightarrow> (exn + 'b) \<times> 's) \<Rightarrow> 's \<Rightarrow> (exn + 'b) \<times> 's" where
  "bindx m f s = (case m s of (Inl e, s') \<Rightarrow> (Inl e, s') | (Inr a, s') \<Rightarrow> f a s')"

lemma bindx_simps [simp]:
  "m s = (Inr a, s') \<Longrightarrow> bindx m f s = f a s'" "m s = (Inl e, s') \<Longrightarrow> bindx m f s = (Inl e, s')"
  by (simp_all add: bindx_def)

section \<open>The transport interface\<close>

text \<open>\<open>ITransport\<close>: a table of operations on the state of a transport. \<open>it_recv n\<close> returns at most \<open>n\<close>
  bytes, none when no data is available.\<close>

record 't ITransport =
  it_send :: "u8 list \<Rightarrow> 't \<Rightarrow> (exn + unit) \<times> 't"
  it_recv :: "nat \<Rightarrow> 't \<Rightarrow> (exn + u8 list) \<times> 't"
  it_reset :: "'t \<Rightarrow> (exn + unit) \<times> 't"

section \<open>The mock transport\<close>

record MockTransport =
  response_queue :: "u8 list list"
  recv_buf :: "u8 list"
  sent_bytes :: "u8 list"
  send_lengths :: "nat list"

definition mock_send :: "u8 list \<Rightarrow> MockTransport \<Rightarrow> (exn + unit) \<times> MockTransport" where
  "mock_send data t =
     (Inr (), t\<lparr>sent_bytes := sent_bytes t @ data, send_lengths := send_lengths t @ [length data]\<rparr>)"

text \<open>The loop that looks for a non-empty response, over the queue.\<close>

fun mock_refill :: "u8 list \<Rightarrow> u8 list list \<Rightarrow> u8 list \<times> u8 list list" where
  "mock_refill buf q = (if buf \<noteq> [] then (buf, q) else case q of [] \<Rightarrow> ([], []) | r # q \<Rightarrow> mock_refill r q)"

declare mock_refill.simps [simp del]

definition mock_recv :: "nat \<Rightarrow> MockTransport \<Rightarrow> (exn + u8 list) \<times> MockTransport" where
  "mock_recv max_len t =
     (case mock_refill (recv_buf t) (response_queue t) of
        (buf, q) \<Rightarrow> let n = min max_len (length buf)
                    in (Inr (take n buf), t\<lparr>recv_buf := drop n buf, response_queue := q\<rparr>))"

definition mock_reset :: "MockTransport \<Rightarrow> MockTransport" where
  "mock_reset t = t\<lparr>sent_bytes := [], send_lengths := [], response_queue := [], recv_buf := []\<rparr>"

definition push_response :: "u8 list \<Rightarrow> MockTransport \<Rightarrow> MockTransport" where
  "push_response frame t = t\<lparr>response_queue := response_queue t @ [frame]\<rparr>"

definition clear_sent :: "MockTransport \<Rightarrow> MockTransport" where
  "clear_sent t = t\<lparr>sent_bytes := [], send_lengths := []\<rparr>"

definition all_responses_consumed :: "MockTransport \<Rightarrow> bool" where
  "all_responses_consumed t \<longleftrightarrow> response_queue t = [] \<and> recv_buf t = []"

definition mock_transport :: "MockTransport ITransport" where
  "mock_transport = \<lparr>it_send = mock_send, it_recv = mock_recv, it_reset = (\<lambda>t. (Inr (), mock_reset t))\<rparr>"

definition mock_blank :: MockTransport where
  "mock_blank = \<lparr>response_queue = [], recv_buf = [], sent_bytes = [], send_lengths = []\<rparr>"

section \<open>The contract of a byte channel\<close>

text \<open>A channel with \<open>pending\<close> input: a read returns a prefix of it, not longer than asked for and
  not empty when there is something to read, and nothing is lost or reordered.\<close>

locale byte_channel =
  fixes tr :: "'t ITransport" and pending :: "'t \<Rightarrow> u8 list"
  assumes recv_prefix: "0 < n \<Longrightarrow> \<exists>m t'. it_recv tr n t = (Inr (take m (pending t)), t') \<and>
      pending t' = drop m (pending t) \<and> m \<le> n \<and> m \<le> length (pending t) \<and> (pending t \<noteq> [] \<longrightarrow> 0 < m)"
begin

lemma recv_empty: "0 < n \<Longrightarrow> pending t = [] \<Longrightarrow> \<exists>t'. it_recv tr n t = (Inr [], t') \<and> pending t' = []"
  using recv_prefix [of n t] by auto

lemma recv_one: "pending t = b # bs \<Longrightarrow> \<exists>t'. it_recv tr 1 t = (Inr [b], t') \<and> pending t' = bs"
  using recv_prefix [of 1 t] by (fastforce simp: take_Cons' le_Suc_eq)

end

definition mock_pending :: "MockTransport \<Rightarrow> u8 list" where
  "mock_pending t = recv_buf t @ concat (response_queue t)"

lemma mock_refill_concat: "mock_refill buf q = (buf', q') \<Longrightarrow> buf' @ concat q' = buf @ concat q"
  by (induction buf q rule: mock_refill.induct) (subst (asm) (2) mock_refill.simps, auto split: if_splits list.splits)

lemma mock_refill_empty: "mock_refill buf q = ([], q') \<Longrightarrow> q' = []"
  by (induction buf q rule: mock_refill.induct) (subst (asm) (2) mock_refill.simps, auto split: if_splits list.splits)

interpretation mock: byte_channel mock_transport mock_pending
proof
  fix n :: nat and t :: MockTransport
  assume n: "0 < n"
  obtain buf q where r: "mock_refill (recv_buf t) (response_queue t) = (buf, q)" by fastforce
  let ?m = "min n (length buf)"
  have p: "mock_pending t = buf @ concat q"
    using mock_refill_concat [OF r] by (simp add: mock_pending_def)
  have "buf = [] \<Longrightarrow> mock_pending t = []"
    using p r mock_refill_empty by fastforce
  with n p r show "\<exists>m t'. it_recv mock_transport n t = (Inr (take m (mock_pending t)), t') \<and>
      mock_pending t' = drop m (mock_pending t) \<and> m \<le> n \<and> m \<le> length (mock_pending t) \<and>
      (mock_pending t \<noteq> [] \<longrightarrow> 0 < m)"
    by (intro exI [of _ ?m] exI [of _ "t\<lparr>recv_buf := drop ?m buf, response_queue := q\<rparr>"])
      (auto simp: mock_transport_def mock_recv_def Let_def mock_pending_def)
qed

text \<open>The mock transport delivers the queued responses as one byte stream: reading with any
  positive buffer size returns a non-empty prefix while bytes remain, nothing is lost,
  duplicated or reordered, and an exhausted queue reads as no data.\<close>

lemma mock_recv_stream:
  assumes "0 < n"
  shows "\<exists>bs t'. mock_recv n t = (Inr bs, t') \<and> length bs \<le> n \<and>
    bs @ mock_pending t' = mock_pending t \<and> (bs = [] \<longleftrightarrow> mock_pending t = [])"
proof -
  from mock.recv_prefix [OF assms, of t] obtain m t' where
    "mock_recv n t = (Inr (take m (mock_pending t)), t')" "mock_pending t' = drop m (mock_pending t)"
    "m \<le> n" "m \<le> length (mock_pending t)" "mock_pending t \<noteq> [] \<longrightarrow> 0 < m"
    by (auto simp: mock_transport_def)
  then show ?thesis by (intro exI [of _ "take m (mock_pending t)"] exI [of _ t']) auto
qed

theorem mock_recv_stream_witness:
  "\<exists>bs t'. mock_recv 4 (push_response [1, 2] (push_response [] (push_response [7, 8, 9] mock_blank))) = (Inr bs, t') \<and>
     length bs \<le> 4 \<and> bs @ mock_pending t' = [7, 8, 9, 1, 2]"
  using mock_recv_stream [of 4 "push_response [1, 2] (push_response [] (push_response [7, 8, 9] mock_blank))"]
  by (auto simp: push_response_def mock_blank_def mock_pending_def)

end
