(* ===== verification/Result_Decoder.thy ===== *)
theory Result_Decoder
  imports Host_Transport Kernel_Stream
begin

text \<open>
  The host's frame decoder (\<^verbatim>\<open>src/host/src/result_decoder.cpp\<close>): the reads it makes from the
  transport, the parsing of every message type and its inversion of the kernel's frame
  builders. The log output is left out; the texts of exceptions stand without the numbers the
  code appends.
\<close>

section \<open>Reading from the transport\<close>

function recv_exact :: "'t ITransport \<Rightarrow> nat \<Rightarrow> 't \<Rightarrow> (exn + u8 list) \<times> 't" where
  "recv_exact tr n t =
     (if n = 0 then (Inr [], t)
      else case it_recv tr n t of
             (Inl e, t') \<Rightarrow> (Inl e, t')
           | (Inr got, t') \<Rightarrow>
               if length got > 0 then
                 (case recv_exact tr (n - length got) t' of
                    (Inl e, t'') \<Rightarrow> (Inl e, t'')
                  | (Inr bs, t'') \<Rightarrow> (Inr (got @ bs), t''))
               else (Inl (RuntimeError ''ResultDecoder: partial protocol frame timed out''), t'))"
  by pat_completeness auto
termination
  by (relation "measure (\<lambda>(tr, n, t). n)") auto

declare recv_exact.simps [simp del]

definition read_u16 :: "u8 list \<Rightarrow> u16" where
  "read_u16 p = ucast (p ! 0) OR push_bit 8 (ucast (p ! 1))"

definition read_u32 :: "u8 list \<Rightarrow> u32" where
  "read_u32 p = ucast (p ! 0) OR push_bit 8 (ucast (p ! 1)) OR push_bit 16 (ucast (p ! 2)) OR
     push_bit 24 (ucast (p ! 3))"

definition read_u64 :: "u8 list \<Rightarrow> u64" where
  "read_u64 p = foldl (\<lambda>v i. v OR push_bit (8 * i) (ucast (p ! i))) 0 [0..<8]"

definition read_tid :: "u8 list \<Rightarrow> Tid" where
  "read_tid p = \<lparr>blkno = read_u32 p, offno = read_u16 (drop 4 p)\<rparr>"

section \<open>Frames\<close>

text \<open>The message type and the out-parameter it fills, as one value; \<open>HfNone\<close> is \<open>MSG_NONE\<close>.\<close>

datatype HostFrame =
    HfNone
  | HfResult "ResultPair list"
  | HfAck AckInfo
  | HfStatus AckInfo
  | HfError u8
  | HfDebug u8 u16 u32
  | HfTiming TimingSummaryPayload

record ResultDecoder =
  has_timing :: bool
  timing_frames :: u32
  decoder_timing :: TimingSummaryPayload

definition decoder_init :: ResultDecoder where
  "decoder_init = \<lparr>has_timing = False, timing_frames = 0, decoder_timing = timing_zero\<rparr>"

text \<open>\<open>require_count\<close>; the number the code appends to the text is left out.\<close>

definition require_count :: "u16 \<Rightarrow> u16 \<Rightarrow> string \<Rightarrow> exn option" where
  "require_count got expected msg_name =
     (if got \<noteq> expected then Some (RuntimeError (''ResultDecoder: bad '' @ msg_name @ '' count '')) else None)"

definition decode_pair :: "u8 list \<Rightarrow> ResultPair" where
  "decode_pair buf = \<lparr>inner_tid = read_tid buf, outer_tid = read_tid (drop 6 buf)\<rparr>"

fun decode_pairs :: "nat \<Rightarrow> u8 list \<Rightarrow> ResultPair list" where
  "decode_pairs 0 payload = []"
| "decode_pairs (Suc n) payload = decode_pair payload # decode_pairs n (drop 12 payload)"

definition decode_ack :: "u8 list \<Rightarrow> AckInfo" where
  "decode_ack buf = \<lparr>ack_phase = buf ! 0, ack_session_id = buf ! 1, ack_credit = read_u16 (drop 2 buf),
     rows_processed = read_u32 (drop 4 buf), rows_matched = read_u32 (drop 8 buf)\<rparr>"

definition decode_debug :: "u8 list \<Rightarrow> HostFrame" where
  "decode_debug buf = HfDebug (buf ! 0) (read_u16 (drop 1 buf)) (read_u32 (drop 3 buf))"

text \<open>A read at the cursor, which moves behind it.\<close>

definition next_u16 :: "u8 list \<Rightarrow> u16 \<times> u8 list" where
  "next_u16 p = (read_u16 p, drop 2 p)"

definition next_u32 :: "u8 list \<Rightarrow> u32 \<times> u8 list" where
  "next_u32 p = (read_u32 p, drop 4 p)"

definition next_u64 :: "u8 list \<Rightarrow> u64 \<times> u8 list" where
  "next_u64 p = (read_u64 p, drop 8 p)"

definition decode_timing :: "u8 list \<Rightarrow> TimingSummaryPayload" where
  "decode_timing p =
     (let (version, p) = next_u16 p; (flags, p) = next_u16 p; (clock_hz, p) = next_u32 p;
          (inner_rows, p) = next_u32 p; (outer_rows, p) = next_u32 p; (matched_rows, p) = next_u32 p;
          (inner_frames, p) = next_u32 p; (outer_frames, p) = next_u32 p;
          (result_frames, p) = next_u32 p; (ack_frames, p) = next_u32 p; (debug_frames, p) = next_u32 p;
          (bytes_rx, p) = next_u32 p; (bytes_tx, p) = next_u32 p;
          (session_total_cycles, p) = next_u64 p; (config_cycles, p) = next_u64 p;
          (build_rx_cycles, p) = next_u64 p; (build_compute_cycles, p) = next_u64 p;
          (build_total_cycles, p) = next_u64 p; (probe_rx_cycles, p) = next_u64 p;
          (probe_compute_cycles, p) = next_u64 p; (result_emit_cycles, p) = next_u64 p;
          (probe_total_cycles, p) = next_u64 p; (ack_emit_cycles, p) = next_u64 p;
          (rx_wait_cycles, p) = next_u64 p; (tx_blocked_cycles, p) = next_u64 p;
          (protocol_wait_cycles, p) = next_u64 p;
          (max_build_batch_cycles, p) = next_u32 p; (max_probe_batch_cycles, p) = next_u32 p;
          (max_result_frame_cycles, p) = next_u32 p;
          (hash_build_inserts, p) = next_u32 p; (hash_probe_lookups, p) = next_u32 p;
          (hash_probe_hits, p) = next_u32 p; (hash_probe_misses, p) = next_u32 p;
          (hash_overflow_errors, p) = next_u32 p; (hash_build_collision_steps, p) = next_u32 p;
          (hash_probe_collision_steps, p) = next_u32 p;
          (hash_max_build_probe_distance, p) = next_u16 p; (hash_max_probe_distance, p) = next_u16 p;
          (hash_table_load_factor_ppm, p) = next_u32 p
      in \<lparr>t_version = version, t_flags = flags, t_clock_hz = clock_hz, t_inner_rows = inner_rows,
          t_outer_rows = outer_rows, t_matched_rows = matched_rows, t_inner_frames = inner_frames,
          t_outer_frames = outer_frames, t_result_frames = result_frames, t_ack_frames = ack_frames,
          t_debug_frames = debug_frames, t_bytes_rx = bytes_rx, t_bytes_tx = bytes_tx,
          t_session_total_cycles = session_total_cycles, t_config_cycles = config_cycles,
          t_build_rx_cycles = build_rx_cycles, t_build_compute_cycles = build_compute_cycles,
          t_build_total_cycles = build_total_cycles, t_probe_rx_cycles = probe_rx_cycles,
          t_probe_compute_cycles = probe_compute_cycles, t_result_emit_cycles = result_emit_cycles,
          t_probe_total_cycles = probe_total_cycles, t_ack_emit_cycles = ack_emit_cycles,
          t_rx_wait_cycles = rx_wait_cycles, t_tx_blocked_cycles = tx_blocked_cycles,
          t_protocol_wait_cycles = protocol_wait_cycles,
          t_max_build_batch_cycles = max_build_batch_cycles,
          t_max_probe_batch_cycles = max_probe_batch_cycles,
          t_max_result_frame_cycles = max_result_frame_cycles,
          t_hash_build_inserts = hash_build_inserts, t_hash_probe_lookups = hash_probe_lookups,
          t_hash_probe_hits = hash_probe_hits, t_hash_probe_misses = hash_probe_misses,
          t_hash_overflow_errors = hash_overflow_errors,
          t_hash_build_collision_steps = hash_build_collision_steps,
          t_hash_probe_collision_steps = hash_probe_collision_steps,
          t_hash_max_build_probe_distance = hash_max_build_probe_distance,
          t_hash_max_probe_distance = hash_max_probe_distance,
          t_hash_table_load_factor_ppm = hash_table_load_factor_ppm\<rparr>)"

text \<open>One message with a payload of a fixed size and a required count.\<close>

definition recv_payload ::
  "'t ITransport \<Rightarrow> exn option \<Rightarrow> nat \<Rightarrow> (u8 list \<Rightarrow> HostFrame) \<Rightarrow> 't \<Rightarrow> (exn + HostFrame) \<times> 't" where
  "recv_payload tr bad n decode t =
     (case bad of Some e \<Rightarrow> (Inl e, t)
      | None \<Rightarrow> bindx (recv_exact tr n) (\<lambda>buf t. (Inr (decode buf), t)) t)"

text \<open>The \<open>switch\<close> on the message type.\<close>

definition recv_body :: "'t ITransport \<Rightarrow> u8 \<Rightarrow> u16 \<Rightarrow> 't \<Rightarrow> (exn + HostFrame) \<times> 't" where
  "recv_body tr msg cnt t =
     (if msg = MSG_RESULT then
        (if ucast cnt > TX_BUF_SIZE then (Inl (RuntimeError ''ResultDecoder: oversized MSG_RESULT count ''), t)
         else bindx (recv_exact tr (unat cnt * 12)) (\<lambda>payload t. (Inr (HfResult (decode_pairs (unat cnt) payload)), t)) t)
      else if msg = MSG_ACK then recv_payload tr (require_count cnt 1 ''MSG_ACK'') 12 (\<lambda>buf. HfAck (decode_ack buf)) t
      else if msg = MSG_STATUS then
        recv_payload tr (require_count cnt 1 ''MSG_STATUS'') 12 (\<lambda>buf. HfStatus (decode_ack buf)) t
      else if msg = MSG_ERROR then recv_payload tr (require_count cnt 1 ''MSG_ERROR'') 1 (\<lambda>buf. HfError (buf ! 0)) t
      else if msg = MSG_DEBUG then recv_payload tr (require_count cnt 1 ''MSG_DEBUG'') 7 decode_debug t
      else if msg = MSG_TIMING then
        recv_payload tr (require_count cnt TIMING_SUMMARY_COUNT ''MSG_TIMING'') (unat TIMING_SUMMARY_BYTES)
          (\<lambda>buf. HfTiming (decode_timing buf)) t
      else (Inl (RuntimeError ''ResultDecoder: unknown msg_type 0x''), t))"

text \<open>The part of the decoder a timing frame changes.\<close>

definition note_timing :: "HostFrame \<Rightarrow> ResultDecoder \<Rightarrow> ResultDecoder" where
  "note_timing f d = (case f of
     HfTiming tm \<Rightarrow> d\<lparr>has_timing := True, timing_frames := timing_frames d + 1, decoder_timing := tm\<rparr>
   | _ \<Rightarrow> d)"

definition recv_frame ::
  "'t ITransport \<Rightarrow> ResultDecoder \<times> 't \<Rightarrow> (exn + HostFrame) \<times> ResultDecoder \<times> 't" where
  "recv_frame tr dt = (case dt of (d, t) \<Rightarrow>
     (case it_recv tr 1 t of
        (Inl e, t) \<Rightarrow> (Inl e, d, t)
      | (Inr [], t) \<Rightarrow> (Inr HfNone, d, t)
      | (Inr (msg_type # _), t) \<Rightarrow>
          (case bindx (recv_exact tr 2) (\<lambda>count_bytes. recv_body tr msg_type (read_u16 count_bytes)) t of
             (Inl e, t) \<Rightarrow> (Inl e, d, t)
           | (Inr f, t) \<Rightarrow> (Inr f, note_timing f d, t))))"

section \<open>Decoding what the kernel encodes\<close>

lemma nth_simps [simp]: "(a # b # xs) ! Suc 0 = b" by simp

lemma read_le [simp]:
  "read_u16 (le16 a @ r) = a" "read_u32 (le32 b @ r) = b" "read_u64 (le64 c @ r) = c"
proof -
  show "read_u16 (le16 a @ r) = a"
    using of_le16_bytes [of a] by (simp add: read_u16_def le16_def of_le16_def)
  show "read_u32 (le32 b @ r) = b"
    using of_le32_bytes [of b] by (simp add: read_u32_def le32_def of_le32_def numeral_eq_Suc)
  show "read_u64 (le64 c @ r) = c"
    using of_le64_bytes [of c]
    by (simp add: read_u64_def le64_def of_le64_def upt_rec nth_Cons' ac_simps)
qed

lemma read_le_nil [simp]:
  "read_u16 (le16 a) = a" "read_u32 (le32 b) = b" "read_u64 (le64 c) = c"
  using read_le(1) [of a "[]"] read_le(2) [of b "[]"] read_le(3) [of c "[]"] by simp_all

lemma next_le [simp]:
  "next_u16 (le16 a @ r) = (a, r)" "next_u32 (le32 b @ r) = (b, r)" "next_u64 (le64 c @ r) = (c, r)"
  "next_u32 (le32 b) = (b, [])"
  by (simp_all add: next_u16_def next_u32_def next_u64_def)

lemma decode_timing_bytes: "decode_timing (drop 3 (timing_bytes t)) = t"
  unfolding timing_bytes_def decode_timing_def Let_def by (simp add: le16_def [of 1])

text \<open>The host's view of a kernel message, and the messages the protocol allows.\<close>

fun host_frame :: "KernelMsg \<Rightarrow> HostFrame" where
  "host_frame (KStatus type phase processed matched credit sid) =
     (let a = \<lparr>ack_phase = phase_byte phase, ack_session_id = sid, ack_credit = credit,
               rows_processed = processed, rows_matched = matched\<rparr>
      in if type = MSG_ACK then HfAck a else HfStatus a)"
| "host_frame (KError e) = HfError (error_byte e)"
| "host_frame (KResult rs) = HfResult rs"
| "host_frame (KTiming t) = HfTiming t"
| "host_frame (KDebug level code value) = HfDebug (level_byte level) (dbg_code code) value"

fun msg_ok :: "KernelMsg \<Rightarrow> bool" where
  "msg_ok (KStatus type _ _ _ _ _) \<longleftrightarrow> type = MSG_ACK \<or> type = MSG_STATUS"
| "msg_ok (KResult rs) \<longleftrightarrow> length rs \<le> unat TX_BUF_SIZE"
| "msg_ok _ \<longleftrightarrow> True"

lemma decode_pair_bytes [simp]: "decode_pair (pair_bytes r @ s) = r"
  by (simp add: decode_pair_def pair_bytes_def tid_bytes_def read_tid_def)

lemma length_pair_bytes [simp]: "length (pair_bytes r) = 12"
  by (simp add: pair_bytes_def tid_bytes_def)

lemma decode_pairs_bytes: "decode_pairs (length rs) (concat (map pair_bytes rs) @ s) = rs"
  by (induction rs) simp_all

lemma length_concat_pair_bytes: "length (concat (map pair_bytes rs)) = 12 * length rs"
  by (induction rs) simp_all

lemma drop_Suc_numeral [simp]: "drop (Suc 0) (x # xs) = xs" by simp

lemma decode_ack_bytes:
  "decode_ack (phase_byte ph # sid # le16 credit @ le32 processed @ le32 matched) =
     \<lparr>ack_phase = phase_byte ph, ack_session_id = sid, ack_credit = credit,
      rows_processed = processed, rows_matched = matched\<rparr>"
  by (simp add: decode_ack_def numeral_eq_Suc)

lemma decode_debug_bytes:
  "decode_debug (level_byte l # le16 code @ le32 v) = HfDebug (level_byte l) code v"
  by (simp add: decode_debug_def numeral_eq_Suc)

text \<open>The payload of a message, after the type and the count.\<close>

definition msg_count :: "KernelMsg \<Rightarrow> u16" where
  "msg_count m = (case m of KResult rs \<Rightarrow> of_nat (length rs) | _ \<Rightarrow> 1)"

lemma msg_bytes_split:
  "msg_bytes m = hd (msg_bytes m) # le16 (msg_count m) @ drop 3 (msg_bytes m)"
  by (cases m) (simp_all add: msg_count_def status_bytes_def error_bytes_def result_bytes_def timing_bytes_def
      debug_bytes_def le16_def)

context byte_channel
begin

lemma recv_exact_ok:
  "n \<le> length (pending t) \<Longrightarrow>
     \<exists>t'. recv_exact tr n t = (Inr (take n (pending t)), t') \<and> pending t' = drop n (pending t)"
proof (induction n arbitrary: t rule: less_induct)
  case (less n)
  show ?case
  proof (cases "n = 0")
    case True
    then show ?thesis by (subst recv_exact.simps) simp
  next
    case False
    then obtain m t1 where r: "it_recv tr n t = (Inr (take m (pending t)), t1)"
      "pending t1 = drop m (pending t)" "m \<le> n" "0 < m" "m \<le> length (pending t)"
      using recv_prefix [of n t] less.prems by fastforce
    have len: "length (take m (pending t)) = m" using r(5) by simp
    have le: "n - m \<le> length (pending t1)" using r(2) less.prems by simp
    obtain t2 where "recv_exact tr (n - m) t1 = (Inr (take (n - m) (drop m (pending t))), t2)"
      "pending t2 = drop (n - m) (drop m (pending t))"
      using less.IH [OF _ le] r(2,4) False by auto
    moreover have "take n (pending t) = take m (pending t) @ take (n - m) (drop m (pending t))"
      using r(3) by (metis le_add_diff_inverse take_add)
    ultimately show ?thesis
      using r(1,3,4) False len by (subst recv_exact.simps) simp
  qed
qed

lemma recv_exact_short:
  "length (pending t) < n \<Longrightarrow> \<exists>t'. recv_exact tr n t =
     (Inl (RuntimeError ''ResultDecoder: partial protocol frame timed out''), t')"
proof (induction n arbitrary: t rule: less_induct)
  case (less n)
  obtain m t1 where r: "it_recv tr n t = (Inr (take m (pending t)), t1)"
    "pending t1 = drop m (pending t)" "m \<le> n" "m \<le> length (pending t)" "pending t \<noteq> [] \<longrightarrow> 0 < m"
    using recv_prefix [of n t] less.prems by fastforce
  have len: "length (take m (pending t)) = m" using r(4) by simp
  show ?case
  proof (cases "m = 0")
    case True
    with r less.prems show ?thesis by (subst recv_exact.simps) simp
  next
    case False
    have "length (pending t1) < n - m" using r(2,4) less.prems by simp
    then obtain t2 where "recv_exact tr (n - m) t1 =
        (Inl (RuntimeError ''ResultDecoder: partial protocol frame timed out''), t2)"
      using less.IH [of "n - m" t1] False less.prems by auto
    with r(1) False len less.prems show ?thesis by (subst recv_exact.simps) simp
  qed
qed

lemma recv_payload_ok:
  assumes "pending t = payload @ rest" "length payload = n"
  shows "\<exists>t'. recv_payload tr None n decode t = (Inr (decode payload), t') \<and> pending t' = rest"
  using recv_exact_ok [of n t] assms by (auto simp: recv_payload_def)

lemma recv_body_msg:
  assumes "pending t = drop 3 (msg_bytes m) @ rest" "msg_ok m"
  shows "\<exists>t'. recv_body tr (hd (msg_bytes m)) (msg_count m) t = (Inr (host_frame m), t') \<and> pending t' = rest"
proof (cases m)
  case (KStatus type phase processed matched credit sid)
  let ?p = "phase_byte phase # sid # le16 credit @ le32 processed @ le32 matched"
  have p: "pending t = ?p @ rest" "length ?p = 12"
    using assms(1) KStatus by (simp_all add: status_bytes_def le16_def [of 1])
  show ?thesis
    using assms(2) KStatus recv_payload_ok [OF p, of "\<lambda>buf. HfAck (decode_ack buf)"]
      recv_payload_ok [OF p, of "\<lambda>buf. HfStatus (decode_ack buf)"]
    by (auto simp: recv_body_def msg_count_def status_bytes_def require_count_def decode_ack_bytes)
next
  case (KError e)
  have p: "pending t = [error_byte e] @ rest" "length [error_byte e] = 1"
    using assms(1) KError by (simp_all add: error_bytes_def le16_def [of 1])
  show ?thesis
    using KError recv_payload_ok [OF p, of "\<lambda>buf. HfError (buf ! 0)"]
    by (simp add: recv_body_def msg_count_def error_bytes_def require_count_def)
next
  case (KResult rs)
  let ?p = "concat (map pair_bytes rs)"
  have p: "pending t = ?p @ rest" using assms(1) KResult by (simp add: result_bytes_def le16_def)
  have len: "length rs \<le> 256" using assms(2) KResult by simp
  then have c: "unat (of_nat (length rs) :: u16) = length rs"
    by (simp add: unsigned_of_nat take_bit_nat_eq_self)
  have "\<not> ucast (of_nat (length rs) :: u16) > TX_BUF_SIZE"
    using len by (simp add: word_less_nat_alt unsigned_ucast_eq unsigned_of_nat take_bit_nat_eq_self)
  moreover obtain t' where "recv_exact tr (length rs * 12) t = (Inr ?p, t')" "pending t' = rest"
    using recv_exact_ok [of "length rs * 12" t] p length_concat_pair_bytes [of rs] by (auto simp: mult.commute)
  ultimately show ?thesis
    using KResult decode_pairs_bytes [of rs "[]"] c
    by (simp add: recv_body_def msg_count_def result_bytes_def)
next
  case (KTiming tm)
  have p: "pending t = drop 3 (timing_bytes tm) @ rest" "length (drop 3 (timing_bytes tm)) = 200"
    using assms(1) KTiming by (simp_all add: timing_bytes_def)
  have hd: "hd (timing_bytes tm) = MSG_TIMING" by (simp add: timing_bytes_def)
  show ?thesis
    using KTiming recv_payload_ok [OF p, of "\<lambda>buf. HfTiming (decode_timing buf)"] hd
    by (simp add: recv_body_def msg_count_def require_count_def decode_timing_bytes)
next
  case (KDebug level code v)
  let ?p = "level_byte level # le16 (dbg_code code) @ le32 v"
  have p: "pending t = ?p @ rest" "length ?p = 7"
    using assms(1) KDebug by (simp_all add: debug_bytes_def le16_def [of 1])
  show ?thesis
    using KDebug recv_payload_ok [OF p, of decode_debug]
    by (simp add: recv_body_def msg_count_def debug_bytes_def require_count_def decode_debug_bytes)
qed

lemma recv_frame_msg:
  assumes "pending t = msg_bytes m @ rest" "msg_ok m"
  shows "\<exists>t'. recv_frame tr (d, t) = (Inr (host_frame m), note_timing (host_frame m) d, t') \<and> pending t' = rest"
proof -
  have p: "pending t = hd (msg_bytes m) # le16 (msg_count m) @ drop 3 (msg_bytes m) @ rest"
    using assms(1) msg_bytes_split [of m] by simp
  obtain t1 where t1: "it_recv tr 1 t = (Inr [hd (msg_bytes m)], t1)"
    "pending t1 = le16 (msg_count m) @ drop 3 (msg_bytes m) @ rest" using recv_one [OF p] by blast
  obtain t2 where t2: "recv_exact tr 2 t1 = (Inr (le16 (msg_count m)), t2)"
    "pending t2 = drop 3 (msg_bytes m) @ rest" using recv_exact_ok [of 2 t1] t1(2) by auto
  obtain t3 where "recv_body tr (hd (msg_bytes m)) (msg_count m) t2 = (Inr (host_frame m), t3)" "pending t3 = rest"
    using recv_body_msg [OF t2(2) assms(2)] by blast
  with t1(1) t2(1) show ?thesis by (simp add: recv_frame_def)
qed

lemma recv_frame_none:
  assumes "pending t = []"
  shows "\<exists>t'. recv_frame tr (d, t) = (Inr HfNone, d, t') \<and> pending t' = []"
  using recv_empty [of 1 t] assms by (auto simp: recv_frame_def)

lemma recv_payload_short:
  assumes "length (pending t) < n"
  shows "\<exists>t'. recv_payload tr None n decode t =
     (Inl (RuntimeError ''ResultDecoder: partial protocol frame timed out''), t')"
  using recv_exact_short [OF assms] by (auto simp: recv_payload_def)

lemma recv_body_short:
  assumes "length (pending t) + 3 < length (msg_bytes m)" "msg_ok m"
  shows "\<exists>t'. recv_body tr (hd (msg_bytes m)) (msg_count m) t =
     (Inl (RuntimeError ''ResultDecoder: partial protocol frame timed out''), t')"
proof (cases m)
  case (KStatus type phase processed matched credit sid)
  with assms show ?thesis
    by (auto simp: recv_body_def msg_count_def status_bytes_def require_count_def intro: recv_payload_short)
next
  case (KError e)
  with assms show ?thesis
    by (auto simp: recv_body_def msg_count_def error_bytes_def require_count_def intro: recv_payload_short)
next
  case (KResult rs)
  with assms have len: "length rs \<le> 256" "length (pending t) < length rs * 12"
    using length_concat_pair_bytes [of rs] by (simp_all add: result_bytes_def)
  then have c: "unat (of_nat (length rs) :: u16) = length rs"
    by (simp add: unsigned_of_nat take_bit_nat_eq_self)
  have "\<not> ucast (of_nat (length rs) :: u16) > TX_BUF_SIZE"
    using len by (simp add: word_less_nat_alt unsigned_ucast_eq unsigned_of_nat take_bit_nat_eq_self)
  with KResult c recv_exact_short [OF len(2)] show ?thesis
    by (auto simp: recv_body_def msg_count_def result_bytes_def)
next
  case (KTiming tm)
  have "length (timing_bytes tm) = 203" "hd (timing_bytes tm) = MSG_TIMING" by (simp_all add: timing_bytes_def)
  with assms KTiming show ?thesis
    by (auto simp: recv_body_def msg_count_def require_count_def intro: recv_payload_short)
next
  case (KDebug level code v)
  with assms show ?thesis
    by (auto simp: recv_body_def msg_count_def debug_bytes_def require_count_def intro: recv_payload_short)
qed

lemma recv_frame_short:
  assumes "pending t @ suf = msg_bytes m" "pending t \<noteq> []" "suf \<noteq> []" "msg_ok m"
  shows "\<exists>t'. recv_frame tr (d, t) =
     (Inl (RuntimeError ''ResultDecoder: partial protocol frame timed out''), d, t')"
proof -
  let ?ex = "Inl (RuntimeError ''ResultDecoder: partial protocol frame timed out'')"
  obtain p where p: "pending t = hd (msg_bytes m) # p"
    using assms(1,2) by (cases "pending t") (auto dest: sym)
  have pm: "p @ suf = le16 (msg_count m) @ drop 3 (msg_bytes m)"
    using assms(1) p msg_bytes_split [of m] by (metis append_Cons list.inject)
  obtain t1 where t1: "it_recv tr 1 t = (Inr [hd (msg_bytes m)], t1)" "pending t1 = p"
    using recv_one [OF p] by blast
  show ?thesis
  proof (cases "length p < 2")
    case True
    then obtain t2 where "recv_exact tr 2 t1 = (?ex, t2)"
      using recv_exact_short [of t1 2] t1(2) by auto
    with t1(1) show ?thesis by (simp add: recv_frame_def)
  next
    case False
    then have tk: "take 2 p = le16 (msg_count m)"
      using arg_cong [OF pm, of "take 2"] by simp
    obtain t2 where t2: "recv_exact tr 2 t1 = (Inr (le16 (msg_count m)), t2)" "pending t2 = drop 2 p"
      using recv_exact_ok [of 2 t1] t1(2) False tk by auto
    have "length (pending t2) + 3 < length (msg_bytes m)"
      using t2(2) False assms(1,3) p by (cases suf) (auto dest!: arg_cong [of _ _ length])
    then obtain t3 where "recv_body tr (hd (msg_bytes m)) (msg_count m) t2 = (?ex, t3)"
      using recv_body_short [OF _ assms(4)] by blast
    with t1(1) t2(1) show ?thesis by (simp add: recv_frame_def)
  qed
qed

lemma recv_frame_bad:
  assumes "pending t = b # le16 cnt @ rest"
    "\<And>t. \<exists>msg. recv_body tr b cnt t = (Inl (RuntimeError msg), t)"
  shows "\<exists>msg t'. recv_frame tr (d, t) = (Inl (RuntimeError msg), d, t') \<and> pending t' = rest"
proof -
  obtain t1 where t1: "it_recv tr 1 t = (Inr [b], t1)" "pending t1 = le16 cnt @ rest"
    using recv_one [OF assms(1)] by blast
  obtain t2 where t2: "recv_exact tr 2 t1 = (Inr (le16 cnt), t2)" "pending t2 = rest"
    using recv_exact_ok [of 2 t1] t1(2) by auto
  from assms(2) [of t2] obtain msg where "recv_body tr b cnt t2 = (Inl (RuntimeError msg), t2)" by blast
  with t1(1) t2 show ?thesis by (simp add: recv_frame_def)
qed

end

text \<open>Reading a given number of frames.\<close>

primrec recv_frames ::
  "'t ITransport \<Rightarrow> nat \<Rightarrow> ResultDecoder \<times> 't \<Rightarrow> (exn + HostFrame list) \<times> ResultDecoder \<times> 't" where
  "recv_frames tr 0 dt = (Inr [], dt)"
| "recv_frames tr (Suc n) dt = bindx (recv_frame tr) (\<lambda>f. bindx (recv_frames tr n) (\<lambda>fs dt. (Inr (f # fs), dt))) dt"

context byte_channel
begin

lemma recv_frames_msgs:
  assumes "pending t = concat (map msg_bytes ms) @ rest" "list_all msg_ok ms"
  shows "\<exists>t'. recv_frames tr (length ms) (d, t) =
      (Inr (map host_frame ms), fold note_timing (map host_frame ms) d, t') \<and> pending t' = rest"
  using assms
proof (induction ms arbitrary: d t)
  case (Cons m ms)
  obtain t1 where "recv_frame tr (d, t) = (Inr (host_frame m), note_timing (host_frame m) d, t1)"
    "pending t1 = concat (map msg_bytes ms) @ rest"
    using recv_frame_msg [of t m] Cons.prems by auto
  with Cons.IH [of t1 "note_timing (host_frame m) d"] Cons.prems(2) show ?case by auto
qed simp

end

section \<open>Properties\<close>

text \<open>A short session's output: a result batch, an acknowledgement, a debug frame and an error.\<close>

definition demo_msgs :: "KernelMsg list" where
  "demo_msgs =
     [KResult [\<lparr>inner_tid = \<lparr>blkno = 9, offno = 2\<rparr>, outer_tid = \<lparr>blkno = 70000, offno = 3\<rparr>\<rparr>],
      KStatus MSG_ACK PHASE_PROBING 4 1 512 7, KDebug DBG_WARN DBG_RESET 4000, KError ERR_OVERFLOW]"

text \<open>C19. The decoder inverts the kernel's frame builders: whatever sequence of messages the kernel
  has written to its stream, and however the transport cuts that stream into responses, reading
  as many frames returns the messages in order with every field intact, the timing counters
  follow the timing frames, and the next read reports that there is no data.\<close>

theorem decoder_inverts_kernel:
  assumes "mock_pending t = tx_data (tx_of ms)" and "list_all msg_ok ms"
  shows "\<exists>t'. recv_frames mock_transport (length ms) (d, t) =
      (Inr (map host_frame ms), fold note_timing (map host_frame ms) d, t') \<and>
    (\<exists>t''. recv_frame mock_transport (d', t') = (Inr HfNone, d', t''))"
proof -
  from assms(1) have "mock_pending t = concat (map msg_bytes ms) @ []" by (simp add: tx_data_tx_of)
  from mock.recv_frames_msgs [OF this assms(2), of d] mock.recv_frame_none show ?thesis by blast
qed

theorem decoder_inverts_kernel_witness:
  "\<exists>t'. recv_frames mock_transport (length demo_msgs) (decoder_init, mock_blank\<lparr>response_queue :=
        [take 5 (tx_data (tx_of demo_msgs)), [], drop 5 (tx_data (tx_of demo_msgs))]\<rparr>) =
      (Inr (map host_frame demo_msgs), fold note_timing (map host_frame demo_msgs) decoder_init, t') \<and>
    (\<exists>t''. recv_frame mock_transport (decoder_init, t') = (Inr HfNone, decoder_init, t''))"
  by (rule decoder_inverts_kernel)
    (simp only: mock_pending_def mock_blank_def MockTransport.simps concat.simps append_Nil append_Nil2
        append_take_drop_id, simp add: demo_msgs_def)

text \<open>A frame that is cut off is never taken for a message: if the input ends inside a frame of
  the kernel, after at least its first byte, the decoder throws the partial-frame exception and
  its timing counters are unchanged.\<close>

lemma truncated_frame_throws:
  assumes "mock_pending t @ suf = msg_bytes m" and "mock_pending t \<noteq> []" and "suf \<noteq> []" and "msg_ok m"
  shows "\<exists>t'. recv_frame mock_transport (d, t) =
     (Inl (RuntimeError ''ResultDecoder: partial protocol frame timed out''), d, t')"
  using mock.recv_frame_short [OF assms] .

theorem truncated_frame_throws_witness:
  "\<exists>t'. recv_frame mock_transport (decoder_init, mock_blank\<lparr>response_queue := [[MSG_ERROR], [1, 0]]\<rparr>) =
     (Inl (RuntimeError ''ResultDecoder: partial protocol frame timed out''), decoder_init, t')"
  using truncated_frame_throws [of "mock_blank\<lparr>response_queue := [[MSG_ERROR], [1, 0]]\<rparr>" "[error_byte ERR_OVERFLOW]"
      "KError ERR_OVERFLOW"]
  by (simp add: mock_pending_def mock_blank_def error_bytes_def le16_def)

text \<open>C20. Malformed headers are rejected before any payload is read: a message type outside the six
  the host knows, a result count above the transmit buffer, and a count other than one on the
  fixed-size messages throw, with only the three header bytes consumed.\<close>

theorem malformed_frame_throws:
  assumes "mock_pending t = b # le16 cnt @ rest"
    and "b \<notin> {MSG_RESULT, MSG_ACK, MSG_STATUS, MSG_ERROR, MSG_DEBUG, MSG_TIMING} \<or>
         b = MSG_RESULT \<and> 256 < unat cnt \<or> b \<noteq> MSG_RESULT \<and> cnt \<noteq> 1"
  shows "\<exists>msg t'. recv_frame mock_transport (d, t) = (Inl (RuntimeError msg), d, t') \<and> mock_pending t' = rest"
proof (rule mock.recv_frame_bad [OF assms(1)])
  fix t :: MockTransport
  have "ucast cnt > TX_BUF_SIZE" if "256 < unat cnt"
    using that unsigned_less [where 'a = nat, of cnt]
    by (simp add: word_less_nat_alt unsigned_ucast_eq unsigned_of_nat take_bit_nat_eq_self)
  with assms(2) show "\<exists>msg. recv_body mock_transport b cnt t = (Inl (RuntimeError msg), t)"
    by (auto simp: recv_body_def recv_payload_def require_count_def)
qed

theorem malformed_frame_throws_witness:
  "\<exists>msg t'. recv_frame mock_transport (decoder_init, mock_blank\<lparr>response_queue := [[MSG_RESULT, 1], [1, 5, 6]]\<rparr>) =
     (Inl (RuntimeError msg), decoder_init, t') \<and> mock_pending t' = [5, 6]"
  using malformed_frame_throws [of "mock_blank\<lparr>response_queue := [[MSG_RESULT, 1], [1, 5, 6]]\<rparr>" MSG_RESULT 257 "[5, 6]"]
  by (simp add: mock_pending_def mock_blank_def le16_def)

end
