(* ===== verification/Fpga_Client.thy ===== *)
theory Fpga_Client
  imports Result_Decoder Tuple_Serializer
begin

text \<open>
  The host's session driver (\<^verbatim>\<open>src/host/src/fpga_client.cpp\<close> and \<^verbatim>\<open>fpga_client.hpp\<close>): the counted send,
  the wait for an acknowledgement with its time-out, the batches of the build and the probe
  phase under window and credit, and a whole run with its cleanup. The log output is left out;
  the texts of exceptions stand without the numbers the code appends. \<open>size_t\<close> values are
  lengths of vectors and are kept as natural numbers.
\<close>

section \<open>Configuration and metrics\<close>

record ClientConfig =
  warn_timeout_ms :: u32
  hard_timeout_ms :: u32
  max_batch_tuples :: u16
  ack_window_frames :: u16
  inter_batch_gap_ms :: u32
  session_id_override :: u8
  coalesce_config_first_inner :: bool
  infer_done_from_probe_ack :: bool
  reset_after_run :: bool

definition client_config_default :: ClientConfig where
  "client_config_default = \<lparr>warn_timeout_ms = 2000, hard_timeout_ms = 30000,
     max_batch_tuples = ucast RX_BUF_TUPLES, ack_window_frames = 15, inter_batch_gap_ms = 0,
     session_id_override = 0, coalesce_config_first_inner = False,
     infer_done_from_probe_ack = False, reset_after_run = False\<rparr>"

text \<open>The \<open>_ms\<close> fields are doubles that hold a whole number of microseconds divided by 1000; the
  model keeps that number of microseconds.\<close>

record HostSessionMetrics =
  config_send_ms :: nat
  config_ack_wait_ms :: nat
  build_send_ms :: nat
  build_ack_wait_ms :: nat
  probe_send_ms :: nat
  probe_ack_wait_ms :: nat
  final_status_wait_ms :: nat
  reset_wait_ms :: nat
  result_recv_ms :: nat
  adapter_total_ms :: nat
  protocol_frames_sent :: u64
  protocol_frames_recv :: u64
  transport_sends :: u64
  bytes_sent :: u64
  bytes_recv :: u64
  config_frames_sent :: u64
  inner_frames_sent :: u64
  outer_frames_sent :: u64
  reset_frames_sent :: u64
  ack_frames_recv :: u64
  status_frames_recv :: u64
  result_frames_recv :: u64
  debug_frames_recv :: u64
  timing_frames_recv :: u64
  error_frames_recv :: u64
  result_pairs_recv :: u64
  has_board_timing :: bool
  board_timing :: TimingSummaryPayload

definition metrics_zero :: HostSessionMetrics where
  "metrics_zero = \<lparr>config_send_ms = 0, config_ack_wait_ms = 0, build_send_ms = 0, build_ack_wait_ms = 0,
     probe_send_ms = 0, probe_ack_wait_ms = 0, final_status_wait_ms = 0, reset_wait_ms = 0,
     result_recv_ms = 0, adapter_total_ms = 0, protocol_frames_sent = 0, protocol_frames_recv = 0,
     transport_sends = 0, bytes_sent = 0, bytes_recv = 0, config_frames_sent = 0,
     inner_frames_sent = 0, outer_frames_sent = 0, reset_frames_sent = 0, ack_frames_recv = 0,
     status_frames_recv = 0, result_frames_recv = 0, debug_frames_recv = 0,
     timing_frames_recv = 0, error_frames_recv = 0, result_pairs_recv = 0,
     has_board_timing = False, board_timing = timing_zero\<rparr>"

datatype AckWaitKind = Config | Build | Probe | FinalStatus | Reset

section \<open>The client\<close>

text \<open>
  The object with the state of its transport; \<open>fc_clock\<close> counts the readings of the steady clock,
  \<open>fc_counter\<close> is the static counter of \<open>next_session_id\<close> and \<open>fc_cleanup\<close> the flag of the running
  session's \<open>SessionCleanup\<close> object. The readings themselves are a parameter \<open>clk\<close> of the operations:
  \<open>clk i\<close> is the \<open>i\<close>-th reading, in nanoseconds. Sleeping changes no state but the clock.
\<close>

record 't FpgaClient =
  fc_transport :: 't
  fc_decoder :: ResultDecoder
  fc_credit :: u16
  fc_session_id :: u8
  fc_metrics :: HostSessionMetrics
  fc_clock :: nat
  fc_counter :: u32
  fc_cleanup :: bool

definition client_init :: "'t \<Rightarrow> u32 \<Rightarrow> 't FpgaClient" where
  "client_init t ctr = \<lparr>fc_transport = t, fc_decoder = decoder_init, fc_credit = 0, fc_session_id = 0,
     fc_metrics = metrics_zero, fc_clock = 0, fc_counter = ctr, fc_cleanup = False\<rparr>"

text \<open>The configuration the constructor keeps.\<close>

definition client_cfg :: "ClientConfig \<Rightarrow> ClientConfig" where
  "client_cfg cfg =
     (let cfg = (if max_batch_tuples cfg = 0 \<or> ucast (max_batch_tuples cfg) > RX_BUF_TUPLES
                 then cfg\<lparr>max_batch_tuples := ucast RX_BUF_TUPLES\<rparr> else cfg)
      in if ack_window_frames cfg = 0 then cfg\<lparr>ack_window_frames := ucast ACK_BATCH_FRAMES\<rparr> else cfg)"

definition now :: "(nat \<Rightarrow> nat) \<Rightarrow> 't FpgaClient \<Rightarrow> nat \<times> 't FpgaClient" where
  "now clk s = (clk (fc_clock s), s\<lparr>fc_clock := fc_clock s + 1\<rparr>)"

definition elapsed_ms :: "nat \<Rightarrow> nat \<Rightarrow> nat" where
  "elapsed_ms from_t to_t = (to_t - from_t) div 1000"

definition next_session_id :: "'t FpgaClient \<Rightarrow> u8 \<times> 't FpgaClient" where
  "next_session_id s = (ucast (fc_counter s mod 255 + 1), s\<lparr>fc_counter := fc_counter s + 1\<rparr>)"

definition count_frame :: "u8 \<Rightarrow> HostSessionMetrics \<Rightarrow> HostSessionMetrics" where
  "count_frame primary_msg m =
     (if primary_msg = MSG_CONFIGURE then m\<lparr>config_frames_sent := config_frames_sent m + 1\<rparr>
      else if primary_msg = MSG_INNER_DATA then m\<lparr>inner_frames_sent := inner_frames_sent m + 1\<rparr>
      else if primary_msg = MSG_OUTER_DATA then m\<lparr>outer_frames_sent := outer_frames_sent m + 1\<rparr>
      else if primary_msg = MSG_RESET then m\<lparr>reset_frames_sent := reset_frames_sent m + 1\<rparr>
      else m)"

text \<open>\<open>bucket\<close> is the update of the field that \<open>bucket_ms\<close> refers to.\<close>

definition send_counted ::
  "'t ITransport \<Rightarrow> (nat \<Rightarrow> nat) \<Rightarrow> u8 list \<Rightarrow> u8 \<Rightarrow> ((nat \<Rightarrow> nat) \<Rightarrow> HostSessionMetrics \<Rightarrow> HostSessionMetrics) \<Rightarrow>
    't FpgaClient \<Rightarrow> (exn + unit) \<times> 't FpgaClient" where
  "send_counted tr clk data primary_msg bucket s =
     (let (t0, s) = now clk s in
      case it_send tr data (fc_transport s) of
        (Inl e, t) \<Rightarrow> (Inl e, s\<lparr>fc_transport := t\<rparr>)
      | (Inr _, t) \<Rightarrow>
          let (t1, s) = now clk (s\<lparr>fc_transport := t\<rparr>);
              m = bucket (\<lambda>b. b + elapsed_ms t0 t1) (fc_metrics s);
              m = m\<lparr>transport_sends := transport_sends m + 1,
                    protocol_frames_sent := protocol_frames_sent m + 1,
                    bytes_sent := bytes_sent m + of_nat (length data)\<rparr>
          in (Inr (), s\<lparr>fc_metrics := count_frame primary_msg m\<rparr>))"

definition account_coalesced_inner_frame :: "HostSessionMetrics \<Rightarrow> HostSessionMetrics" where
  "account_coalesced_inner_frame m =
     m\<lparr>protocol_frames_sent := protocol_frames_sent m + 1, inner_frames_sent := inner_frames_sent m + 1\<rparr>"

fun account_wait :: "AckWaitKind \<Rightarrow> nat \<Rightarrow> HostSessionMetrics \<Rightarrow> HostSessionMetrics" where
  "account_wait Config ms m = m\<lparr>config_ack_wait_ms := config_ack_wait_ms m + ms\<rparr>"
| "account_wait Build ms m = m\<lparr>build_ack_wait_ms := build_ack_wait_ms m + ms\<rparr>"
| "account_wait Probe ms m = m\<lparr>probe_ack_wait_ms := probe_ack_wait_ms m + ms\<rparr>"
| "account_wait FinalStatus ms m = m\<lparr>final_status_wait_ms := final_status_wait_ms m + ms\<rparr>"
| "account_wait Reset ms m = m\<lparr>reset_wait_ms := reset_wait_ms m + ms\<rparr>"

definition verify_matched_count :: "string \<Rightarrow> ResultPair list \<Rightarrow> AckInfo \<Rightarrow> exn + unit" where
  "verify_matched_count at results ack =
     (if unat (rows_matched ack) \<noteq> length results
      then Inl (FpgaException (''FPGA '' @ at @ '' rows_matched mismatch'')) else Inr ())"

text \<open>The while loop of \<open>apply_cumulative_ack\<close>, counting in \<open>frames\<close>.\<close>

fun ack_loop :: "nat \<Rightarrow> nat list \<Rightarrow> nat \<Rightarrow> nat \<Rightarrow> nat \<times> nat list \<times> nat" where
  "ack_loop target [] acked frames = (frames, [], acked)"
| "ack_loop target (b # bs) acked frames =
     (if acked + b \<le> target then ack_loop target bs (acked + b) (frames + 1)
      else (frames, b # bs, acked))"

definition apply_cumulative_ack :: "nat list \<Rightarrow> nat \<Rightarrow> u32 \<Rightarrow> nat \<times> nat list \<times> nat" where
  "apply_cumulative_ack inflight acked processed =
     (if unat processed \<le> acked then (0, inflight, acked)
      else ack_loop (unat processed) inflight acked 0)"

section \<open>Waiting for an acknowledgement\<close>

text \<open>The frames a wait does not end with: their effect on the metrics.\<close>

definition note_frame :: "ResultDecoder \<Rightarrow> HostFrame \<Rightarrow> nat \<Rightarrow> HostSessionMetrics \<Rightarrow> HostSessionMetrics" where
  "note_frame d f recv_time m =
     (let m = m\<lparr>protocol_frames_recv := protocol_frames_recv m + 1\<rparr> in
      case f of
        HfResult pairs \<Rightarrow>
          m\<lparr>result_frames_recv := result_frames_recv m + 1,
            result_pairs_recv := result_pairs_recv m + of_nat (length pairs),
            bytes_recv := bytes_recv m + of_nat (3 + 12 * length pairs),
            result_recv_ms := result_recv_ms m + recv_time\<rparr>
      | HfAck _ \<Rightarrow> m\<lparr>ack_frames_recv := ack_frames_recv m + 1, bytes_recv := bytes_recv m + 15\<rparr>
      | HfStatus _ \<Rightarrow> m\<lparr>status_frames_recv := status_frames_recv m + 1, bytes_recv := bytes_recv m + 15\<rparr>
      | HfError _ \<Rightarrow> m\<lparr>error_frames_recv := error_frames_recv m + 1, bytes_recv := bytes_recv m + 4\<rparr>
      | HfDebug _ _ _ \<Rightarrow> m\<lparr>debug_frames_recv := debug_frames_recv m + 1, bytes_recv := bytes_recv m + 10\<rparr>
      | HfTiming _ \<Rightarrow>
          m\<lparr>timing_frames_recv := timing_frames_recv m + 1,
            bytes_recv := bytes_recv m + 3 + ucast TIMING_SUMMARY_BYTES,
            has_board_timing := has_timing d, board_timing := decoder_timing d\<rparr>
      | HfNone \<Rightarrow> m)"

definition stale :: "AckWaitKind \<Rightarrow> AckInfo \<Rightarrow> 't FpgaClient \<Rightarrow> bool" where
  "stale kind ack s \<longleftrightarrow> kind \<noteq> Reset \<and> ack_session_id ack \<noteq> fc_session_id s"

text \<open>One reception: \<open>recv_start\<close>, the frame, \<open>recv_end\<close>; the result carries the frame, the time it took
  and \<open>recv_end\<close>.\<close>

definition timed_recv ::
  "'t ITransport \<Rightarrow> (nat \<Rightarrow> nat) \<Rightarrow> 't FpgaClient \<Rightarrow> (exn + HostFrame \<times> nat \<times> nat) \<times> 't FpgaClient" where
  "timed_recv tr clk s =
     (let (recv_start, s) = now clk s in
      case recv_frame tr (fc_decoder s, fc_transport s) of
        (Inl e, d, t) \<Rightarrow> (Inl e, s\<lparr>fc_decoder := d, fc_transport := t\<rparr>)
      | (Inr f, d, t) \<Rightarrow>
          let (recv_end, s) = now clk (s\<lparr>fc_decoder := d, fc_transport := t\<rparr>)
          in (Inr (f, elapsed_ms recv_start recv_end, recv_end), s))"

text \<open>The loop of \<open>collect_until_ack\<close>; \<open>out\<close> is the vector \<open>out_results\<close>. The fuel bounds the number of
  rounds.\<close>

fun collect_loop ::
  "'t ITransport \<Rightarrow> (nat \<Rightarrow> nat) \<Rightarrow> ClientConfig \<Rightarrow> AckWaitKind \<Rightarrow> nat \<Rightarrow> nat \<Rightarrow> ResultPair list \<Rightarrow>
    't FpgaClient \<Rightarrow> (exn + AckInfo \<times> ResultPair list) \<times> 't FpgaClient" where
  "collect_loop tr clk cfg kind start 0 out s = (Inl Diverged, s)"
| "collect_loop tr clk cfg kind start (Suc fuel) out s =
     (let (t, s) = now clk s in
      if (t - start) div 1000000 \<ge> unat (hard_timeout_ms cfg) then (Inl FpgaTimeoutException, s)
      else case timed_recv tr clk s of
        (Inl e, s) \<Rightarrow> (Inl e, s)
      | (Inr (f, recv_time, recv_end), s) \<Rightarrow>
          if f = HfNone then collect_loop tr clk cfg kind start fuel out s
          else let s = s\<lparr>fc_metrics := note_frame (fc_decoder s) f recv_time (fc_metrics s)\<rparr> in
            case f of
              HfResult pairs \<Rightarrow> collect_loop tr clk cfg kind start fuel (out @ pairs) s
            | HfAck ack \<Rightarrow>
                if stale kind ack s then collect_loop tr clk cfg kind start fuel out s
                else (Inr (ack, out), s\<lparr>fc_metrics := account_wait kind (elapsed_ms start recv_end) (fc_metrics s)\<rparr>)
            | HfStatus ack \<Rightarrow>
                if stale kind ack s then collect_loop tr clk cfg kind start fuel out s
                else (Inr (ack, out), s\<lparr>fc_metrics := account_wait kind (elapsed_ms start recv_end) (fc_metrics s)\<rparr>)
            | HfError err \<Rightarrow> (Inl (FpgaErrorException err), s)
            | _ \<Rightarrow> collect_loop tr clk cfg kind start fuel out s)"

definition collect_until_ack ::
  "'t ITransport \<Rightarrow> (nat \<Rightarrow> nat) \<Rightarrow> ClientConfig \<Rightarrow> nat \<Rightarrow> AckWaitKind \<Rightarrow> ResultPair list \<Rightarrow>
    't FpgaClient \<Rightarrow> (exn + AckInfo \<times> ResultPair list) \<times> 't FpgaClient" where
  "collect_until_ack tr clk cfg fuel kind out s =
     (let (start, s) = now clk s in collect_loop tr clk cfg kind start fuel out s)"

section \<open>Sending batches\<close>

text \<open>What one session runs with: the transport's operations, the clock, the configuration, the
  fuel of its loops and the requested join.\<close>

record 't Session =
  ss_transport :: "'t ITransport"
  ss_clock :: "nat \<Rightarrow> nat"
  ss_cfg :: ClientConfig
  ss_fuel :: nat
  ss_join :: JoinConfig

definition ss_send ::
  "'t Session \<Rightarrow> u8 list \<Rightarrow> u8 \<Rightarrow> ((nat \<Rightarrow> nat) \<Rightarrow> HostSessionMetrics \<Rightarrow> HostSessionMetrics) \<Rightarrow>
    't FpgaClient \<Rightarrow> (exn + unit) \<times> 't FpgaClient" where
  "ss_send ss = send_counted (ss_transport ss) (ss_clock ss)"

definition ss_collect ::
  "'t Session \<Rightarrow> AckWaitKind \<Rightarrow> ResultPair list \<Rightarrow> 't FpgaClient \<Rightarrow> (exn + AckInfo \<times> ResultPair list) \<times> 't FpgaClient" where
  "ss_collect ss = collect_until_ack (ss_transport ss) (ss_clock ss) (ss_cfg ss) (ss_fuel ss)"

text \<open>The credit after sending \<open>batch\<close> rows.\<close>

definition spend :: "u16 \<Rightarrow> nat \<Rightarrow> u16" where
  "spend c batch = (if unat c > batch then c - of_nat batch else 0)"

text \<open>The inner loop of the build and the probe phase: batches go out while the window and the
  credit allow. \<open>sent\<close> and \<open>inflight\<close> are \<open>i_sent\<close> and \<open>build_inflight\<close>, or \<open>o_sent\<close> and \<open>probe_inflight\<close>.\<close>

function fill_window ::
  "'t Session \<Rightarrow> u8 \<Rightarrow> ((nat \<Rightarrow> nat) \<Rightarrow> HostSessionMetrics \<Rightarrow> HostSessionMetrics) \<Rightarrow> InputTuple list \<Rightarrow>
    nat \<Rightarrow> nat list \<Rightarrow> 't FpgaClient \<Rightarrow> (exn + nat \<times> nat list) \<times> 't FpgaClient" where
  "fill_window ss msg bucket rows sent inflight s =
     (if sent < length rows \<and> length inflight < unat (ack_window_frames (ss_cfg ss)) \<and> fc_credit s \<noteq> 0 then
        let remaining = length rows - sent in
        if fc_credit s < max_batch_tuples (ss_cfg ss) \<and> remaining > unat (fc_credit s) then (Inr (sent, inflight), s)
        else
          let batch = min (min (unat (fc_credit s)) (unat (max_batch_tuples (ss_cfg ss)))) remaining;
              frame = serialize_batch (jc_key_type (ss_join ss)) msg (take batch (drop sent rows)) batch
          in case ss_send ss frame msg bucket (s\<lparr>fc_credit := spend (fc_credit s) batch\<rparr>) of
               (Inl e, s) \<Rightarrow> (Inl e, s)
             | (Inr _, s) \<Rightarrow> fill_window ss msg bucket rows (sent + batch) (inflight @ [batch]) s
      else (Inr (sent, inflight), s))"
  by pat_completeness auto
termination
  by (relation "measure (\<lambda>(ss, msg, bucket, rows, sent, inflight, s).
      unat (ack_window_frames (ss_cfg ss)) - length inflight)") auto

declare fill_window.simps [simp del]

definition build_fill :: "'t Session \<Rightarrow> InputTuple list \<Rightarrow> nat \<Rightarrow> nat list \<Rightarrow> 't FpgaClient \<Rightarrow> (exn + nat \<times> nat list) \<times> 't FpgaClient" where
  "build_fill ss = fill_window ss MSG_INNER_DATA build_send_ms_update"

definition probe_fill :: "'t Session \<Rightarrow> InputTuple list \<Rightarrow> nat \<Rightarrow> nat list \<Rightarrow> 't FpgaClient \<Rightarrow> (exn + nat \<times> nat list) \<times> 't FpgaClient" where
  "probe_fill ss = fill_window ss MSG_OUTER_DATA probe_send_ms_update"

section \<open>The phases of a session\<close>

text \<open>CONFIGURE, with the first inner batch in the same datagram when asked for; the result is that
  batch's size.\<close>

definition client_config_phase :: "'t Session \<Rightarrow> InputTuple list \<Rightarrow> nat \<Rightarrow> 't FpgaClient \<Rightarrow> (exn + nat) \<times> 't FpgaClient" where
  "client_config_phase ss inner outer_count s =
     (let cfg = ss_cfg ss;
          frame = serialize_configure (ss_join ss) (of_nat (length inner)) (of_nat outer_count) (fc_session_id s);
          batch = (if coalesce_config_first_inner cfg \<and> length inner \<noteq> 0
                   then min (min (unat RX_BUF_TUPLES) (unat (max_batch_tuples cfg))) (length inner) else 0);
          (frame, s) = (if coalesce_config_first_inner cfg \<and> length inner \<noteq> 0
                   then (frame @ serialize_batch (jc_key_type (ss_join ss)) MSG_INNER_DATA (take batch inner) batch,
                         s\<lparr>fc_metrics := account_coalesced_inner_frame (fc_metrics s)\<rparr>)
                   else (frame, s))
      in bindx (ss_send ss frame MSG_CONFIGURE config_send_ms_update)
           (\<lambda>_. bindx (ss_collect ss Config []) (\<lambda>(ack, _) s. (Inr batch, s\<lparr>fc_credit := ack_credit ack\<rparr>))) s)"

text \<open>The build loop; every round of the model's loop is one of the code's.\<close>

fun client_build_loop ::
  "nat \<Rightarrow> 't Session \<Rightarrow> InputTuple list \<Rightarrow> nat \<Rightarrow> nat list \<Rightarrow> nat \<Rightarrow> 't FpgaClient \<Rightarrow> (exn + unit) \<times> 't FpgaClient" where
  "client_build_loop 0 ss inner sent inflight acked s = (Inl Diverged, s)"
| "client_build_loop (Suc n) ss inner sent inflight acked s =
     (if sent < length inner \<or> inflight \<noteq> [] then
        bindx (build_fill ss inner sent inflight) (\<lambda>(sent, inflight) s.
          if inflight = [] then (Inl (FpgaException ''FPGA gave zero credit during build phase''), s)
          else bindx (ss_collect ss Build []) (\<lambda>(ack, _) s.
            case apply_cumulative_ack inflight acked (rows_processed ack) of
              (frames, inflight, acked) \<Rightarrow>
                let s = s\<lparr>fc_credit := ack_credit ack\<rparr>
                in if frames = 0 \<and> inflight \<noteq> []
                   then (Inl (FpgaException ''FPGA build ACK did not advance rows_processed''), s)
                   else client_build_loop n ss inner sent inflight acked s) s) s
      else (Inr (), s))"

definition client_build_phase :: "'t Session \<Rightarrow> InputTuple list \<Rightarrow> nat \<Rightarrow> 't FpgaClient \<Rightarrow> (exn + unit) \<times> 't FpgaClient" where
  "client_build_phase ss inner first s =
     (let s = snd (now (ss_clock ss) s);
          (inflight, s) = (if first \<noteq> 0 then ([first], s\<lparr>fc_credit := spend (fc_credit s) first\<rparr>) else ([], s))
      in bindx (client_build_loop (ss_fuel ss) ss inner first inflight 0)
           (\<lambda>_ s. (Inr (), (snd (now (ss_clock ss) s))\<lparr>fc_credit := ucast RX_CREDIT_TUPLES\<rparr>)) s)"

definition ack_zero :: AckInfo where
  "ack_zero = \<lparr>ack_phase = 0, ack_session_id = 0, ack_credit = 0, rows_processed = 0, rows_matched = 0\<rparr>"

text \<open>The probe loop; the result is \<open>last_probe_ack\<close> with the pairs collected.\<close>

fun client_probe_loop ::
  "nat \<Rightarrow> 't Session \<Rightarrow> InputTuple list \<Rightarrow> nat \<Rightarrow> nat list \<Rightarrow> nat \<Rightarrow> AckInfo \<Rightarrow> ResultPair list \<Rightarrow>
    't FpgaClient \<Rightarrow> (exn + AckInfo \<times> ResultPair list) \<times> 't FpgaClient" where
  "client_probe_loop 0 ss outer sent inflight acked last_ack results s = (Inl Diverged, s)"
| "client_probe_loop (Suc n) ss outer sent inflight acked last_ack results s =
     (if sent < length outer \<or> inflight \<noteq> [] then
        bindx (probe_fill ss outer sent inflight) (\<lambda>(sent, inflight) s.
          if inflight = [] then (Inl (FpgaException ''FPGA gave zero credit during probe phase''), s)
          else bindx (ss_collect ss Probe results) (\<lambda>(ack, results) s.
            case apply_cumulative_ack inflight acked (rows_processed ack) of
              (frames, inflight, acked) \<Rightarrow>
                let s = s\<lparr>fc_credit := ack_credit ack\<rparr>
                in if ack_phase ack = phase_byte PHASE_DONE then (Inr (ack, results), s)
                   else if frames = 0 \<and> inflight \<noteq> []
                   then (Inl (FpgaException ''FPGA probe ACK did not advance rows_processed''), s)
                   else client_probe_loop n ss outer sent inflight acked ack results s) s) s
      else (Inr (last_ack, results), s))"

text \<open>The explicit end of the probe phase.\<close>

definition client_probe_end ::
  "'t Session \<Rightarrow> nat \<Rightarrow> AckInfo \<Rightarrow> ResultPair list \<Rightarrow> 't FpgaClient \<Rightarrow> (exn + AckInfo \<times> ResultPair list) \<times> 't FpgaClient" where
  "client_probe_end ss outer_count last_ack results s =
     (if jc_algorithm (ss_join ss) = ALGORITHM_A \<and> outer_count \<noteq> 0 \<and>
         ack_phase last_ack = phase_byte PHASE_PROBING \<and> ack_credit last_ack \<noteq> 0 \<and>
         unat (rows_processed last_ack) \<ge> outer_count
      then bindx (ss_send ss [MSG_OUTER_DATA, 0, 0] MSG_OUTER_DATA probe_send_ms_update)
             (\<lambda>_. bindx (ss_collect ss Probe results)
                (\<lambda>(ack, results) s. (Inr (ack, results), s\<lparr>fc_credit := ack_credit ack\<rparr>))) s
      else (Inr (last_ack, results), s))"

definition send_reset :: "'t Session \<Rightarrow> 't FpgaClient \<Rightarrow> (exn + unit) \<times> 't FpgaClient" where
  "send_reset ss = ss_send ss [MSG_RESET, 0, 0] MSG_RESET (\<lambda>f m. m)"

text \<open>The wait for the reset's acknowledgement; \<open>n\<close> attempts are left, 8 at the start.\<close>

fun reset_wait :: "nat \<Rightarrow> 't Session \<Rightarrow> 't FpgaClient \<Rightarrow> (exn + unit) \<times> 't FpgaClient" where
  "reset_wait 0 ss s = (Inr (), s)"
| "reset_wait (Suc n) ss s =
     (case ss_collect ss Reset [] s of
        (Inl FpgaTimeoutException, s) \<Rightarrow> (Inr (), s)
      | (Inl e, s) \<Rightarrow> (Inl e, s)
      | (Inr (ack, _), s) \<Rightarrow>
          if ack_phase ack = phase_byte PHASE_IDLE then (Inr (), s)
          else if n = 0 then (Inl (FpgaException ''FPGA reset after final probe ACK did not reach PHASE_IDLE''), s)
          else reset_wait n ss s)"

definition inferred_done :: "'t Session \<Rightarrow> nat \<Rightarrow> AckInfo \<Rightarrow> ResultPair list \<Rightarrow> bool" where
  "inferred_done ss outer_count last_ack results \<longleftrightarrow>
     infer_done_from_probe_ack (ss_cfg ss) \<and> jc_algorithm (ss_join ss) = ALGORITHM_A \<and>
     ack_phase last_ack = phase_byte PHASE_PROBING \<and> ack_credit last_ack = 0 \<and>
     unat (rows_processed last_ack) \<ge> outer_count \<and> unat (rows_matched last_ack) = length results"

text \<open>The last phase returns the final result pairs: after a reset when the end was inferred from the
  last acknowledgement, after one more wait, or at once.\<close>

definition return_verified :: "string \<Rightarrow> ResultPair list \<Rightarrow> AckInfo \<Rightarrow> 't FpgaClient \<Rightarrow> (exn + ResultPair list) \<times> 't FpgaClient" where
  "return_verified at results ack s =
     (case verify_matched_count at results ack of Inl e \<Rightarrow> (Inl e, s) | Inr _ \<Rightarrow> (Inr results, s))"

definition finish_inferred ::
  "'t Session \<Rightarrow> AckInfo \<Rightarrow> ResultPair list \<Rightarrow> 't FpgaClient \<Rightarrow> (exn + ResultPair list) \<times> 't FpgaClient" where
  "finish_inferred ss last_ack results =
     bindx (return_verified ''final ACK'' results last_ack) (\<lambda>_.
       bindx (send_reset ss) (\<lambda>_ s.
         bindx (reset_wait 8 ss) (\<lambda>_ s. (Inr results, s)) (s\<lparr>fc_cleanup := False\<rparr>)))"

definition finish_drain :: "'t Session \<Rightarrow> ResultPair list \<Rightarrow> 't FpgaClient \<Rightarrow> (exn + ResultPair list) \<times> 't FpgaClient" where
  "finish_drain ss results =
     bindx (ss_collect ss FinalStatus []) (\<lambda>(final_ack, tail) s.
       if ack_phase final_ack \<noteq> phase_byte PHASE_DONE
       then (Inl (FpgaException ''FPGA final drain did not reach PHASE_DONE''), s)
       else return_verified ''final STATUS'' (results @ tail) final_ack s)"

definition client_finish ::
  "'t Session \<Rightarrow> nat \<Rightarrow> AckInfo \<Rightarrow> ResultPair list \<Rightarrow> 't FpgaClient \<Rightarrow> (exn + ResultPair list) \<times> 't FpgaClient" where
  "client_finish ss outer_count last_ack results s =
     (if ack_phase last_ack \<noteq> phase_byte PHASE_DONE \<and> inferred_done ss outer_count last_ack results
      then finish_inferred ss last_ack results s
      else if ack_phase last_ack \<noteq> phase_byte PHASE_DONE then finish_drain ss results s
      else return_verified ''final STATUS'' results last_ack s)"

section \<open>A whole run\<close>

definition cleanup_frame :: "'t Session \<Rightarrow> 't FpgaClient \<Rightarrow> 't FpgaClient" where
  "cleanup_frame ss s =
     (if fc_cleanup s
      then s\<lparr>fc_transport := snd (it_send (ss_transport ss) [MSG_RESET, 0, 0] (fc_transport s)), fc_cleanup := False\<rparr>
      else s)"

text \<open>From CONFIGURE to the returned vector, in the scope of the cleanup object.\<close>

definition client_session ::
  "'t Session \<Rightarrow> InputTuple list \<Rightarrow> InputTuple list \<Rightarrow> 't FpgaClient \<Rightarrow> (exn + ResultPair list) \<times> 't FpgaClient" where
  "client_session ss inner outer s =
     (let (t_start, s) = now (ss_clock ss) s in
      bindx (client_config_phase ss inner (length outer)) (\<lambda>first.
        bindx (client_build_phase ss inner first) (\<lambda>_.
          bindx (client_probe_loop (ss_fuel ss) ss outer 0 [] 0 ack_zero []) (\<lambda>(last_ack, results).
            bindx (client_probe_end ss (length outer) last_ack results) (\<lambda>(last_ack, results).
              bindx (client_finish ss (length outer) last_ack results) (\<lambda>results s.
                let (t_done, s) = now (ss_clock ss) s
                in (Inr results, s\<lparr>fc_metrics := (fc_metrics s)\<lparr>adapter_total_ms := elapsed_ms t_start t_done\<rparr>\<rparr>)))))) s)"

definition start_session :: "'t Session \<Rightarrow> 't FpgaClient \<Rightarrow> 't FpgaClient" where
  "start_session ss s =
     (let s = s\<lparr>fc_credit := 0\<rparr>;
          (sid, s) = (if session_id_override (ss_cfg ss) \<noteq> 0 then (session_id_override (ss_cfg ss), s)
                      else next_session_id s)
      in s\<lparr>fc_session_id := sid, fc_metrics := metrics_zero, fc_cleanup := reset_after_run (ss_cfg ss)\<rparr>)"

definition run_hash_join ::
  "'t Session \<Rightarrow> InputTuple list \<Rightarrow> InputTuple list \<Rightarrow> 't FpgaClient \<Rightarrow> (exn + ResultPair list) \<times> 't FpgaClient" where
  "run_hash_join ss inner outer s =
     (let (r, s) = client_session ss inner outer (start_session ss s) in (r, cleanup_frame ss s))"

end
