(* ===== verification/Client_Session.thy ===== *)
theory Client_Session
  imports Fpga_Client Linear_Session "HOL-Library.Sublist"
begin

text \<open>
  The client (\<^verbatim>\<open>src/host/src/fpga_client.cpp\<close>) against an arbitrary board: what it sends, in which
  order and how much at a time, and that every run ends.
\<close>

section \<open>What a wait leaves alone\<close>

text \<open>A property of the transport's state that every read keeps is kept by the decoder.\<close>

definition reads_keep :: "'t ITransport \<Rightarrow> ('t \<Rightarrow> bool) \<Rightarrow> bool" where
  "reads_keep tr P \<longleftrightarrow> (\<forall>n t. P t \<longrightarrow> P (snd (it_recv tr n t)))"

lemma reads_keepD: "reads_keep tr P \<Longrightarrow> P t \<Longrightarrow> it_recv tr n t = (r, t') \<Longrightarrow> P t'"
  unfolding reads_keep_def by (metis snd_conv)

lemma bindx_keeps:
  "P s \<Longrightarrow> (\<And>s. P s \<Longrightarrow> P (snd (m s))) \<Longrightarrow> (\<And>a s. P s \<Longrightarrow> P (snd (f a s))) \<Longrightarrow> P (snd (bindx m f s))"
  by (force simp: bindx_def split: prod.split sum.split)

lemma recv_exact_keeps: "reads_keep tr P \<Longrightarrow> P t \<Longrightarrow> P (snd (recv_exact tr n t))"
proof (induction n arbitrary: t rule: less_induct)
  case (less n)
  obtain r t1 where r: "it_recv tr n t = (r, t1)" by fastforce
  then have "P t1" using less.prems reads_keepD by fast
  then have "P (snd (recv_exact tr (n - length g) t1))" if "n \<noteq> 0" "g \<noteq> []" for g :: "u8 list"
    using less.IH [of "n - length g" t1] less.prems(1) that by simp
  with \<open>P t1\<close> less.prems r show ?case
    by (subst recv_exact.simps) (force split: sum.splits prod.splits)
qed

lemma recv_payload_keeps: "reads_keep tr P \<Longrightarrow> P t \<Longrightarrow> P (snd (recv_payload tr e n f t))"
  by (simp add: recv_payload_def recv_exact_keeps bindx_keeps split: option.split)

lemma recv_body_keeps: "reads_keep tr P \<Longrightarrow> P t \<Longrightarrow> P (snd (recv_body tr msg cnt t))"
  by (simp add: recv_body_def recv_payload_keeps recv_exact_keeps bindx_keeps)

lemma recv_frame_keeps:
  assumes "reads_keep tr P" "P t" "recv_frame tr (d, t) = (r, d', t')"
  shows "P t'"
proof -
  obtain r1 t1 where r1: "it_recv tr 1 t = (r1, t1)" by fastforce
  have p1: "P t1" using reads_keepD [OF assms(1,2) r1] .
  have p2: "P (snd (bindx (recv_exact tr 2) (\<lambda>bs. recv_body tr msg (read_u16 bs)) t1))" for msg
    by (rule bindx_keeps [where P = P, OF p1]) (rule recv_exact_keeps recv_body_keeps, rule assms(1), assumption)+
  consider e where "r1 = Inl e" | "r1 = Inr []" | m ms where "r1 = Inr (m # ms)"
    by (metis list.exhaust sum.exhaust)
  then show ?thesis
  proof cases
    case (3 m ms)
    obtain r2 t2 where "bindx (recv_exact tr 2) (\<lambda>bs. recv_body tr m (read_u16 bs)) t1 = (r2, t2)" by fastforce
    with p2 [of m] 3 assms(3) r1 show ?thesis by (cases r2) (auto simp: recv_frame_def)
  qed (use assms(3) r1 p1 in \<open>auto simp: recv_frame_def\<close>)
qed

text \<open>The parts of the client a wait does not touch.\<close>

definition same_session :: "'t FpgaClient \<Rightarrow> 't FpgaClient \<Rightarrow> bool" where
  "same_session s s' \<longleftrightarrow> fc_session_id s' = fc_session_id s \<and> fc_cleanup s' = fc_cleanup s \<and>
     fc_counter s' = fc_counter s"

lemma same_session_refl [simp]: "same_session s s"
  by (simp add: same_session_def)

lemma same_session_trans: "same_session a b \<Longrightarrow> same_session b c \<Longrightarrow> same_session a c"
  by (simp add: same_session_def)

definition waits :: "('t \<Rightarrow> bool) \<Rightarrow> 't FpgaClient \<Rightarrow> 't FpgaClient \<Rightarrow> bool" where
  "waits P s s' \<longleftrightarrow> same_session s s' \<and> fc_credit s' = fc_credit s \<and> fc_clock s \<le> fc_clock s' \<and>
     (P (fc_transport s) \<longrightarrow> P (fc_transport s'))"

lemma waits_refl [simp]: "waits P s s" by (simp add: waits_def)

lemma waits_trans: "waits P a b \<Longrightarrow> waits P b c \<Longrightarrow> waits P a c"
  by (auto simp: waits_def intro: same_session_trans)

lemma now_waits: "now clk s = (t, s') \<Longrightarrow> waits P s s' \<and> fc_clock s' = fc_clock s + 1 \<and> t = clk (fc_clock s)"
  by (auto simp: now_def waits_def same_session_def)

lemma timed_recv_waits:
  assumes "reads_keep tr P" "timed_recv tr clk s = (r, s')"
  shows "waits P s s'"
proof -
  obtain r1 d1 t1 where r1: "recv_frame tr (fc_decoder s, fc_transport s) = (r1, d1, t1)" by (metis prod_cases3)
  have "P (fc_transport s) \<Longrightarrow> P t1" using recv_frame_keeps [OF assms(1) _ r1] .
  with assms(2) r1 show ?thesis
    by (auto simp: timed_recv_def now_def waits_def same_session_def Let_def split: sum.splits)
qed

lemma waits_metrics [simp]: "waits P s (s'\<lparr>fc_metrics := m\<rparr>) = waits P s s'"
  "waits P (s\<lparr>fc_metrics := m\<rparr>) s' = waits P s s'"
  by (simp_all add: waits_def same_session_def)

lemma collect_loop_waits:
  assumes "reads_keep tr P"
  shows "collect_loop tr clk cfg kind start fuel out s = (r, s') \<Longrightarrow> waits P s s'"
proof (induction fuel arbitrary: out s)
  case (Suc fuel)
  obtain t s1 where s1: "now clk s = (t, s1)" by fastforce
  obtain r2 s2 where s2: "timed_recv tr clk s1 = (r2, s2)" by fastforce
  have w: "waits P s s1" "waits P s1 s2" using now_waits [OF s1] timed_recv_waits [OF assms s2] by auto
  note w' = waits_trans [OF w]
  show ?case
    using Suc.prems s1 s2 w w'
    by (auto simp: Let_def split: if_splits sum.splits HostFrame.splits dest!: Suc.IH) (rule waits_trans [OF w'], assumption)+
qed simp

lemma collect_until_ack_waits:
  assumes "reads_keep tr P" "collect_until_ack tr clk cfg fuel kind out s = (r, s')"
  shows "waits P s s'"
proof -
  obtain t s1 where s1: "now clk s = (t, s1)" by fastforce
  have "waits P s1 s'" using assms(2) s1 by (intro collect_loop_waits [OF assms(1)]) (simp add: collect_until_ack_def)
  with now_waits [OF s1] show ?thesis using waits_trans by blast
qed

section \<open>The batches of a phase\<close>

text \<open>The rows cut into batches of \<open>m\<close>, the last one shorter: what the client means to send, however
  credit and acknowledgements arrive.\<close>

function chunks :: "nat \<Rightarrow> 'a list \<Rightarrow> 'a list list" where
  "chunks m xs = (if xs = [] \<or> m = 0 then [] else take m xs # chunks m (drop m xs))"
  by pat_completeness auto
termination
  by (relation "measure (\<lambda>(m, xs). length xs)") auto

declare chunks.simps [simp del]

lemma chunks_Nil [simp]: "chunks m [] = []" by (simp add: chunks.simps)

lemma chunks_step: "xs \<noteq> [] \<Longrightarrow> 0 < m \<Longrightarrow> chunks m xs = take m xs # chunks m (drop m xs)"
  by (subst chunks.simps) simp

lemma concat_chunks: "0 < m \<Longrightarrow> concat (chunks m xs) = xs"
  by (induction m xs rule: chunks.induct) (subst chunks.simps, auto)

lemma chunks_lengths: "f \<in> set (chunks m xs) \<Longrightarrow> f \<noteq> [] \<and> length f \<le> m"
proof (induction m xs rule: chunks.induct)
  case (1 m xs)
  then show ?case by (subst (asm) (2) chunks.simps) (auto split: if_splits)
qed

lemma prefix_chunks:
  assumes "0 < m" "prefix fs (chunks m xs)"
  shows "chunks m xs = fs @ chunks m (drop (length (concat fs)) xs)"
  using assms
proof (induction fs arbitrary: xs)
  case (Cons f fs)
  then have xs: "xs \<noteq> []" by auto
  with Cons.prems have f: "f = take m xs" "prefix fs (chunks m (drop m xs))"
    by (auto simp: chunks_step)
  show ?case
  proof (cases "length xs \<le> m")
    case True
    with f have "fs = []" by simp
    with True f xs Cons.prems(1) show ?thesis by (simp add: chunks_step)
  next
    case False
    with f xs Cons.prems(1) Cons.IH [of "drop m xs"] show ?thesis
      by (simp add: chunks_step [of xs] min_def add.commute)
  qed
qed simp

lemma prefix_chunks_le:
  assumes "0 < m" "prefix fs (chunks m xs)"
  shows "length (concat fs) \<le> length xs"
  using assms(2) arg_cong [OF concat_chunks [OF assms(1), of xs], of length] by (auto elim!: prefixE)

lemma prefix_chunks_all:
  assumes "0 < m" "prefix fs (chunks m xs)"
  shows "length (concat fs) = length xs \<longleftrightarrow> fs = chunks m xs"
  using prefix_chunks [OF assms] concat_chunks [OF assms(1), of xs] by auto

text \<open>The next batch.\<close>

lemma prefix_chunks_next:
  assumes "0 < m" "prefix fs (chunks m xs)" "length (concat fs) < length xs"
  shows "prefix (fs @ [take m (drop (length (concat fs)) xs)]) (chunks m xs)"
  using prefix_chunks [OF assms(1,2)] assms(1,3) by (simp add: chunks_step)

section \<open>Filling the window\<close>

lemma unat_spend: "unat (spend c n) = unat c - n"
proof (cases "n < unat c")
  case True
  then have "n < 65536" using unsigned_less [where 'a = nat, of c] by simp
  with True show ?thesis
    by (simp add: spend_def unat_sub word_le_nat_alt unsigned_of_nat take_bit_nat_eq_self)
qed (simp add: spend_def)

text \<open>The size of the next batch is that of the next chunk, whatever the credit.\<close>

definition batch_size :: "ClientConfig \<Rightarrow> u16 \<Rightarrow> nat \<Rightarrow> nat" where
  "batch_size cfg c remaining = min (min (unat c) (unat (max_batch_tuples cfg))) remaining"

lemma batch_size_chunk:
  "\<not> (c < max_batch_tuples cfg \<and> remaining > unat c) \<Longrightarrow>
     batch_size cfg c remaining = min (unat (max_batch_tuples cfg)) remaining"
  by (auto simp: batch_size_def word_less_nat_alt)

lemma ss_send_cases:
  assumes "ss_send ss data msg bucket s = (r, s')"
  obtains t' where "it_send (ss_transport ss) data (fc_transport s) = (r, t')" "fc_transport s' = t'"
    "fc_credit s' = fc_credit s" "same_session s s'" "fc_clock s \<le> fc_clock s'"
  using assms
  by (auto simp: ss_send_def send_counted_def now_def Let_def same_session_def split: prod.splits sum.splits)

text \<open>A step of a session that leaves \<open>data\<close> in the transport's log.\<close>

definition sends :: "('t \<Rightarrow> u8 list) \<Rightarrow> 't FpgaClient \<Rightarrow> 't FpgaClient \<Rightarrow> u8 list \<Rightarrow> bool" where
  "sends log s s' data \<longleftrightarrow> same_session s s' \<and> log (fc_transport s') = log (fc_transport s) @ data"

lemma sends_refl [simp]: "sends log s s []"
  by (simp add: sends_def)

lemma sends_trans: "sends log a b x \<Longrightarrow> sends log b c y \<Longrightarrow> sends log a c (x @ y)"
  by (auto simp: sends_def intro: same_session_trans)

lemma sends_fields [simp]:
  "sends log s (s'\<lparr>fc_credit := c\<rparr>) d = sends log s s' d" "sends log (s\<lparr>fc_credit := c\<rparr>) s' d = sends log s s' d"
  "sends log s (s'\<lparr>fc_metrics := m\<rparr>) d = sends log s s' d" "sends log (s\<lparr>fc_metrics := m\<rparr>) s' d = sends log s s' d"
  "sends log s (s'\<lparr>fc_clock := k\<rparr>) d = sends log s s' d" "sends log (s\<lparr>fc_clock := k\<rparr>) s' d = sends log s s' d"
  by (simp_all add: sends_def same_session_def)

lemma host_frames_append [simp]: "host_frames kt msg (fs @ gs) = host_frames kt msg fs @ host_frames kt msg gs"
  by (simp add: host_frames_def)

lemma host_frames_Nil [simp]: "host_frames kt msg [] = []"
  by (simp add: host_frames_def)

text \<open>What the inner loop of a phase does after the batches \<open>fs\<close>: it sends the next batches \<open>gs\<close> and
  adds them to those in flight, within the credit and the window.\<close>

definition fills where
  "fills log ss msg rows fs inflight s r s' gs \<longleftrightarrow>
     prefix (fs @ gs) (chunks (unat (max_batch_tuples (ss_cfg ss))) rows) \<and>
     sends log s s' (host_frames (jc_key_type (ss_join ss)) msg gs) \<and>
     (\<forall>sent' inflight'. r = Inr (sent', inflight') \<longrightarrow>
        sent' = length (concat (fs @ gs)) \<and> inflight' = inflight @ map length gs \<and>
        length (concat gs) \<le> unat (fc_credit s) \<and> unat (fc_credit s') = unat (fc_credit s) - length (concat gs) \<and>
        (length inflight \<le> unat (ack_window_frames (ss_cfg ss)) \<longrightarrow>
         length inflight' \<le> unat (ack_window_frames (ss_cfg ss))))"

text \<open>One round of the loop; \<open>fill_go\<close> is the condition under which it sends.\<close>

definition fill_go where
  "fill_go ss rows sent inflight s \<longleftrightarrow> sent < length rows \<and>
     length inflight < unat (ack_window_frames (ss_cfg ss)) \<and> fc_credit s \<noteq> 0 \<and>
     \<not> (fc_credit s < max_batch_tuples (ss_cfg ss) \<and> length rows - sent > unat (fc_credit s))"

definition fill_batch where
  "fill_batch ss rows sent s = batch_size (ss_cfg ss) (fc_credit s) (length rows - sent)"

lemma fill_window_stop:
  "\<not> fill_go ss rows sent inflight s \<Longrightarrow> fill_window ss msg bucket rows sent inflight s = (Inr (sent, inflight), s)"
  by (subst fill_window.simps) (auto simp: fill_go_def)

lemma fill_window_step:
  assumes "fill_go ss rows sent inflight s" "batch = fill_batch ss rows sent s"
  shows "fill_window ss msg bucket rows sent inflight s =
    bindx (ss_send ss (serialize_batch (jc_key_type (ss_join ss)) msg (take batch (drop sent rows)) batch) msg bucket)
      (\<lambda>_. fill_window ss msg bucket rows (sent + batch) (inflight @ [batch])) (s\<lparr>fc_credit := spend (fc_credit s) batch\<rparr>)"
  using assms by (subst fill_window.simps)
    (auto simp: fill_go_def fill_batch_def batch_size_def Let_def bindx_def split: sum.splits)

lemma fill_batch_size:
  assumes "fill_go ss rows sent inflight s" "0 < unat (max_batch_tuples (ss_cfg ss))"
    and "batch = fill_batch ss rows sent s"
  shows "batch = min (unat (max_batch_tuples (ss_cfg ss))) (length rows - sent)" "batch \<le> unat (fc_credit s)"
    "0 < batch" "batch \<le> length rows - sent"
    "take batch (drop sent rows) = take (unat (max_batch_tuples (ss_cfg ss))) (drop sent rows)"
proof -
  show b: "batch = min (unat (max_batch_tuples (ss_cfg ss))) (length rows - sent)"
    using assms batch_size_chunk [of "fc_credit s" "ss_cfg ss" "length rows - sent"]
    by (auto simp: fill_go_def fill_batch_def)
  show "batch \<le> unat (fc_credit s)" "0 < batch" "batch \<le> length rows - sent"
    using assms unat_gt_0 [of "fc_credit s"] by (auto simp: fill_go_def fill_batch_def batch_size_def)
  show "take batch (drop sent rows) = take (unat (max_batch_tuples (ss_cfg ss))) (drop sent rows)"
    by (auto simp: b min_def)
qed

locale logged_transport =
  fixes tr :: "'t ITransport" and log :: "'t \<Rightarrow> u8 list"
  assumes recv_log: "log (snd (it_recv tr n t)) = log t"
    and send_log: "it_send tr data t = (r, t') \<Longrightarrow> log t' = log t @ (case r of Inr _ \<Rightarrow> data | Inl _ \<Rightarrow> [])"
begin

lemma reads_keep_log: "reads_keep tr (\<lambda>t. log t = l)"
  by (simp add: reads_keep_def recv_log)

lemma ss_send_log:
  assumes "ss_transport ss = tr" "ss_send ss data msg bucket s = (r, s')"
  shows "sends log s s' (case r of Inr _ \<Rightarrow> data | Inl _ \<Rightarrow> [])" "fc_credit s' = fc_credit s"
  by (rule ss_send_cases [OF assms(2)], use assms(1) send_log in \<open>simp add: sends_def\<close>)+

lemma ss_collect_log:
  assumes "ss_transport ss = tr" "ss_collect ss kind out s = (r, s')"
  shows "sends log s s' []" "fc_credit s' = fc_credit s"
proof -
  have "waits (\<lambda>t. log t = log (fc_transport s)) s s'"
    using assms collect_until_ack_waits [OF reads_keep_log] by (simp add: ss_collect_def)
  then show "sends log s s' []" "fc_credit s' = fc_credit s"
    by (simp_all add: waits_def sends_def)
qed

lemma fill_window_sends:
  assumes tr: "ss_transport ss = tr" and m: "0 < unat (max_batch_tuples (ss_cfg ss))"
    and "fill_window ss msg bucket rows sent inflight s = (r, s')"
    and "prefix fs (chunks (unat (max_batch_tuples (ss_cfg ss))) rows)" "sent = length (concat fs)"
  shows "\<exists>gs. fills log ss msg rows fs inflight s r s' gs"
  using assms(3-)
proof (induction "unat (ack_window_frames (ss_cfg ss)) - length inflight" arbitrary: sent inflight s fs rule: less_induct)
  case less
  let ?kt = "jc_key_type (ss_join ss)" and ?m = "unat (max_batch_tuples (ss_cfg ss))"
  show ?case
  proof (cases "fill_go ss rows sent inflight s")
    case False
    with less.prems show ?thesis by (intro exI [of _ "[]"]) (auto simp: fill_window_stop fills_def)
  next
    case True
    define batch where "batch = fill_batch ss rows sent s"
    define g where "g = take batch (drop sent rows)"
    note b = fill_batch_size [OF True m batch_def]
    have g: "g = take ?m (drop sent rows)" "length g = batch"
      using b by (simp_all add: g_def)
    have pre: "prefix (fs @ [g]) (chunks ?m rows)"
      using prefix_chunks_next [OF m less.prems(2)] True less.prems(3) g(1) by (simp add: fill_go_def)
    obtain r1 s1 where send: "ss_send ss (serialize_batch ?kt msg g batch) msg bucket
        (s\<lparr>fc_credit := spend (fc_credit s) batch\<rparr>) = (r1, s1)" by fastforce
    have s1: "sends log s s1 (case r1 of Inr _ \<Rightarrow> host_frames ?kt msg [g] | Inl _ \<Rightarrow> [])"
      "unat (fc_credit s1) = unat (fc_credit s) - batch"
      using ss_send_log [OF tr send] g(2) by (simp_all add: host_frames_def unat_spend split: sum.splits)
    note step = fill_window_step [OF True batch_def, of msg bucket, folded g_def]
    show ?thesis
    proof (cases r1)
      case (Inl e)
      with step send less.prems s1 pre show ?thesis
        by (intro exI [of _ "[]"]) (auto simp: fills_def intro: append_prefixD)
    next
      case (Inr u)
      have "\<exists>gs. fills log ss msg rows (fs @ [g]) (inflight @ [batch]) s1 r s' gs"
        using True step send less.prems(1,3) pre g(2) Inr by (intro less.hyps) (auto simp: fill_go_def)
      then obtain gs where "fills log ss msg rows (fs @ [g]) (inflight @ [batch]) s1 r s' gs" ..
      with s1 b(2) g(2) Inr True sends_trans [OF s1(1)] show ?thesis
        by (intro exI [of _ "g # gs"]) (fastforce simp: fills_def fill_go_def host_frames_def)
    qed
  qed
qed

end

section \<open>The stream a session sends\<close>

lemma now_sends: "now clk s = (t, s') \<Longrightarrow> sends log s s' []"
  by (auto simp: now_def)

lemma sends_now [simp]: "sends log s (snd (now clk s')) d = sends log s s' d"
  by (simp add: now_def)

text \<open>A phase that has sent the batches \<open>fs\<close> and goes on to send some more, all of them if \<open>complete\<close>.\<close>

definition phase_sends where
  "phase_sends log ss msg rows fs s s' complete \<longleftrightarrow>
     (\<exists>gs. prefix (fs @ gs) (chunks (unat (max_batch_tuples (ss_cfg ss))) rows) \<and>
        sends log s s' (host_frames (jc_key_type (ss_join ss)) msg gs) \<and>
        (complete \<longrightarrow> fs @ gs = chunks (unat (max_batch_tuples (ss_cfg ss))) rows))"

lemma phase_sends_trans:
  assumes "fills log ss msg rows fs inflight s r s1 gs" "sends log s1 s2 []"
    "phase_sends log ss msg rows (fs @ gs) s2 s' complete"
  shows "phase_sends log ss msg rows fs s s' complete"
proof -
  have "sends log s s2 (host_frames (jc_key_type (ss_join ss)) msg gs)"
    using assms(1) sends_trans [OF _ assms(2)] by (auto simp: fills_def)
  with assms(3) sends_trans [OF this] show ?thesis
    unfolding phase_sends_def by (metis append.assoc host_frames_append)
qed

lemma phase_sends_stop:
  assumes "fills log ss msg rows fs inflight s r s1 gs" "sends log s1 s' []"
  shows "phase_sends log ss msg rows fs s s' False"
  using assms sends_trans [OF _ assms(2)] by (auto simp: fills_def phase_sends_def)

lemma phase_sends_fields [simp]:
  "phase_sends log ss msg rows fs s (s'\<lparr>fc_credit := c\<rparr>) d = phase_sends log ss msg rows fs s s' d"
  "phase_sends log ss msg rows fs (s\<lparr>fc_credit := c\<rparr>) s' d = phase_sends log ss msg rows fs s s' d"
  by (simp_all add: phase_sends_def)

text \<open>What a round of the build and of the probe loop can do once its batches are out.\<close>

lemma build_loop_cases:
  assumes "client_build_loop (Suc n) ss inner sent inflight acked s = (r, s')" "sent < length inner \<or> inflight \<noteq> []"
    and "build_fill ss inner sent inflight s = (Inr (sent1, inflight1), s1)" "ss_collect ss Build [] s1 = (r2, s2)"
  obtains (credit) msg where "inflight1 = []" "r = Inl (FpgaException msg)" "s' = s1"
  | (failed) e where "inflight1 \<noteq> []" "r2 = Inl e" "r = Inl e" "s' = s2"
  | (stuck) ack out msg where "r2 = Inr (ack, out)" "r = Inl (FpgaException msg)" "s' = s2\<lparr>fc_credit := ack_credit ack\<rparr>"
  | (again) ack out frames inflight2 acked2 where "inflight1 \<noteq> []" "r2 = Inr (ack, out)"
      "apply_cumulative_ack inflight1 acked (rows_processed ack) = (frames, inflight2, acked2)" "frames \<noteq> 0 \<or> inflight2 = []"
      "client_build_loop n ss inner sent1 inflight2 acked2 (s2\<lparr>fc_credit := ack_credit ack\<rparr>) = (r, s')"
  using assms by (cases r2) (auto simp: bindx_def Let_def split: if_splits prod.splits)

lemma probe_loop_cases:
  assumes "client_probe_loop (Suc n) ss outer sent inflight acked last_ack results s = (r, s')" "sent < length outer \<or> inflight \<noteq> []"
    and "probe_fill ss outer sent inflight s = (Inr (sent1, inflight1), s1)" "ss_collect ss Probe results s1 = (r2, s2)"
  obtains (credit) msg where "inflight1 = []" "r = Inl (FpgaException msg)" "s' = s1"
  | (failed) e where "inflight1 \<noteq> []" "r2 = Inl e" "r = Inl e" "s' = s2"
  | (finished) ack out where "r2 = Inr (ack, out)" "r = Inr (ack, out)" "s' = s2\<lparr>fc_credit := ack_credit ack\<rparr>"
  | (stuck) ack out msg where "r2 = Inr (ack, out)" "r = Inl (FpgaException msg)" "s' = s2\<lparr>fc_credit := ack_credit ack\<rparr>"
  | (again) ack out frames inflight2 acked2 where "inflight1 \<noteq> []" "r2 = Inr (ack, out)"
      "apply_cumulative_ack inflight1 acked (rows_processed ack) = (frames, inflight2, acked2)" "frames \<noteq> 0 \<or> inflight2 = []"
      "client_probe_loop n ss outer sent1 inflight2 acked2 ack out (s2\<lparr>fc_credit := ack_credit ack\<rparr>) = (r, s')"
  using assms by (cases r2) (auto simp: bindx_def Let_def split: if_splits prod.splits)

context logged_transport
begin

lemma build_loop_sends:
  assumes tr: "ss_transport ss = tr" and m: "0 < unat (max_batch_tuples (ss_cfg ss))"
  shows "client_build_loop n ss inner sent inflight acked s = (r, s') \<Longrightarrow>
    prefix fs (chunks (unat (max_batch_tuples (ss_cfg ss))) inner) \<Longrightarrow> sent = length (concat fs) \<Longrightarrow>
    phase_sends log ss MSG_INNER_DATA inner fs s s' (r = Inr ())"
proof (induction n arbitrary: sent inflight acked s fs)
  case 0
  then show ?case by (auto simp: phase_sends_def intro!: exI [of _ "[]"])
next
  case (Suc n)
  show ?case
  proof (cases "sent < length inner \<or> inflight \<noteq> []")
    case False
    with Suc.prems prefix_chunks_all [OF m Suc.prems(2)] prefix_chunks_le [OF m Suc.prems(2)] show ?thesis
      by (auto simp: phase_sends_def intro!: exI [of _ "[]"])
  next
    case True
    obtain r1 s1 where fill: "build_fill ss inner sent inflight s = (r1, s1)" by fastforce
    then obtain gs where gs: "fills log ss MSG_INNER_DATA inner fs inflight s r1 s1 gs"
      using fill_window_sends [OF tr m _ Suc.prems(2,3)] unfolding build_fill_def by blast
    note stop = phase_sends_stop [OF gs]
    show ?thesis
    proof (cases r1)
      case (Inl e)
      with True Suc.prems fill stop [of s1] show ?thesis by auto
    next
      case (Inr p)
      obtain sent1 inflight1 where p: "p = (sent1, inflight1)" by fastforce
      have sent1: "prefix (fs @ gs) (chunks (unat (max_batch_tuples (ss_cfg ss))) inner)" "sent1 = length (concat (fs @ gs))"
        using gs Inr p by (simp_all add: fills_def)
      obtain r2 s2 where col: "ss_collect ss Build [] s1 = (r2, s2)" by fastforce
      note l2 = ss_collect_log(1) [OF tr col]
      from Suc.prems(1) True fill [unfolded Inr p] col show ?thesis
      proof (cases rule: build_loop_cases)
        case again
        then show ?thesis
          using phase_sends_trans [OF gs l2] Suc.IH [OF again(5) sent1] by simp
      qed (use stop [of s1] stop [of s2] l2 in auto)
    qed
  qed
qed

lemma probe_loop_sends:
  assumes tr: "ss_transport ss = tr" and m: "0 < unat (max_batch_tuples (ss_cfg ss))"
  shows "client_probe_loop n ss outer sent inflight acked last_ack results s = (r, s') \<Longrightarrow>
    prefix fs (chunks (unat (max_batch_tuples (ss_cfg ss))) outer) \<Longrightarrow> sent = length (concat fs) \<Longrightarrow>
    phase_sends log ss MSG_OUTER_DATA outer fs s s' False"
proof (induction n arbitrary: sent inflight acked last_ack results s fs)
  case 0
  then show ?case by (auto simp: phase_sends_def intro!: exI [of _ "[]"])
next
  case (Suc n)
  show ?case
  proof (cases "sent < length outer \<or> inflight \<noteq> []")
    case False
    with Suc.prems show ?thesis by (auto simp: phase_sends_def intro!: exI [of _ "[]"])
  next
    case True
    obtain r1 s1 where fill: "probe_fill ss outer sent inflight s = (r1, s1)" by fastforce
    then obtain gs where gs: "fills log ss MSG_OUTER_DATA outer fs inflight s r1 s1 gs"
      using fill_window_sends [OF tr m _ Suc.prems(2,3)] unfolding probe_fill_def by blast
    note stop = phase_sends_stop [OF gs]
    show ?thesis
    proof (cases r1)
      case (Inl e)
      with True Suc.prems fill stop [of s1] show ?thesis by auto
    next
      case (Inr p)
      obtain sent1 inflight1 where p: "p = (sent1, inflight1)" by fastforce
      have sent1: "prefix (fs @ gs) (chunks (unat (max_batch_tuples (ss_cfg ss))) outer)" "sent1 = length (concat (fs @ gs))"
        using gs Inr p by (simp_all add: fills_def)
      obtain r2 s2 where col: "ss_collect ss Probe results s1 = (r2, s2)" by fastforce
      note l2 = ss_collect_log(1) [OF tr col]
      from Suc.prems(1) True fill [unfolded Inr p] col show ?thesis
      proof (cases rule: probe_loop_cases)
        case again
        then show ?thesis
          using phase_sends_trans [OF gs l2] Suc.IH [OF again(5) sent1] by simp
      qed (use stop [of s1] stop [of s2] l2 in auto)
    qed
  qed
qed

end

lemma bindx_cases:
  assumes "bindx m f s = (r, s')"
  obtains (left) e where "m s = (Inl e, s')" "r = Inl e" | (right) a s1 where "m s = (Inr a, s1)" "f a s1 = (r, s')"
  using assms by (cases "m s"; cases "fst (m s)") (auto simp: bindx_def)

text \<open>The data frames of a session in the order the client sends them.\<close>

definition batches_of :: "'t Session \<Rightarrow> InputTuple list \<Rightarrow> InputTuple list list" where
  "batches_of ss rows = chunks (unat (max_batch_tuples (ss_cfg ss))) rows"

definition build_stream :: "'t Session \<Rightarrow> InputTuple list \<Rightarrow> nat \<Rightarrow> u8 \<Rightarrow> u8 list" where
  "build_stream ss inner outer_count sid =
     serialize_configure (ss_join ss) (of_nat (length inner)) (of_nat outer_count) sid @
     host_frames (jc_key_type (ss_join ss)) MSG_INNER_DATA (batches_of ss inner)"

definition session_stream :: "'t Session \<Rightarrow> InputTuple list \<Rightarrow> InputTuple list \<Rightarrow> u8 \<Rightarrow> u8 list" where
  "session_stream ss inner outer sid =
     build_stream ss inner (length outer) sid @
     host_frames (jc_key_type (ss_join ss)) MSG_OUTER_DATA (batches_of ss outer)"

text \<open>The first batch when it travels with CONFIGURE.\<close>

definition coalesced :: "'t Session \<Rightarrow> InputTuple list \<Rightarrow> InputTuple list list" where
  "coalesced ss inner = (if coalesce_config_first_inner (ss_cfg ss) \<and> inner \<noteq> []
     then [take (unat (max_batch_tuples (ss_cfg ss))) inner] else [])"

lemma coalesced_prefix: "0 < unat (max_batch_tuples (ss_cfg ss)) \<Longrightarrow> prefix (coalesced ss inner) (batches_of ss inner)"
  by (simp add: coalesced_def batches_of_def chunks_step)

lemma client_config_phase_eq:
  assumes "unat (max_batch_tuples (ss_cfg ss)) \<le> 256"
  shows "client_config_phase ss inner n s =
    bindx (ss_send ss (serialize_configure (ss_join ss) (of_nat (length inner)) (of_nat n) (fc_session_id s) @
        host_frames (jc_key_type (ss_join ss)) MSG_INNER_DATA (coalesced ss inner)) MSG_CONFIGURE config_send_ms_update)
      (\<lambda>_. bindx (ss_collect ss Config [])
        (\<lambda>(ack, _) s. (Inr (length (concat (coalesced ss inner))), s\<lparr>fc_credit := ack_credit ack\<rparr>)))
      (s\<lparr>fc_metrics := if coalesced ss inner = [] then fc_metrics s else account_coalesced_inner_frame (fc_metrics s)\<rparr>)"
proof (cases "coalesce_config_first_inner (ss_cfg ss) \<and> inner \<noteq> []")
  case True
  have m: "min (min 256 (unat (max_batch_tuples (ss_cfg ss)))) (length inner) = length (take (unat (max_batch_tuples (ss_cfg ss))) inner)"
    using assms by simp
  have t: "take (length (take (unat (max_batch_tuples (ss_cfg ss))) inner)) inner = take (unat (max_batch_tuples (ss_cfg ss))) inner"
    by (simp add: min_def)
  from True show ?thesis
    unfolding client_config_phase_def coalesced_def Let_def
    by (simp del: length_take add: m t host_frames_def)
next
  case False
  then have c: "coalesced ss inner = []" "(coalesce_config_first_inner (ss_cfg ss) \<and> length inner \<noteq> 0) = False"
    by (auto simp: coalesced_def)
  show ?thesis unfolding client_config_phase_def c Let_def by simp
qed

text \<open>The log of the last phase: nothing, or a reset frame after which the cleanup sends none.\<close>

definition finish_log :: "('t \<Rightarrow> u8 list) \<Rightarrow> 't FpgaClient \<Rightarrow> 't FpgaClient \<Rightarrow> bool" where
  "finish_log log s s' \<longleftrightarrow> fc_session_id s' = fc_session_id s \<and>
     (log (fc_transport s') = log (fc_transport s) \<or>
      log (fc_transport s') = log (fc_transport s) @ [MSG_RESET, 0, 0] \<and> \<not> fc_cleanup s')"

lemma finish_log_refl [simp]: "finish_log log s s"
  by (simp add: finish_log_def)

lemma return_verified_state: "return_verified at results ack s = (r, s') \<Longrightarrow> s' = s"
  by (auto simp: return_verified_def split: sum.splits)

context logged_transport
begin

lemma config_phase_sends:
  assumes tr: "ss_transport ss = tr" and m: "unat (max_batch_tuples (ss_cfg ss)) \<le> 256"
    and run: "client_config_phase ss inner n s = (r, s')"
    and D: "D = serialize_configure (ss_join ss) (of_nat (length inner)) (of_nat n) (fc_session_id s) @
        host_frames (jc_key_type (ss_join ss)) MSG_INNER_DATA (coalesced ss inner)"
  shows "\<exists>d. sends log s s' d \<and> prefix d D \<and>
      (\<forall>first. r = Inr first \<longrightarrow> first = length (concat (coalesced ss inner)) \<and> d = D)"
  using run unfolding client_config_phase_eq [OF m] D [symmetric]
proof (cases rule: bindx_cases)
  case (left e)
  with ss_send_log [OF tr left(1)] show ?thesis by (intro exI [of _ "[]"]) simp
next
  case (right u s1)
  have s1: "sends log s s1 D" using ss_send_log(1) [OF tr right(1)] by simp
  obtain r2 s2 where col: "ss_collect ss Config [] s1 = (r2, s2)" by fastforce
  have "sends log s s2 D" using sends_trans [OF s1 ss_collect_log(1) [OF tr col]] by simp
  with right(2) col show ?thesis
    by (intro exI [of _ D]) (cases r2, auto simp: bindx_def)
qed

lemma probe_end_sends:
  assumes tr: "ss_transport ss = tr" and "client_probe_end ss n last_ack results s = (r, s')"
  shows "\<exists>d. d \<in> {[], [MSG_OUTER_DATA, 0, 0]} \<and> sends log s s' d"
proof -
  have "\<exists>d. d \<in> {[], [MSG_OUTER_DATA, 0, 0]} \<and> sends log s s' d"
    if b: "bindx (ss_send ss [MSG_OUTER_DATA, 0, 0] MSG_OUTER_DATA probe_send_ms_update)
             (\<lambda>_. bindx (ss_collect ss Probe results)
                (\<lambda>(ack, results) s. (Inr (ack, results), s\<lparr>fc_credit := ack_credit ack\<rparr>))) s = (r, s')"
    using b
  proof (cases rule: bindx_cases)
    case (left e)
    with ss_send_log(1) [OF tr left(1)] show ?thesis by auto
  next
    case (right u s1)
    note s1 = ss_send_log(1) [OF tr right(1)]
    obtain r2 s2 where col: "ss_collect ss Probe results s1 = (r2, s2)" by fastforce
    have "sends log s s2 [MSG_OUTER_DATA, 0, 0]" using sends_trans [OF s1 ss_collect_log(1) [OF tr col]] by simp
    with right(2) col show ?thesis
      by (intro exI [of _ "[MSG_OUTER_DATA, 0, 0]"]) (cases r2, auto simp: bindx_def)
  qed
  moreover have "\<exists>d. d \<in> {[], [MSG_OUTER_DATA, 0, 0]} \<and> sends log s s d" by (intro exI [of _ "[]"]) simp
  ultimately show ?thesis
    using assms(2) unfolding client_probe_end_def by (simp only: prod.inject split: if_splits) blast+
qed

lemma reset_wait_sends:
  assumes tr: "ss_transport ss = tr"
  shows "reset_wait n ss s = (r, s') \<Longrightarrow> sends log s s' []"
proof (induction n arbitrary: s)
  case (Suc n)
  obtain r1 s1 where col: "ss_collect ss Reset [] s = (r1, s1)" by fastforce
  note s1 = ss_collect_log(1) [OF tr col]
  have "sends log s s' []" if "reset_wait n ss s1 = (r, s')" using sends_trans [OF s1 Suc.IH [OF that]] by simp
  with Suc.prems col s1 show ?case
    by (cases r1) (auto split: exn.splits if_splits prod.splits)
qed simp

lemma finish_inferred_log:
  assumes tr: "ss_transport ss = tr" and run: "finish_inferred ss last_ack results s = (r, s')"
  shows "finish_log log s s'"
  using run unfolding finish_inferred_def
proof (cases rule: bindx_cases)
  case (right a s1)
  have eq: "s1 = s" using right(1) by (rule return_verified_state)
  from right(2) show ?thesis
  proof (cases rule: bindx_cases)
    case (left e)
    with eq ss_send_log(1) [OF tr left(1) [unfolded send_reset_def]] show ?thesis
      by (simp add: finish_log_def sends_def same_session_def)
  next
    case (right u s2)
    have s2: "sends log s1 s2 [MSG_RESET, 0, 0]" using ss_send_log(1) [OF tr right(1) [unfolded send_reset_def]] by simp
    obtain r3 s3 where w: "reset_wait 8 ss (s2\<lparr>fc_cleanup := False\<rparr>) = (r3, s3)" by fastforce
    then have "s' = s3" using right(2) by (cases r3) (simp_all add: bindx_def)
    with s2 reset_wait_sends [OF tr w] eq show ?thesis
      by (simp add: finish_log_def sends_def same_session_def)
  qed
qed (auto dest: return_verified_state)

lemma finish_drain_log:
  assumes tr: "ss_transport ss = tr" and run: "finish_drain ss results s = (r, s')"
  shows "finish_log log s s'"
  using run unfolding finish_drain_def
proof (cases rule: bindx_cases)
  case (left e)
  with ss_collect_log(1) [OF tr left(1)] show ?thesis by (simp add: finish_log_def sends_def same_session_def)
next
  case (right a s1)
  then have "s' = s1" by (auto split: if_splits prod.splits dest: return_verified_state)
  with ss_collect_log(1) [OF tr right(1)] show ?thesis by (simp add: finish_log_def sends_def same_session_def)
qed

lemma client_finish_log:
  assumes "ss_transport ss = tr" "client_finish ss n last_ack results s = (r, s')"
  shows "finish_log log s s'"
  using assms finish_inferred_log finish_drain_log
  by (auto simp: client_finish_def split: if_splits dest: return_verified_state)

end

text \<open>What may follow the data frames: the explicit end of the probe phase and a reset.\<close>

definition control_tails :: "u8 list set" where
  "control_tails = {[], [MSG_OUTER_DATA, 0, 0], [MSG_RESET, 0, 0], [MSG_OUTER_DATA, 0, 0, MSG_RESET, 0, 0]}"

lemma bindx_assoc: "bindx m (\<lambda>a. bindx (f a) g) = bindx (bindx m f) g"
  by (rule ext) (simp add: bindx_def split: sum.split prod.split)

lemma sends_same: "sends log s s' d \<Longrightarrow> fc_session_id s' = fc_session_id s \<and> fc_cleanup s' = fc_cleanup s"
  by (simp add: sends_def same_session_def)

lemma client_cfg_batch:
  "0 < unat (max_batch_tuples (client_cfg cfg))" "unat (max_batch_tuples (client_cfg cfg)) \<le> 256"
proof -
  have "c \<noteq> 0 \<Longrightarrow> \<not> ucast c > RX_BUF_TUPLES \<Longrightarrow> 0 < unat c \<and> unat c \<le> 256" for c :: u16
    using unsigned_less [where 'a = nat, of c]
    by (auto simp: word_less_nat_alt unsigned_ucast_eq take_bit_nat_eq_self unat_gt_0)
  then show "0 < unat (max_batch_tuples (client_cfg cfg))" "unat (max_batch_tuples (client_cfg cfg)) \<le> 256"
    by (auto simp: client_cfg_def Let_def)
qed

context logged_transport
begin

lemma build_phase_sends:
  assumes tr: "ss_transport ss = tr" and m: "0 < unat (max_batch_tuples (ss_cfg ss))"
    and run: "client_build_phase ss inner (length (concat fs)) s = (r, s')" and fs: "prefix fs (batches_of ss inner)"
  shows "phase_sends log ss MSG_INNER_DATA inner fs s s' (r = Inr ())"
proof -
  let ?first = "length (concat fs)"
  define s1 where "s1 = (if ?first \<noteq> 0 then (snd (now (ss_clock ss) s))\<lparr>fc_credit := spend (fc_credit s) ?first\<rparr>
    else snd (now (ss_clock ss) s))"
  obtain r2 s2 where loop: "client_build_loop (ss_fuel ss) ss inner ?first (if ?first \<noteq> 0 then [?first] else []) 0 s1 = (r2, s2)"
    by fastforce
  have ph: "phase_sends log ss MSG_INNER_DATA inner fs s1 s2 (r2 = Inr ())"
    using build_loop_sends [OF tr m loop] fs by (simp add: batches_of_def)
  have "phase_sends log ss MSG_INNER_DATA inner fs s s' (r2 = Inr ()) \<and> (r = Inr () \<longleftrightarrow> r2 = Inr ())"
    using ph run loop
    by (cases r2) (auto simp: client_build_phase_def s1_def bindx_def Let_def now_def phase_sends_def split: if_splits)
  then show ?thesis by simp
qed

lemma head_log:
  assumes tr: "ss_transport ss = tr" and m: "0 < unat (max_batch_tuples (ss_cfg ss))" "unat (max_batch_tuples (ss_cfg ss)) \<le> 256"
    and run: "bindx (client_config_phase ss inner n) (client_build_phase ss inner) s = (r, s')"
  shows "\<exists>d. sends log s s' d \<and> prefix d (build_stream ss inner n (fc_session_id s)) \<and>
      (r = Inr () \<longrightarrow> d = build_stream ss inner n (fc_session_id s))"
proof -
  let ?conf = "serialize_configure (ss_join ss) (of_nat (length inner)) (of_nat n) (fc_session_id s)"
  let ?hf = "host_frames (jc_key_type (ss_join ss)) MSG_INNER_DATA" and ?fs = "coalesced ss inner"
  note fs = coalesced_prefix [OF m(1), of inner]
  have le: "prefix (?conf @ ?hf gs) (build_stream ss inner n (fc_session_id s))" if "prefix gs (batches_of ss inner)" for gs
    using that by (auto simp: build_stream_def elim!: prefixE)
  from run show ?thesis
  proof (cases rule: bindx_cases)
    case (left e)
    with config_phase_sends [OF tr m(2) left(1) refl] le [OF fs] show ?thesis
      by (auto intro: prefix_order.trans)
  next
    case (right first s1)
    have s1: "sends log s s1 (?conf @ ?hf ?fs)" and first: "first = length (concat ?fs)"
      using config_phase_sends [OF tr m(2) right(1) refl] by auto
    from build_phase_sends [OF tr m(1) right(2) [unfolded first] fs]
    obtain gs where gs: "prefix (?fs @ gs) (batches_of ss inner)" "sends log s1 s' (?hf gs)"
      "r = Inr () \<Longrightarrow> ?fs @ gs = batches_of ss inner"
      by (auto simp: phase_sends_def batches_of_def)
    from le [OF gs(1)] sends_trans [OF s1 gs(2)] gs(3) [symmetric] show ?thesis
      by (intro exI [of _ "?conf @ ?hf (?fs @ gs)"]) (simp add: build_stream_def)
  qed
qed

lemma tail_log:
  assumes tr: "ss_transport ss = tr" and m: "0 < unat (max_batch_tuples (ss_cfg ss))"
    and run: "bindx (client_probe_loop n ss outer 0 [] 0 ack_zero []) (\<lambda>(la, results).
        bindx (client_probe_end ss (length outer) la results) (\<lambda>(la, results).
          client_finish ss (length outer) la results)) s = (r, s')"
  shows "\<exists>hs tl. log (fc_transport s') = log (fc_transport s) @ host_frames (jc_key_type (ss_join ss)) MSG_OUTER_DATA hs @ tl \<and>
      prefix hs (batches_of ss outer) \<and> fc_session_id s' = fc_session_id s \<and> tl \<in> control_tails \<and>
      (tl \<in> {[], [MSG_OUTER_DATA, 0, 0]} \<or> \<not> fc_cleanup s')"
proof -
  let ?hf = "host_frames (jc_key_type (ss_join ss)) MSG_OUTER_DATA"
  obtain r1 s1 where loop: "client_probe_loop n ss outer 0 [] 0 ack_zero [] s = (r1, s1)" by fastforce
  obtain hs where hs: "prefix hs (batches_of ss outer)" "sends log s s1 (?hf hs)"
    using probe_loop_sends [OF tr m loop, of "[]"] by (auto simp: phase_sends_def batches_of_def)
  show ?thesis
  proof (cases r1)
    case (Inl e)
    with run loop hs sends_same [OF hs(2)] show ?thesis by (auto simp: sends_def control_tails_def)
  next
    case (Inr p)
    obtain la results where p: "p = (la, results)" by fastforce
    obtain r2 s2 where pe: "client_probe_end ss (length outer) la results s1 = (r2, s2)" by fastforce
    obtain d where d: "d \<in> {[], [MSG_OUTER_DATA, 0, 0]}" "sends log s1 s2 d" using probe_end_sends [OF tr pe] by blast
    note s2 = sends_trans [OF hs(2) d(2)]
    have "finish_log log s2 s'"
    proof (cases r2)
      case Inl
      with run loop Inr p pe show ?thesis by simp
    next
      case (Inr q)
      with run loop \<open>r1 = Inr p\<close> p pe client_finish_log [OF tr] show ?thesis by (cases q) simp
    qed
    then obtain e where e: "log (fc_transport s') = log (fc_transport s2) @ e" "e = [] \<or> e = [MSG_RESET, 0, 0] \<and> \<not> fc_cleanup s'"
      "fc_session_id s' = fc_session_id s2" by (auto simp: finish_log_def)
    with s2 hs d sends_same [OF s2] show ?thesis
      by (intro exI [of _ hs] exI [of _ "d @ e"]) (auto simp: sends_def control_tails_def)
  qed
qed

lemma session_log:
  assumes tr: "ss_transport ss = tr" and m: "0 < unat (max_batch_tuples (ss_cfg ss))" "unat (max_batch_tuples (ss_cfg ss)) \<le> 256"
    and run: "client_session ss inner outer s = (r, s')"
  shows "\<exists>d tl. log (fc_transport s') = log (fc_transport s) @ d @ tl \<and> fc_session_id s' = fc_session_id s \<and>
      prefix d (session_stream ss inner outer (fc_session_id s)) \<and> tl \<in> control_tails \<and>
      (tl \<in> {[], [MSG_OUTER_DATA, 0, 0]} \<or> \<not> fc_cleanup s') \<and>
      (\<not> isl r \<longrightarrow> prefix (build_stream ss inner (length outer) (fc_session_id s)) d)"
proof -
  define s0 where "s0 = snd (now (ss_clock ss) s)"
  have s0: "log (fc_transport s0) = log (fc_transport s)" "fc_session_id s0 = fc_session_id s" by (simp_all add: s0_def now_def)
  obtain r1 s1 where head: "bindx (client_config_phase ss inner (length outer)) (client_build_phase ss inner) s0 = (r1, s1)" by fastforce
  from head_log [OF tr m head] obtain d where d: "sends log s0 s1 d" "prefix d (build_stream ss inner (length outer) (fc_session_id s))"
    "r1 = Inr () \<longrightarrow> d = build_stream ss inner (length outer) (fc_session_id s)" by (auto simp: s0)
  show ?thesis
  proof (cases r1)
    case (Inl e)
    then have "r = Inl e \<and> s' = s1"
      using run head by (auto simp: client_session_def s0_def now_def bindx_def split: sum.splits prod.splits)
    with d s0 sends_same [OF d(1)] show ?thesis
      by - (rule exI [of _ d], rule exI [of _ "[]"], auto simp: sends_def control_tails_def session_stream_def)
  next
    case (Inr u)
    obtain r2 s2 where tail: "bindx (client_probe_loop (ss_fuel ss) ss outer 0 [] 0 ack_zero []) (\<lambda>(la, results).
        bindx (client_probe_end ss (length outer) la results) (\<lambda>(la, results).
          client_finish ss (length outer) la results)) s1 = (r2, s2)" by fastforce
    have s': "fc_transport s' = fc_transport s2 \<and> fc_session_id s' = fc_session_id s2 \<and> fc_cleanup s' = fc_cleanup s2"
      using run head tail Inr
      by (auto simp: client_session_def s0_def now_def bindx_def Let_def split: sum.splits prod.splits)
    from tail_log [OF tr m(1) tail] obtain hs tl where hs:
      "log (fc_transport s2) = log (fc_transport s1) @ host_frames (jc_key_type (ss_join ss)) MSG_OUTER_DATA hs @ tl"
      "prefix hs (batches_of ss outer)" "fc_session_id s2 = fc_session_id s1" "tl \<in> control_tails"
      "tl \<in> {[], [MSG_OUTER_DATA, 0, 0]} \<or> \<not> fc_cleanup s2" by blast
    have "prefix (d @ host_frames (jc_key_type (ss_join ss)) MSG_OUTER_DATA hs) (session_stream ss inner outer (fc_session_id s))"
      using d(3) Inr hs(2) by (auto simp: session_stream_def elim!: prefixE)
    with d hs s' s0 Inr sends_same [OF d(1)] show ?thesis
      by - (rule exI [of _ "d @ host_frames (jc_key_type (ss_join ss)) MSG_OUTER_DATA hs"], rule exI [of _ tl],
        auto simp: sends_def)
  qed
qed

lemma run_log:
  assumes "ss_transport ss = tr" "ss_cfg ss = client_cfg cfg" and run: "run_hash_join ss inner outer s = (r, s')"
  shows "\<exists>d tl. log (fc_transport s') = log (fc_transport s) @ d @ tl \<and>
      prefix d (session_stream ss inner outer (fc_session_id s')) \<and> tl \<in> control_tails \<and>
      (\<not> isl r \<longrightarrow> prefix (build_stream ss inner (length outer) (fc_session_id s')) d)"
proof -
  define s0 where "s0 = start_session ss s"
  obtain s1 where ses: "client_session ss inner outer s0 = (r, s1)" and s': "s' = cleanup_frame ss s1"
    using run by (auto simp: run_hash_join_def s0_def split: prod.splits)
  have "0 < unat (max_batch_tuples (client_cfg cfg))" "unat (max_batch_tuples (client_cfg cfg)) \<le> 256"
    by (rule client_cfg_batch)+
  from session_log [OF assms(1) this [folded assms(2)] ses] obtain d tl where d:
    "log (fc_transport s1) = log (fc_transport s0) @ d @ tl" "fc_session_id s1 = fc_session_id s0"
    "prefix d (session_stream ss inner outer (fc_session_id s0))" "tl \<in> control_tails"
    "tl \<in> {[], [MSG_OUTER_DATA, 0, 0]} \<or> \<not> fc_cleanup s1"
    "\<not> isl r \<longrightarrow> prefix (build_stream ss inner (length outer) (fc_session_id s0)) d" by blast
  obtain r2 t2 where send: "it_send tr [MSG_RESET, 0, 0] (fc_transport s1) = (r2, t2)" by fastforce
  have "fc_session_id s' = fc_session_id s1" "log (fc_transport s0) = log (fc_transport s)"
    by (simp_all add: s' cleanup_frame_def s0_def start_session_def next_session_id_def Let_def)
  with d send_log [OF send] send show ?thesis
    by - (rule exI [of _ d], rule exI [of _ "if fc_cleanup s1 \<and> \<not> isl r2 then tl @ [MSG_RESET, 0, 0] else tl"],
      auto simp: s' cleanup_frame_def assms(1) control_tails_def split: sum.splits)
qed

end

interpretation mock_log: logged_transport mock_transport sent_bytes
  by unfold_locales (auto simp: mock_transport_def mock_recv_def mock_send_def Let_def split: prod.split)

section \<open>Every run returns or throws\<close>

text \<open>A transport whose operations do not count as a loop without end.\<close>

definition returns :: "'t ITransport \<Rightarrow> bool" where
  "returns tr \<longleftrightarrow> (\<forall>n t. fst (it_recv tr n t) \<noteq> Inl Diverged) \<and> (\<forall>d t. fst (it_send tr d t) \<noteq> Inl Diverged)"

lemma returns_recv: "returns tr \<Longrightarrow> it_recv tr n t = (Inl e, t') \<Longrightarrow> e \<noteq> Diverged"
  unfolding returns_def by (metis fst_conv)

lemma returns_send: "returns tr \<Longrightarrow> it_send tr d t = (Inl e, t') \<Longrightarrow> e \<noteq> Diverged"
  unfolding returns_def by (metis fst_conv)

lemma recv_exact_returns: "returns tr \<Longrightarrow> recv_exact tr n t = (Inl e, t') \<Longrightarrow> e \<noteq> Diverged"
proof (induction n arbitrary: t t' rule: less_induct)
  case (less n)
  obtain r t1 where r: "it_recv tr n t = (r, t1)" by fastforce
  have IH: "recv_exact tr (n - length g) t1 = (Inl e, t') \<Longrightarrow> e \<noteq> Diverged" if "n \<noteq> 0" "g \<noteq> []" for g :: "u8 list"
    using less.IH [of "n - length g" t1] less.prems(1) that by simp
  from less.prems(2) r returns_recv [OF less.prems(1)] IH show ?case
    by (subst (asm) recv_exact.simps) (auto split: sum.splits prod.splits if_splits)
qed

lemma recv_body_returns:
  assumes "returns tr" "recv_body tr msg cnt t = (Inl e, t')"
  shows "e \<noteq> Diverged"
proof -
  have "recv_payload tr (require_count a b c) n f t = (Inl e, t') \<Longrightarrow> e \<noteq> Diverged" for a b c n and f :: "u8 list \<Rightarrow> HostFrame"
    using recv_exact_returns [OF assms(1)]
    by (auto simp: recv_payload_def require_count_def bindx_def split: if_splits sum.splits prod.splits)
  moreover have "bindx (recv_exact tr n) (\<lambda>p t. (Inr (f p), t)) t = (Inl e, t') \<Longrightarrow> e \<noteq> Diverged" for n and f :: "u8 list \<Rightarrow> HostFrame"
    using recv_exact_returns [OF assms(1)] by (auto simp: bindx_def split: sum.splits prod.splits)
  ultimately show ?thesis
    using assms(2) unfolding recv_body_def by (auto split: if_splits)
qed

lemma recv_frame_returns:
  assumes "returns tr" "recv_frame tr (d, t) = (Inl e, d', t')"
  shows "e \<noteq> Diverged"
proof -
  obtain r1 t1 where r1: "it_recv tr 1 t = (r1, t1)" by fastforce
  consider e' where "r1 = Inl e'" | "r1 = Inr []" | m ms where "r1 = Inr (m # ms)"
    by (metis list.exhaust sum.exhaust)
  then show ?thesis
  proof cases
    case (3 m ms)
    obtain r2 t2 where b: "bindx (recv_exact tr 2) (\<lambda>bs. recv_body tr m (read_u16 bs)) t1 = (r2, t2)" by fastforce
    then have "r2 = Inl e" using 3 assms(2) r1 by (cases r2) (auto simp: recv_frame_def)
    from b this show ?thesis
      by (elim bindx_cases) (auto dest: recv_exact_returns [OF assms(1)] recv_body_returns [OF assms(1)])
  qed (use assms r1 in \<open>auto simp: recv_frame_def dest: returns_recv\<close>)
qed

text \<open>A clock on which the hard time-out passes within \<open>N\<close> readings.\<close>

definition clock_passes :: "(nat \<Rightarrow> nat) \<Rightarrow> ClientConfig \<Rightarrow> nat \<Rightarrow> bool" where
  "clock_passes clk cfg N \<longleftrightarrow> (\<forall>i j. i + N \<le> j \<longrightarrow> clk i + unat (hard_timeout_ms cfg) * 1000000 \<le> clk j)"

lemma timed_recv_returns:
  assumes "returns tr" "timed_recv tr clk s = (r, s')"
  shows "r \<noteq> Inl Diverged" "fc_clock s < fc_clock s'"
  using assms(2)
  by (auto simp: timed_recv_def now_def Let_def split: prod.splits sum.splits dest: recv_frame_returns [OF assms(1)])

lemma collect_loop_returns:
  assumes tr: "returns tr" and clk: "clock_passes clk cfg N"
  shows "0 < fuel \<Longrightarrow> c0 + N < fc_clock s + fuel \<Longrightarrow> c0 \<le> fc_clock s \<Longrightarrow>
    fst (collect_loop tr clk cfg kind (clk c0) fuel out s) \<noteq> Inl Diverged"
proof (induction fuel arbitrary: out s)
  case (Suc fuel)
  define s1 where "s1 = s\<lparr>fc_clock := fc_clock s + 1\<rparr>"
  have now: "now clk s = (clk (fc_clock s), s1)" by (simp add: now_def s1_def)
  show ?case
  proof (cases "c0 + N \<le> fc_clock s")
    case True
    then have "clk c0 + unat (hard_timeout_ms cfg) * 1000000 \<le> clk (fc_clock s)"
      using clk by (simp add: clock_passes_def)
    then have "unat (hard_timeout_ms cfg) \<le> (clk (fc_clock s) - clk c0) div 1000000"
      by (simp add: less_eq_div_iff_mult_less_eq)
    with now show ?thesis by simp
  next
    case False
    obtain r2 s2 where s2: "timed_recv tr clk s1 = (r2, s2)" by fastforce
    note t = timed_recv_returns [OF tr s2]
    have IH: "fst (collect_loop tr clk cfg kind (clk c0) fuel out s3) \<noteq> Inl Diverged" if "fc_clock s3 = fc_clock s2" for out s3
      using Suc.IH [of s3 out] Suc.prems False t(2) that by (simp add: s1_def)
    show ?thesis
      using t(1) now s2 by (auto simp: Let_def IH split: sum.splits HostFrame.splits)
  qed
qed simp

text \<open>An operation that does not run out of fuel.\<close>

definition stops :: "(exn + 'a) \<times> 's \<Rightarrow> bool" where
  "stops r \<longleftrightarrow> fst r \<noteq> Inl Diverged"

lemma stops_simps [simp]: "stops (Inr a, s)" "stops (Inl e, s) \<longleftrightarrow> e \<noteq> Diverged"
  by (simp_all add: stops_def)

text \<open>A session with what its waits and loops need.\<close>

definition ready :: "'t Session \<Rightarrow> nat \<Rightarrow> nat \<Rightarrow> bool" where
  "ready ss N rows \<longleftrightarrow> returns (ss_transport ss) \<and> clock_passes (ss_clock ss) (ss_cfg ss) N \<and> N < ss_fuel ss \<and>
     2 * rows < ss_fuel ss \<and> 0 < unat (max_batch_tuples (ss_cfg ss))"

lemma ss_collect_returns: "ready ss N k \<Longrightarrow> stops (ss_collect ss kind out s)"
  using collect_loop_returns [of "ss_transport ss" "ss_clock ss" "ss_cfg ss" N "ss_fuel ss" "fc_clock s" "s\<lparr>fc_clock := fc_clock s + 1\<rparr>"]
  by (simp add: ready_def ss_collect_def collect_until_ack_def now_def stops_def)

lemma ss_send_returns: "ready ss N k \<Longrightarrow> stops (ss_send ss data msg bucket s)"
  by (auto simp: ready_def ss_send_def send_counted_def now_def Let_def stops_def split: prod.splits sum.splits dest: returns_send)

lemma bindx_returns:
  "stops (m s) \<Longrightarrow> (\<And>a s'. m s = (Inr a, s') \<Longrightarrow> stops (f a s')) \<Longrightarrow> stops (bindx m f s)"
  by (auto simp: bindx_def stops_def split: prod.splits sum.splits)

lemma fill_window_returns:
  assumes r: "ready ss N k"
  shows "stops (fill_window ss msg bucket rows sent inflight s) \<and>
    (\<forall>sent' inflight' s'. fill_window ss msg bucket rows sent inflight s = (Inr (sent', inflight'), s') \<longrightarrow>
       2 * (length rows - sent') + length inflight' \<le> 2 * (length rows - sent) + length inflight)"
proof (induction "unat (ack_window_frames (ss_cfg ss)) - length inflight" arbitrary: sent inflight s rule: less_induct)
  case less
  show ?case
  proof (cases "fill_go ss rows sent inflight s")
    case False
    then show ?thesis by (simp add: fill_window_stop)
  next
    case True
    define batch where "batch = fill_batch ss rows sent s"
    have b: "0 < batch" "batch \<le> length rows - sent" using fill_batch_size(3,4) [OF True _ batch_def] r by (auto simp: ready_def)
    note step = fill_window_step [OF True batch_def, of msg bucket]
    have IH: "stops (fill_window ss msg bucket rows (sent + batch) (inflight @ [batch]) s1) \<and>
      (\<forall>sent' inflight' s'. fill_window ss msg bucket rows (sent + batch) (inflight @ [batch]) s1 = (Inr (sent', inflight'), s') \<longrightarrow>
         2 * (length rows - sent') + length inflight' \<le> 2 * (length rows - sent) + length inflight)" for s1
      using less.hyps [of "inflight @ [batch]" "sent + batch" s1] True b by (fastforce simp: fill_go_def)
    show ?thesis
      unfolding step
    proof (intro conjI allI impI)
      show "stops (bindx (ss_send ss (serialize_batch (jc_key_type (ss_join ss)) msg (take batch (drop sent rows)) batch) msg bucket)
          (\<lambda>_. fill_window ss msg bucket rows (sent + batch) (inflight @ [batch])) (s\<lparr>fc_credit := spend (fc_credit s) batch\<rparr>))"
        by (rule bindx_returns [OF ss_send_returns [OF r]]) (simp add: IH)
    qed (erule bindx_cases, use IH in auto)
  qed
qed

lemma ack_loop_length: "ack_loop target bs acked frames = (frames', bs', acked') \<Longrightarrow> length bs' + frames' = length bs + frames"
  by (induction target bs acked frames rule: ack_loop.induct) (auto split: if_splits)

lemma apply_cumulative_ack_length:
  "apply_cumulative_ack inflight acked processed = (frames, inflight', acked') \<Longrightarrow> length inflight' + frames = length inflight"
  by (auto simp: apply_cumulative_ack_def split: if_splits dest: ack_loop_length)

lemma build_loop_returns:
  assumes r: "ready ss N k"
  shows "2 * (length inner - sent) + length inflight < n \<Longrightarrow> stops (client_build_loop n ss inner sent inflight acked s)"
proof (induction n arbitrary: sent inflight acked s)
  case (Suc n)
  show ?case
  proof (cases "sent < length inner \<or> inflight \<noteq> []")
    case True
    obtain r1 s1 where fill: "build_fill ss inner sent inflight s = (r1, s1)" by fastforce
    note f = fill_window_returns [OF r, of MSG_INNER_DATA build_send_ms_update inner sent inflight s, folded build_fill_def]
    obtain r' s' where loop: "client_build_loop (Suc n) ss inner sent inflight acked s = (r', s')" by fastforce
    show ?thesis
    proof (cases r1)
      case (Inl e)
      with True fill f show ?thesis by auto
    next
      case (Inr p)
      obtain sent1 inflight1 where p: "p = (sent1, inflight1)" by fastforce
      obtain r2 s2 where col: "ss_collect ss Build [] s1 = (r2, s2)" by fastforce
      from loop True fill [unfolded Inr p] col show ?thesis
      proof (cases rule: build_loop_cases)
        case (again ack out frames inflight2 acked2)
        have "2 * (length inner - sent1) + length inflight2 < n"
          using f fill Inr p apply_cumulative_ack_length [OF again(3)] again(1,4) Suc.prems by (cases inflight1) auto
        with Suc.IH again(5) loop show ?thesis by metis
      qed (use loop ss_collect_returns [OF r, of Build "[]" s1] col in auto)
    qed
  qed simp
qed simp

lemma probe_loop_returns:
  assumes r: "ready ss N k"
  shows "2 * (length outer - sent) + length inflight < n \<Longrightarrow>
    stops (client_probe_loop n ss outer sent inflight acked last_ack results s)"
proof (induction n arbitrary: sent inflight acked last_ack results s)
  case (Suc n)
  show ?case
  proof (cases "sent < length outer \<or> inflight \<noteq> []")
    case True
    obtain r1 s1 where fill: "probe_fill ss outer sent inflight s = (r1, s1)" by fastforce
    note f = fill_window_returns [OF r, of MSG_OUTER_DATA probe_send_ms_update outer sent inflight s, folded probe_fill_def]
    obtain r' s' where loop: "client_probe_loop (Suc n) ss outer sent inflight acked last_ack results s = (r', s')" by fastforce
    show ?thesis
    proof (cases r1)
      case (Inl e)
      with True fill f show ?thesis by auto
    next
      case (Inr p)
      obtain sent1 inflight1 where p: "p = (sent1, inflight1)" by fastforce
      obtain r2 s2 where col: "ss_collect ss Probe results s1 = (r2, s2)" by fastforce
      from loop True fill [unfolded Inr p] col show ?thesis
      proof (cases rule: probe_loop_cases)
        case (again ack out frames inflight2 acked2)
        have "2 * (length outer - sent1) + length inflight2 < n"
          using f fill Inr p apply_cumulative_ack_length [OF again(3)] again(1,4) Suc.prems by (cases inflight1) auto
        with Suc.IH again(5) loop show ?thesis by metis
      qed (use loop ss_collect_returns [OF r, of Probe results s1] col in auto)
    qed
  qed simp
qed simp

lemma config_phase_returns: "ready ss N k \<Longrightarrow> stops (client_config_phase ss inner n s)"
  unfolding client_config_phase_def Let_def
  by (auto intro!: bindx_returns ss_send_returns ss_collect_returns split: prod.splits)

lemma config_phase_first:
  assumes "client_config_phase ss inner n s = (Inr first, s')"
  shows "first \<le> length inner"
proof -
  let ?b = "if coalesce_config_first_inner (ss_cfg ss) \<and> length inner \<noteq> 0
    then min (min (unat RX_BUF_TUPLES) (unat (max_batch_tuples (ss_cfg ss)))) (length inner) else 0"
  have "first = ?b"
    using assms unfolding client_config_phase_def Let_def by (auto elim!: bindx_cases split: prod.splits if_splits)
  then show ?thesis by (auto split: if_splits)
qed

lemma build_phase_returns:
  assumes r: "ready ss N k" and "first \<le> length inner" "length inner \<le> k"
  shows "stops (client_build_phase ss inner first s)"
proof -
  have "stops (client_build_loop (ss_fuel ss) ss inner first (if first \<noteq> 0 then [first] else []) 0 s)" for s
    using assms by (intro build_loop_returns [OF r]) (auto simp: ready_def)
  then show ?thesis
    unfolding client_build_phase_def Let_def
    by (auto intro!: bindx_returns split: prod.splits if_splits)
qed

lemma probe_end_returns: "ready ss N k \<Longrightarrow> stops (client_probe_end ss n la results s)"
  unfolding client_probe_end_def
  by (auto intro!: bindx_returns ss_send_returns ss_collect_returns split: prod.splits)

lemma reset_wait_returns: "ready ss N k \<Longrightarrow> stops (reset_wait n ss s)"
proof (induction n arbitrary: s)
  case (Suc n)
  obtain r1 s1 where col: "ss_collect ss Reset [] s = (r1, s1)" by fastforce
  have "r1 \<noteq> Inl Diverged" using ss_collect_returns [OF Suc.prems, of Reset "[]" s] col by (simp add: stops_def)
  with col Suc show ?case by (cases r1) (auto split: exn.splits prod.splits)
qed simp

lemma return_verified_returns: "stops (return_verified w results ack s)"
  by (auto simp: return_verified_def verify_matched_count_def)

lemma client_finish_returns: "ready ss N k \<Longrightarrow> stops (client_finish ss n la results s)"
  unfolding client_finish_def finish_inferred_def finish_drain_def send_reset_def
  by (auto intro!: bindx_returns return_verified_returns ss_send_returns ss_collect_returns reset_wait_returns split: prod.splits)

lemma client_session_returns:
  assumes r: "ready ss N k" and "length inner \<le> k" "length outer \<le> k"
  shows "stops (client_session ss inner outer s)"
proof -
  have probe: "stops (client_probe_loop (ss_fuel ss) ss outer 0 [] 0 ack_zero [] s)" for s
    using assms by (intro probe_loop_returns [OF r]) (simp add: ready_def)
  show ?thesis
    unfolding client_session_def Let_def now_def prod.case
    by (intro bindx_returns config_phase_returns [OF r] build_phase_returns [OF r] config_phase_first probe
        assms)
      (auto intro!: bindx_returns probe_end_returns [OF r] client_finish_returns [OF r] split: prod.splits)
qed

section \<open>Properties\<close>

text \<open>A client constructed on a transport, with the clock and the fuel of the model.\<close>

definition new_session :: "'t ITransport \<Rightarrow> (nat \<Rightarrow> nat) \<Rightarrow> ClientConfig \<Rightarrow> nat \<Rightarrow> JoinConfig \<Rightarrow> 't Session" where
  "new_session tr clk cfg fuel j = \<lparr>ss_transport = tr, ss_clock = clk, ss_cfg = client_cfg cfg, ss_fuel = fuel, ss_join = j\<rparr>"

text \<open>C21. Whatever the board answers, a run puts on the wire only what it means to send: CONFIGURE,
  then the inner rows and then the outer rows, each cut into batches of the configured size,
  cut off at some point, followed at most by the explicit end of the probe phase and one reset.
  A run that returns results has sent CONFIGURE and all inner batches.\<close>

theorem client_sends_in_order:
  "case run_hash_join (new_session mock_transport clk cfg fuel j) inner outer s of (r, s') \<Rightarrow>
     \<exists>d tl. sent_bytes (fc_transport s') = sent_bytes (fc_transport s) @ d @ tl \<and>
       prefix d (session_stream (new_session mock_transport clk cfg fuel j) inner outer (fc_session_id s')) \<and>
       tl \<in> control_tails \<and>
       (case r of Inl _ \<Rightarrow> True
        | Inr _ \<Rightarrow> prefix (build_stream (new_session mock_transport clk cfg fuel j) inner (length outer) (fc_session_id s')) d)"
proof -
  obtain r s' where run: "run_hash_join (new_session mock_transport clk cfg fuel j) inner outer s = (r, s')" by fastforce
  with mock_log.run_log [OF _ _ run, of cfg] show ?thesis
    by (fastforce simp: new_session_def split: sum.split)
qed


text \<open>C23. Every run returns or throws, whatever the board answers and even if it never answers: on a
  clock that passes the hard time-out within \<open>N\<close> readings, no wait takes more than \<open>N\<close> rounds and
  no phase more than twice as many rounds as it has rows.\<close>

theorem run_hash_join_returns:
  assumes "returns tr" and "clock_passes clk (client_cfg cfg) N"
    and "N < fuel" and "2 * length inner < fuel" and "2 * length outer < fuel"
  shows "fst (run_hash_join (new_session tr clk cfg fuel j) inner outer s) \<noteq> Inl Diverged"
proof -
  have "ready (new_session tr clk cfg fuel j) N (max (length inner) (length outer))"
    using assms client_cfg_batch(1) [of cfg] by (simp add: ready_def new_session_def)
  from client_session_returns [OF this, of inner outer] show ?thesis
    by (auto simp: run_hash_join_def stops_def split: prod.split dest: arg_cong [of _ _ fst])
qed

theorem run_hash_join_returns_witness:
  "fst (run_hash_join (new_session mock_transport (\<lambda>i. i * 1000000000) client_config_default 100
      \<lparr>jc_algorithm = ALGORITHM_A, jc_key_type = KEY_INT32\<rparr>) [] [\<lparr>it_key = 1, it_tid = \<lparr>blkno = 2, offno = 3\<rparr>\<rparr>]
      (client_init mock_blank 0)) \<noteq> Inl Diverged"
  by (rule run_hash_join_returns [where N = 30])
    (simp_all add: returns_def mock_transport_def mock_recv_def mock_send_def Let_def clock_passes_def
      client_cfg_def client_config_default_def split: prod.split)

text \<open>Session identifiers are never zero, the value an acknowledgement outside a session carries, and
  255 consecutive sessions have different ones.\<close>

lemma session_ids_distinct:
  "0 < unat (fst (next_session_id s)) \<and>
   (fst (next_session_id (s\<lparr>fc_counter := a\<rparr>)) = fst (next_session_id (s\<lparr>fc_counter := b\<rparr>)) \<longleftrightarrow> a mod 255 = b mod 255)"
proof -
  have u: "unat (ucast (c mod 255 + 1 :: u32) :: u8) = unat c mod 255 + 1" for c :: u32
  proof -
    have "unat (c mod 255 + 1) = unat c mod 255 + 1"
      by (subst unat_add_lem [THEN iffD1]) (simp_all add: unat_mod)
    then show ?thesis by (simp add: unsigned_ucast_eq take_bit_nat_eq_self less_Suc_eq_le)
  qed
  have "fst (next_session_id (s\<lparr>fc_counter := c\<rparr>)) = ucast (c mod 255 + 1)" for c by (simp add: next_session_id_def)
  then show ?thesis
    by (simp add: next_session_id_def u word_unat_eq_iff unat_mod)
qed

end
