(* ===== verification/Board_Protocol.thy ===== *)
theory Board_Protocol
  imports Client_Session
begin

text \<open>
  The host client on a board that answers. The interface is the locale \<open>board\<close>: what the host can
  read after sending some data. Its lemmas follow a session of \<^verbatim>\<open>FpgaClient\<close> (theory \<open>Fpga_Client\<close>)
  phase by phase: a wait reads the messages of the board up to the next status frame, a fill of
  the window leaves two frames in flight or all that are left, and every group of two frames, or
  the last one, is acknowledged. A board that answers a session of algorithm A as the kernel does
  (\<open>linear_serves\<close>) makes the client return the pairs the board found (\<open>client_session_board\<close>).
\<close>

section \<open>A board that answers\<close>

text \<open>\<open>future t data\<close> is what the host can read after sending \<open>data\<close> to a board in state \<open>t\<close>: sending
  moves bytes into the argument, reading drops them from the front.\<close>

locale board =
  fixes tr :: "'t ITransport" and future :: "'t \<Rightarrow> u8 list \<Rightarrow> u8 list"
  assumes send_future: "\<exists>t'. it_send tr data t = (Inr (), t') \<and> (\<forall>x. future t' x = future t (data @ x))"
    and recv_future: "0 < n \<Longrightarrow> \<exists>m t'. it_recv tr n t = (Inr (take m (future t [])), t') \<and>
      (\<forall>x. future t' x = drop m (future t x)) \<and> m \<le> n \<and> m \<le> length (future t []) \<and> (future t [] \<noteq> [] \<longrightarrow> 0 < m)"
    and recv_nothing: "it_recv tr 0 t = (Inr [], t)"

sublocale board \<subseteq> byte_channel tr "\<lambda>t. future t []"
proof
  fix n :: nat and t
  assume "0 < n"
  from recv_future [OF this, of t]
  show "\<exists>m t'. it_recv tr n t = (Inr (take m (future t [])), t') \<and> future t' [] = drop m (future t []) \<and>
      m \<le> n \<and> m \<le> length (future t []) \<and> (future t [] \<noteq> [] \<longrightarrow> 0 < m)" by blast
qed

context board
begin

lemma reads_keep_future:
  "reads_keep tr (\<lambda>t'. \<exists>n \<le> length (future t []). \<forall>x. future t' x = drop n (future t x))"
  unfolding reads_keep_def
proof (intro allI impI, elim exE conjE)
  fix k t1 n
  assume n: "n \<le> length (future t [])" "\<forall>x. future t1 x = drop n (future t x)"
  show "\<exists>n \<le> length (future t []). \<forall>x. future (snd (it_recv tr k t1)) x = drop n (future t x)"
  proof (cases "k = 0")
    case True
    with n recv_nothing show ?thesis by auto
  next
    case False
    then obtain m t2 where "it_recv tr k t1 = (Inr (take m (future t1 [])), t2)" "\<forall>x. future t2 x = drop m (future t1 x)"
      "m \<le> length (future t1 [])" using recv_future [of k t1] by auto
    with n show ?thesis by (intro exI [of _ "m + n"]) auto
  qed
qed

lemma recv_frame_future:
  assumes "future t [] = msg_bytes m @ rest" "msg_ok m"
  shows "\<exists>t'. recv_frame tr (d, t) = (Inr (host_frame m), note_timing (host_frame m) d, t') \<and>
    (\<forall>x. future t' x = drop (length (msg_bytes m)) (future t x))"
proof -
  obtain t' where t': "recv_frame tr (d, t) = (Inr (host_frame m), note_timing (host_frame m) d, t')" "future t' [] = rest"
    using recv_frame_msg [OF assms] by blast
  have "\<exists>n \<le> length (future t []). \<forall>x. future t' x = drop n (future t x)"
    by (rule recv_frame_keeps [OF reads_keep_future _ t'(1)]) (intro exI [of _ 0], simp)
  then obtain n where n: "n \<le> length (future t [])" "\<forall>x. future t' x = drop n (future t x)" by blast
  then have "length rest = length (future t []) - n" using t'(2) by (metis length_drop)
  then have "n = length (msg_bytes m)" using n(1) assms(1) by simp
  with t'(1) n(2) show ?thesis by blast
qed

end

section \<open>Waiting for an answer that is there\<close>

text \<open>Messages that do not end a wait.\<close>

fun quiet :: "KernelMsg \<Rightarrow> bool" where
  "quiet (KStatus _ _ _ _ _ _) \<longleftrightarrow> False"
| "quiet (KError _) \<longleftrightarrow> False"
| "quiet m \<longleftrightarrow> msg_ok m"

text \<open>A clock on which no wait of the session reaches the hard time-out.\<close>

definition clock_calm :: "(nat \<Rightarrow> nat) \<Rightarrow> ClientConfig \<Rightarrow> bool" where
  "clock_calm clk cfg \<longleftrightarrow> (\<forall>i j. (clk j - clk i) div 1000000 < unat (hard_timeout_ms cfg))"

lemma clock_calmD: "clock_calm clk cfg \<Longrightarrow> (unat (hard_timeout_ms cfg) \<le> (clk j - clk i) div 1000000) = False"
  by (simp add: clock_calm_def not_le)

definition bytes_of :: "KernelMsg list \<Rightarrow> u8 list" where
  "bytes_of ms = concat (map msg_bytes ms)"

lemma bytes_of_simps [simp]:
  "bytes_of [] = []" "bytes_of (m # ms) = msg_bytes m @ bytes_of ms" "bytes_of (a @ b) = bytes_of a @ bytes_of b"
  by (simp_all add: bytes_of_def)

definition ack_of :: "Phase \<Rightarrow> u32 \<Rightarrow> u32 \<Rightarrow> u16 \<Rightarrow> u8 \<Rightarrow> AckInfo" where
  "ack_of phase processed matched credit sid = \<lparr>ack_phase = phase_byte phase, ack_session_id = sid, ack_credit = credit,
     rows_processed = processed, rows_matched = matched\<rparr>"

text \<open>The client after a wait: the session as before, the answer's bytes read.\<close>

definition advanced :: "('t \<Rightarrow> u8 list \<Rightarrow> u8 list) \<Rightarrow> 't FpgaClient \<Rightarrow> 't FpgaClient \<Rightarrow> nat \<Rightarrow> bool" where
  "advanced future s s' n \<longleftrightarrow> same_session s s' \<and> fc_credit s' = fc_credit s \<and>
     (\<forall>x. future (fc_transport s') x = drop n (future (fc_transport s) x))"

lemma advanced_trans: "advanced future a b m \<Longrightarrow> advanced future b c n \<Longrightarrow> advanced future a c (m + n)"
  by (auto simp: advanced_def add.commute intro: same_session_trans)

lemma advanced_fields [simp]:
  "advanced future s (s'\<lparr>fc_metrics := m\<rparr>) n = advanced future s s' n" "advanced future (s\<lparr>fc_metrics := m\<rparr>) s' n = advanced future s s' n"
  "advanced future s (s'\<lparr>fc_clock := k\<rparr>) n = advanced future s s' n" "advanced future (s\<lparr>fc_clock := k\<rparr>) s' n = advanced future s s' n"
  by (simp_all add: advanced_def same_session_def)

lemma quiet_ok: "quiet m \<Longrightarrow> msg_ok m"
  by (cases m) auto

context board
begin

lemma timed_recv_future:
  assumes "future (fc_transport s) [] = msg_bytes m @ rest" "msg_ok m"
  shows "\<exists>t1 t2 s'. timed_recv tr clk s = (Inr (host_frame m, t1, t2), s') \<and> advanced future s s' (length (msg_bytes m))"
proof -
  obtain t' where "recv_frame tr (fc_decoder s, fc_transport s) =
      (Inr (host_frame m), note_timing (host_frame m) (fc_decoder s), t')"
    "\<forall>x. future t' x = drop (length (msg_bytes m)) (future (fc_transport s) x)"
    using recv_frame_future [OF assms] by blast
  then show ?thesis by (auto simp: timed_recv_def now_def Let_def advanced_def same_session_def)
qed

lemma collect_loop_future:
  assumes clk: "clock_calm clk cfg" and ty: "ty = MSG_ACK \<or> ty = MSG_STATUS"
  shows "list_all quiet ms \<Longrightarrow>
    future (fc_transport s) [] = bytes_of (ms @ [KStatus ty ph pr ma cr (fc_session_id s)]) @ rest \<Longrightarrow> length ms < fuel \<Longrightarrow>
    \<exists>s'. collect_loop tr clk cfg kind (clk i) fuel out s = (Inr (ack_of ph pr ma cr (fc_session_id s), out @ pairs_of ms), s') \<and>
      advanced future s s' (length (bytes_of (ms @ [KStatus ty ph pr ma cr (fc_session_id s)])))"
proof (induction ms arbitrary: s fuel out)
  case Nil
  obtain n where fuel: "fuel = Suc n" using Nil.prems(3) by (cases fuel) auto
  define s1 where "s1 = s\<lparr>fc_clock := fc_clock s + 1\<rparr>"
  let ?m = "KStatus ty ph pr ma cr (fc_session_id s)"
  have now: "now clk s = (clk (fc_clock s), s1)" by (simp add: now_def s1_def)
  obtain t1 t2 s2 where s2: "timed_recv tr clk s1 = (Inr (host_frame ?m, t1, t2), s2)" "advanced future s1 s2 (length (msg_bytes ?m))"
    using timed_recv_future [of s1 ?m rest clk] Nil.prems(2) ty by (auto simp: s1_def)
  have adv: "advanced future s s2 (length (msg_bytes ?m))" using s2(2) by (simp add: s1_def)
  then have id: "fc_session_id s2 = fc_session_id s" by (simp add: advanced_def same_session_def)
  from now s2(1) ty adv id show ?case
    unfolding fuel by (auto simp: clock_calmD [OF clk] Let_def stale_def ack_of_def)
next
  case (Cons m ms)
  obtain n where fuel: "fuel = Suc n" using Cons.prems(3) by (cases fuel) auto
  define s1 where "s1 = s\<lparr>fc_clock := fc_clock s + 1\<rparr>"
  let ?st = "KStatus ty ph pr ma cr (fc_session_id s)"
  have now: "now clk s = (clk (fc_clock s), s1)" by (simp add: now_def s1_def)
  obtain t1 t2 s2 where s2: "timed_recv tr clk s1 = (Inr (host_frame m, t1, t2), s2)" "advanced future s1 s2 (length (msg_bytes m))"
    using timed_recv_future [of s1 m _ clk] Cons.prems(1,2) quiet_ok by (auto simp: s1_def)
  define s3 where "s3 = s2\<lparr>fc_metrics := note_frame (fc_decoder s2) (host_frame m) t1 (fc_metrics s2)\<rparr>"
  have adv: "advanced future s s3 (length (msg_bytes m))" using s2(2) by (simp add: s1_def s3_def)
  then have id: "fc_session_id s3 = fc_session_id s" by (simp add: advanced_def same_session_def)
  have fut: "future (fc_transport s3) [] = bytes_of (ms @ [KStatus ty ph pr ma cr (fc_session_id s3)]) @ rest"
    using adv Cons.prems(2) id by (simp add: advanced_def)
  have step: "collect_loop tr clk cfg kind (clk i) fuel out s = collect_loop tr clk cfg kind (clk i) n (out @ msg_pairs m) s3"
    using now s2(1) Cons.prems(1) unfolding fuel
    by (cases m) (simp_all add: clock_calmD [OF clk] Let_def s3_def)
  obtain s' where "collect_loop tr clk cfg kind (clk i) n (out @ msg_pairs m) s3 =
      (Inr (ack_of ph pr ma cr (fc_session_id s), (out @ msg_pairs m) @ pairs_of ms), s')"
    "advanced future s3 s' (length (bytes_of (ms @ [?st])))"
    using Cons.IH [OF _ fut, of n "out @ msg_pairs m"] Cons.prems(1,3) fuel id by auto
  with step advanced_trans [OF adv] show ?case by (auto simp: add.assoc)
qed

lemma ss_collect_future:
  assumes "ss_transport ss = tr" "clock_calm (ss_clock ss) (ss_cfg ss)" "ty = MSG_ACK \<or> ty = MSG_STATUS" "list_all quiet ms"
    and "future (fc_transport s) [] = bytes_of (ms @ [KStatus ty ph pr ma cr (fc_session_id s)]) @ rest" "length ms < ss_fuel ss"
  shows "\<exists>s'. ss_collect ss kind out s = (Inr (ack_of ph pr ma cr (fc_session_id s), out @ pairs_of ms), s') \<and>
      advanced future s s' (length (bytes_of (ms @ [KStatus ty ph pr ma cr (fc_session_id s)])))"
  using collect_loop_future [OF assms(2-4), of "s\<lparr>fc_clock := fc_clock s + 1\<rparr>" ph pr ma cr rest "ss_fuel ss" kind "fc_clock s" out] assms(1,5,6)
  by (auto simp: ss_collect_def collect_until_ack_def now_def)

lemma ss_send_future:
  assumes "ss_transport ss = tr"
  shows "\<exists>s'. ss_send ss data msg bucket s = (Inr (), s') \<and> same_session s s' \<and> fc_credit s' = fc_credit s \<and>
      (\<forall>x. future (fc_transport s') x = future (fc_transport s) (data @ x))"
  using send_future [of data "fc_transport s"] assms
  by (auto simp: ss_send_def send_counted_def now_def Let_def same_session_def)

end

section \<open>Filling the window on a board\<close>

text \<open>The batches \<open>gs\<close> sent after \<open>fs\<close>, all sends succeeding, until the window, the credit or the rows
  are used up.\<close>

definition filled where
  "filled future ss msg rows fs inflight s s' gs \<longleftrightarrow>
     prefix (fs @ gs) (batches_of ss rows) \<and> same_session s s' \<and>
     (\<forall>x. future (fc_transport s') x = future (fc_transport s) (host_frames (jc_key_type (ss_join ss)) msg gs @ x)) \<and>
     length (concat gs) \<le> unat (fc_credit s) \<and> unat (fc_credit s') = unat (fc_credit s) - length (concat gs) \<and>
     \<not> fill_go ss rows (length (concat (fs @ gs))) (inflight @ map length gs) s' \<and>
     (gs = [] \<or> length (inflight @ map length gs) \<le> unat (ack_window_frames (ss_cfg ss)))"

context board
begin

lemma fill_window_future:
  assumes tr: "ss_transport ss = tr" and m: "0 < unat (max_batch_tuples (ss_cfg ss))"
    and "prefix fs (batches_of ss rows)" "sent = length (concat fs)"
  shows "\<exists>gs s'. fill_window ss msg bucket rows sent inflight s =
      (Inr (length (concat (fs @ gs)), inflight @ map length gs), s') \<and> filled future ss msg rows fs inflight s s' gs"
  using assms(3-)
proof (induction "unat (ack_window_frames (ss_cfg ss)) - length inflight" arbitrary: sent inflight s fs rule: less_induct)
  case less
  let ?kt = "jc_key_type (ss_join ss)" and ?m = "unat (max_batch_tuples (ss_cfg ss))"
  show ?case
  proof (cases "fill_go ss rows sent inflight s")
    case False
    with less.prems show ?thesis
      by - (rule exI [of _ "[]"], auto simp: fill_window_stop filled_def)
  next
    case True
    define batch where "batch = fill_batch ss rows sent s"
    define g where "g = take batch (drop sent rows)"
    note b = fill_batch_size [OF True m batch_def]
    have g: "g = take ?m (drop sent rows)" "length g = batch"
      using b by (simp_all add: g_def)
    have pre: "prefix (fs @ [g]) (batches_of ss rows)"
      using prefix_chunks_next [OF m less.prems(1) [unfolded batches_of_def]] True less.prems(2) g(1)
      by (simp add: fill_go_def batches_of_def)
    obtain s1 where send: "ss_send ss (serialize_batch ?kt msg g batch) msg bucket
        (s\<lparr>fc_credit := spend (fc_credit s) batch\<rparr>) = (Inr (), s1)"
      and s1: "same_session (s\<lparr>fc_credit := spend (fc_credit s) batch\<rparr>) s1" "fc_credit s1 = spend (fc_credit s) batch"
      "\<forall>x. future (fc_transport s1) x = future (fc_transport s) (serialize_batch ?kt msg g batch @ x)"
      using ss_send_future [OF tr, of "serialize_batch ?kt msg g batch" msg bucket "s\<lparr>fc_credit := spend (fc_credit s) batch\<rparr>"] by auto
    note step = fill_window_step [OF True batch_def, of msg bucket, folded g_def]
    have "\<exists>gs s'. fill_window ss msg bucket rows (sent + batch) (inflight @ [batch]) s1 =
        (Inr (length (concat ((fs @ [g]) @ gs)), (inflight @ [batch]) @ map length gs), s') \<and>
        filled future ss msg rows (fs @ [g]) (inflight @ [batch]) s1 s' gs"
      using True pre less.prems(2) g(2) by (intro less.hyps) (auto simp: fill_go_def)
    then obtain gs s' where r: "fill_window ss msg bucket rows (sent + batch) (inflight @ [batch]) s1 =
        (Inr (length (concat ((fs @ [g]) @ gs)), (inflight @ [batch]) @ map length gs), s')"
      "filled future ss msg rows (fs @ [g]) (inflight @ [batch]) s1 s' gs" by blast
    have "same_session s s1" using s1(1) by (simp add: same_session_def)
    moreover have "length inflight < unat (ack_window_frames (ss_cfg ss))" using True by (simp add: fill_go_def)
    ultimately show ?thesis
      using r s1 send step g(2) b(2) same_session_trans
      by - (rule exI [of _ "g # gs"], rule exI [of _ s'],
        auto simp: filled_def host_frames_def unat_spend)
  qed
qed

end

text \<open>Credit for two batches or for all that is left keeps two frames in flight, or everything.\<close>

definition enough_credit where
  "enough_credit ss rows sent inflight s \<longleftrightarrow> length rows - sent \<le> unat (fc_credit s) \<or>
     (2 - length inflight) * unat (max_batch_tuples (ss_cfg ss)) \<le> unat (fc_credit s)"

lemma length_concat_le: "list_all (\<lambda>g. length g \<le> m) gs \<Longrightarrow> length (concat gs) \<le> length gs * m"
  by (induction gs) auto

lemma filled_enough:
  assumes "filled future ss msg rows fs inflight s s' gs" "enough_credit ss rows (length (concat fs)) inflight s"
    and "2 \<le> unat (ack_window_frames (ss_cfg ss))" and m: "0 < unat (max_batch_tuples (ss_cfg ss))"
  shows "fs @ gs = batches_of ss rows \<or> 2 \<le> length (inflight @ map length gs)"
proof (rule ccontr)
  assume "\<not> ?thesis"
  then have short: "length inflight + length gs < 2" and notall: "fs @ gs \<noteq> batches_of ss rows" by auto
  let ?m = "unat (max_batch_tuples (ss_cfg ss))"
  have pre: "prefix (fs @ gs) (chunks ?m rows)" using assms(1) by (simp add: filled_def batches_of_def)
  have lt: "length (concat (fs @ gs)) < length rows"
    using prefix_chunks_le [OF m pre] prefix_chunks_all [OF m pre] notall by (simp add: batches_of_def order_less_le)
  have "list_all (\<lambda>g. length g \<le> ?m) gs"
    using chunks_lengths set_mono_prefix [OF pre] by (fastforce simp: list_all_iff)
  from length_concat_le [OF this] have gs: "length (concat gs) \<le> length gs * ?m" .
  have c: "unat (fc_credit s') = unat (fc_credit s) - length (concat gs)" using assms(1) by (simp add: filled_def)
  have stop: "\<not> fill_go ss rows (length (concat (fs @ gs))) (inflight @ map length gs) s'" using assms(1) by (simp add: filled_def)
  have "fc_credit s' \<noteq> 0 \<and> \<not> (unat (fc_credit s') < ?m \<and> length rows - length (concat (fs @ gs)) > unat (fc_credit s'))"
  proof (cases "length rows - length (concat fs) \<le> unat (fc_credit s)")
    case True
    then show ?thesis using c lt by (auto simp: unat_gt_0 [symmetric])
  next
    case False
    then have "(2 - length inflight) * ?m \<le> unat (fc_credit s)" using assms(2) by (simp add: enough_credit_def)
    moreover have "(length gs + 1) * ?m \<le> (2 - length inflight) * ?m" using short by (intro mult_right_mono) auto
    ultimately have "?m \<le> unat (fc_credit s')" using gs c by (simp add: algebra_simps)
    then show ?thesis using m by (auto simp: unat_gt_0 [symmetric])
  qed
  with stop short assms(3) lt show False by (auto simp: fill_go_def word_less_nat_alt)
qed

text \<open>A cumulative acknowledgement of the first batches removes exactly those.\<close>

lemma ack_loop_batches:
  assumes "list_all (\<lambda>g. g \<noteq> []) hs"
  shows "ack_loop (acked + length (concat gs)) (map length (gs @ hs)) acked frames =
    (frames + length gs, map length hs, acked + length (concat gs))"
proof (induction gs arbitrary: acked frames)
  case Nil
  with assms show ?case by (cases hs) auto
next
  case (Cons g gs)
  from Cons.IH [of "acked + length g" "frames + 1"] show ?case by (simp add: add.assoc)
qed

lemma apply_ack_batches:
  assumes "list_all (\<lambda>g. g \<noteq> []) (gs @ hs)" "unat processed = acked + length (concat gs)"
  shows "apply_cumulative_ack (map length (gs @ hs)) acked processed =
    (length gs, map length hs, acked + length (concat gs))"
proof (cases "gs = []")
  case True
  with assms show ?thesis by (simp add: apply_cumulative_ack_def)
next
  case False
  then have "0 < length (concat gs)" using assms(1) by (cases gs) auto
  then have "\<not> acked + length (concat gs) \<le> acked" by linarith
  with ack_loop_batches [of hs acked gs 0] assms(1) show ?thesis
    unfolding apply_cumulative_ack_def assms(2) by (simp only: if_False list_all_append add_0)
qed

section \<open>The build phase on a board\<close>

lemma quiet_debug_msgs [simp]: "list_all quiet (debug_msgs synth l c v)"
  by (simp add: debug_msgs_def)

text \<open>The kernel acknowledges the first batches \<open>ps\<close> of those in flight: two, or the last one.\<close>

lemma build_ack_group:
  assumes c: "c_inner_total c = of_nat tot" "tot < 2 ^ 32"
    and qs: "list_all (\<lambda>g. g \<noteq> []) qs" "acked + length (concat (qs @ us)) = tot"
    and enough: "qs \<noteq> []" "us = [] \<or> 2 \<le> length qs"
  obtains ps zs ms where "qs = ps @ zs" "ps \<noteq> []" "list_all quiet ms" "length ms \<le> 2" "pairs_of ms = []"
    "\<And>xs. build_msgs synth c 0 (of_nat acked) (ps @ xs) = ms @
        [KStatus MSG_ACK PHASE_BUILDING (of_nat (acked + length (concat ps))) 0
           (credit_of (c_inner_total c - of_nat (acked + length (concat ps)))) (c_session_id c)] @
        build_msgs synth c 0 (of_nat (acked + length (concat ps))) xs"
proof -
  obtain f qs' where q: "qs = f # qs'" using enough(1) by (cases qs) auto
  have u: "unat (of_nat k :: u32) = k" if "k \<le> tot" for k
    using that c(2) by (simp add: unsigned_of_nat take_bit_nat_eq_self)
  have le: "(of_nat (acked + length f) :: u32) \<ge> c_inner_total c \<longleftrightarrow> acked + length f \<ge> tot"
    using q qs(2) by (simp add: c word_le_nat_alt u del: of_nat_add)
  show ?thesis
  proof (cases "acked + length f \<ge> tot")
    case True
    with le show ?thesis
      by (intro that [of "[f]" qs' "debug_msgs synth DBG_INFO DBG_BUILD_KEY (ucast (it_key (hd f)))"])
        (auto simp: q Let_def debug_msgs_def)
  next
    case False
    then obtain g zs where g: "qs' = g # zs" using enough q qs(2) by (cases qs') auto
    from le False show ?thesis
      by (intro that [of "[f, g]" zs "debug_msgs synth DBG_INFO DBG_BUILD_KEY (ucast (it_key (hd f))) @
          debug_msgs synth DBG_INFO DBG_BUILD_KEY (ucast (it_key (hd g)))"])
        (auto simp: q g Let_def debug_msgs_def add.assoc word_le_nat_alt [of 2])
  qed
qed

lemma batches_nonempty: "list_all (\<lambda>g. g \<noteq> []) (batches_of ss rows)"
  using chunks_lengths by (auto simp: batches_of_def list_all_iff)

text \<open>Credit after an acknowledgement that leaves \<open>rest\<close> rows.\<close>

lemma enough_credit_ack:
  assumes "unat (max_batch_tuples (ss_cfg ss)) \<le> 256" "unat rest = length rows - acked" "acked \<le> sent"
  shows "enough_credit ss rows sent inflight (s\<lparr>fc_credit := credit_of rest\<rparr>)"
proof (cases "unat rest \<le> 512")
  case True
  with assms show ?thesis by (auto simp: enough_credit_def unat_credit_of)
next
  case False
  have "(2 - length inflight) * unat (max_batch_tuples (ss_cfg ss)) \<le> 2 * 256" using assms(1) by (intro mult_mono) auto
  with False show ?thesis by (simp add: enough_credit_def unat_credit_of)
qed

text \<open>What the board owes the host: once the frames \<open>xs\<close> of those still to come are sent, the messages
  \<open>W xs\<close>; after the last of them also \<open>Tail y\<close> for the data \<open>y\<close>, one of \<open>Y\<close>, that follows.\<close>

definition owes where
  "owes future hf W us Y Tail t \<longleftrightarrow>
     (\<forall>xs ys. us = xs @ ys \<and> ys \<noteq> [] \<longrightarrow> future t (hf xs) = bytes_of (W xs)) \<and>
     [] \<in> Y \<and> (\<forall>y \<in> Y. future t (hf us @ y) = bytes_of (W us) @ Tail y)"

lemma owes_send:
  assumes "owes future (host_frames kt msg) W (hs @ us) Y Tail t" "\<And>x. future t1 x = future t (host_frames kt msg hs @ x)"
  shows "owes future (host_frames kt msg) (\<lambda>xs. W (hs @ xs)) us Y Tail t1"
  using assms unfolding owes_def by (metis append.assoc host_frames_append)

lemma owes_pending:
  assumes "owes future (host_frames kt msg) W us Y Tail t"
  obtains R where "future t [] = bytes_of (W []) @ R"
  using assms unfolding owes_def by (metis append_Nil append_Nil2 host_frames_Nil)

lemma owes_read:
  assumes "owes future hf W us Y Tail t" "\<And>xs ys. us = xs @ ys \<Longrightarrow> W xs = ms @ W' xs"
    "\<And>x. future t1 x = drop (length (bytes_of ms)) (future t x)"
  shows "owes future hf W' us Y Tail t1"
  using assms unfolding owes_def by (simp add: assms(2) [of us "[]"])

text \<open>A promise to answer: of any two frames in flight, or of the last, a group \<open>ps\<close> is answered by quiet
  messages and a status frame \<open>st\<close>, and \<open>V'\<close> is what is owed for the frames behind it.\<close>

definition answers where
  "answers V todo fuel sid ps ms ph pr ma cr V' \<longleftrightarrow> ps \<noteq> [] \<and> list_all quiet ms \<and> length ms < fuel \<and>
     (\<exists>ty. (ty = MSG_ACK \<or> ty = MSG_STATUS) \<and>
       (\<forall>xs ys. ps @ xs @ ys = todo \<longrightarrow> V (ps @ xs) = (ms @ [KStatus ty ph pr ma cr sid]) @ V' xs))"

context board
begin

text \<open>One round of a phase: the window is filled, a group of frames is answered and read.\<close>

lemma phase_round:
  assumes tr: "ss_transport ss = tr" and clk: "clock_calm (ss_clock ss) (ss_cfg ss)"
    and m: "0 < unat (max_batch_tuples (ss_cfg ss))" and w: "2 \<le> unat (ack_window_frames (ss_cfg ss))"
    and b: "batches_of ss rows = fs @ gs @ us" "gs @ us \<noteq> []"
    and credit: "enough_credit ss rows (length (concat (fs @ gs))) (map length gs) s"
    and owes: "owes future (host_frames (jc_key_type (ss_join ss)) msg) (\<lambda>xs. V (gs @ xs)) us Y Tail (fc_transport s)"
    and ans: "\<And>qs us'. gs @ us = qs @ us' \<Longrightarrow> qs \<noteq> [] \<Longrightarrow> us' = [] \<or> 2 \<le> length qs \<Longrightarrow>
      \<exists>ps zs ms ph pr ma cr V'. qs = ps @ zs \<and> P ps ms ph pr ma cr V' \<and>
        answers V (gs @ us) (ss_fuel ss) (fc_session_id s) ps ms ph pr ma cr V'"
  obtains hs us' ps zs ms ph pr ma cr V' s1 s2 where "us = hs @ us'" "gs @ hs = ps @ zs" "ps \<noteq> []" "P ps ms ph pr ma cr V'"
    "fill_window ss msg bucket rows (length (concat (fs @ gs))) (map length gs) s =
      (Inr (length (concat ((fs @ ps) @ zs)), map length (ps @ zs)), s1)"
    "ss_collect ss kind out s1 = (Inr (ack_of ph pr ma cr (fc_session_id s), out @ pairs_of ms), s2)"
    "same_session s s2" "owes future (host_frames (jc_key_type (ss_join ss)) msg) (\<lambda>xs. V' (zs @ xs)) us' Y Tail (fc_transport s2)"
proof -
  let ?hf = "host_frames (jc_key_type (ss_join ss)) msg"
  have pre: "prefix (fs @ gs) (batches_of ss rows)" using b(1) by simp
  obtain hs s1 where fill: "fill_window ss msg bucket rows (length (concat (fs @ gs))) (map length gs) s =
      (Inr (length (concat ((fs @ gs) @ hs)), map length gs @ map length hs), s1)"
    and filled: "filled future ss msg rows (fs @ gs) (map length gs) s s1 hs"
    using fill_window_future [OF tr m pre refl] by blast
  obtain us' where us: "us = hs @ us'" using filled b(1) by (auto simp: filled_def elim!: prefixE)
  have owes1: "owes future ?hf (\<lambda>xs. V (gs @ hs @ xs)) us' Y Tail (fc_transport s1)"
    using filled by (intro owes_send [OF owes [unfolded us]]) (simp add: filled_def)
  have "gs @ hs \<noteq> []" "us' = [] \<or> 2 \<le> length (gs @ hs)"
    using filled_enough [OF filled credit w m] b us by auto
  then obtain ps zs ms ph pr ma cr V' where g: "gs @ hs = ps @ zs" "P ps ms ph pr ma cr V'"
    "answers V (gs @ us) (ss_fuel ss) (fc_session_id s) ps ms ph pr ma cr V'"
    using ans [of "gs @ hs" us'] us by (auto simp del: length_append)
  from g(3) obtain ty where ty: "ty = MSG_ACK \<or> ty = MSG_STATUS" and
    W: "\<And>xs ys. ps @ xs @ ys = gs @ us \<Longrightarrow> V (ps @ xs) = (ms @ [KStatus ty ph pr ma cr (fc_session_id s)]) @ V' xs"
    unfolding answers_def by blast
  have V: "V (gs @ hs @ xs) = (ms @ [KStatus ty ph pr ma cr (fc_session_id s)]) @ V' (zs @ xs)" if "us' = xs @ ys" for xs ys
  proof -
    have e: "gs @ hs @ l = ps @ zs @ l" for l using g(1) by (metis append.assoc)
    have "ps @ (zs @ xs) @ ys = gs @ us" by (simp only: us that e append.assoc)
    from W [OF this] show ?thesis by (simp only: e)
  qed
  obtain R where "future (fc_transport s1) [] = bytes_of (V (gs @ hs @ [])) @ R" using owes_pending [OF owes1] .
  moreover have id: "same_session s s1" using filled by (simp add: filled_def)
  ultimately obtain s2 where col: "ss_collect ss kind out s1 = (Inr (ack_of ph pr ma cr (fc_session_id s), out @ pairs_of ms), s2)"
    and adv: "advanced future s1 s2 (length (bytes_of (ms @ [KStatus ty ph pr ma cr (fc_session_id s)])))"
    using ss_collect_future [OF tr clk ty, of ms s1 ph pr ma cr "bytes_of (V' zs) @ R" kind out] V [of "[]" us'] g(3)
    by (auto simp: answers_def same_session_def)
  have "owes future ?hf (\<lambda>xs. V' (zs @ xs)) us' Y Tail (fc_transport s2)"
    using adv by (intro owes_read [OF owes1 V]) (auto simp: advanced_def)
  moreover have "same_session s s2" using id adv by (auto simp: advanced_def intro: same_session_trans)
  moreover have "fill_window ss msg bucket rows (length (concat (fs @ gs))) (map length gs) s =
      (Inr (length (concat ((fs @ ps) @ zs)), map length (ps @ zs)), s1)"
    using fill arg_cong [OF g(1), of "map length"] arg_cong [OF g(1), of "\<lambda>l. length (concat l)"] by simp
  moreover have "ps \<noteq> []" using g(3) by (simp add: answers_def)
  ultimately show thesis using that us g(1,2) col by blast
qed

end

text \<open>A phase whose groups of frames are answered by cumulative acknowledgements: \<open>W fs\<close> is owed once
  the frames \<open>fs\<close> are acknowledged.\<close>

definition ack_reply where
  "ack_reply phase W tot fs ps ms ph pr ma cr V' \<longleftrightarrow> ph = phase \<and> pairs_of ms = [] \<and>
     pr = of_nat (length (concat (fs @ ps))) \<and> cr = credit_of (tot - of_nat (length (concat (fs @ ps)))) \<and> V' = W (fs @ ps)"

definition acknowledged where
  "acknowledged phase W sid fuel rows \<longleftrightarrow>
     (\<forall>fs qs us. concat (fs @ qs @ us) = rows \<and> list_all (\<lambda>g. g \<noteq> []) qs \<and> qs \<noteq> [] \<and> (us = [] \<or> 2 \<le> length qs) \<longrightarrow>
        (\<exists>ps zs ms ph pr ma cr V'. qs = ps @ zs \<and> ack_reply phase W (of_nat (length rows)) fs ps ms ph pr ma cr V' \<and>
           answers (W fs) (qs @ us) fuel sid ps ms ph pr ma cr V'))"

lemma build_acknowledged:
  assumes c: "c_inner_total c = of_nat (length inner)" "length inner < 2 ^ 32" and fuel: "3 \<le> fuel"
  shows "acknowledged PHASE_BUILDING (\<lambda>fs. build_msgs synth c 0 (of_nat (length (concat fs)))) (c_session_id c) fuel inner"
  unfolding acknowledged_def
proof (intro allI impI, elim conjE)
  fix fs qs us
  assume *: "concat (fs @ qs @ us) = inner" "list_all (\<lambda>g. g \<noteq> []) qs" "qs \<noteq> []" "us = [] \<or> 2 \<le> length qs"
  obtain ps zs ms where g: "qs = ps @ zs" "ps \<noteq> []" "list_all quiet ms" "length ms \<le> 2" "pairs_of ms = []"
    "\<And>xs. build_msgs synth c 0 (of_nat (length (concat fs))) (ps @ xs) = ms @
        [KStatus MSG_ACK PHASE_BUILDING (of_nat (length (concat fs) + length (concat ps))) 0
           (credit_of (c_inner_total c - of_nat (length (concat fs) + length (concat ps)))) (c_session_id c)] @
        build_msgs synth c 0 (of_nat (length (concat fs) + length (concat ps))) xs"
    using build_ack_group [OF c *(2) _ *(3,4), of "length (concat fs)" synth] arg_cong [OF *(1), of length] by auto
  have "length (concat fs) + length (concat ps) = length (concat (fs @ ps))" by simp
  note g6 = g(6) [unfolded this]
  show "\<exists>ps zs ms ph pr ma cr V'. qs = ps @ zs \<and>
      ack_reply PHASE_BUILDING (\<lambda>fs. build_msgs synth c 0 (of_nat (length (concat fs)))) (of_nat (length inner)) fs ps ms ph pr ma cr V' \<and>
      answers (build_msgs synth c 0 (of_nat (length (concat fs)))) (qs @ us) fuel (c_session_id c) ps ms ph pr ma cr V'"
    by (intro exI [of _ ps] exI [of _ zs] exI [of _ ms] exI conjI, rule g(1), unfold ack_reply_def, intro conjI, rule refl, rule g(5), (rule refl)+,
        unfold answers_def, intro conjI exI [of _ MSG_ACK] allI impI, rule g(2), rule g(3))
      (use g(4) fuel g6 in \<open>auto simp: c(1)\<close>)
qed

context board
begin

text \<open>One round of such a phase, with the client's window and credit after it.\<close>

lemma acknowledged_round:
  assumes tr: "ss_transport ss = tr" and clk: "clock_calm (ss_clock ss) (ss_cfg ss)"
    and m: "0 < unat (max_batch_tuples (ss_cfg ss))" "unat (max_batch_tuples (ss_cfg ss)) \<le> 256"
    and w: "2 \<le> unat (ack_window_frames (ss_cfg ss))" and len: "length rows < 2 ^ 32"
    and ackd: "acknowledged phase W (fc_session_id s) (ss_fuel ss) rows"
    and b: "batches_of ss rows = fs @ gs @ us" "gs @ us \<noteq> []"
    and ow: "owes future (host_frames (jc_key_type (ss_join ss)) msg) (\<lambda>xs. W fs (gs @ xs)) us Y Tail (fc_transport s)"
    and credit: "enough_credit ss rows (length (concat (fs @ gs))) (map length gs) s"
  obtains ps zs us' pr ma cr s1 s2 where "fs @ gs @ us = (fs @ ps) @ zs @ us'" "ps \<noteq> []"
    "fill_window ss msg bucket rows (length (concat (fs @ gs))) (map length gs) s =
      (Inr (length (concat ((fs @ ps) @ zs)), map length (ps @ zs)), s1)"
    "ss_collect ss kind out s1 = (Inr (ack_of phase pr ma cr (fc_session_id s), out), s2)" "same_session s s2"
    "apply_cumulative_ack (map length (ps @ zs)) (length (concat fs)) pr = (length ps, map length zs, length (concat (fs @ ps)))"
    "enough_credit ss rows (length (concat ((fs @ ps) @ zs))) (map length zs) (s2\<lparr>fc_credit := cr\<rparr>)"
    "owes future (host_frames (jc_key_type (ss_join ss)) msg) (\<lambda>xs. W (fs @ ps) (zs @ xs)) us' Y Tail (fc_transport s2)"
proof -
  have all: "concat (fs @ gs @ us) = rows" using concat_chunks [OF m(1), of rows] b(1) by (simp add: batches_of_def)
  have ne: "list_all (\<lambda>g. g \<noteq> []) (fs @ gs @ us)" using batches_nonempty [of ss rows] b(1) by simp
  have ans: "\<exists>ps zs ms ph pr ma cr V'. qs = ps @ zs \<and> ack_reply phase W (of_nat (length rows)) fs ps ms ph pr ma cr V' \<and>
      answers (W fs) (gs @ us) (ss_fuel ss) (fc_session_id s) ps ms ph pr ma cr V'"
    if "gs @ us = qs @ us'" "qs \<noteq> []" "us' = [] \<or> 2 \<le> length qs" for qs us'
  proof -
    have "concat (fs @ qs @ us') = rows" "list_all (\<lambda>g. g \<noteq> []) qs" using all ne that(1) by auto
    with that(2,3) show ?thesis using ackd unfolding acknowledged_def that(1) by simp
  qed
  obtain hs us' ps zs ms ph pr ma cr V' s1 s2 where r: "us = hs @ us'" "gs @ hs = ps @ zs" "ps \<noteq> []"
    "ack_reply phase W (of_nat (length rows)) fs ps ms ph pr ma cr V'"
    "fill_window ss msg bucket rows (length (concat (fs @ gs))) (map length gs) s =
      (Inr (length (concat ((fs @ ps) @ zs)), map length (ps @ zs)), s1)"
    "ss_collect ss kind out s1 = (Inr (ack_of ph pr ma cr (fc_session_id s), out @ pairs_of ms), s2)" "same_session s s2"
    "owes future (host_frames (jc_key_type (ss_join ss)) msg) (\<lambda>xs. V' (zs @ xs)) us' Y Tail (fc_transport s2)"
    using phase_round [OF tr clk m(1) w b credit ow, of "ack_reply phase W (of_nat (length rows)) fs"] ans by blast
  define r where "r = length (concat (fs @ ps))"
  have split: "fs @ gs @ us = (fs @ ps) @ zs @ us'" using r(1,2) by (metis append.assoc)
  have le: "r \<le> length (concat ((fs @ ps) @ zs))" "length (concat ((fs @ ps) @ zs)) \<le> length rows"
    using arg_cong [OF all [unfolded split], of length] by (simp_all add: r_def)
  have ur: "unat (of_nat k :: u32) = k" if "k \<le> length rows" for k
    using that len by (simp add: unsigned_of_nat take_bit_nat_eq_self)
  have "apply_cumulative_ack (map length (ps @ zs)) (length (concat fs)) pr = (length ps, map length zs, r)"
    using apply_ack_batches [of ps zs pr "length (concat fs)"] ne [unfolded split] r(4) ur [of r] le
    by (simp add: ack_reply_def r_def)
  moreover have "enough_credit ss rows (length (concat ((fs @ ps) @ zs))) (map length zs) (s2\<lparr>fc_credit := cr\<rparr>)"
    using enough_credit_ack [OF m(2) _ le(1), of "of_nat (length rows) - of_nat r" rows "map length zs" s2] r(4) le ur [of r] ur [of "length rows"]
    by (simp add: ack_reply_def r_def unat_sub word_le_nat_alt)
  moreover have "ph = phase" "pairs_of ms = []" "V' = W (fs @ ps)" using r(4) by (simp_all add: ack_reply_def)
  ultimately show thesis using r(6,8) unfolding r_def by (intro that [OF split r(3,5) _ r(7)]) simp_all
qed

lemma build_loop_board:
  assumes tr: "ss_transport ss = tr" and clk: "clock_calm (ss_clock ss) (ss_cfg ss)"
    and m: "0 < unat (max_batch_tuples (ss_cfg ss))" "unat (max_batch_tuples (ss_cfg ss)) \<le> 256"
    and w: "2 \<le> unat (ack_window_frames (ss_cfg ss))" and len: "length inner < 2 ^ 32"
    and ackd: "acknowledged PHASE_BUILDING W sid (ss_fuel ss) inner"
  shows "batches_of ss inner = fs @ gs @ us \<Longrightarrow> fc_session_id s = sid \<Longrightarrow>
    owes future (host_frames (jc_key_type (ss_join ss)) MSG_INNER_DATA) (\<lambda>xs. W fs (gs @ xs)) us Y Tail (fc_transport s) \<Longrightarrow>
    (\<forall>fs. W fs [] = []) \<Longrightarrow>
    enough_credit ss inner (length (concat (fs @ gs))) (map length gs) s \<Longrightarrow> length (gs @ us) < n \<Longrightarrow>
    \<exists>s'. client_build_loop n ss inner (length (concat (fs @ gs))) (map length gs) (length (concat fs)) s = (Inr (), s') \<and>
      same_session s s' \<and> (\<forall>y \<in> Y. future (fc_transport s') y = Tail y)"
proof (induction n arbitrary: fs gs us s)
  case (Suc n)
  have all: "concat (fs @ gs @ us) = inner" using concat_chunks [OF m(1), of inner] Suc.prems(1) by (simp add: batches_of_def)
  have ne: "list_all (\<lambda>g. g \<noteq> []) (fs @ gs @ us)" using batches_nonempty [of ss inner] Suc.prems(1) by simp
  show ?case
  proof (cases "gs @ us = []")
    case True
    with Suc.prems(3,4) all show ?thesis by (auto simp: owes_def)
  next
    case False
    have more: "length (concat (fs @ gs)) < length inner \<or> map length gs \<noteq> []"
      using False ne by (cases us) (auto simp flip: all)
    obtain ps zs us' pr ma cr s1 s2 where r: "fs @ gs @ us = (fs @ ps) @ zs @ us'" "ps \<noteq> []"
      "fill_window ss MSG_INNER_DATA build_send_ms_update inner (length (concat (fs @ gs))) (map length gs) s =
        (Inr (length (concat ((fs @ ps) @ zs)), map length (ps @ zs)), s1)"
      "ss_collect ss Build [] s1 = (Inr (ack_of PHASE_BUILDING pr ma cr (fc_session_id s), []), s2)" "same_session s s2"
      "apply_cumulative_ack (map length (ps @ zs)) (length (concat fs)) pr = (length ps, map length zs, length (concat (fs @ ps)))"
      "enough_credit ss inner (length (concat ((fs @ ps) @ zs))) (map length zs) (s2\<lparr>fc_credit := cr\<rparr>)"
      "owes future (host_frames (jc_key_type (ss_join ss)) MSG_INNER_DATA) (\<lambda>xs. W (fs @ ps) (zs @ xs)) us' Y Tail (fc_transport s2)"
      by (rule acknowledged_round [OF tr clk m w len ackd [folded Suc.prems(2)] Suc.prems(1) False Suc.prems(3,5)])
    have "length (zs @ us') < n" using Suc.prems(6) r(2) arg_cong [OF r(1), of length] by (cases ps) simp_all
    then have "\<exists>s'. client_build_loop n ss inner (length (concat ((fs @ ps) @ zs))) (map length zs) (length (concat (fs @ ps)))
        (s2\<lparr>fc_credit := cr\<rparr>) = (Inr (), s') \<and> same_session (s2\<lparr>fc_credit := cr\<rparr>) s' \<and> (\<forall>y \<in> Y. future (fc_transport s') y = Tail y)"
      using Suc.prems(1,2,4) r(1,5,7,8) by (intro Suc.IH) (simp_all add: same_session_def)
    then show ?thesis
      using more r(2-6) by (auto simp: build_fill_def ack_of_def same_session_def)
  qed
qed simp

end

section \<open>The probe phase on a board\<close>

text \<open>The messages of the frames probed so far, without the flush at the end, and the pairs still buffered.\<close>

definition frame_msgs :: "bool \<Rightarrow> (u64 \<Rightarrow> Tid option) \<Rightarrow> ResultPair list \<Rightarrow> InputTuple list \<Rightarrow> KernelMsg list" where
  "frame_msgs synth m buf f = debug_msgs synth DBG_INFO DBG_PROBE_KEY (ucast (it_key (hd f))) @ fst (probe_row_msgs synth m 0 buf f)"

definition frame_buf :: "(u64 \<Rightarrow> Tid option) \<Rightarrow> ResultPair list \<Rightarrow> InputTuple list \<Rightarrow> ResultPair list" where
  "frame_buf m buf f = snd (probe_row_msgs False m 0 buf f)"

lemma probe_row_buf_synth: "snd (probe_row_msgs synth m i buf f) = snd (probe_row_msgs False m j buf f)"
proof (induction f arbitrary: i j buf)
  case (Cons t f)
  show ?case using Cons.IH [of "Suc i" _ "Suc j"] by (simp add: Let_def split_beta del: probe_pairs.simps)
qed simp

fun probe_run ::
  "bool \<Rightarrow> (u64 \<Rightarrow> Tid option) \<Rightarrow> SessionConfig \<Rightarrow> u16 \<Rightarrow> u32 \<Rightarrow> u32 \<Rightarrow> ResultPair list \<Rightarrow> InputTuple list list \<Rightarrow> KernelMsg list" where
  "probe_run synth m c pending received matched buf [] = []"
| "probe_run synth m c pending received matched buf (f # fs) =
     (let r = received + of_nat (length f);
          mt = matched + of_nat (length (probe_pairs m f));
          ack = (r < c_outer_total c \<and> pending + 1 \<ge> ACK_BATCH_FRAMES)
      in frame_msgs synth m buf f @
         (if ack then [KStatus MSG_ACK PHASE_PROBING r mt (credit_of (c_outer_total c - r)) (c_session_id c)] else []) @
         probe_run synth m c (if ack then 0 else pending + 1) r mt (frame_buf m buf f) fs)"

lemma probe_msgs_run:
  "probe_msgs synth m c pending received matched buf fs =
     probe_run synth m c pending received matched buf fs @ result_msgs (foldl (frame_buf m) buf fs)"
proof (induction fs arbitrary: pending received matched buf)
  case (Cons f fs)
  from Cons.IH show ?case
    by (simp add: Let_def split_beta frame_msgs_def frame_buf_def probe_row_buf_synth [of synth m 0 buf f 0])
qed simp

lemma frame_buf_short: "length buf < 118 \<Longrightarrow> length (frame_buf m buf f) < 118"
  by (simp add: frame_buf_def probe_row_msgs_buf)

lemma probe_row_quiet: "length buf < 118 \<Longrightarrow> list_all quiet (fst (probe_row_msgs synth m i buf f))"
proof (induction f arbitrary: i buf)
  case (Cons t f)
  have "length (probe_pairs m [t]) \<le> 1" using length_probe_pairs_le [of m "[t]"] by simp
  with Cons show ?case by (auto simp: Let_def split_beta simp del: probe_pairs.simps)
qed simp

lemma frame_msgs_quiet: "length buf < 118 \<Longrightarrow> list_all quiet (frame_msgs synth m buf f)"
  by (simp add: frame_msgs_def probe_row_quiet)

lemma length_probe_row_msgs: "length (fst (probe_row_msgs synth m i buf f)) \<le> length f + (if i = 0 then 1 else 0)"
proof (induction f arbitrary: i buf)
  case (Cons t f)
  show ?case
    using Cons.IH [of "Suc i" "[]"] Cons.IH [of "Suc i" "buf @ probe_pairs m [t]"]
    by (auto simp: Let_def split_beta debug_msgs_def simp del: probe_pairs.simps)
qed simp

lemma length_frame_msgs: "length (frame_msgs synth m buf f) \<le> length f + 2"
  using length_probe_row_msgs [of synth m 0 buf f] by (auto simp: frame_msgs_def debug_msgs_def)

lemma frame_pairs: "pairs_of (frame_msgs synth m buf f) @ frame_buf m buf f = buf @ probe_pairs m f"
  using probe_row_msgs_pairs [of synth m 0 buf f]
  by (simp add: frame_msgs_def frame_buf_def probe_row_buf_synth [of synth m 0 buf f 0])

text \<open>All that the kernel owes for the outer frames \<open>ys\<close> after \<open>fs\<close>; the last one brings the flush, the timing
  summary and DONE.\<close>

definition probe_owed where
  "probe_owed synth m c tm outer fs buf ys =
     probe_run synth m c 0 (of_nat (length (concat fs))) (of_nat (length (probe_pairs m (concat fs)))) buf ys @
     (if concat (fs @ ys) = outer
      then result_msgs (foldl (frame_buf m) buf ys) @ [KTiming tm,
        KStatus MSG_STATUS PHASE_DONE (of_nat (length outer)) (of_nat (length (probe_pairs m outer))) 0 (c_session_id c)]
      else [])"

definition probe_reply where
  "probe_reply synth m c tm outer fs buf ps ms ph pr ma cr V' \<longleftrightarrow>
     ph = PHASE_PROBING \<and> length (concat (fs @ ps)) < length outer \<and> pr = of_nat (length (concat (fs @ ps))) \<and>
       cr = credit_of (c_outer_total c - of_nat (length (concat (fs @ ps)))) \<and>
       (\<exists>buf'. V' = probe_owed synth m c tm outer (fs @ ps) buf' \<and> length buf' < 118 \<and>
          pairs_of ms @ buf' = buf @ probe_pairs m (concat ps)) \<or>
     ph = PHASE_DONE \<and> ma = of_nat (length (probe_pairs m outer)) \<and> concat (fs @ ps) = outer \<and>
       pairs_of ms = buf @ probe_pairs m (concat ps)"

text \<open>The messages of a group of frames without its status frame.\<close>

fun group_msgs :: "bool \<Rightarrow> (u64 \<Rightarrow> Tid option) \<Rightarrow> ResultPair list \<Rightarrow> InputTuple list list \<Rightarrow> KernelMsg list" where
  "group_msgs synth m buf [] = []"
| "group_msgs synth m buf (f # fs) = frame_msgs synth m buf f @ group_msgs synth m (frame_buf m buf f) fs"

lemma group_buf_short: "length buf < 118 \<Longrightarrow> length (foldl (frame_buf m) buf ps) < 118"
  by (induction ps arbitrary: buf) (simp_all add: frame_buf_short)

lemma group_quiet: "length buf < 118 \<Longrightarrow> list_all quiet (group_msgs synth m buf ps)"
  by (induction ps arbitrary: buf) (simp_all add: frame_buf_short frame_msgs_quiet)

lemma group_length: "list_all (\<lambda>g. length g \<le> 256) ps \<Longrightarrow> length (group_msgs synth m buf ps) \<le> 258 * length ps"
proof (induction ps arbitrary: buf)
  case (Cons f ps)
  from Cons.prems Cons.IH [of "frame_buf m buf f"] length_frame_msgs [of synth m buf f] show ?case by simp
qed simp

lemma group_pairs: "pairs_of (group_msgs synth m buf ps) @ foldl (frame_buf m) buf ps = buf @ probe_pairs m (concat ps)"
proof (induction ps arbitrary: buf)
  case (Cons f ps)
  from Cons.IH [of "frame_buf m buf f"] frame_pairs [of synth m buf f] show ?case by simp
qed simp

lemma probe_run_done:
  assumes c: "c_outer_total c = of_nat tot" "tot < 2 ^ 32" and ps: "A + length (concat ps) = tot" "length ps \<le> 2"
    "list_all (\<lambda>g. g \<noteq> []) ps"
  shows "probe_run synth m c 0 (of_nat A) mt buf ps = group_msgs synth m buf ps"
proof -
  have fin: "\<not> (of_nat tot :: u32) < c_outer_total c" by (simp add: c)
  consider "ps = []" | f where "ps = [f]" | f g where "ps = [f, g]"
    using ps(2) by (cases ps; cases "tl ps"; cases "tl (tl ps)") auto
  then show ?thesis
  proof cases
    case (2 f)
    with fin ps(1) show ?thesis by (auto simp: Let_def)
  next
    case (3 f g)
    with fin ps(1) show ?thesis by (auto simp: Let_def add.assoc word_le_nat_alt [of 2])
  qed simp
qed

lemma probe_run_ack:
  assumes c: "c_outer_total c = of_nat tot" "tot < 2 ^ 32" and lt: "A + length (concat [f, g]) < tot"
  shows "probe_run synth m c 0 (of_nat A) mt buf ([f, g] @ xs) = group_msgs synth m buf [f, g] @
    [KStatus MSG_ACK PHASE_PROBING (of_nat (A + length (concat [f, g]))) (mt + of_nat (length (probe_pairs m (concat [f, g]))))
       (credit_of (c_outer_total c - of_nat (A + length (concat [f, g])))) (c_session_id c)] @
    probe_run synth m c 0 (of_nat (A + length (concat [f, g]))) (mt + of_nat (length (probe_pairs m (concat [f, g]))))
      (foldl (frame_buf m) buf [f, g]) xs"
proof -
  have "(of_nat (A + length (concat [f, g])) :: u32) < c_outer_total c"
    using lt c(2) by (simp add: c word_less_nat_alt unsigned_of_nat take_bit_nat_eq_self del: of_nat_add)
  then show ?thesis by (simp add: Let_def add.assoc word_le_nat_alt [of 2])
qed

lemma probe_answers_done:
  assumes c: "c_outer_total c = of_nat (length outer)" "length outer < 2 ^ 32" "concat (fs @ ps) = outer"
    and ps: "list_all (\<lambda>g. g \<noteq> [] \<and> length g \<le> 256) ps" "ps \<noteq> []" "length ps \<le> 2"
    and fuel: "600 \<le> fuel" and buf: "length buf < 118"
  shows "\<exists>ms ph pr ma cr V'. probe_reply synth m c tm outer fs buf ps ms ph pr ma cr V' \<and>
    answers (probe_owed synth m c tm outer fs buf) ps fuel (c_session_id c) ps ms ph pr ma cr V'"
proof -
  let ?ms = "group_msgs synth m buf ps @ result_msgs (foldl (frame_buf m) buf ps) @ [KTiming tm]"
  have V: "probe_owed synth m c tm outer fs buf ps =
      (?ms @ [KStatus MSG_STATUS PHASE_DONE (of_nat (length outer)) (of_nat (length (probe_pairs m outer))) 0 (c_session_id c)]) @ []"
    using probe_run_done [OF c(1,2) _ ps(3), of "length (concat fs)" synth m _ buf] c(3) ps(1) by (auto simp: probe_owed_def list_all_iff)
  have len: "length ?ms < fuel"
    using group_length [of ps synth m buf] ps fuel by (simp add: result_msgs_def list_all_iff)
  have q: "list_all quiet ?ms"
    using group_quiet [OF buf] group_buf_short [OF buf, of m ps] by (simp add: result_msgs_def)
  have pairs: "pairs_of ?ms = buf @ probe_pairs m (concat ps)" using group_pairs [of synth m buf ps] by simp
  have A: "answers (probe_owed synth m c tm outer fs buf) ps fuel (c_session_id c) ps ?ms PHASE_DONE (of_nat (length outer))
      (of_nat (length (probe_pairs m outer))) 0 (\<lambda>_. [])"
    unfolding answers_def using V len q ps(2) by auto
  have "probe_reply synth m c tm outer fs buf ps ?ms PHASE_DONE (of_nat (length outer))
      (of_nat (length (probe_pairs m outer))) 0 (\<lambda>_. [])"
    unfolding probe_reply_def using pairs c(3) by (intro disjI2 conjI refl)
  with A show ?thesis by - (intro exI, rule conjI)
qed

lemma probe_answers_ack:
  assumes c: "c_outer_total c = of_nat (length outer)" "length outer < 2 ^ 32" and lt: "length (concat (fs @ [f, g])) < length outer"
    and ps: "f \<noteq> []" "length f \<le> 256" "length g \<le> 256"
    and fuel: "600 \<le> fuel" and buf: "length buf < 118"
  shows "\<exists>ms ph pr ma cr V'. probe_reply synth m c tm outer fs buf [f, g] ms ph pr ma cr V' \<and>
    answers (probe_owed synth m c tm outer fs buf) todo fuel (c_session_id c) [f, g] ms ph pr ma cr V'"
proof -
  let ?ps = "[f, g]"
  let ?b = "foldl (frame_buf m) buf ?ps" and ?r = "of_nat (length (concat (fs @ ?ps))) :: u32"
  let ?mt = "of_nat (length (probe_pairs m (concat (fs @ ?ps)))) :: u32"
  let ?ack = "KStatus MSG_ACK PHASE_PROBING ?r ?mt (credit_of (c_outer_total c - ?r)) (c_session_id c)"
  have "probe_owed synth m c tm outer fs buf (?ps @ xs) =
      (group_msgs synth m buf ?ps @ [?ack]) @ probe_owed synth m c tm outer (fs @ ?ps) ?b xs" for xs
    using probe_run_ack [OF c, of "length (concat fs)" f g synth m "of_nat (length (probe_pairs m (concat fs)))" buf xs] lt
    by (simp add: probe_owed_def)
  moreover have "length (group_msgs synth m buf ?ps) < fuel"
    using group_length [of ?ps synth m buf] ps fuel by simp
  ultimately have A: "answers (probe_owed synth m c tm outer fs buf) todo fuel (c_session_id c) ?ps (group_msgs synth m buf ?ps)
      PHASE_PROBING ?r ?mt (credit_of (c_outer_total c - ?r)) (probe_owed synth m c tm outer (fs @ ?ps) ?b)"
    unfolding answers_def using group_quiet [OF buf, of synth m ?ps] by auto
  have "probe_reply synth m c tm outer fs buf ?ps (group_msgs synth m buf ?ps) PHASE_PROBING ?r ?mt
      (credit_of (c_outer_total c - ?r)) (probe_owed synth m c tm outer (fs @ ?ps) ?b)"
    unfolding probe_reply_def using group_pairs [of synth m buf ?ps] group_buf_short [OF buf, of m ?ps]
    by (intro disjI1 conjI refl lt exI [of _ ?b])
  with A show ?thesis by - (intro exI, rule conjI)
qed

lemma probe_answers:
  assumes c: "c_outer_total c = of_nat (length outer)" "length outer < 2 ^ 32" "concat (fs @ qs @ us) = outer"
    and ne: "list_all (\<lambda>g. g \<noteq> [] \<and> length g \<le> 256) (qs @ us)" and qs: "qs \<noteq> []" "us = [] \<or> 2 \<le> length qs"
    and fuel: "600 \<le> fuel" and buf: "length buf < 118"
  shows "\<exists>ps zs ms ph pr ma cr V'. qs = ps @ zs \<and> probe_reply synth m c tm outer fs buf ps ms ph pr ma cr V' \<and>
    answers (probe_owed synth m c tm outer fs buf) (qs @ us) fuel (c_session_id c) ps ms ph pr ma cr V'"
proof (cases "us = [] \<and> length qs \<le> 2")
  case True
  with probe_answers_done [OF c(1,2), of fs qs fuel buf synth m tm] c(3) ne qs(1) fuel buf
  have "\<exists>ms ph pr ma cr V'. probe_reply synth m c tm outer fs buf qs ms ph pr ma cr V' \<and>
    answers (probe_owed synth m c tm outer fs buf) (qs @ us) fuel (c_session_id c) qs ms ph pr ma cr V'" by auto
  then show ?thesis by blast
next
  case False
  then obtain f g zs where q: "qs = [f, g] @ zs" using qs by (cases qs; cases "tl qs") auto
  have "zs @ us \<noteq> []" using False q by auto
  then have "0 < length (concat (zs @ us))" using ne q by (cases "zs @ us") auto
  then have "length (concat (fs @ [f, g])) < length (concat (fs @ [f, g]) @ concat (zs @ us))" unfolding length_append [of _ "concat (zs @ us)"] by linarith
  moreover have "concat (fs @ [f, g]) @ concat (zs @ us) = outer" using c(3) q by simp
  ultimately have lt: "length (concat (fs @ [f, g])) < length outer" by (simp only:)
  have "f \<noteq> []" "length f \<le> 256" "length g \<le> 256" using ne q by simp_all
  note probe_answers_ack [OF c(1,2) lt this fuel buf, of synth m tm "qs @ us"]
  then show ?thesis by (intro exI [of _ "[f, g]"] exI [of _ zs]) (simp only: q simp_thms)
qed

text \<open>The two ways the kernel answers a group of outer frames.\<close>

lemma probe_reply_cases:
  assumes "probe_reply synth m c tm outer fs buf ps ms ph pr ma cr V'"
  obtains (probing) buf' where "ph = PHASE_PROBING" "length (concat (fs @ ps)) < length outer" "pr = of_nat (length (concat (fs @ ps)))"
      "cr = credit_of (c_outer_total c - of_nat (length (concat (fs @ ps))))" "V' = probe_owed synth m c tm outer (fs @ ps) buf'"
      "length buf' < 118" "pairs_of ms @ buf' = buf @ probe_pairs m (concat ps)"
  | (finished) "ph = PHASE_DONE" "ma = of_nat (length (probe_pairs m outer))" "concat (fs @ ps) = outer"
      "pairs_of ms = buf @ probe_pairs m (concat ps)"
  using assms unfolding probe_reply_def by blast

definition done_ack :: "nat \<Rightarrow> AckInfo \<Rightarrow> bool" where
  "done_ack k ack \<longleftrightarrow> ack_phase ack = phase_byte PHASE_DONE \<and> rows_matched ack = of_nat k"

text \<open>Quiet messages in front are read with the answer.\<close>

lemma answers_pre:
  assumes "answers V todo fuel sid ps ms ph pr ma cr V'" "list_all quiet pre"
  shows "answers (\<lambda>xs. pre @ V xs) todo (length pre + fuel) sid ps (pre @ ms) ph pr ma cr V'"
  using assms unfolding answers_def by auto

lemma probe_reply_pre:
  "pairs_of pre = [] \<Longrightarrow> probe_reply synth m c tm outer fs buf ps (pre @ ms) ph pr ma cr V' =
    probe_reply synth m c tm outer fs buf ps ms ph pr ma cr V'"
  by (simp add: probe_reply_def)

lemma answers_fuel: "answers V todo fuel sid ps ms ph pr ma cr V' \<Longrightarrow> fuel \<le> fuel' \<Longrightarrow> answers V todo fuel' sid ps ms ph pr ma cr V'"
  unfolding answers_def by auto

lemma probe_answers_pre:
  assumes "c_outer_total c = of_nat (length outer)" "length outer < 2 ^ 32" "concat (fs @ qs @ us) = outer"
    "list_all (\<lambda>g. g \<noteq> [] \<and> length g \<le> 256) (qs @ us)" "qs \<noteq> []" "us = [] \<or> 2 \<le> length qs"
    "610 \<le> fuel" "length buf < 118" and pre: "list_all quiet pre" "pairs_of pre = []" "length pre \<le> 10"
  shows "\<exists>ps zs ms ph pr ma cr V'. qs = ps @ zs \<and> probe_reply synth m c tm outer fs buf ps ms ph pr ma cr V' \<and>
    answers (\<lambda>xs. pre @ probe_owed synth m c tm outer fs buf xs) (qs @ us) fuel (c_session_id c) ps ms ph pr ma cr V'"
proof -
  obtain ps zs ms ph pr ma cr V' where r: "qs = ps @ zs" "probe_reply synth m c tm outer fs buf ps ms ph pr ma cr V'"
    "answers (probe_owed synth m c tm outer fs buf) (qs @ us) 600 (c_session_id c) ps ms ph pr ma cr V'"
    using probe_answers [OF assms(1-6) order_refl assms(8), of synth m tm] by (elim exE conjE)
  have "length pre + 600 \<le> fuel" using assms(7) pre(3) by simp
  then have "answers (\<lambda>xs. pre @ probe_owed synth m c tm outer fs buf xs) (qs @ us) fuel (c_session_id c) ps (pre @ ms) ph pr ma cr V'"
    by (rule answers_fuel [OF answers_pre [OF r(3) pre(1)]])
  moreover have "probe_reply synth m c tm outer fs buf ps (pre @ ms) ph pr ma cr V'" using r(2) by (simp add: probe_reply_pre [OF pre(2)])
  ultimately show ?thesis by - (intro exI conjI, rule r(1))
qed

context board
begin

lemma probe_loop_board:
  assumes tr: "ss_transport ss = tr" and clk: "clock_calm (ss_clock ss) (ss_cfg ss)" and fuel: "610 \<le> ss_fuel ss"
    and m: "0 < unat (max_batch_tuples (ss_cfg ss))" "unat (max_batch_tuples (ss_cfg ss)) \<le> 256"
    and w: "2 \<le> unat (ack_window_frames (ss_cfg ss))"
    and c: "c_outer_total c = of_nat (length outer)" "length outer < 2 ^ 32"
  shows "batches_of ss outer = fs @ gs @ us \<Longrightarrow> gs @ us \<noteq> [] \<Longrightarrow> fc_session_id s = c_session_id c \<Longrightarrow>
    owes future (host_frames (jc_key_type (ss_join ss)) MSG_OUTER_DATA)
      (\<lambda>xs. pre @ probe_owed synth mp c tm outer fs buf (gs @ xs)) us Y Tail (fc_transport s) \<Longrightarrow>
    enough_credit ss outer (length (concat (fs @ gs))) (map length gs) s \<Longrightarrow> length buf < 118 \<Longrightarrow>
    results @ buf = probe_pairs mp (concat fs) \<Longrightarrow> length (gs @ us) \<le> n \<Longrightarrow>
    list_all quiet pre \<Longrightarrow> pairs_of pre = [] \<Longrightarrow> length pre \<le> 10 \<Longrightarrow>
    \<exists>ack s'. client_probe_loop n ss outer (length (concat (fs @ gs))) (map length gs) (length (concat fs)) last_ack results s =
        (Inr (ack, probe_pairs mp outer), s') \<and> done_ack (length (probe_pairs mp outer)) ack"
proof (induction n arbitrary: fs gs us s buf results last_ack pre)
  case (Suc n)
  have all: "concat (fs @ gs @ us) = outer" using concat_chunks [OF m(1), of outer] Suc.prems(1) by (simp add: batches_of_def)
  have ne: "list_all (\<lambda>g. g \<noteq> [] \<and> length g \<le> 256) (fs @ gs @ us)"
    unfolding Suc.prems(1) [symmetric] using chunks_lengths [of _ _ outer] m(2)
    by (auto simp: batches_of_def list_all_iff dest: order_trans)
  have go: "length (concat (fs @ gs)) < length outer \<or> map length gs \<noteq> []"
    using Suc.prems(2) ne by (cases us) (auto simp flip: all)
  have ans: "\<exists>ps zs ms ph pr ma cr V'. qs = ps @ zs \<and> probe_reply synth mp c tm outer fs buf ps ms ph pr ma cr V' \<and>
      answers (\<lambda>xs. pre @ probe_owed synth mp c tm outer fs buf xs) (gs @ us) (ss_fuel ss) (fc_session_id s) ps ms ph pr ma cr V'"
    if "gs @ us = qs @ us'" "qs \<noteq> []" "us' = [] \<or> 2 \<le> length qs" for qs us'
  proof -
    have "concat (fs @ qs @ us') = outer" "list_all (\<lambda>g. g \<noteq> [] \<and> length g \<le> 256) (qs @ us')" using all ne that(1) by auto
    from probe_answers_pre [OF c this that(2,3) fuel Suc.prems(6,9-11)] show ?thesis unfolding that(1) Suc.prems(3) .
  qed
  obtain hs us' ps zs ms ph pr ma cr V' s1 s2 where r: "us = hs @ us'" "gs @ hs = ps @ zs" "ps \<noteq> []"
    "probe_reply synth mp c tm outer fs buf ps ms ph pr ma cr V'"
    "fill_window ss MSG_OUTER_DATA probe_send_ms_update outer (length (concat (fs @ gs))) (map length gs) s =
      (Inr (length (concat ((fs @ ps) @ zs)), map length (ps @ zs)), s1)"
    "ss_collect ss Probe results s1 = (Inr (ack_of ph pr ma cr (fc_session_id s), results @ pairs_of ms), s2)"
    "same_session s s2"
    "owes future (host_frames (jc_key_type (ss_join ss)) MSG_OUTER_DATA) (\<lambda>xs. V' (zs @ xs)) us' Y Tail (fc_transport s2)"
    using phase_round [where V = "\<lambda>xs. pre @ probe_owed synth mp c tm outer fs buf xs", OF tr clk m(1) w Suc.prems(1,2,5,4), of "probe_reply synth mp c tm outer fs buf"] ans by blast
  have split: "fs @ gs @ us = (fs @ ps) @ zs @ us'" using r(1,2) by (metis append.assoc)
  from r(4) show ?case
  proof (cases rule: probe_reply_cases)
    case finished
    have "results @ pairs_of ms = probe_pairs mp outer" using finished(3,4) Suc.prems(7) by auto
    then show ?thesis using go r(3,5,6) finished(1,2)
      by (auto simp: probe_fill_def ack_of_def done_ack_def split: prod.splits)
  next
    case (probing buf')
    define k where "k = length (concat (fs @ ps))"
    define s3 where "s3 = s2\<lparr>fc_credit := cr\<rparr>"
    have le: "k \<le> length (concat ((fs @ ps) @ zs))" "length (concat ((fs @ ps) @ zs)) \<le> length outer"
      using arg_cong [OF all [unfolded split], of length] by (simp_all add: k_def)
    have ur: "unat (of_nat k :: u32) = k" if "k \<le> length outer" for k
      using that c(2) by (simp add: unsigned_of_nat take_bit_nat_eq_self)
    have "apply_cumulative_ack (map length (ps @ zs)) (length (concat fs)) pr = (length ps, map length zs, k)"
      using apply_ack_batches [of ps zs pr "length (concat fs)"] ne [unfolded split] probing(3) ur [of k] le
      by (auto simp: k_def list_all_iff)
    moreover have "\<exists>ack s'. client_probe_loop n ss outer (length (concat ((fs @ ps) @ zs))) (map length zs) (length (concat (fs @ ps)))
        (ack_of ph pr ma cr (fc_session_id s)) (results @ pairs_of ms) s3 = (Inr (ack, probe_pairs mp outer), s') \<and>
        done_ack (length (probe_pairs mp outer)) ack"
    proof (rule Suc.IH [where pre = "[]"])
      show "enough_credit ss outer (length (concat ((fs @ ps) @ zs))) (map length zs) s3"
        using enough_credit_ack [OF m(2) _ le(1), of "c_outer_total c - of_nat k" outer "map length zs" s2] probing(4) le ur [of k] ur [of "length outer"] c(1)
        by (simp add: s3_def k_def unat_sub word_le_nat_alt)
      show "length (zs @ us') \<le> n"
        using Suc.prems(8) r(1,3) arg_cong [OF r(2), of length] by (cases ps) simp_all
      show "zs @ us' \<noteq> []"
        using probing(2) all [unfolded split] by auto
      show "(results @ pairs_of ms) @ buf' = probe_pairs mp (concat (fs @ ps))"
        by (simp add: probing(7)) (simp add: Suc.prems(7) flip: append.assoc)
    qed (use Suc.prems(1,3) split r(7,8) probing in \<open>simp_all add: s3_def same_session_def\<close>)
    ultimately show ?thesis
      using go r(3,5,6) probing(1)
      by (auto simp: probe_fill_def ack_of_def s3_def k_def)
  qed
qed (simp add: )

end

section \<open>A whole session on a board\<close>

text \<open>The debug messages between the two phases; a session without outer rows is over here.\<close>

definition probe_intro :: "bool \<Rightarrow> SessionConfig \<Rightarrow> InputTuple list \<Rightarrow> KernelMsg list" where
  "probe_intro synth c outer = debug_msgs synth DBG_INFO DBG_BUILD_DONE (c_inner_total c) @
     (if outer = [] then debug_msgs synth DBG_INFO DBG_PROBE_DONE 0 else [])"

lemma probe_intro_quiet: "list_all quiet (probe_intro synth c outer)" "pairs_of (probe_intro synth c outer) = []"
  "length (probe_intro synth c outer) \<le> 10"
  by (simp_all add: probe_intro_def debug_msgs_def)

text \<open>What a board answers to CONFIGURE (\<open>conf\<close>), the inner frames \<open>xs\<close> (\<open>B xs\<close>) and, after the last of
  them, the outer frames \<open>ys\<close> (\<open>Q ys\<close>); after the session it may say \<open>ex\<close>.\<close>

definition session_answer where
  "session_answer conf B Q inner xs ys = conf @ B xs @ (if concat xs = inner then Q ys else [])"

definition serves where
  "serves future ss inner outer sid conf B Q ex t \<longleftrightarrow>
     (\<forall>xs xs' ys ys'. batches_of ss inner = xs @ xs' \<and> batches_of ss outer = ys @ ys' \<and> (xs' = [] \<or> ys = []) \<longrightarrow>
        future t (serialize_configure (ss_join ss) (of_nat (length inner)) (of_nat (length outer)) sid @
            host_frames (jc_key_type (ss_join ss)) MSG_INNER_DATA xs @
            host_frames (jc_key_type (ss_join ss)) MSG_OUTER_DATA ys) =
          bytes_of (session_answer conf B Q inner xs ys) @ (if xs' = [] \<and> ys' = [] then bytes_of ex else []))"

text \<open>A board that runs algorithm A.\<close>

definition linear_probe where
  "linear_probe synth m c tm outer ys = probe_intro synth c outer @ probe_owed synth m c tm outer [] [] ys"

definition linear_answer where
  "linear_answer synth m c tm inner outer =
     session_answer (configure_msgs synth (c_inner_total c) (c_session_id c)) (build_msgs synth c 0 0) (linear_probe synth m c tm outer) inner"

definition linear_serves where
  "linear_serves future ss inner outer synth m c tm ex t \<longleftrightarrow>
     serves future ss inner outer (c_session_id c) (configure_msgs synth (c_inner_total c) (c_session_id c)) (build_msgs synth c 0 0)
       (linear_probe synth m c tm outer) ex t"

definition outer_streams :: "'t Session \<Rightarrow> InputTuple list \<Rightarrow> u8 list set" where
  "outer_streams ss outer = {host_frames (jc_key_type (ss_join ss)) MSG_OUTER_DATA ys | ys ys'. batches_of ss outer = ys @ ys'}"

lemma concat_batches_less:
  assumes "batches_of ss inner = xs @ xs'" "xs' \<noteq> []" "0 < unat (max_batch_tuples (ss_cfg ss))"
  shows "concat xs \<noteq> inner"
proof
  assume "concat xs = inner"
  moreover have "concat (xs @ xs') = inner" using concat_chunks [OF assms(3), of inner] assms(1) by (simp add: batches_of_def)
  ultimately have "concat xs' = []" by simp
  then show False using batches_nonempty [of ss inner] assms(1,2) by (cases xs') auto
qed

text \<open>After the answer to CONFIGURE the board owes the build phase.\<close>

lemma serves_build:
  assumes sv: "serves future ss inner outer sid conf B Q ex t" and mb: "0 < unat (max_batch_tuples (ss_cfg ss))"
    and b: "batches_of ss inner = gs @ us"
    and t1: "\<And>x. future t1 x = drop (length (bytes_of conf)) (future t ((serialize_configure (ss_join ss) (of_nat (length inner)) (of_nat (length outer)) sid @
            host_frames (jc_key_type (ss_join ss)) MSG_INNER_DATA gs) @ x))"
  shows "owes future (host_frames (jc_key_type (ss_join ss)) MSG_INNER_DATA) (\<lambda>xs. B (gs @ xs)) us (outer_streams ss outer)
    (\<lambda>y. drop (length (bytes_of (B (batches_of ss inner))))
       (future t1 (host_frames (jc_key_type (ss_join ss)) MSG_INNER_DATA us @ y))) t1"
proof -
  have all: "concat (gs @ us) = inner" using concat_chunks [OF mb, of inner] b by (simp add: batches_of_def)
  have ans: "future t1 (host_frames (jc_key_type (ss_join ss)) MSG_INNER_DATA xs @ host_frames (jc_key_type (ss_join ss)) MSG_OUTER_DATA ys) =
      drop (length (bytes_of conf))
        (bytes_of (session_answer conf B Q inner (gs @ xs) ys) @ (if xs' = [] \<and> ys' = [] then bytes_of ex else []))"
    if "us = xs @ xs'" "batches_of ss outer = ys @ ys'" "xs' = [] \<or> ys = []" for xs xs' ys ys'
    using sv [unfolded serves_def, rule_format, of "gs @ xs" xs' ys ys'] that b
    by (simp add: t1 host_frames_append)
  show ?thesis
    unfolding owes_def
  proof (intro conjI allI impI ballI)
    fix xs ys
    assume xs: "us = xs @ ys \<and> ys \<noteq> []"
    with concat_batches_less [OF _ _ mb, of inner "gs @ xs" ys] b have "concat (gs @ xs) \<noteq> inner" by simp
    with ans [of xs ys "[]"] xs
    show "future t1 (host_frames (jc_key_type (ss_join ss)) MSG_INNER_DATA xs) = bytes_of (B (gs @ xs))"
      by (simp add: session_answer_def)
  next
    show "[] \<in> outer_streams ss outer" unfolding outer_streams_def by (rule CollectI, rule exI [of _ "[]"]) simp
  next
    fix y
    assume "y \<in> outer_streams ss outer"
    then obtain ys ys' where y: "y = host_frames (jc_key_type (ss_join ss)) MSG_OUTER_DATA ys" "batches_of ss outer = ys @ ys'"
      by (auto simp: outer_streams_def)
    then show "future t1 (host_frames (jc_key_type (ss_join ss)) MSG_INNER_DATA us @ y) =
        bytes_of (B (gs @ us)) @ drop (length (bytes_of (B (batches_of ss inner)))) (future t1 (host_frames (jc_key_type (ss_join ss)) MSG_INNER_DATA us @ y))"
      using ans [of us "[]" ys ys'] b by (simp add: session_answer_def)
  qed
qed

text \<open>After the build phase it owes the probe phase.\<close>

lemma serves_probe:
  assumes sv: "serves future ss inner outer sid conf B Q ex t" and mb: "0 < unat (max_batch_tuples (ss_cfg ss))"
    and t1: "\<And>y. y \<in> outer_streams ss outer \<Longrightarrow> future t1 y = drop (length (bytes_of (conf @ B (batches_of ss inner))))
      (future t (serialize_configure (ss_join ss) (of_nat (length inner)) (of_nat (length outer)) sid @
            host_frames (jc_key_type (ss_join ss)) MSG_INNER_DATA (batches_of ss inner) @ y))"
  shows "owes future (host_frames (jc_key_type (ss_join ss)) MSG_OUTER_DATA) Q (batches_of ss outer) {[]} (\<lambda>y. bytes_of ex) t1"
proof -
  have all: "concat (batches_of ss inner) = inner" using concat_chunks [OF mb, of inner] by (simp add: batches_of_def)
  have "future t1 (host_frames (jc_key_type (ss_join ss)) MSG_OUTER_DATA ys) = bytes_of (Q ys) @ (if ys' = [] then bytes_of ex else [])"
    if "batches_of ss outer = ys @ ys'" for ys ys'
  proof -
    have "host_frames (jc_key_type (ss_join ss)) MSG_OUTER_DATA ys \<in> outer_streams ss outer"
      using that unfolding outer_streams_def by blast
    from t1 [OF this] sv [unfolded serves_def, rule_format, of "batches_of ss inner" "[]" ys ys'] that show ?thesis
      by (simp add: session_answer_def all)
  qed
  then show ?thesis unfolding owes_def by simp
qed

context board
begin

lemma config_phase_board:
  assumes tr: "ss_transport ss = tr" and clk: "clock_calm (ss_clock ss) (ss_cfg ss)" and fuel: "610 \<le> ss_fuel ss"
    and mb: "0 < unat (max_batch_tuples (ss_cfg ss))" "unat (max_batch_tuples (ss_cfg ss)) \<le> 256"
    and sv: "serves future ss inner outer sid (configure_msgs synth n sid) B Q ex (fc_transport s)" and sid: "fc_session_id s = sid"
  shows "\<exists>us s'. client_config_phase ss inner (length outer) s = (Inr (length (concat (coalesced ss inner))), s') \<and>
    same_session s s' \<and> batches_of ss inner = coalesced ss inner @ us \<and> fc_credit s' = 512 \<and>
    (\<forall>x. future (fc_transport s') x = drop (length (bytes_of (configure_msgs synth n sid)))
      (future (fc_transport s) ((serialize_configure (ss_join ss) (of_nat (length inner)) (of_nat (length outer)) sid @
            host_frames (jc_key_type (ss_join ss)) MSG_INNER_DATA (coalesced ss inner)) @ x)))"
proof -
  let ?s = "s\<lparr>fc_metrics := if coalesced ss inner = [] then fc_metrics s else account_coalesced_inner_frame (fc_metrics s)\<rparr>"
  let ?D = "serialize_configure (ss_join ss) (of_nat (length inner)) (of_nat (length outer)) sid @
            host_frames (jc_key_type (ss_join ss)) MSG_INNER_DATA (coalesced ss inner)"
  let ?ms = "debug_msgs synth DBG_INFO DBG_IDLE_ENTER 0 @ debug_msgs synth DBG_INFO DBG_CONFIGURE n"
  obtain us where us: "batches_of ss inner = coalesced ss inner @ us"
    using coalesced_prefix [OF mb(1), of inner] by (auto elim: prefixE)
  obtain s1 where s1: "ss_send ss ?D MSG_CONFIGURE config_send_ms_update ?s = (Inr (), s1)" "same_session ?s s1"
    "\<And>x. future (fc_transport s1) x = future (fc_transport ?s) (?D @ x)"
    using ss_send_future [OF tr, of ?D MSG_CONFIGURE config_send_ms_update ?s] by blast
  have id: "fc_session_id s1 = sid" using s1(2) sid by (simp add: same_session_def)
  obtain rest where "future (fc_transport s1) [] = bytes_of (?ms @ [KStatus MSG_ACK PHASE_BUILDING 0 0 512 (fc_session_id s1)]) @ rest"
    using sv [unfolded serves_def, rule_format, of "coalesced ss inner" us "[]" "batches_of ss outer"] us
    by (simp add: s1(3) session_answer_def configure_msgs_def id)
  moreover have "list_all quiet ?ms" "length ?ms < ss_fuel ss" using fuel by (simp_all add: debug_msgs_def)
  ultimately obtain s2 where s2: "ss_collect ss Config [] s1 = (Inr (ack_of PHASE_BUILDING 0 0 512 (fc_session_id s1), [] @ pairs_of ?ms), s2)"
    "advanced future s1 s2 (length (bytes_of (?ms @ [KStatus MSG_ACK PHASE_BUILDING 0 0 512 (fc_session_id s1)])))"
    using ss_collect_future [OF tr clk _ _ _, of MSG_ACK ?ms s1 PHASE_BUILDING 0 0 512 rest Config "[]"] by blast
  have run: "client_config_phase ss inner (length outer) s =
      (Inr (length (concat (coalesced ss inner))), s2\<lparr>fc_credit := 512\<rparr>)"
    unfolding client_config_phase_eq [OF mb(2)] sid using s1(1) s2(1) by (simp add: bindx_def ack_of_def)
  show ?thesis
    using run us s1(2,3) s2(2) by (intro exI [of _ us] exI [of _ "s2\<lparr>fc_credit := 512\<rparr>"])
      (simp add: advanced_def same_session_def configure_msgs_def id)
qed

text \<open>The build phase from the answer to CONFIGURE on.\<close>

lemma build_phase_board:
  assumes tr: "ss_transport ss = tr" and clk: "clock_calm (ss_clock ss) (ss_cfg ss)"
    and mb: "0 < unat (max_batch_tuples (ss_cfg ss))" "unat (max_batch_tuples (ss_cfg ss)) \<le> 256"
    and w: "2 \<le> unat (ack_window_frames (ss_cfg ss))" and len: "length inner < 2 ^ 32"
    and ackd: "acknowledged PHASE_BUILDING W sid (ss_fuel ss) inner" "\<forall>fs. W fs [] = []"
    and b: "batches_of ss inner = coalesced ss inner @ us" "length (batches_of ss inner) < ss_fuel ss"
    and ow: "owes future (host_frames (jc_key_type (ss_join ss)) MSG_INNER_DATA) (\<lambda>xs. W [] (coalesced ss inner @ xs)) us Y Tail (fc_transport s)"
    and s: "fc_session_id s = sid" "fc_credit s = 512"
  shows "\<exists>s'. client_build_phase ss inner (length (concat (coalesced ss inner))) s = (Inr (), s') \<and>
    fc_session_id s' = sid \<and> fc_credit s' = 512 \<and> (\<forall>y \<in> Y. future (fc_transport s') y = Tail y)"
proof -
  let ?gs = "coalesced ss inner"
  define s1 where "s1 = (if ?gs = [] then snd (now (ss_clock ss) s)
    else (snd (now (ss_clock ss) s))\<lparr>fc_credit := spend (fc_credit s) (length (concat ?gs))\<rparr>)"
  have len': "length (concat ?gs) \<le> 256" using mb(2) by (auto simp: coalesced_def intro: min.coboundedI2)
  have ne: "length (concat ?gs) = 0 \<longleftrightarrow> ?gs = []" using mb(1) by (auto simp: coalesced_def)
  have "enough_credit ss inner (length (concat ?gs)) (map length ?gs) s1"
  proof -
    have "length ?gs \<le> 1" by (simp add: coalesced_def)
    moreover have "unat (spend 512 (length (concat ?gs))) = 512 - length (concat ?gs)"
      using len' by (auto simp: spend_def unat_sub word_le_nat_alt)
    ultimately show ?thesis using mb(2) len' s(2) by (cases ?gs) (auto simp: enough_credit_def s1_def now_def)
  qed
  moreover have "fc_session_id s1 = sid" "fc_transport s1 = fc_transport s" using s by (simp_all add: s1_def now_def)
  ultimately obtain s2 where s2: "client_build_loop (ss_fuel ss) ss inner (length (concat ?gs)) (map length ?gs) 0 s1 = (Inr (), s2)"
    "same_session s1 s2" "\<forall>y \<in> Y. future (fc_transport s2) y = Tail y"
    using build_loop_board [OF tr clk mb w len ackd(1), of "[]" ?gs us s1 Y Tail "ss_fuel ss"] b ow ackd(2) by auto
  have "client_build_phase ss inner (length (concat ?gs)) s =
      (Inr (), (snd (now (ss_clock ss) s2))\<lparr>fc_credit := ucast RX_CREDIT_TUPLES\<rparr>)"
    using s2(1) ne s(2) unfolding client_build_phase_def Let_def
    by (cases "?gs = []") (auto simp: s1_def now_def coalesced_def split: if_splits)
  with s2(2,3) s show ?thesis by (cases "?gs = []") (auto simp: now_def same_session_def s1_def)
qed

text \<open>From the start of a session to its probe phase.\<close>

lemma session_to_probe:
  assumes tr: "ss_transport ss = tr" and clk: "clock_calm (ss_clock ss) (ss_cfg ss)" and fuel: "610 \<le> ss_fuel ss"
    and mb: "0 < unat (max_batch_tuples (ss_cfg ss))" "unat (max_batch_tuples (ss_cfg ss)) \<le> 256"
    and w: "2 \<le> unat (ack_window_frames (ss_cfg ss))" and len: "length inner < 2 ^ 32" "length (batches_of ss inner) < ss_fuel ss"
    and ackd: "acknowledged PHASE_BUILDING W sid (ss_fuel ss) inner" "\<forall>fs. W fs [] = []"
    and sv: "serves future ss inner outer sid (configure_msgs synth n sid) (W []) Q ex (fc_transport s)" and sid: "fc_session_id s = sid"
  obtains s1 s2 where "client_config_phase ss inner (length outer) s = (Inr (length (concat (coalesced ss inner))), s1)"
    "client_build_phase ss inner (length (concat (coalesced ss inner))) s1 = (Inr (), s2)"
    "fc_session_id s2 = sid" "fc_credit s2 = 512"
    "owes future (host_frames (jc_key_type (ss_join ss)) MSG_OUTER_DATA) Q (batches_of ss outer) {[]} (\<lambda>y. bytes_of ex) (fc_transport s2)"
proof -
  obtain us s1 where s1: "client_config_phase ss inner (length outer) s = (Inr (length (concat (coalesced ss inner))), s1)"
    "same_session s s1" "batches_of ss inner = coalesced ss inner @ us" "fc_credit s1 = 512"
    "\<And>x. future (fc_transport s1) x = drop (length (bytes_of (configure_msgs synth n sid)))
      (future (fc_transport s) ((serialize_configure (ss_join ss) (of_nat (length inner)) (of_nat (length outer)) sid @
            host_frames (jc_key_type (ss_join ss)) MSG_INNER_DATA (coalesced ss inner)) @ x))"
    using config_phase_board [OF tr clk fuel mb sv sid] by blast
  have id1: "fc_session_id s1 = sid" using s1(2) sid by (simp add: same_session_def)
  obtain s2 where s2: "client_build_phase ss inner (length (concat (coalesced ss inner))) s1 = (Inr (), s2)"
    "fc_session_id s2 = sid" "fc_credit s2 = 512"
    "\<forall>y \<in> outer_streams ss outer. future (fc_transport s2) y = drop (length (bytes_of (W [] (batches_of ss inner))))
         (future (fc_transport s1) (host_frames (jc_key_type (ss_join ss)) MSG_INNER_DATA us @ y))"
    using build_phase_board [OF tr clk mb w len(1) ackd s1(3) len(2) serves_build [OF sv mb(1) s1(3,5)] id1 s1(4)] by blast
  have "owes future (host_frames (jc_key_type (ss_join ss)) MSG_OUTER_DATA) Q (batches_of ss outer) {[]} (\<lambda>y. bytes_of ex) (fc_transport s2)"
    using s2(4) s1(3,5) by (intro serves_probe [OF sv mb(1)]) (simp add: host_frames_append add.commute)
  with s1(1) s2(1-3) show thesis by (rule that)
qed

lemma probe_phase_board:
  assumes tr: "ss_transport ss = tr" and clk: "clock_calm (ss_clock ss) (ss_cfg ss)" and fuel: "610 \<le> ss_fuel ss"
    and mb: "0 < unat (max_batch_tuples (ss_cfg ss))" "unat (max_batch_tuples (ss_cfg ss)) \<le> 256"
    and w: "2 \<le> unat (ack_window_frames (ss_cfg ss))"
    and co: "c_outer_total c = of_nat (length outer)" "length outer < 2 ^ 32" "length (batches_of ss outer) < ss_fuel ss"
    and few: "length (probe_pairs mp outer) < 2 ^ 32"
    and ow: "owes future (host_frames (jc_key_type (ss_join ss)) MSG_OUTER_DATA)
      (linear_probe synth mp c tm outer) (batches_of ss outer) {[]} (\<lambda>y. bytes_of ex) (fc_transport s)"
    and s: "fc_session_id s = c_session_id c" "fc_credit s = 512"
  shows "\<exists>ack results s1 s2. client_probe_loop (ss_fuel ss) ss outer 0 [] 0 ack_zero [] s = (Inr (ack, results), s1) \<and>
    client_probe_end ss (length outer) ack results s1 = (Inr (ack, results), s1) \<and>
    client_finish ss (length outer) ack results s1 = (Inr (probe_pairs mp outer), s2)"
proof (cases "outer = []")
  case True
  have b: "batches_of ss [] = []" by (simp add: batches_of_def)
  have "future (fc_transport s) [] = bytes_of ((probe_intro synth c outer @ [KTiming tm]) @
      [KStatus MSG_STATUS PHASE_DONE 0 0 0 (fc_session_id s)]) @ bytes_of ex"
    using ow by (simp add: owes_def b linear_probe_def probe_owed_def True result_msgs_def s(1))
  moreover have "list_all quiet (probe_intro synth c outer @ [KTiming tm])" "length (probe_intro synth c outer @ [KTiming tm]) < ss_fuel ss"
    using probe_intro_quiet [of synth c outer] fuel by simp_all
  ultimately obtain s1 where "ss_collect ss FinalStatus [] s = (Inr (ack_of PHASE_DONE 0 0 0 (fc_session_id s),
      [] @ pairs_of (probe_intro synth c outer @ [KTiming tm])), s1)"
    using ss_collect_future [OF tr clk, of MSG_STATUS _ s PHASE_DONE 0 0 0 "bytes_of ex" FinalStatus "[]"] by blast
  then have "finish_drain ss [] s = (Inr [], s1)"
    by (simp add: finish_drain_def ack_of_def probe_intro_quiet return_verified_def verify_matched_count_def)
  moreover obtain n where "ss_fuel ss = Suc n" using fuel by (cases "ss_fuel ss") auto
  ultimately show ?thesis
    by (intro exI [of _ ack_zero] exI [of _ "[]"] exI [of _ s] exI [of _ s1])
      (simp add: True client_probe_end_def client_finish_def ack_zero_def inferred_done_def)
next
  case False
  then have b: "[] @ batches_of ss outer \<noteq> []" using mb(1) by (simp add: batches_of_def chunks_step)
  have ow': "owes future (host_frames (jc_key_type (ss_join ss)) MSG_OUTER_DATA)
      (\<lambda>xs. probe_intro synth c outer @ probe_owed synth mp c tm outer [] [] ([] @ xs)) (batches_of ss outer) {[]} (\<lambda>y. bytes_of ex)
      (fc_transport s)" using ow by (simp add: linear_probe_def [abs_def])
  have "enough_credit ss outer (length (concat ([] @ []))) (map length []) s" using mb(2) s(2) by (simp add: enough_credit_def)
  then obtain ack s1 where p: "client_probe_loop (ss_fuel ss) ss outer 0 [] 0 ack_zero [] s = (Inr (ack, probe_pairs mp outer), s1)"
    "done_ack (length (probe_pairs mp outer)) ack"
    using probe_loop_board [OF tr clk fuel mb w co(1,2) _ b s(1) ow', of "[]" "ss_fuel ss" ack_zero] probe_intro_quiet co(3) by auto
  have "unat (rows_matched ack) = length (probe_pairs mp outer)"
    using p(2) few by (simp add: done_ack_def unsigned_of_nat take_bit_nat_eq_self)
  with p show ?thesis
    by (intro exI [of _ ack] exI [of _ "probe_pairs mp outer"] exI [of _ s1])
      (simp add: client_probe_end_def client_finish_def done_ack_def return_verified_def verify_matched_count_def)
qed

lemma client_session_board:
  assumes tr: "ss_transport ss = tr" and clk: "clock_calm (ss_clock ss) (ss_cfg ss)" and fuel: "610 \<le> ss_fuel ss"
    and mb: "0 < unat (max_batch_tuples (ss_cfg ss))" "unat (max_batch_tuples (ss_cfg ss)) \<le> 256"
    and w: "2 \<le> unat (ack_window_frames (ss_cfg ss))"
    and ci: "c_inner_total c = of_nat (length inner)" "length inner < 2 ^ 32" "length (batches_of ss inner) < ss_fuel ss"
    and co: "c_outer_total c = of_nat (length outer)" "length outer < 2 ^ 32" "length (batches_of ss outer) < ss_fuel ss"
    and sv: "linear_serves future ss inner outer synth mp c tm ex (fc_transport s)" and sid: "fc_session_id s = c_session_id c"
    and few: "length (probe_pairs mp outer) < 2 ^ 32"
  shows "fst (client_session ss inner outer s) = Inr (probe_pairs mp outer)"
proof -
  let ?s = "snd (now (ss_clock ss) s)"
  define W where "W = (\<lambda>fs :: InputTuple list list. build_msgs synth c 0 (of_nat (length (concat fs))))"
  have W: "acknowledged PHASE_BUILDING W (c_session_id c) (ss_fuel ss) inner" "\<forall>fs. W fs [] = []"
    using build_acknowledged [OF ci(1,2), of "ss_fuel ss" synth] fuel by (simp_all add: W_def)
  have sv': "serves future ss inner outer (c_session_id c) (configure_msgs synth (c_inner_total c) (c_session_id c)) (W [])
      (linear_probe synth mp c tm outer) ex (fc_transport ?s)" "fc_session_id ?s = c_session_id c"
    using sv sid by (simp_all add: now_def linear_serves_def W_def)
  obtain s1 s2 where s: "client_config_phase ss inner (length outer) ?s = (Inr (length (concat (coalesced ss inner))), s1)"
    "client_build_phase ss inner (length (concat (coalesced ss inner))) s1 = (Inr (), s2)"
    "fc_session_id s2 = c_session_id c" "fc_credit s2 = 512"
    "owes future (host_frames (jc_key_type (ss_join ss)) MSG_OUTER_DATA) (linear_probe synth mp c tm outer) (batches_of ss outer) {[]}
      (\<lambda>y. bytes_of ex) (fc_transport s2)"
    by (rule session_to_probe [OF tr clk fuel mb w ci(2,3) W sv'])
  obtain ack results s3 s4 where "client_probe_loop (ss_fuel ss) ss outer 0 [] 0 ack_zero [] s2 = (Inr (ack, results), s3)"
    "client_probe_end ss (length outer) ack results s3 = (Inr (ack, results), s3)"
    "client_finish ss (length outer) ack results s3 = (Inr (probe_pairs mp outer), s4)"
    using probe_phase_board [OF tr clk fuel mb w co few s(5,3,4)] by blast
  with s(1,2) show ?thesis by (simp add: client_session_def now_def)
qed

end

end
