(* ===== verification/Host_Kernel.thy ===== *)
theory Host_Kernel
  imports Board_Protocol Kernel_Safety
begin

text \<open>
  The two programs connected: the kernel of \<^verbatim>\<open>src/src/hash_join_kernel.cpp\<close> is a board for the client of
  \<^verbatim>\<open>src/host/src/fpga_client.cpp\<close>. The kernel's answers to the first frames of a session are followed
  frame by frame; the record \<open>Loopback\<close> is a transport that hands all bytes sent to the kernel and its
  output back, and interprets the locale \<open>board\<close>. The end-to-end theorem rests on that
  interpretation.
\<close>

section \<open>The kernel on the first frames of a session\<close>

lemma build_frame_loop_skip:
  assumes "frames_ok (c_keytype c) fs"
    "k_rx k = map Some (host_frames (c_keytype c) MSG_INNER_DATA fs) @ rest"
    "\<not> k_session_done k" "unat (k_inner_received k) + length (concat fs) \<le> unat (c_inner_total c)"
    "c_inner_total c \<le> HT_MAX_ROWS" "unat frame + length fs \<le> 12290"
    "build_all ht_insert (k_ht k) (concat fs) = (ERR_NONE, h)"
  shows "\<exists>k'. build_frame_loop synth c frame k = build_frame_loop synth c (frame + of_nat (length fs)) k' \<and> k_rx k' = rest \<and>
    \<not> k_session_done k' \<and> k_ht k' = h \<and>
    k_tx k' = k_tx k @ tx_of (build_msgs synth c (k_ack_pending k) (k_inner_received k) fs) \<and>
    unat (k_inner_received k') = unat (k_inner_received k) + length (concat fs)"
  using assms
proof (induction fs arbitrary: k frame)
  case (Cons f fs)
  define r where "r = map Some (host_frames (c_keytype c) MSG_INNER_DATA fs) @ rest"
  let ?k = "build_batch synth c (of_nat (length f)) f (build_start c f r k)"
  have f: "f \<noteq> []" "length f \<le> 256" "list_all (\<lambda>t. key_fits (c_keytype c) (it_key t)) f"
    using Cons.prems(1) by (simp_all add: frames_ok_def)
  have fr: "build_frame synth c k = (Continue, ?k)"
    using f Cons.prems(2) by (intro build_frame_inner) (simp_all add: host_frames_Cons r_def)
  obtain h1 where h1: "build_all ht_insert (k_ht k) f = (ERR_NONE, h1)"
    "build_all ht_insert h1 (concat fs) = (ERR_NONE, h)"
    using Cons.prems(7) by (auto simp: build_all_append split: prod.splits if_splits)
  note b = build_batch_ok [OF _ _ f(1,2), of "build_start c f r k" h1 synth c, simplified, OF Cons.prems(3) h1(1)]
  have lt: "\<not> k_inner_received k \<ge> c_inner_total c"
    using Cons.prems(4) f(1) by (cases f) (simp_all add: word_le_nat_alt)
  have len: "unat (of_nat (length f) :: u32) = length f"
    using f(2) by (simp add: unsigned_of_nat take_bit_nat_eq_self_iff)
  have rec: "unat (k_inner_received ?k) = unat (k_inner_received k) + length f"
    using Cons.prems(4,5) len b(3) by (simp only:, subst unat_add_lem [THEN iffD1]) (simp_all add: word_le_nat_alt)
  have fl: "frame \<le> HT_MAX_ROWS + 1" "unat (frame + 1) + length fs \<le> 12290"
    using Cons.prems(6) by (simp_all add: word_le_nat_alt unat_word_ariths)
  have step: "build_frame_loop synth c frame k = build_frame_loop synth c (frame + 1) ?k"
    using fr lt fl(1) Cons.prems(3) by (subst build_frame_loop.simps) simp
  have p: "frames_ok (c_keytype c) fs" "k_rx ?k = map Some (host_frames (c_keytype c) MSG_INNER_DATA fs) @ rest" "unat (k_inner_received ?k) + length (concat fs) \<le> unat (c_inner_total c)"
    using Cons.prems(1,4) rec by (simp_all add: frames_ok_def r_def)
  obtain k' where k': "build_frame_loop synth c (frame + 1) ?k = build_frame_loop synth c (frame + 1 + of_nat (length fs)) k'"
    "k_rx k' = rest" "\<not> k_session_done k'" "k_ht k' = h"
    "k_tx k' = k_tx ?k @ tx_of (build_msgs synth c (k_ack_pending ?k) (k_inner_received ?k) fs)"
    "unat (k_inner_received k') = unat (k_inner_received ?k) + length (concat fs)"
    using Cons.IH [OF p(1) p(2) b(2) p(3) Cons.prems(5) fl(2)] b(1) h1(2) by blast
  show ?case
    using step k' b rec by (intro exI [of _ k']) (simp add: Let_def add.assoc)
qed (auto simp: host_frames_def)

lemma probe_frame_loop_skip:
  assumes "frames_ok (c_keytype c) fs"
    "k_rx k = map Some (host_frames (c_keytype c) MSG_OUTER_DATA fs) @ rest"
    "\<not> k_session_done k" "unat (k_outer_received k) + length (concat fs) < unat (c_outer_total c)"
    "unat frame + length fs \<le> 1000000" "length (k_result_buf k) < 118"
  shows "\<exists>k'. probe_frame_loop synth rtl c frame k = probe_frame_loop synth rtl c (frame + of_nat (length fs)) k' \<and> k_rx k' = rest \<and>
    \<not> k_session_done k' \<and>
    k_tx k' = k_tx k @ tx_of (probe_run synth (ht_lookup (k_ht k)) c (k_ack_pending k) (k_outer_received k) (k_matched k) (k_result_buf k) fs) \<and>
    unat (k_outer_received k') = unat (k_outer_received k) + length (concat fs)"
  using assms
proof (induction fs arbitrary: k frame)
  case (Cons f fs)
  define r where "r = map Some (host_frames (c_keytype c) MSG_OUTER_DATA fs) @ rest"
  define kd where "kd = (probe_start c f r k)\<lparr>k_tx := k_tx k @
    tx_of (debug_msgs synth DBG_INFO DBG_PROBE_KEY (ucast (it_key (hd f))))\<rparr>"
  define k1 where "k1 = outer_batch synth 0 f kd"
  let ?k = "probe_ack c (credit_of (c_outer_total c - k_outer_received k1)) (k1\<lparr>k_ack_pending := k_ack_pending k1 + 1\<rparr>)"
  have f: "f \<noteq> []" "length f \<le> 256" "list_all (\<lambda>t. key_fits (c_keytype c) (it_key t)) f"
    using Cons.prems(1) by (simp_all add: frames_ok_def)
  have le: "unat (k_outer_received k) + length f \<le> unat (c_outer_total c)" "unat (k_outer_received k) < unat (c_outer_total c)"
    using Cons.prems(4) by simp_all
  have len: "unat (of_nat (length f) :: u32) = length f"
    using f(2) by (simp add: unsigned_of_nat take_bit_nat_eq_self_iff)
  have rec: "unat (k_outer_received k + of_nat (length f)) = unat (k_outer_received k) + length f"
    using le len unsigned_less [where 'a = nat, of "c_outer_total c"]
    by (subst unat_add_lem [THEN iffD1]) simp_all
  have k1: "k_rx k1 = r" "k_ht k1 = k_ht k" "\<not> k_session_done k1"
    "k_outer_received k1 = k_outer_received k + of_nat (length f)" "k_ack_pending k1 = k_ack_pending k"
    using Cons.prems(3) by (simp_all add: k1_def kd_def)
  have nd: "k_outer_received k1 < c_outer_total c" using rec k1 Cons.prems(4) by (simp add: word_less_nat_alt)
  have fb: "probe_batch synth rtl c (of_nat (length f)) f (probe_start c f r k) = ?k"
    using probe_batch_split [OF f(1,2), of "probe_start c f r k" c synth rtl] le(1) nd
    unfolding k1_def kd_def Let_def by (simp only: probe_start_fields not_le [symmetric] if_False)
  have fr: "probe_frame synth rtl c k = (Continue, ?k)"
    unfolding fb [symmetric] using f Cons.prems(2) by (intro probe_frame_outer) (simp_all add: host_frames_Cons r_def)
  have fl: "frame < 1000000" "unat (frame + 1) + length fs \<le> 1000000"
    using Cons.prems(5) by (simp_all add: word_less_nat_alt unat_word_ariths)
  have step: "probe_frame_loop synth rtl c frame k = probe_frame_loop synth rtl c (frame + 1) ?k"
    using le(2) fl(1) Cons.prems(3) fr by (subst probe_frame_loop.simps) (simp add: word_le_nat_alt)
  have buf: "length (k_result_buf kd) < 118" using Cons.prems(6) by (simp add: kd_def)
  have res: "k_tx k1 = k_tx k @ tx_of (frame_msgs synth (ht_lookup (k_ht k)) (k_result_buf k) f)"
      "k_result_buf k1 = frame_buf (ht_lookup (k_ht k)) (k_result_buf k) f"
      "k_matched k1 = k_matched k + of_nat (length (probe_pairs (ht_lookup (k_ht k)) f))"
    using outer_batch_results [OF buf, of synth 0 f, folded k1_def]
    by (simp_all add: kd_def frame_msgs_def frame_buf_def probe_row_buf_synth [of synth _ 0 _ _ 0])
  have k: "k_rx ?k = r" "k_ht ?k = k_ht k" "\<not> k_session_done ?k" "k_outer_received ?k = k_outer_received k + of_nat (length f)"
    "k_matched ?k = k_matched k1" "k_result_buf ?k = k_result_buf k1"
    "k_ack_pending ?k = (if 2 \<le> k_ack_pending k + 1 then 0 else k_ack_pending k + 1)"
    "k_tx ?k = k_tx k1 @ (if 2 \<le> k_ack_pending k + 1 then tx_of [KStatus MSG_ACK PHASE_PROBING (k_outer_received k1) (k_matched k1)
        (credit_of (c_outer_total c - k_outer_received k1)) (c_session_id c)] else [])"
    using k1 by (simp_all add: probe_ack_def Let_def tx_messages)
  have p: "frames_ok (c_keytype c) fs" "unat (k_outer_received ?k) + length (concat fs) < unat (c_outer_total c)"
    "length (k_result_buf ?k) < 118"
    using Cons.prems(1,4,6) rec k res by (simp_all add: frames_ok_def frame_buf_short)
  obtain k' where k': "probe_frame_loop synth rtl c (frame + 1) ?k = probe_frame_loop synth rtl c (frame + 1 + of_nat (length fs)) k'"
    "k_rx k' = rest" "\<not> k_session_done k'"
    "k_tx k' = k_tx ?k @ tx_of (probe_run synth (ht_lookup (k_ht ?k)) c (k_ack_pending ?k) (k_outer_received ?k) (k_matched ?k) (k_result_buf ?k) fs)"
    "unat (k_outer_received k') = unat (k_outer_received ?k) + length (concat fs)"
    using Cons.IH [OF p(1) k(1) [unfolded r_def] k(3) p(2) fl(2) p(3)] by blast
  show ?case
    using step k' k k1 res rec nd by (intro exI [of _ k']) (simp add: Let_def add.assoc)
qed (auto simp: host_frames_def)

lemma frames_ok_append [simp]: "frames_ok kt (xs @ ys) \<longleftrightarrow> frames_ok kt xs \<and> frames_ok kt ys"
  by (auto simp: frames_ok_def)

lemma frames_ok_rows: "frames_ok kt xs \<Longrightarrow> xs \<noteq> [] \<Longrightarrow> 0 < length (concat xs)"
  by (cases xs) (auto simp: frames_ok_def)

lemma rx_guarded_Nil [simp]: "rx_byte_guarded synth [] tx sid = None"
  by (simp add: rx_byte_guarded_def)

text \<open>Without input the kernel waits, having announced that it is idle.\<close>

lemma kernel_session_waits:
  "k_rx k = [] \<Longrightarrow> kernel_session synth rtl k = (Blocked, session_init synth k)"
  by (simp add: kernel_session_def configure_phase_def session_init_def)

definition linear_config where
  "linear_config cfg inner outer sid = session_config cfg (of_nat (length inner)) (of_nat (length outer)) sid"

lemma linear_admitted:
  assumes "jc_algorithm cfg = ALGORITHM_A" "length inner \<le> 12288"
  shows "check_configure (jc_algorithm cfg) (of_nat (length inner)) n = (ERR_NONE, 1, 0)"
proof -
  have "unat (of_nat (length inner) :: u32) = length inner"
    using assms(2) by (simp add: unsigned_of_nat take_bit_nat_eq_self_iff)
  then show ?thesis using assms by (simp add: check_configure_def word_less_nat_alt)
qed

lemma linear_config_fields:
  assumes "jc_algorithm cfg = ALGORITHM_A"
  shows "c_keytype (linear_config cfg inner outer sid) = jc_key_type cfg" "c_algorithm (linear_config cfg inner outer sid) = ALGORITHM_A"
    "c_session_id (linear_config cfg inner outer sid) = sid" "c_inner_total (linear_config cfg inner outer sid) = of_nat (length inner)"
    "c_outer_total (linear_config cfg inner outer sid) = of_nat (length outer)"
  by (simp_all add: linear_config_def session_config_def assms split: prod.split)

text \<open>After CONFIGURE and some of the inner frames the kernel waits.\<close>

lemma kernel_waits_build:
  assumes a: "jc_algorithm cfg = ALGORITHM_A" and fr: "frames_ok (jc_key_type cfg) (xs @ xs')" "xs' \<noteq> []"
    and inner: "inner = concat (xs @ xs')" "length inner \<le> 12288"
    and b: "build_all ht_insert (ht_reset (k_ht k)) inner = (ERR_NONE, h)"
    and rx: "k_rx k = map Some (serialize_configure cfg (of_nat (length inner)) (of_nat (length outer)) sid
           @ host_frames (jc_key_type cfg) MSG_INNER_DATA xs)"
  shows "\<exists>k'. kernel_session synth rtl k = (Blocked, k') \<and>
    k_tx k' = k_tx k @ tx_of (configure_msgs synth (of_nat (length inner)) sid @ build_msgs synth (linear_config cfg inner outer sid) 0 0 xs)"
proof -
  let ?c = "linear_config cfg inner outer sid"
  note c = linear_config_fields [OF a, of inner outer sid]
  have ni: "unat (of_nat (length inner) :: u32) = length inner" using inner(2) by (simp add: unsigned_of_nat take_bit_nat_eq_self_iff)
  obtain k1 where k1: "configure_phase synth (session_init synth k) = (Continue, ?c, k1)"
    "k_rx k1 = map Some (host_frames (jc_key_type cfg) MSG_INNER_DATA xs)"
    "\<not> k_session_done k1" "k_ht k1 = k_ht k" "k_tx k1 = k_tx k @ tx_of (configure_msgs synth (of_nat (length inner)) sid)"
    using configure_phase_ok [OF _ linear_admitted [OF a inner(2), of "of_nat (length outer)"], of k sid _ synth] rx by (auto simp: linear_config_def)
  let ?k = "k1\<lparr>k_ht := ht_reset (k_ht k1), k_inner_received := 0, k_ack_pending := 0\<rparr>"
  obtain h' where h': "build_all ht_insert (ht_reset (k_ht k)) (concat xs) = (ERR_NONE, h')"
    using b inner(1) by (auto simp: build_all_append split: prod.splits if_splits)
  have lx: "length (concat xs) < length inner" using frames_ok_rows [OF _ fr(2)] fr(1) inner(1) by fastforce
  have fx: "length xs \<le> length (concat xs)" using fr(1) by (intro length_frames_ok [of "jc_key_type cfg"]) simp
  have "\<exists>k'. build_frame_loop synth ?c 0 ?k = build_frame_loop synth ?c (0 + of_nat (length xs)) k' \<and> k_rx k' = [] \<and>
    \<not> k_session_done k' \<and> k_ht k' = h' \<and>
    k_tx k' = k_tx ?k @ tx_of (build_msgs synth ?c (k_ack_pending ?k) (k_inner_received ?k) xs) \<and>
    unat (k_inner_received k') = unat (k_inner_received ?k) + length (concat xs)"
    using fr(1) k1(2-4) h' ni inner(2) lx fx
    by (intro build_frame_loop_skip) (simp_all add: c word_le_nat_alt del: length_concat)
  then obtain k2 where k2: "build_frame_loop synth ?c 0 ?k = build_frame_loop synth ?c (of_nat (length xs)) k2" "k_rx k2 = []"
    "\<not> k_session_done k2" "k_tx k2 = k_tx k1 @ tx_of (build_msgs synth ?c 0 0 xs)" "unat (k_inner_received k2) = length (concat xs)" by auto
  have "build_frame_loop synth ?c (of_nat (length xs)) k2 = (Blocked, k2)"
    using k2(2,3,5) lx fx ni inner(2)
    by (subst build_frame_loop.simps) (auto simp: build_frame_def c word_le_nat_alt unsigned_of_nat take_bit_nat_eq_self)
  with k1 k2 c(2) show ?thesis by (simp add: kernel_session_def algorithm_a_def)
qed

text \<open>After all inner frames and some of the outer frames it waits, too.\<close>

lemma kernel_waits_probe:
  assumes a: "jc_algorithm cfg = ALGORITHM_A" and fr: "frames_ok (jc_key_type cfg) ifs" "frames_ok (jc_key_type cfg) (ys @ ys')" "ys' \<noteq> []"
    and inner: "inner = concat ifs" "length inner \<le> 12288"
    and outer: "outer = concat (ys @ ys')" "length outer < 2 ^ 32" "length (ys @ ys') \<le> 1000000"
    and b: "build_all ht_insert (ht_reset (k_ht k)) inner = (ERR_NONE, h)"
    and rx: "k_rx k = map Some (serialize_configure cfg (of_nat (length inner)) (of_nat (length outer)) sid
           @ host_frames (jc_key_type cfg) MSG_INNER_DATA ifs @ host_frames (jc_key_type cfg) MSG_OUTER_DATA ys)"
  shows "\<exists>k'. kernel_session synth rtl k = (Blocked, k') \<and>
    k_tx k' = k_tx k @ tx_of (configure_msgs synth (of_nat (length inner)) sid @ build_msgs synth (linear_config cfg inner outer sid) 0 0 ifs @
      debug_msgs synth DBG_INFO DBG_BUILD_DONE (of_nat (length inner)) @
      probe_run synth (ht_lookup h) (linear_config cfg inner outer sid) 0 0 0 [] ys)"
proof -
  let ?c = "linear_config cfg inner outer sid"
  note c = linear_config_fields [OF a, of inner outer sid]
  have ni: "unat (of_nat (length inner) :: u32) = length inner" "unat (of_nat (length outer) :: u32) = length outer"
    using inner(2) outer(2) by (simp_all add: unsigned_of_nat take_bit_nat_eq_self_iff)
  obtain k1 where k1: "configure_phase synth (session_init synth k) = (Continue, ?c, k1)"
    "k_rx k1 = map Some (host_frames (jc_key_type cfg) MSG_INNER_DATA ifs) @ map Some (host_frames (jc_key_type cfg) MSG_OUTER_DATA ys)"
    "\<not> k_session_done k1" "k_ht k1 = k_ht k" "k_matched k1 = 0" "k_result_buf k1 = []"
    "k_tx k1 = k_tx k @ tx_of (configure_msgs synth (of_nat (length inner)) sid)"
    using configure_phase_ok [OF _ linear_admitted [OF a inner(2), of "of_nat (length outer)"], of k sid _ synth] rx by (auto simp: linear_config_def)
  let ?k = "k1\<lparr>k_ht := ht_reset (k_ht k1), k_inner_received := 0, k_ack_pending := 0\<rparr>"
  have fx: "length ifs \<le> length inner" using length_frames_ok [OF fr(1)] inner(1) by simp
  have "\<exists>k'. build_frame_loop synth ?c 0 ?k = (Continue, k') \<and> k_rx k' = map Some (host_frames (jc_key_type cfg) MSG_OUTER_DATA ys) \<and>
    \<not> k_session_done k' \<and> k_ht k' = h \<and>
    k_tx k' = k_tx ?k @ tx_of (build_msgs synth ?c (k_ack_pending ?k) (k_inner_received ?k) ifs) \<and>
    k_inner_received k' = c_inner_total ?c \<and> k_result_buf k' = k_result_buf ?k \<and>
    k_matched k' = k_matched ?k \<and> k_error_code_reg k' = k_error_code_reg ?k"
    using fr(1) k1(2-4) b ni inner(2) fx
    by (intro build_frame_loop_ok) (simp_all add: c word_le_nat_alt inner(1) [symmetric] del: length_concat)
  then obtain k2 where k2: "build_frame_loop synth ?c 0 ?k = (Continue, k2)" "k_rx k2 = map Some (host_frames (jc_key_type cfg) MSG_OUTER_DATA ys)"
    "\<not> k_session_done k2" "k_ht k2 = h" "k_tx k2 = k_tx k1 @ tx_of (build_msgs synth ?c 0 0 ifs)"
    "k_inner_received k2 = of_nat (length inner)" "k_result_buf k2 = []" "k_matched k2 = 0" using k1(5,6) c(4) by auto
  let ?k3 = "k2\<lparr>k_tx := emit_debug synth (k_tx k2) DBG_INFO DBG_BUILD_DONE (k_inner_received k2),
    k_status_reg := ucast (phase_byte PHASE_PROBING), k_outer_received := 0, k_ack_pending := 0\<rparr>"
  have ly: "length (concat ys) < length outer" using frames_ok_rows [OF _ fr(3)] fr(2) outer(1) by fastforce
  have "\<exists>k'. probe_frame_loop synth rtl ?c 0 ?k3 = probe_frame_loop synth rtl ?c (0 + of_nat (length ys)) k' \<and> k_rx k' = [] \<and>
    \<not> k_session_done k' \<and>
    k_tx k' = k_tx ?k3 @ tx_of (probe_run synth (ht_lookup (k_ht ?k3)) ?c (k_ack_pending ?k3) (k_outer_received ?k3) (k_matched ?k3)
      (k_result_buf ?k3) ys) \<and>
    unat (k_outer_received k') = unat (k_outer_received ?k3) + length (concat ys)"
    using fr(2) k2(2,3,7) ly ni outer(3)
    by (intro probe_frame_loop_skip) (simp_all add: c del: length_concat)
  then obtain k4 where k4: "probe_frame_loop synth rtl ?c 0 ?k3 = probe_frame_loop synth rtl ?c (of_nat (length ys)) k4" "k_rx k4 = []"
    "\<not> k_session_done k4" "k_tx k4 = k_tx ?k3 @ tx_of (probe_run synth (ht_lookup h) ?c 0 0 0 [] ys)"
    "unat (k_outer_received k4) = length (concat ys)" using k2 by auto
  have "length ys < 1000000" using outer(3) fr(3) by (cases ys') auto
  then have "probe_frame_loop synth rtl ?c (of_nat (length ys)) k4 = (Blocked, k4)"
    using k4(2,3,5) ly ni
    by (subst probe_frame_loop.simps) (auto simp: probe_frame_def c word_le_nat_alt word_less_nat_alt unsigned_of_nat take_bit_nat_eq_self)
  with k1 k2 k4 c(2) show ?thesis by (simp add: kernel_session_def algorithm_a_def tx_messages)
qed

section \<open>The kernel as a board\<close>

text \<open>All bytes the kernel sends when it has received \<open>data\<close>.\<close>

definition board_out :: "bool \<Rightarrow> (nat \<Rightarrow> RtlTiming) \<Rightarrow> KernelState \<Rightarrow> u8 list \<Rightarrow> u8 list" where
  "board_out synth rtl k data =
     tx_data (k_tx (snd (hash_join_kernel synth rtl (k\<lparr>k_rx := map Some data, k_tx := []\<rparr>))))"

lemma tx_data_msgs [simp]: "tx_data (tx_of ms) = bytes_of ms"
  by (simp add: tx_data_tx_of bytes_of_def)

lemma board_out_blocked:
  assumes "kernel_session synth (rtl 0) (kernel_start (k\<lparr>k_rx := map Some data, k_tx := []\<rparr>)) = (Blocked, k')" "k_tx k' = tx_of ms"
  shows "board_out synth rtl k data = bytes_of ms"
  using assms by (simp add: board_out_def hash_join_kernel_def session_loop.simps)

text \<open>Hardware starts the next session at once and says so.\<close>

definition next_idle :: "bool \<Rightarrow> KernelMsg list" where
  "next_idle synth = (if synth then debug_msgs synth DBG_INFO DBG_IDLE_ENTER 0 else [])"

lemma board_out_done:
  assumes "kernel_session synth (rtl 0) (kernel_start (k\<lparr>k_rx := map Some data, k_tx := []\<rparr>)) = (Continue, k')" "k_tx k' = tx_of ms" "k_rx k' = []"
  shows "board_out synth rtl k data = bytes_of (ms @ next_idle synth)"
  using assms kernel_session_waits [of k' True "rtl (Suc 0)"]
  by (cases synth) (simp_all add: board_out_def hash_join_kernel_def session_loop.simps next_idle_def, simp add: session_init_def tx_messages)

lemma linear_session_answer:
  assumes "concat ifs = inner" "concat ofs = outer" "frames_ok kt ofs"
  shows "linear_session_msgs synth m c ifs ofs @ [KTiming tm, KStatus MSG_STATUS PHASE_DONE (of_nat (length outer))
      (of_nat (length (probe_pairs m outer))) 0 (c_session_id c)] = linear_answer synth m c tm inner outer ifs ofs"
proof -
  have "ofs = [] \<longleftrightarrow> outer = []" using assms(2,3) by (cases ofs) (auto simp: frames_ok_def)
  with assms show ?thesis
    by (auto simp: linear_session_msgs_def linear_answer_def session_answer_def linear_probe_def probe_intro_def probe_owed_def probe_msgs_run result_msgs_def)
qed

text \<open>The kernel answers a session of algorithm A as the host expects, frame by frame.\<close>

lemma board_out_answers:
  assumes a: "jc_algorithm cfg = ALGORITHM_A" and fr: "frames_ok (jc_key_type cfg) ifs" "frames_ok (jc_key_type cfg) ofs"
    and inner: "concat ifs = inner" "length inner \<le> 12288"
    and outer: "concat ofs = outer" "length outer < 2 ^ 32" "length ofs \<le> 1000000"
    and b: "build_all ht_insert (ht_reset (k_ht k)) inner = (ERR_NONE, h)"
  shows "\<exists>tm. \<forall>xs xs' ys ys'. ifs = xs @ xs' \<and> ofs = ys @ ys' \<and> (xs' = [] \<or> ys = []) \<longrightarrow>
    board_out synth rtl k (serialize_configure cfg (of_nat (length inner)) (of_nat (length outer)) sid @
        host_frames (jc_key_type cfg) MSG_INNER_DATA xs @ host_frames (jc_key_type cfg) MSG_OUTER_DATA ys) =
      bytes_of (linear_answer synth (ht_lookup h) (linear_config cfg inner outer sid) tm inner outer xs ys) @
      (if xs' = [] \<and> ys' = [] then bytes_of (next_idle synth) else [])"
proof -
  let ?c = "linear_config cfg inner outer sid"
  let ?data = "\<lambda>xs ys. serialize_configure cfg (of_nat (length inner)) (of_nat (length outer)) sid @
        host_frames (jc_key_type cfg) MSG_INNER_DATA xs @ host_frames (jc_key_type cfg) MSG_OUTER_DATA ys"
  let ?k = "\<lambda>data. kernel_start (k\<lparr>k_rx := map Some data, k_tx := []\<rparr>)"
  note c = linear_config_fields [OF a, of inner outer sid]
  obtain k1 where k1: "kernel_session synth (rtl 0) (?k (?data ifs ofs)) = (Continue, k1)" "k_rx k1 = []"
    "session_done_with sid (of_nat (length outer)) (of_nat (length (probe_pairs (ht_lookup h) outer)))
      (tx_of (linear_session_msgs synth (ht_lookup h) ?c ifs ofs)) k1"
    using kernel_session_linear [OF a fr inner(1) [symmetric] outer(1) [symmetric] _ outer(2,3), of "?k (?data ifs ofs)" h sid "[]" synth "rtl 0"]
      inner(2) b by (auto simp: kernel_start_def linear_config_def)
  let ?tm = "k_timing k1"
  have whole: "board_out synth rtl k (?data ifs ofs) = bytes_of (linear_answer synth (ht_lookup h) ?c ?tm inner outer ifs ofs) @
      bytes_of (next_idle synth)"
  proof -
    have "k_tx k1 = tx_of (linear_session_msgs synth (ht_lookup h) ?c ifs ofs @ [KTiming ?tm, KStatus MSG_STATUS PHASE_DONE (of_nat (length outer))
        (of_nat (length (probe_pairs (ht_lookup h) outer))) 0 (c_session_id ?c)])"
      using k1(3) c(3) by (simp add: session_done_with_def)
    from board_out_done [where rtl = rtl, OF k1(1) this k1(2)] show ?thesis
      unfolding linear_session_answer [OF inner(1) outer(1) fr(2)] by simp
  qed
  have build: "board_out synth rtl k (?data xs []) = bytes_of (linear_answer synth (ht_lookup h) ?c ?tm inner outer xs [])"
    if pr: "ifs = xs @ xs'" "xs' \<noteq> []" for xs xs'
  proof -
    have "concat xs \<noteq> inner"
      using frames_ok_rows [of "jc_key_type cfg" xs'] fr(1) pr by (simp add: inner(1) [symmetric] del: length_concat)
    then have ans: "linear_answer synth (ht_lookup h) ?c ?tm inner outer xs [] =
        configure_msgs synth (of_nat (length inner)) sid @ build_msgs synth ?c 0 0 xs"
      by (simp add: linear_answer_def session_answer_def linear_probe_def c)
    obtain k2 where "kernel_session synth (rtl 0) (?k (?data xs [])) = (Blocked, k2)"
      "k_tx k2 = tx_of (configure_msgs synth (of_nat (length inner)) sid @ build_msgs synth ?c 0 0 xs)"
      using kernel_waits_build [OF a fr(1) [unfolded pr(1)] pr(2) inner(1) [unfolded pr(1), symmetric] inner(2), of "?k (?data xs [])" h outer sid synth "rtl 0"] b
      by (auto simp: kernel_start_def)
    from board_out_blocked [where rtl = rtl, OF this] show ?thesis unfolding ans .
  qed
  have probe: "board_out synth rtl k (?data ifs ys) = bytes_of (linear_answer synth (ht_lookup h) ?c ?tm inner outer ifs ys)"
    if pr: "ofs = ys @ ys'" "ys' \<noteq> []" for ys ys'
  proof -
    have "concat ys \<noteq> outer" "outer \<noteq> []"
      using frames_ok_rows [of "jc_key_type cfg" ys'] fr(2) pr by (auto simp: outer(1) [symmetric] simp del: length_concat)
    then have ans: "linear_answer synth (ht_lookup h) ?c ?tm inner outer ifs ys =
        configure_msgs synth (of_nat (length inner)) sid @ build_msgs synth ?c 0 0 ifs @
        debug_msgs synth DBG_INFO DBG_BUILD_DONE (of_nat (length inner)) @ probe_run synth (ht_lookup h) ?c 0 0 0 [] ys"
      by (simp add: linear_answer_def session_answer_def linear_probe_def probe_intro_def probe_owed_def c inner(1))
    obtain k2 where "kernel_session synth (rtl 0) (?k (?data ifs ys)) = (Blocked, k2)"
      "k_tx k2 = tx_of (configure_msgs synth (of_nat (length inner)) sid @ build_msgs synth ?c 0 0 ifs @
        debug_msgs synth DBG_INFO DBG_BUILD_DONE (of_nat (length inner)) @ probe_run synth (ht_lookup h) ?c 0 0 0 [] ys)"
      using kernel_waits_probe [OF a fr(1) fr(2) [unfolded pr(1)] pr(2) inner(1) [symmetric] inner(2) outer(1) [unfolded pr(1), symmetric]
          outer(2) outer(3) [unfolded pr(1)], of "?k (?data ifs ys)" h sid synth "rtl 0"] b
      by (auto simp: kernel_start_def)
    from board_out_blocked [where rtl = rtl, OF this] show ?thesis unfolding ans .
  qed
  show ?thesis
  proof (intro exI [of _ ?tm] allI impI, elim conjE)
    fix xs xs' ys ys'
    assume *: "ifs = xs @ xs'" "ofs = ys @ ys'" "xs' = [] \<or> ys = []"
    show "board_out synth rtl k (?data xs ys) = bytes_of (linear_answer synth (ht_lookup h) ?c ?tm inner outer xs ys) @
      (if xs' = [] \<and> ys' = [] then bytes_of (next_idle synth) else [])"
    proof (cases "xs' = []")
      case True
      with * whole probe [of ys ys'] show ?thesis by auto
    next
      case False
      with * build [of xs xs'] show ?thesis by auto
    qed
  qed
qed

section \<open>Host and kernel connected\<close>

text \<open>A transport that hands every byte to the kernel and every byte of its output back.\<close>

record Loopback =
  lb_sent :: "u8 list"
  lb_read :: nat

definition loop_future :: "bool \<Rightarrow> (nat \<Rightarrow> RtlTiming) \<Rightarrow> KernelState \<Rightarrow> Loopback \<Rightarrow> u8 list \<Rightarrow> u8 list" where
  "loop_future synth rtl k t x = drop (lb_read t) (board_out synth rtl k (lb_sent t @ x))"

definition loop_send :: "u8 list \<Rightarrow> Loopback \<Rightarrow> (exn + unit) \<times> Loopback" where
  "loop_send data t = (Inr (), t\<lparr>lb_sent := lb_sent t @ data\<rparr>)"

definition loop_recv :: "bool \<Rightarrow> (nat \<Rightarrow> RtlTiming) \<Rightarrow> KernelState \<Rightarrow> nat \<Rightarrow> Loopback \<Rightarrow> (exn + u8 list) \<times> Loopback" where
  "loop_recv synth rtl k n t =
     (let chunk = take n (loop_future synth rtl k t []) in (Inr chunk, t\<lparr>lb_read := lb_read t + length chunk\<rparr>))"

definition loopback :: "bool \<Rightarrow> (nat \<Rightarrow> RtlTiming) \<Rightarrow> KernelState \<Rightarrow> Loopback ITransport" where
  "loopback synth rtl k = \<lparr>it_send = loop_send, it_recv = loop_recv synth rtl k, it_reset = Pair (Inr ())\<rparr>"

definition loop_start :: Loopback where
  "loop_start = \<lparr>lb_sent = [], lb_read = 0\<rparr>"

interpretation lb: board "loopback synth rtl k" "loop_future synth rtl k" for synth rtl k
proof
  fix data t
  show "\<exists>t'. it_send (loopback synth rtl k) data t = (Inr (), t') \<and>
      (\<forall>x. loop_future synth rtl k t' x = loop_future synth rtl k t (data @ x))"
    by (simp add: loopback_def loop_send_def loop_future_def)
next
  fix n t
  assume "0 < (n :: nat)"
  let ?out = "loop_future synth rtl k t []"
  have "it_recv (loopback synth rtl k) n t = (Inr (take (min n (length ?out)) ?out), t\<lparr>lb_read := lb_read t + min n (length ?out)\<rparr>)"
    by (cases "n \<le> length ?out") (simp_all add: loopback_def loop_recv_def Let_def min_def)
  with \<open>0 < n\<close> show "\<exists>m t'. it_recv (loopback synth rtl k) n t = (Inr (take m ?out), t') \<and>
      (\<forall>x. loop_future synth rtl k t' x = drop m (loop_future synth rtl k t x)) \<and> m \<le> n \<and> m \<le> length ?out \<and> (?out \<noteq> [] \<longrightarrow> 0 < m)"
    by (intro exI [of _ "min n (length ?out)"] exI [of _ "t\<lparr>lb_read := lb_read t + min n (length ?out)\<rparr>"])
      (auto simp: loop_future_def add.commute)
next
  fix t
  show "it_recv (loopback synth rtl k) 0 t = (Inr [], t)" by (simp add: loopback_def loop_recv_def)
qed

interpretation lb_log: logged_transport "loopback synth rtl k" lb_sent for synth rtl k
  by unfold_locales (auto simp: loopback_def loop_recv_def loop_send_def Let_def)

lemma frames_ok_batches:
  assumes "list_all (\<lambda>t. key_fits kt (it_key t)) rows" "unat (max_batch_tuples (ss_cfg ss)) \<le> 256"
    "0 < unat (max_batch_tuples (ss_cfg ss))"
  shows "frames_ok kt (batches_of ss rows)"
proof -
  have "set (concat (batches_of ss rows)) = set rows" using concat_chunks [OF assms(3), of rows] by (simp add: batches_of_def)
  then have "set f \<subseteq> set rows" if "f \<in> set (batches_of ss rows)" for f using that by auto
  moreover have "f \<noteq> [] \<and> length f \<le> 256" if "f \<in> set (batches_of ss rows)" for f
    using chunks_lengths [of f] that assms(2) by (fastforce simp: batches_of_def)
  ultimately show ?thesis using assms(1) by (auto simp: frames_ok_def list_all_iff)
qed

lemma start_session_transport [simp]: "fc_transport (start_session ss s) = fc_transport s"
  by (simp add: start_session_def next_session_id_def Let_def)

text \<open>What a run against the kernel needs: algorithm A, keys that fit, inner rows the table takes, at most
  a million outer frames, the model's fuel, a calm clock and a fresh board.\<close>

definition linear_run :: "'t Session \<Rightarrow> 't ITransport \<Rightarrow> KernelState \<Rightarrow> (nat \<Rightarrow> nat) \<Rightarrow> ClientConfig \<Rightarrow> JoinConfig \<Rightarrow>
    InputTuple list \<Rightarrow> InputTuple list \<Rightarrow> bool" where
  "linear_run ss tr k clk cfg j inner outer \<longleftrightarrow>
     (\<exists>fuel. ss = new_session tr clk cfg fuel j \<and> 610 \<le> fuel \<and> length inner < fuel \<and> length outer < fuel) \<and>
     jc_algorithm j = ALGORITHM_A \<and> list_all (\<lambda>t. key_fits (jc_key_type j) (it_key t)) (inner @ outer) \<and>
     length inner \<le> unat HT_MAX_ROWS \<and> length (batches_of ss outer) \<le> 1000000 \<and>
     fst (build_all ht_insert (ht_reset (k_ht k)) inner) = ERR_NONE \<and> clock_calm clk (client_cfg cfg)"

lemma linear_run_cfg:
  assumes "linear_run ss tr k clk cfg j inner outer"
  shows "ss_transport ss = tr" "ss_clock ss = clk" "ss_cfg ss = client_cfg cfg" "ss_join ss = j"
    "610 \<le> ss_fuel ss" "clock_calm (ss_clock ss) (ss_cfg ss)"
    "0 < unat (max_batch_tuples (ss_cfg ss))" "unat (max_batch_tuples (ss_cfg ss)) \<le> 256"
  using assms client_cfg_batch [of cfg] by (auto simp: linear_run_def new_session_def)

lemma linear_run_sizes:
  assumes "linear_run ss tr k clk cfg j inner outer"
  shows "frames_ok (jc_key_type j) (batches_of ss inner)" "frames_ok (jc_key_type j) (batches_of ss outer)"
    "concat (batches_of ss inner) = inner" "concat (batches_of ss outer) = outer"
    "length (batches_of ss inner) < ss_fuel ss" "length (batches_of ss outer) < ss_fuel ss"
    "length inner < 2 ^ 32" "length outer < 2 ^ 32"
proof -
  note cfg = linear_run_cfg [OF assms]
  show all: "concat (batches_of ss inner) = inner" "concat (batches_of ss outer) = outer"
    using concat_chunks [OF cfg(7)] by (simp_all add: batches_of_def)
  show fr: "frames_ok (jc_key_type j) (batches_of ss inner)" "frames_ok (jc_key_type j) (batches_of ss outer)"
    using assms cfg(7,8) by (simp_all add: frames_ok_batches linear_run_def)
  show "length (batches_of ss inner) < ss_fuel ss" "length (batches_of ss outer) < ss_fuel ss"
    using length_frames_ok [OF fr(1)] length_frames_ok [OF fr(2)] assms unfolding all by (auto simp: linear_run_def new_session_def)
  have "length (concat (batches_of ss outer)) \<le> length (batches_of ss outer) * 256"
    using fr(2) by (intro length_concat_le) (simp add: frames_ok_def list_all_iff)
  then show "length outer < 2 ^ 32" using assms unfolding all by (simp add: linear_run_def)
  show "length inner < 2 ^ 32" using assms by (simp add: linear_run_def)
qed

context board
begin

lemma kernel_serves:
  assumes run: "linear_run ss tr k clk cfg j inner outer" and s: "\<And>x. future (fc_transport s) x = board_out synth rtl k x"
  obtains h tm where "build_all ht_insert (ht_reset (k_ht k)) inner = (ERR_NONE, h)"
    "linear_serves future ss inner outer synth (ht_lookup h) (linear_config j inner outer (fc_session_id s)) tm (next_idle synth)
      (fc_transport s)"
proof -
  let ?c = "linear_config j inner outer (fc_session_id s)"
  have a: "jc_algorithm j = ALGORITHM_A" and len: "length inner \<le> 12288" "length (batches_of ss outer) \<le> 1000000"
    using run by (simp_all add: linear_run_def)
  obtain h where h: "build_all ht_insert (ht_reset (k_ht k)) inner = (ERR_NONE, h)"
    using run by (cases "build_all ht_insert (ht_reset (k_ht k)) inner") (auto simp: linear_run_def)
  note sz = linear_run_sizes [OF run] and cfg = linear_run_cfg [OF run]
  obtain tm where "\<forall>xs xs' ys ys'. batches_of ss inner = xs @ xs' \<and> batches_of ss outer = ys @ ys' \<and> (xs' = [] \<or> ys = []) \<longrightarrow>
    board_out synth rtl k (serialize_configure j (of_nat (length inner)) (of_nat (length outer)) (fc_session_id s) @
        host_frames (jc_key_type j) MSG_INNER_DATA xs @ host_frames (jc_key_type j) MSG_OUTER_DATA ys) =
      bytes_of (linear_answer synth (ht_lookup h) ?c tm inner outer xs ys) @
      (if xs' = [] \<and> ys' = [] then bytes_of (next_idle synth) else [])"
    using board_out_answers [OF a sz(1,2,3) len(1) sz(4,8) len(2) h, of synth rtl "fc_session_id s"] by (elim exE)
  then have "linear_serves future ss inner outer synth (ht_lookup h) ?c tm (next_idle synth) (fc_transport s)"
    unfolding linear_serves_def serves_def linear_answer_def [symmetric] cfg s by (simp add: linear_config_fields [OF a] linear_answer_def)
  with h show thesis by (rule that)
qed

text \<open>The two programs composed: a run of the client against the kernel.\<close>

lemma run_on_kernel:
  assumes run: "linear_run ss tr k clk cfg j inner outer" and w: "2 \<le> unat (ack_window_frames (client_cfg cfg))"
    and s: "\<And>x. future (fc_transport s) x = board_out synth rtl k x"
  shows "fst (run_hash_join ss inner outer s) = Inr (join_spec inner outer)"
proof -
  let ?s = "start_session ss s"
  let ?c = "linear_config j inner outer (fc_session_id ?s)"
  have a: "jc_algorithm j = ALGORITHM_A" using run by (simp add: linear_run_def)
  note cfg = linear_run_cfg [OF run] and sz = linear_run_sizes [OF run] and c = linear_config_fields [OF a, of inner outer "fc_session_id ?s"]
  obtain h tm where h: "build_all ht_insert (ht_reset (k_ht k)) inner = (ERR_NONE, h)"
    and sv: "linear_serves future ss inner outer synth (ht_lookup h) ?c tm (next_idle synth) (fc_transport ?s)"
    using kernel_serves [OF run, of ?s synth rtl] s by auto
  have pairs: "probe_pairs (ht_lookup h) outer = join_spec inner outer"
    using lht.build_then_probe [of "k_ht k" inner outer] h by simp
  have "fst (client_session ss inner outer ?s) = Inr (probe_pairs (ht_lookup h) outer)"
  proof (rule client_session_board [OF cfg(1,6,5,7,8) _ c(4) sz(7,5) c(5) sz(8,6) sv])
    show "length (probe_pairs (ht_lookup h) outer) < 2 ^ 32" using length_probe_pairs_le [of "ht_lookup h" outer] sz(8) by (rule le_less_trans)
  qed (use w in \<open>simp_all add: cfg c\<close>)
  then show ?thesis by (auto simp: run_hash_join_def pairs split: prod.split)
qed

end

section \<open>A window of one frame\<close>

lemma window_at_least_two:
  assumes "ack_window_frames cfg \<noteq> 1"
  shows "2 \<le> unat (ack_window_frames (client_cfg cfg))"
proof (cases "ack_window_frames cfg = 0")
  case False
  then have "unat (ack_window_frames cfg) \<noteq> 0" "unat (ack_window_frames cfg) \<noteq> 1" using assms by (auto simp: word_unat_eq_iff)
  with False show ?thesis by (simp add: client_cfg_def Let_def)
qed (simp add: client_cfg_def Let_def)

lemma many_batches:
  assumes "0 < unat (max_batch_tuples (ss_cfg ss))" "unat (max_batch_tuples (ss_cfg ss)) < length inner"
  shows "2 \<le> length (batches_of ss inner)"
  using assms by (subst batches_of_def, subst chunks.simps, subst chunks.simps) auto

context board
begin

lemma timed_recv_empty:
  assumes "future (fc_transport s) [] = []"
  shows "\<exists>t1 t2 s'. timed_recv tr clk s = (Inr (HfNone, t1, t2), s') \<and> future (fc_transport s') [] = []"
proof -
  obtain t' where "recv_frame tr (fc_decoder s, fc_transport s) = (Inr HfNone, fc_decoder s, t')" "future t' [] = []"
    using recv_frame_none [OF assms] by blast
  then show ?thesis by (auto simp: timed_recv_def now_def Let_def)
qed

text \<open>A wait whose answer does not come does not end before the hard time-out.\<close>

lemma collect_loop_stalls:
  assumes clk: "clock_calm clk cfg"
  shows "list_all quiet ms \<Longrightarrow> future (fc_transport s) [] = bytes_of ms \<Longrightarrow>
    fst (collect_loop tr clk cfg kind (clk i) fuel out s) = Inl Diverged"
proof (induction fuel arbitrary: ms s out)
  case (Suc n)
  define s1 where "s1 = s\<lparr>fc_clock := fc_clock s + 1\<rparr>"
  have now: "now clk s = (clk (fc_clock s), s1)" by (simp add: now_def s1_def)
  show ?case
  proof (cases ms)
    case Nil
    obtain t1 t2 s2 where s2: "timed_recv tr clk s1 = (Inr (HfNone, t1, t2), s2)" "future (fc_transport s2) [] = []"
      using timed_recv_empty [of s1 clk] Suc.prems(2) Nil by (auto simp: s1_def)
    with now Suc.IH [of "[]" s2 out] show ?thesis by (simp add: clock_calmD [OF clk])
  next
    case (Cons m ms')
    obtain t1 t2 s2 where s2: "timed_recv tr clk s1 = (Inr (host_frame m, t1, t2), s2)" "advanced future s1 s2 (length (msg_bytes m))"
      using timed_recv_future [of s1 m _ clk] Suc.prems Cons quiet_ok by (auto simp: s1_def)
    define s3 where "s3 = s2\<lparr>fc_metrics := note_frame (fc_decoder s2) (host_frame m) t1 (fc_metrics s2)\<rparr>"
    have "future (fc_transport s3) [] = bytes_of ms'" using s2(2) Suc.prems(2) Cons by (simp add: s1_def s3_def advanced_def)
    moreover have "collect_loop tr clk cfg kind (clk i) (Suc n) out s = collect_loop tr clk cfg kind (clk i) n (out @ msg_pairs m) s3"
      using now s2(1) Suc.prems(1) Cons by (cases m) (simp_all add: clock_calmD [OF clk] Let_def s3_def)
    ultimately show ?thesis using Suc.IH [of ms' s3] Suc.prems(1) Cons by simp
  qed
qed simp

lemma ss_collect_stalls:
  assumes "ss_transport ss = tr" "clock_calm (ss_clock ss) (ss_cfg ss)" "list_all quiet ms" "future (fc_transport s) [] = bytes_of ms"
  shows "fst (ss_collect ss kind out s) = Inl Diverged"
  using collect_loop_stalls [OF assms(2,3), of "s\<lparr>fc_clock := fc_clock s + 1\<rparr>" kind "fc_clock s" "ss_fuel ss" out] assms(1,4)
  by (simp add: ss_collect_def collect_until_ack_def now_def)

text \<open>With one frame in flight and more to come, the kernel keeps its acknowledgement back.\<close>

lemma build_loop_stalls:
  assumes tr: "ss_transport ss = tr" and clk: "clock_calm (ss_clock ss) (ss_cfg ss)"
    and m: "0 < unat (max_batch_tuples (ss_cfg ss))" "unat (max_batch_tuples (ss_cfg ss)) \<le> 256"
    and w: "unat (ack_window_frames (ss_cfg ss)) = 1"
    and c: "c_inner_total c = of_nat (length inner)" "length inner < 2 ^ 32"
    and b: "batches_of ss inner = gs @ us" "2 \<le> length (gs @ us)" "length gs \<le> 1"
    and ow: "owes future (host_frames (jc_key_type (ss_join ss)) MSG_INNER_DATA)
      (\<lambda>xs. build_msgs synth c 0 0 (gs @ xs)) us Y Tail (fc_transport s)"
    and credit: "gs = [] \<Longrightarrow> fc_credit s = 512"
  shows "fst (client_build_loop (Suc n) ss inner (length (concat gs)) (map length gs) 0 s) = Inl Diverged"
proof -
  have all: "concat (gs @ us) = inner" using concat_chunks [OF m(1), of inner] b(1) by (simp add: batches_of_def)
  have ne: "list_all (\<lambda>g. g \<noteq> []) (gs @ us)" using batches_nonempty [of ss inner] b(1) by simp
  have pre: "prefix gs (batches_of ss inner)" using b(1) by simp
  obtain hs s1 where fill: "fill_window ss MSG_INNER_DATA build_send_ms_update inner (length (concat gs)) (map length gs) s =
      (Inr (length (concat (gs @ hs)), map length gs @ map length hs), s1)"
    and f: "filled future ss MSG_INNER_DATA inner gs (map length gs) s s1 hs"
    using fill_window_future [OF tr m(1) pre refl] by blast
  obtain us' where us: "us = hs @ us'" using f b(1) by (auto simp: filled_def elim!: prefixE)
  have one: "length (gs @ hs) = 1"
  proof -
    have "length (gs @ hs) \<le> 1" using f b(3) w by (auto simp: filled_def)
    moreover have False if "gs @ hs = []"
    proof -
      have "0 < length inner" using that b(2) us ne by (cases us') (auto simp flip: all)
      then show False using f that w credit m by (auto simp: filled_def fill_go_def word_less_nat_alt)
    qed
    ultimately show ?thesis by (cases "gs @ hs") auto
  qed
  then obtain g where g: "gs @ hs = [g]" by (cases "gs @ hs") auto
  then have us': "us' \<noteq> []" using b(2) us by (auto simp flip: append.assoc)
  have "owes future (host_frames (jc_key_type (ss_join ss)) MSG_INNER_DATA) (\<lambda>xs. build_msgs synth c 0 0 ((gs @ hs) @ xs)) us' Y Tail (fc_transport s1)"
    using f owes_send [OF ow [unfolded us]] by (simp add: filled_def)
  then have "future (fc_transport s1) (host_frames (jc_key_type (ss_join ss)) MSG_INNER_DATA []) = bytes_of (build_msgs synth c 0 0 ((gs @ hs) @ []))"
    using us' unfolding owes_def by blast
  then have fut: "future (fc_transport s1) [] = bytes_of (build_msgs synth c 0 0 [g])" by (simp add: g)
  have "length g + length (concat us') = length inner" "0 < length (concat us')"
    using all ne us g us' by (auto simp flip: all append.assoc) (cases us'; auto)
  then have "length g < length inner" by linarith
  then have "\<not> (of_nat (length g) :: u32) \<ge> c_inner_total c"
    using c by (simp add: word_le_nat_alt unsigned_of_nat take_bit_nat_eq_self)
  then have "build_msgs synth c 0 0 [g] = debug_msgs synth DBG_INFO DBG_BUILD_KEY (ucast (it_key (hd g)))"
    by (simp add: Let_def word_le_nat_alt [of 2])
  then have "fst (ss_collect ss Build [] s1) = Inl Diverged"
    using ss_collect_stalls [OF tr clk _ fut, of Build "[]"] by simp
  moreover have "length (concat gs) < length inner \<or> map length gs \<noteq> []" using us' us ne g
    by (cases gs) (auto simp flip: all)
  moreover have "map length gs @ map length hs \<noteq> []" using one by (cases gs) auto
  ultimately show ?thesis
    using fill by (cases "ss_collect ss Build [] s1") (auto simp: build_fill_def bindx_def)
qed

lemma run_stalls:
  assumes run: "linear_run ss tr k clk cfg j inner outer" and w: "ack_window_frames cfg = 1"
    and many: "unat (max_batch_tuples (client_cfg cfg)) < length inner" and s: "\<And>x. future (fc_transport s) x = board_out synth rtl k x"
  shows "fst (run_hash_join ss inner outer s) = Inl Diverged"
proof -
  let ?s = "snd (now (ss_clock ss) (start_session ss s))"
  let ?c = "linear_config j inner outer (fc_session_id ?s)" and ?gs = "coalesced ss inner"
  have a: "jc_algorithm j = ALGORITHM_A" using run by (simp add: linear_run_def)
  note cfg = linear_run_cfg [OF run] and sz = linear_run_sizes [OF run] and c = linear_config_fields [OF a, of inner outer "fc_session_id ?s"]
  have w1: "unat (ack_window_frames (ss_cfg ss)) = 1" by (simp add: cfg(3) client_cfg_def w Let_def)
  have "future (fc_transport ?s) x = board_out synth rtl k x" for x using s by (simp add: now_def)
  then obtain h tm where sv: "linear_serves future ss inner outer synth (ht_lookup h) ?c tm (next_idle synth) (fc_transport ?s)"
    by (rule kernel_serves [OF run])
  obtain us s1 where s1: "client_config_phase ss inner (length outer) ?s = (Inr (length (concat ?gs)), s1)"
    "batches_of ss inner = ?gs @ us" "fc_credit s1 = 512"
    "\<And>x. future (fc_transport s1) x = drop (length (bytes_of (configure_msgs synth (c_inner_total ?c) (c_session_id ?c))))
      (future (fc_transport ?s) ((serialize_configure (ss_join ss) (of_nat (length inner)) (of_nat (length outer)) (c_session_id ?c) @
            host_frames (jc_key_type (ss_join ss)) MSG_INNER_DATA ?gs) @ x))"
    using config_phase_board [OF cfg(1,6,5,7,8) sv [unfolded linear_serves_def] c(3) [symmetric]] by blast
  define s2 where "s2 = (if ?gs = [] then snd (now (ss_clock ss) s1)
    else (snd (now (ss_clock ss) s1))\<lparr>fc_credit := spend (fc_credit s1) (length (concat ?gs))\<rparr>)"
  have s2: "fc_transport s2 = fc_transport s1" "?gs = [] \<Longrightarrow> fc_credit s2 = 512" using s1(3) by (simp_all add: s2_def now_def)
  have two: "2 \<le> length (?gs @ us)" using many_batches [OF cfg(7), of inner] many s1(2) by (simp add: cfg(3))
  have "length ?gs \<le> 1" by (simp add: coalesced_def)
  obtain n where n: "ss_fuel ss = Suc n" using cfg(5) by (cases "ss_fuel ss") auto
  have "fst (client_build_loop (ss_fuel ss) ss inner (length (concat ?gs)) (map length ?gs) 0 s2) = Inl Diverged"
    unfolding n
  proof (rule build_loop_stalls [where c = ?c and gs = ?gs, OF cfg(1,6,7,8) w1 c(4) sz(7) s1(2) two])
    note serves_build [where future = "future", OF sv [unfolded linear_serves_def] cfg(7) s1(2,4)]
    then show "owes future (host_frames (jc_key_type (ss_join ss)) MSG_INNER_DATA) (\<lambda>xs. build_msgs synth ?c 0 0 (?gs @ xs)) us
      (outer_streams ss outer) (\<lambda>y. drop (length (bytes_of (build_msgs synth ?c 0 0 (batches_of ss inner))))
       (future (fc_transport s1) (host_frames (jc_key_type (ss_join ss)) MSG_INNER_DATA us @ y))) (fc_transport s2)"
      unfolding s2(1) .
  qed (use s2(2) in \<open>simp_all add: coalesced_def\<close>)
  then obtain s3 where loop: "client_build_loop (ss_fuel ss) ss inner (length (concat ?gs)) (map length ?gs) 0 s2 = (Inl Diverged, s3)"
    by (metis prod.collapse)
  have "length (concat ?gs) = 0 \<longleftrightarrow> ?gs = []" using cfg(7) many by (auto simp: coalesced_def)
  with loop have "client_build_phase ss inner (length (concat ?gs)) s1 = (Inl Diverged, s3)"
    unfolding client_build_phase_def Let_def by (cases "?gs = []") (auto simp: s2_def now_def coalesced_def split: if_splits)
  with s1(1) show ?thesis by (simp add: run_hash_join_def client_session_def now_def)
qed

end

section \<open>Properties\<close>

text \<open>C2. End to end: a run of the host client against the kernel, every byte the one sends read by the
  other, ends and returns exactly the join of the two inputs, whatever the batch size, the
  coalescing of the first batch, the debug messages and the timing monitor.\<close>

theorem run_returns_join:
  assumes "linear_run ss (loopback synth rtl k) k clk cfg j inner outer" and "ack_window_frames cfg \<noteq> 1" and "fc_transport s = loop_start"
  shows "fst (run_hash_join ss inner outer s) = Inr (join_spec inner outer)"
  by (rule lb.run_on_kernel [OF assms(1) window_at_least_two [OF assms(2)]])
    (simp add: assms(3) loop_future_def loop_start_def)

lemma batches_few:
  assumes "0 < unat (max_batch_tuples (ss_cfg ss))"
  shows "length (batches_of ss rows) \<le> length rows"
proof -
  have "list_all (\<lambda>g. g \<noteq> []) gs \<Longrightarrow> length gs \<le> length (concat gs)" for gs :: "InputTuple list list"
  proof (induction gs)
    case (Cons g gs)
    then have "1 \<le> length g" by (cases g) auto
    with Cons show ?case by simp
  qed simp
  from this [OF batches_nonempty [of ss rows]] show ?thesis using concat_chunks [OF assms, of rows] by (simp add: batches_of_def)
qed

lemma linear_run_example:
  assumes "ss = new_session tr (\<lambda>i. 0) cfg 700 j" "j = \<lparr>jc_algorithm = ALGORITHM_A, jc_key_type = KEY_INT32\<rparr>"
    "0 < unat (hard_timeout_ms (client_cfg cfg))" "length inner \<le> 600" "length outer \<le> 600"
    "list_all (\<lambda>t. key_fits KEY_INT32 (it_key t)) (inner @ outer)" "fst (build_all ht_insert (ht_reset ht_blank) inner) = ERR_NONE"
  shows "linear_run ss tr (kernel_blank []) (\<lambda>i. 0) cfg j inner outer"
proof -
  have "length (batches_of ss outer) \<le> length outer" using client_cfg_batch(1) [of cfg] by (intro batches_few) (simp add: assms(1) new_session_def)
  with assms show ?thesis unfolding linear_run_def by (auto simp: clock_calm_def kernel_blank_def)
qed

theorem run_returns_join_witness:
  "fst (run_hash_join (new_session (loopback False (\<lambda>n. rtl_absent) (kernel_blank [])) (\<lambda>i. 0) client_config_default 700
        \<lparr>jc_algorithm = ALGORITHM_A, jc_key_type = KEY_INT32\<rparr>)
      [\<lparr>it_key = 7, it_tid = \<lparr>blkno = 0, offno = 1\<rparr>\<rparr>, \<lparr>it_key = 9, it_tid = \<lparr>blkno = 0, offno = 2\<rparr>\<rparr>]
      [\<lparr>it_key = 9, it_tid = \<lparr>blkno = 1, offno = 1\<rparr>\<rparr>, \<lparr>it_key = 8, it_tid = \<lparr>blkno = 1, offno = 2\<rparr>\<rparr>]
      (client_init loop_start 0)) =
    Inr [\<lparr>inner_tid = \<lparr>blkno = 0, offno = 2\<rparr>, outer_tid = \<lparr>blkno = 1, offno = 1\<rparr>\<rparr>]"
proof -
  let ?inner = "[\<lparr>it_key = 7, it_tid = \<lparr>blkno = 0, offno = 1\<rparr>\<rparr>, \<lparr>it_key = 9, it_tid = \<lparr>blkno = 0, offno = 2\<rparr>\<rparr>] :: InputTuple list"
  let ?outer = "[\<lparr>it_key = 9, it_tid = \<lparr>blkno = 1, offno = 1\<rparr>\<rparr>, \<lparr>it_key = 8, it_tid = \<lparr>blkno = 1, offno = 2\<rparr>\<rparr>] :: InputTuple list"
  have b: "fst (build_all ht_insert (ht_reset ht_blank) ?inner) = ERR_NONE" by code_simp
  have j: "join_spec ?inner ?outer = [\<lparr>inner_tid = \<lparr>blkno = 0, offno = 2\<rparr>, outer_tid = \<lparr>blkno = 1, offno = 1\<rparr>\<rparr>]" by code_simp
  have run: "linear_run (new_session (loopback False (\<lambda>n. rtl_absent) (kernel_blank [])) (\<lambda>i. 0) client_config_default 700
      \<lparr>jc_algorithm = ALGORITHM_A, jc_key_type = KEY_INT32\<rparr>) (loopback False (\<lambda>n. rtl_absent) (kernel_blank [])) (kernel_blank []) (\<lambda>i. 0) client_config_default
      \<lparr>jc_algorithm = ALGORITHM_A, jc_key_type = KEY_INT32\<rparr> ?inner ?outer"
    by (rule linear_run_example [OF refl refl _ _ _ _ b]) (simp_all add: key_fits_def client_config_default_def client_cfg_def)
  show ?thesis
    by (rule run_returns_join [OF run, unfolded j]) (simp_all add: client_config_default_def client_init_def)
qed



end
