(* ===== verification/Grace_Protocol.thy ===== *)
theory Grace_Protocol
  imports Host_Kernel Grace_Session
begin

text \<open>
  Algorithm B end to end. The client of \<^verbatim>\<open>src/host/src/fpga_client.cpp\<close> runs against the kernel's Grace
  join (\<^verbatim>\<open>src/src/hash_join_grace.hpp\<close>): every frame is acknowledged at once, the result frames come
  only after the last outer frame, and the client collects them in its final wait. The phases rest on
  the locale \<open>board\<close> and its interpretation on the loopback transport.
\<close>

section \<open>The kernel's answers\<close>

text \<open>Every frame is acknowledged on its own.\<close>

lemma grace_ack_msgs_Cons:
  "grace_ack_msgs phase sid tot (of_nat r) (f # fs) =
     KStatus MSG_ACK phase (of_nat (r + length f)) 0 (credit_of (tot - of_nat (r + length f))) sid #
     grace_ack_msgs phase sid tot (of_nat (r + length f)) fs"
  by (simp add: Let_def)

lemma grace_acknowledged:
  assumes "0 < fuel"
  shows "acknowledged phase (\<lambda>fs. grace_ack_msgs phase sid (of_nat (length rows)) (of_nat (length (concat fs)))) sid fuel rows"
  unfolding acknowledged_def
proof (intro allI impI, elim conjE)
  fix fs qs us :: "InputTuple list list"
  assume "qs \<noteq> []"
  then obtain f zs where q: "qs = [f] @ zs" by (cases qs) auto
  let ?r = "length (concat (fs @ [f]))"
  let ?W = "\<lambda>fs. grace_ack_msgs phase sid (of_nat (length rows)) (of_nat (length (concat fs)))"
  have "answers (?W fs) (qs @ us) fuel sid [f] [] phase (of_nat ?r) 0 (credit_of (of_nat (length rows) - of_nat ?r)) (?W (fs @ [f]))"
    using assms unfolding answers_def
    by (auto simp: grace_ack_msgs_Cons simp del: of_nat_add grace_ack_msgs.simps)
  then show "\<exists>ps zs ms ph pr ma cr V'. qs = ps @ zs \<and> ack_reply phase ?W (of_nat (length rows)) fs ps ms ph pr ma cr V' \<and>
      answers (?W fs) (qs @ us) fuel sid ps ms ph pr ma cr V'"
    by (intro exI [of _ "[f]"] exI [of _ zs] exI [of _ "[]"] exI [of _ phase] exI [of _ "of_nat ?r"] exI [of _ 0]
        exI [of _ "credit_of (of_nat (length rows) - of_nat ?r)"] exI [of _ "?W (fs @ [f])"])
      (simp add: q ack_reply_def)
qed

text \<open>What the kernel owes for the outer frames: acknowledgements, and after the last frame the results.\<close>

definition grace_probe where
  "grace_probe synth sid outer ms ys = grace_ack_msgs PHASE_PROBING sid (of_nat (length outer)) 0 ys @
     (if concat ys = outer then grace_final synth sid ms else [])"

definition grace_answer where
  "grace_answer synth sid inner outer ms = session_answer (configure_msgs synth (of_nat (length inner)) sid)
     (grace_ack_msgs PHASE_BUILDING sid (of_nat (length inner)) 0) (grace_probe synth sid outer ms) inner"

lemma frames_rest:
  assumes "frames_ok kt (xs @ xs')" "xs' \<noteq> []"
  shows "concat xs \<noteq> concat (xs @ xs')"
  using assms by (cases xs') (auto simp: frames_ok_def)

lemma board_out_grace:
  assumes a: "jc_algorithm cfg = ALGORITHM_B" and fr: "frames_ok (jc_key_type cfg) ifs" "frames_ok (jc_key_type cfg) ofs"
    and io: "concat ifs = inner" "concat ofs = outer" and adm: "grace_admits K w inner outer"
  obtains ms where "results_only ms" "mset (pairs_of ms) = mset (join_spec inner outer)"
    "\<forall>xs xs' ys ys'. ifs = xs @ xs' \<and> ofs = ys @ ys' \<and> (xs' = [] \<or> ys = []) \<longrightarrow>
    board_out synth rtl k (serialize_configure cfg (of_nat (length inner)) (of_nat (length outer)) sid @
        host_frames (jc_key_type cfg) MSG_INNER_DATA xs @ host_frames (jc_key_type cfg) MSG_OUTER_DATA ys) =
      bytes_of (grace_answer synth sid inner outer ms xs ys) @
      (if xs' = [] \<and> ys' = [] then bytes_of (next_idle synth) else [])"
proof -
  let ?data = "\<lambda>xs ys. serialize_configure cfg (of_nat (length inner)) (of_nat (length outer)) sid @
        host_frames (jc_key_type cfg) MSG_INNER_DATA xs @ host_frames (jc_key_type cfg) MSG_OUTER_DATA ys"
  let ?k = "\<lambda>data. kernel_start (k\<lparr>k_rx := map Some data, k_tx := []\<rparr>)"
  obtain k1 ms where k1: "kernel_session synth (rtl 0) (?k (?data ifs ofs)) = (Continue, k1)" "k_rx k1 = []" "results_only ms"
    "mset (pairs_of ms) = mset (join_spec inner outer)"
    "k_tx k1 = tx_of (configure_msgs synth (of_nat (length inner)) sid @
      grace_ack_msgs PHASE_BUILDING sid (of_nat (length inner)) 0 ifs @
      grace_ack_msgs PHASE_PROBING sid (of_nat (length outer)) 0 ofs @ grace_final synth sid ms)"
    using kernel_session_grace [OF a fr io [symmetric] adm, of "?k (?data ifs ofs)" sid "[]" synth "rtl 0"] by (auto simp: kernel_start_def)
  have whole: "board_out synth rtl k (?data ifs ofs) = bytes_of (grace_answer synth sid inner outer ms ifs ofs) @ bytes_of (next_idle synth)"
    using board_out_done [where rtl = rtl, OF k1(1,5,2)] by (simp add: grace_answer_def session_answer_def grace_probe_def io)
  have build: "board_out synth rtl k (?data xs []) = bytes_of (grace_answer synth sid inner outer ms xs [])"
    if pr: "ifs = xs @ xs'" "xs' \<noteq> []" for xs xs'
  proof -
    obtain k2 where "kernel_session synth (rtl 0) (?k (?data xs [])) = (Blocked, k2)"
      "k_tx k2 = tx_of (configure_msgs synth (of_nat (length inner)) sid @ grace_ack_msgs PHASE_BUILDING sid (of_nat (length inner)) 0 xs)"
      using kernel_waits_inner [OF a fr(1) [unfolded pr(1)] pr(2) io(1) [unfolded pr(1), symmetric] adm, of "?k (?data xs [])" sid synth "rtl 0"]
      by (auto simp: kernel_start_def)
    from board_out_blocked [where rtl = rtl, OF this] show ?thesis
      using frames_rest [OF fr(1) [unfolded pr(1)] pr(2), folded pr(1)] unfolding io(1) by (simp add: grace_answer_def session_answer_def)
  qed
  have probe: "board_out synth rtl k (?data ifs ys) = bytes_of (grace_answer synth sid inner outer ms ifs ys)"
    if pr: "ofs = ys @ ys'" "ys' \<noteq> []" for ys ys'
  proof -
    obtain k2 where "kernel_session synth (rtl 0) (?k (?data ifs ys)) = (Blocked, k2)"
      "k_tx k2 = tx_of (configure_msgs synth (of_nat (length inner)) sid @ grace_ack_msgs PHASE_BUILDING sid (of_nat (length inner)) 0 ifs @
        grace_ack_msgs PHASE_PROBING sid (of_nat (length outer)) 0 ys)"
      using kernel_waits_outer [OF a fr(1) fr(2) [unfolded pr(1)] pr(2) io(1) [symmetric] io(2) [unfolded pr(1), symmetric] adm,
          of "?k (?data ifs ys)" sid synth "rtl 0"] by (auto simp: kernel_start_def)
    from board_out_blocked [where rtl = rtl, OF this] show ?thesis
      using frames_rest [OF fr(2) [unfolded pr(1)] pr(2), folded pr(1)] unfolding io(2)
      by (simp add: grace_answer_def session_answer_def grace_probe_def io(1))
  qed
  show thesis
  proof (rule that [OF k1(3,4)], intro allI impI, elim conjE)
    fix xs xs' ys ys'
    assume *: "ifs = xs @ xs'" "ofs = ys @ ys'" "xs' = [] \<or> ys = []"
    show "board_out synth rtl k (?data xs ys) = bytes_of (grace_answer synth sid inner outer ms xs ys) @
      (if xs' = [] \<and> ys' = [] then bytes_of (next_idle synth) else [])"
    proof (cases "xs' = []")
      case True
      with * whole probe [of ys ys'] show ?thesis by auto
    next
      case False
      with * build [of xs xs'] show ?thesis by auto
    qed
  qed
qed

section \<open>The client's phases\<close>

lemma results_only_quiet: "results_only ms \<Longrightarrow> list_all quiet ms"
proof (induction ms)
  case (Cons m ms)
  then show ?case by (cases m) (simp_all add: results_only_def)
qed simp

context board
begin

text \<open>A probe phase whose frames are only acknowledged.\<close>

lemma acked_probe_loop:
  assumes tr: "ss_transport ss = tr" and clk: "clock_calm (ss_clock ss) (ss_cfg ss)"
    and m: "0 < unat (max_batch_tuples (ss_cfg ss))" "unat (max_batch_tuples (ss_cfg ss)) \<le> 256"
    and w: "2 \<le> unat (ack_window_frames (ss_cfg ss))" and len: "length outer < 2 ^ 32"
    and ackd: "acknowledged PHASE_PROBING W sid (ss_fuel ss) outer"
  shows "batches_of ss outer = fs @ gs @ us \<Longrightarrow> fc_session_id s = sid \<Longrightarrow>
    owes future (host_frames (jc_key_type (ss_join ss)) MSG_OUTER_DATA) (\<lambda>xs. W fs (gs @ xs)) us Y Tail (fc_transport s) \<Longrightarrow>
    (\<forall>fs. W fs [] = []) \<Longrightarrow>
    enough_credit ss outer (length (concat (fs @ gs))) (map length gs) s \<Longrightarrow> length (gs @ us) < n \<Longrightarrow>
    ack_phase last_ack \<noteq> phase_byte PHASE_DONE \<Longrightarrow>
    \<exists>ack s'. client_probe_loop n ss outer (length (concat (fs @ gs))) (map length gs) (length (concat fs)) last_ack results s =
        (Inr (ack, results), s') \<and> ack_phase ack \<noteq> phase_byte PHASE_DONE \<and>
      same_session s s' \<and> (\<forall>y \<in> Y. future (fc_transport s') y = Tail y)"
proof (induction n arbitrary: fs gs us s last_ack)
  case (Suc n)
  have all: "concat (fs @ gs @ us) = outer" using concat_chunks [OF m(1), of outer] Suc.prems(1) by (simp add: batches_of_def)
  have ne: "list_all (\<lambda>g. g \<noteq> []) (fs @ gs @ us)" using batches_nonempty [of ss outer] Suc.prems(1) by simp
  show ?case
  proof (cases "gs @ us = []")
    case True
    with Suc.prems(3,4,7) all show ?thesis by (auto simp: owes_def)
  next
    case False
    have more: "length (concat (fs @ gs)) < length outer \<or> map length gs \<noteq> []"
      using False ne by (cases us) (auto simp flip: all)
    obtain ps zs us' pr ma cr s1 s2 where r: "fs @ gs @ us = (fs @ ps) @ zs @ us'" "ps \<noteq> []"
      "fill_window ss MSG_OUTER_DATA probe_send_ms_update outer (length (concat (fs @ gs))) (map length gs) s =
        (Inr (length (concat ((fs @ ps) @ zs)), map length (ps @ zs)), s1)"
      "ss_collect ss Probe results s1 = (Inr (ack_of PHASE_PROBING pr ma cr (fc_session_id s), results), s2)" "same_session s s2"
      "apply_cumulative_ack (map length (ps @ zs)) (length (concat fs)) pr = (length ps, map length zs, length (concat (fs @ ps)))"
      "enough_credit ss outer (length (concat ((fs @ ps) @ zs))) (map length zs) (s2\<lparr>fc_credit := cr\<rparr>)"
      "owes future (host_frames (jc_key_type (ss_join ss)) MSG_OUTER_DATA) (\<lambda>xs. W (fs @ ps) (zs @ xs)) us' Y Tail (fc_transport s2)"
      by (rule acknowledged_round [OF tr clk m w len ackd [folded Suc.prems(2)] Suc.prems(1) False Suc.prems(3,5)])
    have "length (zs @ us') < n" using Suc.prems(6) r(2) arg_cong [OF r(1), of length] by (cases ps) simp_all
    then have "\<exists>ack s'. client_probe_loop n ss outer (length (concat ((fs @ ps) @ zs))) (map length zs) (length (concat (fs @ ps)))
        (ack_of PHASE_PROBING pr ma cr (fc_session_id s)) results (s2\<lparr>fc_credit := cr\<rparr>) = (Inr (ack, results), s') \<and>
        ack_phase ack \<noteq> phase_byte PHASE_DONE \<and> same_session (s2\<lparr>fc_credit := cr\<rparr>) s' \<and> (\<forall>y \<in> Y. future (fc_transport s') y = Tail y)"
      using Suc.prems(1,2,4) r(1,5,7,8) by (intro Suc.IH) (simp_all add: same_session_def ack_of_def)
    then show ?thesis
      using more r(2-6) by (auto simp: probe_fill_def ack_of_def same_session_def)
  qed
qed simp

text \<open>The final wait collects the result frames up to DONE.\<close>

lemma finish_drain_board:
  assumes tr: "ss_transport ss = tr" and clk: "clock_calm (ss_clock ss) (ss_cfg ss)"
    and ms: "results_only ms" "length (pairs_of ms) + 1 < ss_fuel ss" "length (pairs_of ms) < 2 ^ 32"
    and fut: "future (fc_transport s) [] = bytes_of (grace_final synth (fc_session_id s) ms) @ R"
  shows "\<exists>s'. finish_drain ss [] s = (Inr (pairs_of ms), s')"
proof -
  let ?n = "of_nat (length (pairs_of ms)) :: u32"
  let ?ms = "ms @ debug_msgs synth DBG_INFO DBG_PROBE_DONE ?n"
  have "list_all quiet ?ms" "length ?ms < ss_fuel ss"
    using results_only_quiet [OF ms(1)] results_only_few [OF ms(1)] ms(2) by (simp_all add: debug_msgs_def)
  then obtain s1 where "ss_collect ss FinalStatus [] s = (Inr (ack_of PHASE_DONE 0 ?n 0 (fc_session_id s), [] @ pairs_of ?ms), s1)"
    using ss_collect_future [OF tr clk, of MSG_STATUS ?ms s PHASE_DONE 0 ?n 0 R FinalStatus "[]"] fut
    by (auto simp: grace_final_def)
  moreover have "unat ?n = length (pairs_of ms)" using ms(3) by (rule unat_row_count)
  ultimately show ?thesis
    by (simp add: finish_drain_def ack_of_def return_verified_def verify_matched_count_def)
qed

end

section \<open>Host and kernel connected\<close>

text \<open>What a run of algorithm B needs: keys that fit, inputs the algorithm can take, the model's fuel and
  a calm clock. The board may be in any state.\<close>

definition grace_run :: "'t Session \<Rightarrow> 't ITransport \<Rightarrow> u32 \<Rightarrow> u32 \<Rightarrow> (nat \<Rightarrow> nat) \<Rightarrow> ClientConfig \<Rightarrow> JoinConfig \<Rightarrow>
    InputTuple list \<Rightarrow> InputTuple list \<Rightarrow> bool" where
  "grace_run ss tr K w clk cfg j inner outer \<longleftrightarrow>
     (\<exists>fuel. ss = new_session tr clk cfg fuel j \<and> 610 \<le> fuel \<and> length inner < fuel \<and> length outer + 1 < fuel) \<and>
     jc_algorithm j = ALGORITHM_B \<and> list_all (\<lambda>t. key_fits (jc_key_type j) (it_key t)) (inner @ outer) \<and>
     grace_admits K w inner outer \<and> clock_calm clk (client_cfg cfg)"

lemma grace_run_cfg:
  assumes "grace_run ss tr K w clk cfg j inner outer"
  shows "ss_transport ss = tr" "clock_calm (ss_clock ss) (ss_cfg ss)" "610 \<le> ss_fuel ss"
    "0 < unat (max_batch_tuples (ss_cfg ss))" "unat (max_batch_tuples (ss_cfg ss)) \<le> 256"
    "ss_cfg ss = client_cfg cfg" "ss_join ss = j" "length inner < ss_fuel ss" "length outer + 1 < ss_fuel ss"
    "jc_algorithm j = ALGORITHM_B" "grace_admits K w inner outer"
  using assms client_cfg_batch [of cfg] by (auto simp: grace_run_def new_session_def)

lemma grace_run_sizes:
  assumes "grace_run ss tr K w clk cfg j inner outer"
  shows "frames_ok (jc_key_type j) (batches_of ss inner)" "frames_ok (jc_key_type j) (batches_of ss outer)"
    "concat (batches_of ss inner) = inner" "concat (batches_of ss outer) = outer"
    "length (batches_of ss inner) < ss_fuel ss" "length (batches_of ss outer) < ss_fuel ss"
    "length inner < 2 ^ 32" "length outer < 2 ^ 32"
proof -
  note cfg = grace_run_cfg [OF assms]
  show "concat (batches_of ss inner) = inner" "concat (batches_of ss outer) = outer"
    using concat_chunks [OF cfg(4)] by (simp_all add: batches_of_def)
  show "frames_ok (jc_key_type j) (batches_of ss inner)" "frames_ok (jc_key_type j) (batches_of ss outer)"
    using assms cfg(4,5) by (simp_all add: frames_ok_batches grace_run_def)
  show "length (batches_of ss inner) < ss_fuel ss" "length (batches_of ss outer) < ss_fuel ss"
    using batches_few [OF cfg(4), of inner] batches_few [OF cfg(4), of outer] cfg(8,9) by linarith+
  show "length inner < 2 ^ 32" "length outer < 2 ^ 32" using grace_admits_chk(3,4) [OF cfg(11)] by simp_all
qed

text \<open>What is owed for the outer frames, split into acknowledgements and the end of the session.\<close>

lemma owes_grace_probe:
  assumes ow: "owes future hf (grace_probe synth sid outer ms) (batches_of ss outer) {[]} (\<lambda>y. bytes_of ex) t"
    and mb: "0 < unat (max_batch_tuples (ss_cfg ss))"
  shows "owes future hf (\<lambda>xs. grace_ack_msgs PHASE_PROBING sid (of_nat (length outer)) 0 ([] @ xs)) (batches_of ss outer) {[]}
    (\<lambda>y. bytes_of (grace_final synth sid ms) @ bytes_of ex) t"
proof -
  have "concat (batches_of ss outer) = outer" using concat_chunks [OF mb, of outer] by (simp add: batches_of_def)
  with ow concat_batches_less [OF _ _ mb, of outer] show ?thesis unfolding owes_def grace_probe_def by simp
qed

context board
begin

lemma run_grace_on_kernel:
  assumes run: "grace_run ss tr K w clk cfg j inner outer" and w: "2 \<le> unat (ack_window_frames (client_cfg cfg))"
    and s: "\<And>x. future (fc_transport s) x = board_out synth rtl k x"
  shows "\<exists>r. fst (run_hash_join ss inner outer s) = Inr r \<and> mset r = mset (join_spec inner outer)"
proof -
  let ?s = "snd (now (ss_clock ss) (start_session ss s))"
  let ?sid = "fc_session_id ?s"
  define W where "W = (\<lambda>phase rows fs. grace_ack_msgs phase ?sid (of_nat (length (rows :: InputTuple list))) (of_nat (length (concat (fs :: InputTuple list list)))))"
  note cfg = grace_run_cfg [OF run] and sz = grace_run_sizes [OF run]
  have W: "acknowledged ph (W ph rows) ?sid (ss_fuel ss) rows" "\<forall>fs. W ph rows fs [] = []" for ph rows
    using grace_acknowledged [of "ss_fuel ss" ph ?sid rows] cfg(3) by (simp_all add: W_def)
  have w2: "2 \<le> unat (ack_window_frames (ss_cfg ss))" using w cfg(6) by simp
  obtain ms where ms: "results_only ms" "mset (pairs_of ms) = mset (join_spec inner outer)"
    "\<forall>xs xs' ys ys'. batches_of ss inner = xs @ xs' \<and> batches_of ss outer = ys @ ys' \<and> (xs' = [] \<or> ys = []) \<longrightarrow>
      board_out synth rtl k (serialize_configure j (of_nat (length inner)) (of_nat (length outer)) ?sid @
        host_frames (jc_key_type j) MSG_INNER_DATA xs @ host_frames (jc_key_type j) MSG_OUTER_DATA ys) =
      bytes_of (grace_answer synth ?sid inner outer ms xs ys) @ (if xs' = [] \<and> ys' = [] then bytes_of (next_idle synth) else [])"
    by (rule board_out_grace [where synth = synth and rtl = rtl and k = k and sid = ?sid, OF cfg(10) sz(1-4) cfg(11)])
  have sv: "serves future ss inner outer ?sid (configure_msgs synth (of_nat (length inner)) ?sid) (W PHASE_BUILDING inner [])
      (grace_probe synth ?sid outer ms) (next_idle synth) (fc_transport ?s)"
    unfolding serves_def using ms(3) by (simp add: s now_def cfg(7) grace_answer_def W_def)
  obtain s1 s2 where s12: "client_config_phase ss inner (length outer) ?s = (Inr (length (concat (coalesced ss inner))), s1)"
    "client_build_phase ss inner (length (concat (coalesced ss inner))) s1 = (Inr (), s2)"
    "fc_session_id s2 = ?sid" "fc_credit s2 = 512"
    "owes future (host_frames (jc_key_type (ss_join ss)) MSG_OUTER_DATA) (grace_probe synth ?sid outer ms) (batches_of ss outer) {[]}
      (\<lambda>y. bytes_of (next_idle synth)) (fc_transport s2)"
    by (rule session_to_probe [OF cfg(1-5) w2 sz(7,5) W(1,2) sv refl])
  have "enough_credit ss outer (length (concat ([] @ []))) (map length []) s2" using cfg(5) s12(4) by (simp add: enough_credit_def)
  then obtain ack s3 where s3: "client_probe_loop (ss_fuel ss) ss outer 0 [] 0 ack_zero [] s2 = (Inr (ack, []), s3)"
    "ack_phase ack \<noteq> phase_byte PHASE_DONE" "same_session s2 s3"
    "future (fc_transport s3) [] = bytes_of (grace_final synth ?sid ms) @ bytes_of (next_idle synth)"
    using acked_probe_loop [OF cfg(1,2,4,5) w2 sz(8) W(1), of "[]" "[]" "batches_of ss outer" s2 "{[]}"
        "\<lambda>y. bytes_of (grace_final synth ?sid ms) @ bytes_of (next_idle synth)" "ss_fuel ss" ack_zero "[]"]
      W(2) sz(6) s12(3) owes_grace_probe [OF s12(5) cfg(4)] by (auto simp: W_def ack_zero_def)
  have len: "length (pairs_of ms) \<le> length outer"
    using mset_eq_length [OF ms(2)] length_probe_pairs_le [of "first_match inner" outer] by (simp add: join_spec_def)
  have "fc_session_id s3 = ?sid" using s3(3) s12(3) by (simp add: same_session_def)
  then obtain s4 where s4: "finish_drain ss [] s3 = (Inr (pairs_of ms), s4)"
    using finish_drain_board [OF cfg(1,2) ms(1), of s3 synth] s3(4) len cfg(9) sz(8) by auto
  have "fst (client_session ss inner outer (start_session ss s)) = Inr (pairs_of ms)"
    using s12(1,2) s3(1,2) s4 cfg(7,10) by (simp add: client_session_def now_def client_probe_end_def client_finish_def inferred_done_def)
  with ms(2) show ?thesis by (auto simp: run_hash_join_def split: prod.split)
qed

end

section \<open>Properties\<close>

text \<open>C3. Algorithm B end to end: a run of the host client against the kernel's Grace join ends and
  returns the join of the two inputs, each pair as often as the join has it. The order may differ,
  since the kernel joins partition by partition.\<close>

theorem run_returns_grace_join:
  assumes "grace_run ss (loopback synth rtl k) K w clk cfg j inner outer" and "ack_window_frames cfg \<noteq> 1" and "fc_transport s = loop_start"
  shows "\<exists>r. fst (run_hash_join ss inner outer s) = Inr r \<and> mset r = mset (join_spec inner outer)"
  by (rule lb.run_grace_on_kernel [OF assms(1) window_at_least_two [OF assms(2)]])
    (simp add: assms(3) loop_future_def loop_start_def)

theorem run_returns_grace_join_witness:
  "\<exists>r. fst (run_hash_join (new_session (loopback True (\<lambda>n. rtl_absent) (kernel_blank [])) (\<lambda>i. 0) client_config_default 700
        \<lparr>jc_algorithm = ALGORITHM_B, jc_key_type = KEY_INT32\<rparr>)
      [\<lparr>it_key = 7, it_tid = \<lparr>blkno = 0, offno = 1\<rparr>\<rparr>, \<lparr>it_key = 9, it_tid = \<lparr>blkno = 0, offno = 2\<rparr>\<rparr>]
      [\<lparr>it_key = 9, it_tid = \<lparr>blkno = 1, offno = 1\<rparr>\<rparr>, \<lparr>it_key = 8, it_tid = \<lparr>blkno = 1, offno = 2\<rparr>\<rparr>]
      (client_init loop_start 0)) = Inr r \<and>
    mset r = {#\<lparr>inner_tid = \<lparr>blkno = 0, offno = 2\<rparr>, outer_tid = \<lparr>blkno = 1, offno = 1\<rparr>\<rparr>#}"
proof -
  let ?inner = "[\<lparr>it_key = 7, it_tid = \<lparr>blkno = 0, offno = 1\<rparr>\<rparr>, \<lparr>it_key = 9, it_tid = \<lparr>blkno = 0, offno = 2\<rparr>\<rparr>] :: InputTuple list"
  let ?outer = "[\<lparr>it_key = 9, it_tid = \<lparr>blkno = 1, offno = 1\<rparr>\<rparr>, \<lparr>it_key = 8, it_tid = \<lparr>blkno = 1, offno = 2\<rparr>\<rparr>] :: InputTuple list"
  let ?tr = "loopback True (\<lambda>n. rtl_absent) (kernel_blank [])" and ?j = "\<lparr>jc_algorithm = ALGORITHM_B, jc_key_type = KEY_INT32\<rparr>"
  have chk: "check_configure ALGORITHM_B 2 2 = (ERR_NONE, 1, 12)" by code_simp
  have len: "length (part_rows K p xs) \<le> length xs" for K p xs by (simp add: part_rows_def)
  have fit: "inner_fits 1 ?inner" "outer_fits 1 12 ?outer"
    by (auto simp: inner_fits_def outer_fits_def intro!: order_trans [OF len])
  have b: "fst (build_all ht_insert (ht_reset ht_blank) (part_rows 1 0 ?inner)) = ERR_NONE" by code_simp
  have j: "join_spec ?inner ?outer = [\<lparr>inner_tid = \<lparr>blkno = 0, offno = 2\<rparr>, outer_tid = \<lparr>blkno = 1, offno = 1\<rparr>\<rparr>]" by code_simp
  have "grace_admits 1 12 ?inner ?outer" using chk fit b by (simp add: grace_admits_def)
  then have run: "grace_run (new_session ?tr (\<lambda>i. 0) client_config_default 700 ?j) ?tr 1 12 (\<lambda>i. 0) client_config_default ?j ?inner ?outer"
    by (auto simp: grace_run_def clock_calm_def key_fits_def client_config_default_def client_cfg_def)
  from run_returns_grace_join [OF run, of "client_init loop_start 0", unfolded j] show ?thesis
    by (simp add: client_config_default_def client_init_def)
qed

end
