(* ===== verification/Software_Kernel.thy ===== *)
theory Software_Kernel
  imports Host_Kernel
begin

text \<open>
  The simulation of the board for demonstrations, \<^verbatim>\<open>src/host/demo/software_kernel.hpp\<close>: a transport that
  takes one frame per send, joins with an ordinary map and queues its answers. It is compared with
  the kernel it stands for, and with what the client expects of a board.
\<close>

section \<open>State\<close>

text \<open>The \<open>unordered_map\<close> is only assigned to, searched and cleared, so it is a map.\<close>

record SoftwareKernel =
  sk_key_type :: u8
  n_matched :: u32
  n_processed :: u32
  outer_total :: u32
  sk_session_id :: u8
  sk_ht :: "u64 \<Rightarrow> Tid option"
  resp_queue :: "u8 list list"
  out_buf :: "u8 list"
  all_sent :: "u8 list"

definition sk_blank :: SoftwareKernel where
  "sk_blank = \<lparr>sk_key_type = KEY_INT32, n_matched = 0, n_processed = 0, outer_total = 0, sk_session_id = 0,
     sk_ht = Map.empty, resp_queue = [], out_buf = [], all_sent = []\<rparr>"

section \<open>Byte helpers\<close>

text \<open>A pointer into the frame is the list of the bytes from there on; a read past the end of the
  frame is \<open>None\<close>.\<close>

definition sk_key_bytes :: "u8 \<Rightarrow> nat" where
  "sk_key_bytes kt = (if kt = KEY_INT32 then 4 else 8)"

definition tuple_stride :: "u8 \<Rightarrow> nat" where
  "tuple_stride kt = sk_key_bytes kt + 6"

fun sk_read_u16 :: "u8 list \<Rightarrow> u16 option" where
  "sk_read_u16 (a # b # p) = Some (of_le16 a b)"
| "sk_read_u16 _ = None"

fun sk_read_u32 :: "u8 list \<Rightarrow> u32 option" where
  "sk_read_u32 (a # b # c # d # p) = Some (of_le32 a b c d)"
| "sk_read_u32 _ = None"

fun sk_read_u64 :: "u8 list \<Rightarrow> u64 option" where
  "sk_read_u64 (a # b # c # d # e # f # g # h # p) = Some (of_le64 a b c d e f g h)"
| "sk_read_u64 _ = None"

definition sk_read_key :: "u8 \<Rightarrow> u8 list \<Rightarrow> u64 option" where
  "sk_read_key kt p = (if kt = KEY_INT32 then map_option scast (sk_read_u32 p) else sk_read_u64 p)"

definition sk_read_tid :: "u8 list \<Rightarrow> Tid option" where
  "sk_read_tid p = do { blk \<leftarrow> sk_read_u32 p; off \<leftarrow> sk_read_u16 (drop 4 p); Some \<lparr>blkno = blk, offno = off\<rparr> }"

definition push_u16 :: "u8 list \<Rightarrow> u16 \<Rightarrow> u8 list" where
  "push_u16 v x = v @ [ucast x, ucast (drop_bit 8 x)]"

definition push_u32 :: "u8 list \<Rightarrow> u32 \<Rightarrow> u8 list" where
  "push_u32 v x = v @ [ucast x, ucast (drop_bit 8 x), ucast (drop_bit 16 x), ucast (drop_bit 24 x)]"

section \<open>Frame builders\<close>

definition push_ack :: "Phase \<Rightarrow> u16 \<Rightarrow> u32 \<Rightarrow> u32 \<Rightarrow> SoftwareKernel \<Rightarrow> SoftwareKernel" where
  "push_ack phase credit processed matched t =
     (let f = push_u16 [MSG_ACK] 1;
          f = f @ [phase_byte phase];
          f = f @ [sk_session_id t];
          f = push_u16 f credit;
          f = push_u32 f processed;
          f = push_u32 f matched
      in t\<lparr>resp_queue := resp_queue t @ [f]\<rparr>)"

definition push_pair :: "u8 list \<Rightarrow> ResultPair \<Rightarrow> u8 list" where
  "push_pair f r =
     (let f = push_u32 f (blkno (inner_tid r));
          f = push_u16 f (offno (inner_tid r));
          f = push_u32 f (blkno (outer_tid r))
      in push_u16 f (offno (outer_tid r)))"

definition push_result :: "ResultPair list \<Rightarrow> SoftwareKernel \<Rightarrow> SoftwareKernel" where
  "push_result pairs t =
     (let f = push_u16 [MSG_RESULT] (of_nat (length pairs));
          f = foldl push_pair f pairs
      in t\<lparr>resp_queue := resp_queue t @ [f]\<rparr>)"

section \<open>Protocol handlers\<close>

text \<open>A handler that reads past the end of the frame is \<open>None\<close>.\<close>

definition on_configure :: "u8 list \<Rightarrow> SoftwareKernel \<Rightarrow> SoftwareKernel option" where
  "on_configure p t =
     (if length p < 13 then None
      else map_option (\<lambda>no. push_ack PHASE_BUILDING (ucast RX_CREDIT_TUPLES) 0 0
             (t\<lparr>sk_key_type := p ! 1, n_matched := 0, n_processed := 0, outer_total := no,
                sk_session_id := p ! 12, sk_ht := Map.empty\<rparr>)) (sk_read_u32 (drop 8 p)))"

fun inner_loop :: "nat \<Rightarrow> u8 list \<Rightarrow> SoftwareKernel \<Rightarrow> SoftwareKernel option" where
  "inner_loop 0 p t = Some t"
| "inner_loop (Suc n) p t = do {
     key \<leftarrow> sk_read_key (sk_key_type t) p;
     tid \<leftarrow> sk_read_tid (drop (sk_key_bytes (sk_key_type t)) p);
     inner_loop n (drop (tuple_stride (sk_key_type t)) p) (t\<lparr>sk_ht := (sk_ht t)(key \<mapsto> tid)\<rparr>) }"

definition on_inner :: "u16 \<Rightarrow> u8 list \<Rightarrow> SoftwareKernel \<Rightarrow> SoftwareKernel option" where
  "on_inner cnt p t =
     map_option (push_ack PHASE_BUILDING (ucast RX_CREDIT_TUPLES) 0 0) (inner_loop (unat cnt) p t)"

fun outer_loop ::
  "nat \<Rightarrow> u8 list \<Rightarrow> ResultPair list \<Rightarrow> SoftwareKernel \<Rightarrow> (ResultPair list \<times> SoftwareKernel) option" where
  "outer_loop 0 p matches t = Some (matches, t)"
| "outer_loop (Suc n) p matches t = do {
     key \<leftarrow> sk_read_key (sk_key_type t) p;
     otid \<leftarrow> sk_read_tid (drop (sk_key_bytes (sk_key_type t)) p);
     let (matches, t) = (case sk_ht t key of
         Some i \<Rightarrow> (matches @ [\<lparr>inner_tid = i, outer_tid = otid\<rparr>], t\<lparr>n_matched := n_matched t + 1\<rparr>)
       | None \<Rightarrow> (matches, t))
     in outer_loop n (drop (tuple_stride (sk_key_type t)) p) matches (t\<lparr>n_processed := n_processed t + 1\<rparr>) }"

definition on_outer :: "u16 \<Rightarrow> u8 list \<Rightarrow> SoftwareKernel \<Rightarrow> SoftwareKernel option" where
  "on_outer cnt p t =
     map_option (\<lambda>(matches, t).
       let t = (if matches \<noteq> [] then push_result matches t else t);
           credit = (if n_processed t \<ge> outer_total t then 0 else ucast RX_CREDIT_TUPLES)
       in push_ack PHASE_PROBING credit (n_processed t) (n_matched t) t) (outer_loop (unat cnt) p [] t)"

definition on_reset :: "bool \<Rightarrow> SoftwareKernel \<Rightarrow> SoftwareKernel" where
  "on_reset emit_ack t =
     (let t = t\<lparr>sk_ht := Map.empty, resp_queue := [], out_buf := [], n_matched := 0, n_processed := 0,
                outer_total := 0, sk_session_id := 0\<rparr>
      in if emit_ack then push_ack PHASE_IDLE 0 0 0 t else t)"

section \<open>The transport\<close>

definition sk_dispatch :: "u8 list \<Rightarrow> SoftwareKernel \<Rightarrow> SoftwareKernel option" where
  "sk_dispatch p t =
     (let msg = p ! 0; n = of_le16 (p ! 1) (p ! 2); payload = drop 3 p
      in if msg = MSG_CONFIGURE then on_configure payload t
         else if msg = MSG_INNER_DATA then on_inner n payload t
         else if msg = MSG_OUTER_DATA then on_outer n payload t
         else if msg = MSG_RESET then Some (on_reset True t)
         else Some t)"

definition sk_send :: "u8 list \<Rightarrow> SoftwareKernel \<Rightarrow> (exn + unit) \<times> SoftwareKernel" where
  "sk_send data t =
     (let t = t\<lparr>all_sent := all_sent t @ data\<rparr>
      in if length data < 3 then (Inr (), t)
         else case sk_dispatch data t of None \<Rightarrow> (Inl OutOfBounds, t) | Some t \<Rightarrow> (Inr (), t))"

text \<open>The loop that looks for a non-empty response.\<close>

fun sk_refill :: "u8 list \<Rightarrow> u8 list list \<Rightarrow> u8 list \<times> u8 list list" where
  "sk_refill buf q = (if buf \<noteq> [] then (buf, q) else case q of [] \<Rightarrow> ([], []) | r # q \<Rightarrow> sk_refill r q)"

declare sk_refill.simps [simp del]

definition sk_recv :: "nat \<Rightarrow> SoftwareKernel \<Rightarrow> (exn + u8 list) \<times> SoftwareKernel" where
  "sk_recv max_len t =
     (case sk_refill (out_buf t) (resp_queue t) of
        (buf, q) \<Rightarrow> let n = min max_len (length buf)
                    in (Inr (take n buf), t\<lparr>out_buf := drop n buf, resp_queue := q\<rparr>))"

definition sk_transport :: "SoftwareKernel ITransport" where
  "sk_transport = \<lparr>it_send = sk_send, it_recv = sk_recv, it_reset = (\<lambda>t. (Inr (), on_reset False t))\<rparr>"

section \<open>The frames it writes\<close>

lemma push_simps: "push_u16 v x = v @ le16 x" "push_u32 v y = v @ le32 y"
  by (simp_all add: push_u16_def push_u32_def le16_def le32_def)

lemma push_ack_eq:
  "push_ack phase credit processed matched t =
     t\<lparr>resp_queue := resp_queue t @ [msg_bytes (KStatus MSG_ACK phase processed matched credit (sk_session_id t))]\<rparr>"
  by (simp add: push_ack_def push_simps status_bytes_def Let_def)

lemma foldl_push_pair: "foldl push_pair f pairs = f @ concat (map pair_bytes pairs)"
  by (induction pairs arbitrary: f) (simp_all add: push_pair_def push_simps pair_bytes_def tid_bytes_def Let_def)

lemma push_result_eq: "push_result pairs t = t\<lparr>resp_queue := resp_queue t @ [msg_bytes (KResult pairs)]\<rparr>"
  by (simp add: push_result_def push_simps foldl_push_pair result_bytes_def Let_def)

section \<open>The frames it reads\<close>

lemma sk_read_le [simp]:
  "sk_read_u16 (le16 a @ s) = Some a" "sk_read_u32 (le32 b @ s) = Some b" "sk_read_u64 (le64 c @ s) = Some c"
  by (simp_all add: le16_def le32_def le64_def)

lemma sk_read_tid_bytes [simp]: "sk_read_tid (tid_bytes t @ s) = Some t"
  by (simp add: sk_read_tid_def tid_bytes_def)

lemma sk_read_tuple:
  assumes "key_fits kt (it_key t)"
  shows "sk_read_key kt (tuple_bytes kt t @ s) = Some (it_key t)"
    "sk_read_tid (drop (sk_key_bytes kt) (tuple_bytes kt t @ s)) = Some (it_tid t)"
    "drop (tuple_stride kt) (tuple_bytes kt t @ s) = s"
proof -
  have "drop (sk_key_bytes kt) (tuple_bytes kt t @ s) = tid_bytes (it_tid t) @ s"
    by (auto simp: sk_key_bytes_def key_bytes_def tuple_bytes_def)
  then show "sk_read_tid (drop (sk_key_bytes kt) (tuple_bytes kt t @ s)) = Some (it_tid t)" by simp
  show "sk_read_key kt (tuple_bytes kt t @ s) = Some (it_key t)" "drop (tuple_stride kt) (tuple_bytes kt t @ s) = s"
    using assms
    by (auto simp: sk_read_key_def sk_key_bytes_def tuple_stride_def key_bytes_def tuple_bytes_def tid_bytes_def key_fits_def sign_extend_truncate)
qed

lemma inner_loop_tuples:
  assumes "list_all (\<lambda>t. key_fits (sk_key_type t0) (it_key t)) ts"
  shows "inner_loop (length ts) (concat (map (tuple_bytes (sk_key_type t0)) ts) @ s) t0 =
    Some (t0\<lparr>sk_ht := sk_ht t0 ++ map_of (rev (map tuple_entry ts))\<rparr>)"
  using assms
proof (induction ts arbitrary: t0)
  case (Cons t ts)
  let ?s = "concat (map (tuple_bytes (sk_key_type t0)) ts) @ s"
  have fits: "key_fits (sk_key_type t0) (it_key t)" using Cons.prems by simp
  have "inner_loop (length (t # ts)) (tuple_bytes (sk_key_type t0) t @ ?s) t0 =
      inner_loop (length ts) ?s (t0\<lparr>sk_ht := (sk_ht t0)(it_key t \<mapsto> it_tid t)\<rparr>)"
    by (simp add: sk_read_tuple [OF fits] del: drop_append)
  moreover have "sk_ht t0 ++ map_of (rev (map tuple_entry (t # ts))) = (sk_ht t0)(it_key t \<mapsto> it_tid t) ++ map_of (rev (map tuple_entry ts))"
    by (rule ext) (simp add: map_add_def tuple_entry_def map_of_append split: option.split)
  ultimately show ?case
    using Cons.IH [of "t0\<lparr>sk_ht := (sk_ht t0)(it_key t \<mapsto> it_tid t)\<rparr>"] Cons.prems
    by (simp del: inner_loop.simps fun_upd_apply)
qed simp

lemma outer_loop_tuples:
  assumes "list_all (\<lambda>t. key_fits (sk_key_type t0) (it_key t)) ts"
  shows "outer_loop (length ts) (concat (map (tuple_bytes (sk_key_type t0)) ts) @ s) matches t0 =
    Some (matches @ probe_pairs (sk_ht t0) ts, t0\<lparr>n_matched := n_matched t0 + of_nat (length (probe_pairs (sk_ht t0) ts)),
      n_processed := n_processed t0 + of_nat (length ts)\<rparr>)"
  using assms
proof (induction ts arbitrary: t0 matches)
  case (Cons t ts)
  let ?s = "concat (map (tuple_bytes (sk_key_type t0)) ts) @ s"
  let ?m = "probe_pairs (sk_ht t0) [t]"
  let ?t1 = "t0\<lparr>n_matched := n_matched t0 + of_nat (length ?m), n_processed := n_processed t0 + 1\<rparr>"
  have fits: "key_fits (sk_key_type t0) (it_key t)" using Cons.prems by simp
  have "outer_loop (length (t # ts)) (tuple_bytes (sk_key_type t0) t @ ?s) matches t0 = outer_loop (length ts) ?s (matches @ ?m) ?t1"
    by (simp add: sk_read_tuple [OF fits] del: drop_append split: option.split)
  then show ?case
    using Cons.IH [of ?t1 "matches @ ?m"] Cons.prems by (subst (1 2) probe_pairs_Cons) (simp add: algebra_simps del: probe_pairs.simps outer_loop.simps)
qed simp

section \<open>One frame\<close>

lemma sk_send_configure:
  "sk_send (serialize_configure cfg ni no sid @ x) t =
     (Inr (), t\<lparr>sk_key_type := jc_key_type cfg, n_matched := 0, n_processed := 0, outer_total := no, sk_session_id := sid,
        sk_ht := Map.empty, resp_queue := resp_queue t @ [msg_bytes (KStatus MSG_ACK PHASE_BUILDING 0 0 512 sid)],
        all_sent := all_sent t @ serialize_configure cfg ni no sid @ x\<rparr>)"
proof -
  let ?p = "jc_algorithm cfg # jc_key_type cfg # le16 512 @ le32 ni @ le32 no @ [sid]"
  have c: "serialize_configure cfg ni no sid = MSG_CONFIGURE # le16 1 @ ?p" by (simp add: wire_simps)
  have "sk_read_u32 (drop 8 (?p @ x)) = Some no" by (simp add: le16_def le32_def)
  moreover have "(?p @ x) ! 12 = sid" "(?p @ x) ! 1 = jc_key_type cfg" "\<not> length (?p @ x) < 13"
    by (simp_all add: le16_def le32_def nth_append)
  ultimately have "on_configure (?p @ x) (t\<lparr>all_sent := all_sent t @ serialize_configure cfg ni no sid @ x\<rparr>) =
      Some (t\<lparr>sk_key_type := jc_key_type cfg, n_matched := 0, n_processed := 0, outer_total := no, sk_session_id := sid,
        sk_ht := Map.empty, resp_queue := resp_queue t @ [msg_bytes (KStatus MSG_ACK PHASE_BUILDING 0 0 512 sid)],
        all_sent := all_sent t @ serialize_configure cfg ni no sid @ x\<rparr>)"
    by (simp add: on_configure_def push_ack_eq)
  then show ?thesis by (simp add: sk_send_def sk_dispatch_def c le16_def)
qed

text \<open>A data frame: the header, then the handler on the tuples.\<close>

lemma sk_send_batch:
  assumes "length f \<le> 256" "f \<noteq> []" "msg = MSG_INNER_DATA \<or> msg = MSG_OUTER_DATA"
  shows "sk_send (serialize_batch kt msg f (length f)) t =
    (let t = t\<lparr>all_sent := all_sent t @ serialize_batch kt msg f (length f)\<rparr>;
         handler = (if msg = MSG_INNER_DATA then on_inner else on_outer)
     in case handler (of_nat (length f)) (concat (map (tuple_bytes kt) f)) t of
          None \<Rightarrow> (Inl OutOfBounds, t) | Some t \<Rightarrow> (Inr (), t))"
proof -
  have b: "serialize_batch kt msg f (length f) = msg # le16 (of_nat (length f)) @ concat (map (tuple_bytes kt) f)"
    using assms(2) by (simp add: wire_simps)
  show ?thesis using assms(3) by (auto simp: sk_send_def sk_dispatch_def b le16_def Let_def)
qed

lemma sk_send_inner:
  assumes "length f \<le> 256" "f \<noteq> []" "list_all (\<lambda>r. key_fits (sk_key_type t) (it_key r)) f"
  shows "sk_send (serialize_batch (sk_key_type t) MSG_INNER_DATA f (length f)) t =
    (Inr (), t\<lparr>sk_ht := sk_ht t ++ map_of (rev (map tuple_entry f)),
       resp_queue := resp_queue t @ [msg_bytes (KStatus MSG_ACK PHASE_BUILDING 0 0 512 (sk_session_id t))],
       all_sent := all_sent t @ serialize_batch (sk_key_type t) MSG_INNER_DATA f (length f)\<rparr>)"
  using inner_loop_tuples [of "t\<lparr>all_sent := all_sent t @ serialize_batch (sk_key_type t) MSG_INNER_DATA f (length f)\<rparr>" f "[]"] assms
  by (simp add: sk_send_batch on_inner_def push_ack_eq Let_def)

text \<open>The credit the simulation advertises while it probes.\<close>

definition sk_credit :: "u32 \<Rightarrow> u32 \<Rightarrow> u16" where
  "sk_credit processed tot = (if processed \<ge> tot then 0 else 512)"

lemma sk_send_outer:
  assumes "length f \<le> 256" "f \<noteq> []" "list_all (\<lambda>r. key_fits (sk_key_type t) (it_key r)) f"
    and "r = n_processed t + of_nat (length f)" "mt = n_matched t + of_nat (length (probe_pairs (sk_ht t) f))"
  shows "sk_send (serialize_batch (sk_key_type t) MSG_OUTER_DATA f (length f)) t =
    (Inr (), t\<lparr>n_matched := mt, n_processed := r,
       resp_queue := resp_queue t @ map msg_bytes (result_msgs (probe_pairs (sk_ht t) f) @
         [KStatus MSG_ACK PHASE_PROBING r mt (sk_credit r (outer_total t)) (sk_session_id t)]),
       all_sent := all_sent t @ serialize_batch (sk_key_type t) MSG_OUTER_DATA f (length f)\<rparr>)"
  using outer_loop_tuples [of "t\<lparr>all_sent := all_sent t @ serialize_batch (sk_key_type t) MSG_OUTER_DATA f (length f)\<rparr>" f "[]" "[]"] assms
  by (simp add: sk_send_batch on_outer_def push_ack_eq push_result_eq result_msgs_def sk_credit_def Let_def)

section \<open>A session\<close>

definition sk_feed :: "u8 list list \<Rightarrow> SoftwareKernel \<Rightarrow> SoftwareKernel" where
  "sk_feed frames t = foldl (\<lambda>t d. snd (sk_send d t)) t frames"

definition batch_frames :: "u8 \<Rightarrow> u8 \<Rightarrow> InputTuple list list \<Rightarrow> u8 list list" where
  "batch_frames kt msg fs = map (\<lambda>f. serialize_batch kt msg f (length f)) fs"

lemma sk_feed_simps [simp]:
  "sk_feed [] t = t" "sk_feed (d # ds) t = sk_feed ds (snd (sk_send d t))" "sk_feed (xs @ ys) t = sk_feed ys (sk_feed xs t)"
  by (simp_all add: sk_feed_def)

lemma sk_feed_inner:
  assumes "frames_ok (sk_key_type t) fs"
  shows "sk_feed (batch_frames (sk_key_type t) MSG_INNER_DATA fs) t =
    t\<lparr>sk_ht := sk_ht t ++ map_of (rev (map tuple_entry (concat fs))),
      resp_queue := resp_queue t @ replicate (length fs) (msg_bytes (KStatus MSG_ACK PHASE_BUILDING 0 0 512 (sk_session_id t))),
      all_sent := all_sent t @ concat (batch_frames (sk_key_type t) MSG_INNER_DATA fs)\<rparr>"
  using assms
proof (induction fs arbitrary: t)
  case (Cons f fs)
  let ?t = "snd (sk_send (serialize_batch (sk_key_type t) MSG_INNER_DATA f (length f)) t)"
  have f: "length f \<le> 256" "f \<noteq> []" "list_all (\<lambda>r. key_fits (sk_key_type t) (it_key r)) f" "frames_ok (sk_key_type t) fs"
    using Cons.prems by (simp_all add: frames_ok_def)
  note s = sk_send_inner [OF f(1-3), unfolded MSG_INNER_DATA_def]
  have "sk_key_type ?t = sk_key_type t" by (simp add: s)
  with Cons.IH [of ?t] f(4) show ?case by (simp add: batch_frames_def s map_add_assoc)
qed (simp add: batch_frames_def)

fun sk_probe_msgs :: "(u64 \<Rightarrow> Tid option) \<Rightarrow> u32 \<Rightarrow> u8 \<Rightarrow> u32 \<Rightarrow> u32 \<Rightarrow> InputTuple list list \<Rightarrow> KernelMsg list" where
  "sk_probe_msgs m tot sid processed matched [] = []"
| "sk_probe_msgs m tot sid processed matched (f # fs) =
     (let r = processed + of_nat (length f); mt = matched + of_nat (length (probe_pairs m f))
      in result_msgs (probe_pairs m f) @ [KStatus MSG_ACK PHASE_PROBING r mt (sk_credit r tot) sid] @ sk_probe_msgs m tot sid r mt fs)"

lemma sk_probe_pairs: "pairs_of (sk_probe_msgs m tot sid processed matched fs) = probe_pairs m (concat fs)"
  by (induction fs arbitrary: processed matched) (simp_all add: Let_def)

lemma sk_feed_outer:
  assumes "frames_ok (sk_key_type t) fs"
  shows "resp_queue (sk_feed (batch_frames (sk_key_type t) MSG_OUTER_DATA fs) t) =
      resp_queue t @ map msg_bytes (sk_probe_msgs (sk_ht t) (outer_total t) (sk_session_id t) (n_processed t) (n_matched t) fs) \<and>
    out_buf (sk_feed (batch_frames (sk_key_type t) MSG_OUTER_DATA fs) t) = out_buf t"
  using assms
proof (induction fs arbitrary: t)
  case (Cons f fs)
  let ?t = "snd (sk_send (serialize_batch (sk_key_type t) MSG_OUTER_DATA f (length f)) t)"
  have f: "length f \<le> 256" "f \<noteq> []" "list_all (\<lambda>r. key_fits (sk_key_type t) (it_key r)) f" "frames_ok (sk_key_type t) fs"
    using Cons.prems by (simp_all add: frames_ok_def)
  note s = sk_send_outer [OF f(1-3) refl refl, unfolded MSG_OUTER_DATA_def]
  have "sk_key_type ?t = sk_key_type t" by (simp add: s)
  with Cons.IH [of ?t] f(4) show ?case by (simp add: batch_frames_def s Let_def)
qed (simp add: batch_frames_def)

definition sk_pending :: "SoftwareKernel \<Rightarrow> u8 list" where
  "sk_pending t = out_buf t @ concat (resp_queue t)"

text \<open>The frames of a whole session and what the simulation answers.\<close>

definition session_frames :: "JoinConfig \<Rightarrow> u8 \<Rightarrow> InputTuple list list \<Rightarrow> InputTuple list list \<Rightarrow> u8 list list" where
  "session_frames cfg sid ifs ofs =
     serialize_configure cfg (of_nat (length (concat ifs))) (of_nat (length (concat ofs))) sid #
     batch_frames (jc_key_type cfg) MSG_INNER_DATA ifs @ batch_frames (jc_key_type cfg) MSG_OUTER_DATA ofs"

lemma first_match_rev: "map_of (rev (map tuple_entry inner)) = first_match (rev inner)"
  by (simp add: first_match_def rev_map)

lemma sk_session:
  assumes fr: "frames_ok (jc_key_type cfg) ifs" "frames_ok (jc_key_type cfg) ofs" and t: "sk_pending t = []"
  shows "\<exists>ms. sk_pending (sk_feed (session_frames cfg sid ifs ofs) t) = bytes_of ms \<and>
    pairs_of ms = probe_pairs (first_match (rev (concat ifs))) (concat ofs)"
proof -
  let ?n = "of_nat (length (concat ofs))"
  let ?b = "KStatus MSG_ACK PHASE_BUILDING 0 0 512 sid"
  define t1 where "t1 = snd (sk_send (serialize_configure cfg (of_nat (length (concat ifs))) ?n sid) t)"
  have t1: "sk_key_type t1 = jc_key_type cfg" "sk_ht t1 = Map.empty" "out_buf t1 = out_buf t" "resp_queue t1 = resp_queue t @ [msg_bytes ?b]"
    "outer_total t1 = ?n" "sk_session_id t1 = sid" "n_processed t1 = 0" "n_matched t1 = 0"
    using sk_send_configure [of cfg "of_nat (length (concat ifs))" ?n sid "[]" t] by (simp_all add: t1_def)
  define t2 where "t2 = sk_feed (batch_frames (jc_key_type cfg) MSG_INNER_DATA ifs) t1"
  have t2: "sk_key_type t2 = jc_key_type cfg" "sk_ht t2 = first_match (rev (concat ifs))" "out_buf t2 = out_buf t"
    "resp_queue t2 = resp_queue t @ map msg_bytes (?b # replicate (length ifs) ?b)"
    "outer_total t2 = ?n" "sk_session_id t2 = sid" "n_processed t2 = 0" "n_matched t2 = 0"
    using sk_feed_inner [of t1 ifs] fr(1) t1 by (simp_all add: t2_def first_match_rev map_replicate_const del: msg_bytes.simps)
  let ?ms = "(?b # replicate (length ifs) ?b) @ sk_probe_msgs (first_match (rev (concat ifs))) ?n sid 0 0 ofs"
  have "sk_feed (session_frames cfg sid ifs ofs) t = sk_feed (batch_frames (jc_key_type cfg) MSG_OUTER_DATA ofs) t2"
    by (simp add: session_frames_def t1_def t2_def)
  then have "sk_pending (sk_feed (session_frames cfg sid ifs ofs) t) = bytes_of ?ms"
    using sk_feed_outer [of t2 ofs] fr(2) t2 t by (simp add: sk_pending_def bytes_of_def del: msg_bytes.simps)
  moreover have "pairs_of (replicate n ?b) = []" for n by (induction n) simp_all
  then have "pairs_of ?ms = probe_pairs (first_match (rev (concat ifs))) (concat ofs)" by (simp add: sk_probe_pairs)
  ultimately show ?thesis by blast
qed

lemma map_of_rev:
  assumes "distinct (map fst xs)"
  shows "map_of (rev xs) = map_of xs"
proof (rule ext)
  fix k
  have "map_of (rev xs) k = Some v \<longleftrightarrow> map_of xs k = Some v" for v
    using assms by (simp add: map_of_eq_Some_iff rev_map [symmetric])
  then show "map_of (rev xs) k = map_of xs k" by (metis not_None_eq)
qed

lemma first_match_distinct: "distinct (map it_key inner) \<Longrightarrow> first_match (rev inner) = first_match inner"
  using map_of_rev [of "map tuple_entry inner"] by (simp add: first_match_def rev_map tuple_entry_def comp_def)

section \<open>A byte channel\<close>

lemma sk_refill_mock: "sk_refill buf q = mock_refill buf q"
  by (induction buf q rule: sk_refill.induct) (subst sk_refill.simps, subst mock_refill.simps, auto split: list.split)

interpretation sk: byte_channel sk_transport sk_pending
proof
  fix n :: nat and t :: SoftwareKernel
  assume n: "0 < n"
  obtain buf q where r: "sk_refill (out_buf t) (resp_queue t) = (buf, q)" by fastforce
  let ?m = "min n (length buf)"
  have p: "sk_pending t = buf @ concat q"
    using mock_refill_concat r by (simp add: sk_pending_def sk_refill_mock)
  have "buf = [] \<Longrightarrow> sk_pending t = []"
    using p r mock_refill_empty by (fastforce simp: sk_refill_mock)
  with n p r show "\<exists>m t'. it_recv sk_transport n t = (Inr (take m (sk_pending t)), t') \<and>
      sk_pending t' = drop m (sk_pending t) \<and> m \<le> n \<and> m \<le> length (sk_pending t) \<and> (sk_pending t \<noteq> [] \<longrightarrow> 0 < m)"
    by (intro exI [of _ ?m] exI [of _ "t\<lparr>out_buf := drop ?m buf, resp_queue := q\<rparr>"])
      (auto simp: sk_transport_def sk_recv_def Let_def sk_pending_def)
qed

section \<open>The client on the simulation\<close>

context byte_channel
begin

text \<open>A status frame of the session at the front of the input ends a wait at once.\<close>

lemma ss_collect_status:
  assumes tr: "ss_transport ss = tr" and clk: "clock_calm (ss_clock ss) (ss_cfg ss)" and fuel: "0 < ss_fuel ss"
    and ty: "ty = MSG_ACK \<or> ty = MSG_STATUS" and pend: "pending (fc_transport s) = msg_bytes (KStatus ty ph pr ma cr (fc_session_id s)) @ rest"
  shows "\<exists>s'. ss_collect ss kind out s = (Inr (ack_of ph pr ma cr (fc_session_id s), out), s') \<and> pending (fc_transport s') = rest"
proof -
  obtain n where n: "ss_fuel ss = Suc n" using fuel by (cases "ss_fuel ss") auto
  obtain t' where "recv_frame tr (fc_decoder s, fc_transport s) =
      (Inr (host_frame (KStatus ty ph pr ma cr (fc_session_id s))), note_timing (host_frame (KStatus ty ph pr ma cr (fc_session_id s))) (fc_decoder s), t')"
    "pending t' = rest"
    using recv_frame_msg [OF pend] ty by auto
  with ty show ?thesis
    by (auto simp: ss_collect_def collect_until_ack_def n tr now_def timed_recv_def clock_calmD [OF clk] Let_def stale_def ack_of_def)
qed

end

text \<open>The simulation during a build phase: it reads keys as the client writes them, and its first answer
  waiting is an acknowledgement of no rows.\<close>

definition sk_building :: "u8 \<Rightarrow> u8 \<Rightarrow> SoftwareKernel \<Rightarrow> bool" where
  "sk_building kt sid t \<longleftrightarrow> sk_key_type t = kt \<and> sk_session_id t = sid"

definition sk_ack_waits :: "u8 \<Rightarrow> SoftwareKernel \<Rightarrow> bool" where
  "sk_ack_waits sid t \<longleftrightarrow> prefix (msg_bytes (KStatus MSG_ACK PHASE_BUILDING 0 0 512 sid)) (sk_pending t)"

lemma reads_keep_building: "reads_keep sk_transport (sk_building kt sid)"
  by (auto simp: reads_keep_def sk_building_def sk_transport_def sk_recv_def Let_def split: prod.split)

lemma sk_send_builds:
  assumes "length f \<le> 256" "f \<noteq> []" "list_all (\<lambda>r. key_fits kt (it_key r)) f" "sk_building kt sid t"
  shows "\<exists>t'. sk_send (serialize_batch kt MSG_INNER_DATA f (length f)) t = (Inr (), t') \<and> sk_building kt sid t' \<and>
    (sk_ack_waits sid t \<or> sk_pending t = [] \<longrightarrow> sk_ack_waits sid t')"
proof -
  obtain t' where t': "sk_send (serialize_batch kt MSG_INNER_DATA f (length f)) t = (Inr (), t')" "sk_building kt sid t'"
    "sk_pending t' = sk_pending t @ msg_bytes (KStatus MSG_ACK PHASE_BUILDING 0 0 512 sid)"
    using sk_send_inner [of f t] assms by (auto simp: sk_building_def sk_pending_def simp del: msg_bytes.simps)
  then show ?thesis unfolding sk_ack_waits_def by (metis append_Nil prefix_append prefix_order.order_refl)
qed

lemma sk_fill:
  assumes tr: "ss_transport ss = sk_transport" and m: "0 < unat (max_batch_tuples (ss_cfg ss))" "unat (max_batch_tuples (ss_cfg ss)) \<le> 256"
    and kt: "kt = jc_key_type (ss_join ss)" and keys: "list_all (\<lambda>r. key_fits kt (it_key r)) rows"
  shows "sk_building kt sid (fc_transport s) \<Longrightarrow> sk_ack_waits sid (fc_transport s) \<or> sk_pending (fc_transport s) = [] \<and> inflight = [] \<Longrightarrow>
    \<exists>sent' inflight' s'. fill_window ss MSG_INNER_DATA bucket rows sent inflight s = (Inr (sent', inflight'), s') \<and>
      same_session s s' \<and> sk_building kt sid (fc_transport s') \<and>
      (fill_go ss rows sent inflight s \<or> inflight \<noteq> [] \<longrightarrow> inflight' \<noteq> [] \<and> sk_ack_waits sid (fc_transport s'))"
proof (induction "unat (ack_window_frames (ss_cfg ss)) - length inflight" arbitrary: sent inflight s rule: less_induct)
  case less
  show ?case
  proof (cases "fill_go ss rows sent inflight s")
    case False
    with less.prems show ?thesis by (auto simp: fill_window_stop)
  next
    case True
    define batch where "batch = fill_batch ss rows sent s"
    define g where "g = take batch (drop sent rows)"
    define s1 where "s1 = s\<lparr>fc_credit := spend (fc_credit s) batch\<rparr>"
    note b = fill_batch_size [OF True m(1) batch_def]
    have g: "length g = batch" "length g \<le> 256" "g \<noteq> []" "list_all (\<lambda>r. key_fits kt (it_key r)) g"
      using b m keys True by (auto simp: g_def fill_go_def list_all_iff dest: in_set_takeD in_set_dropD)
    obtain t1 where t1: "sk_send (serialize_batch kt MSG_INNER_DATA g batch) (fc_transport s1) = (Inr (), t1)"
      "sk_building kt sid t1" "sk_ack_waits sid t1"
      using sk_send_builds [OF g(2-4), of sid "fc_transport s1"] less.prems(1,2) g(1) by (auto simp: s1_def)
    obtain s2 where send: "ss_send ss (serialize_batch kt MSG_INNER_DATA g batch) MSG_INNER_DATA bucket s1 = (Inr (), s2)"
      "fc_transport s2 = t1" "same_session s1 s2"
      using t1(1) by (auto simp: ss_send_def send_counted_def tr sk_transport_def now_def Let_def same_session_def)
    have step: "fill_window ss MSG_INNER_DATA bucket rows sent inflight s = fill_window ss MSG_INNER_DATA bucket rows (sent + batch) (inflight @ [batch]) s2"
      using fill_window_step [OF True batch_def, of MSG_INNER_DATA bucket] send(1) by (simp add: g_def s1_def kt)
    have "\<exists>sent' inflight' s'. fill_window ss MSG_INNER_DATA bucket rows (sent + batch) (inflight @ [batch]) s2 = (Inr (sent', inflight'), s') \<and>
      same_session s2 s' \<and> sk_building kt sid (fc_transport s') \<and>
      (fill_go ss rows (sent + batch) (inflight @ [batch]) s2 \<or> inflight @ [batch] \<noteq> [] \<longrightarrow> inflight' \<noteq> [] \<and> sk_ack_waits sid (fc_transport s'))"
      using True t1(2,3) send(2) by (intro less.hyps) (auto simp: fill_go_def)
    with step send(3) show ?thesis by (auto simp: s1_def same_session_def)
  qed
qed

lemma sk_build_throws:
  assumes tr: "ss_transport ss = sk_transport" and clk: "clock_calm (ss_clock ss) (ss_cfg ss)" and fuel: "0 < ss_fuel ss"
    and m: "0 < unat (max_batch_tuples (ss_cfg ss))" "unat (max_batch_tuples (ss_cfg ss)) \<le> 256" and w: "0 < unat (ack_window_frames (ss_cfg ss))"
    and keys: "list_all (\<lambda>r. key_fits (jc_key_type (ss_join ss)) (it_key r)) inner" and ne: "inner \<noteq> []"
    and s: "sk_building (jc_key_type (ss_join ss)) (fc_session_id s) (fc_transport s)" "sk_pending (fc_transport s) = []" "fc_credit s = 512"
  shows "fst (client_build_loop (Suc n) ss inner 0 [] 0 s) = Inl (FpgaException ''FPGA build ACK did not advance rows_processed'')"
proof -
  let ?sid = "fc_session_id s"
  have "fill_go ss inner 0 [] s" using ne w s(3) m(2) by (auto simp: fill_go_def word_less_nat_alt)
  then obtain sent inflight s1 where fill: "fill_window ss MSG_INNER_DATA build_send_ms_update inner 0 [] s = (Inr (sent, inflight), s1)"
    and s1: "same_session s s1" "inflight \<noteq> []" "sk_ack_waits ?sid (fc_transport s1)"
    using sk_fill [OF tr m refl keys, of ?sid s "[]" build_send_ms_update 0] s(1,2) by blast
  then obtain rest where "sk_pending (fc_transport s1) = msg_bytes (KStatus MSG_ACK PHASE_BUILDING 0 0 512 (fc_session_id s1)) @ rest"
    by (auto simp: sk_ack_waits_def same_session_def elim!: prefixE simp del: msg_bytes.simps)
  then obtain s2 where "ss_collect ss Build [] s1 = (Inr (ack_of PHASE_BUILDING 0 0 512 (fc_session_id s1), []), s2)"
    using sk.ss_collect_status [OF tr clk fuel, of MSG_ACK s1] by blast
  with fill s1(2) ne show ?thesis by (simp add: build_fill_def ack_of_def apply_cumulative_ack_def)
qed

lemma sk_run_throws:
  assumes ss: "ss = new_session sk_transport clk cfg fuel j" and clk: "clock_calm clk (client_cfg cfg)" and fuel: "0 < fuel"
    and co: "\<not> coalesce_config_first_inner cfg"
    and keys: "list_all (\<lambda>r. key_fits (jc_key_type j) (it_key r)) inner" and ne: "inner \<noteq> []" and s: "sk_pending (fc_transport s) = []"
  shows "fst (run_hash_join ss inner outer s) = Inl (FpgaException ''FPGA build ACK did not advance rows_processed'')"
proof -
  let ?s = "snd (now clk (start_session ss s))"
  let ?C = "serialize_configure j (of_nat (length inner)) (of_nat (length outer)) (fc_session_id ?s)"
  have cfg: "ss_transport ss = sk_transport" "ss_clock ss = clk" "ss_cfg ss = client_cfg cfg" "ss_fuel ss = fuel" "ss_join ss = j"
    by (simp_all add: ss new_session_def)
  have mb: "0 < unat (max_batch_tuples (ss_cfg ss))" "unat (max_batch_tuples (ss_cfg ss)) \<le> 256" "0 < unat (ack_window_frames (ss_cfg ss))"
    unfolding cfg by (rule client_cfg_batch)+ (auto simp: client_cfg_def Let_def unat_gt_0)
  have co': "coalesced ss inner = []" using co by (simp add: coalesced_def cfg client_cfg_def Let_def)
  obtain s1 where s1: "ss_send ss ?C MSG_CONFIGURE config_send_ms_update ?s = (Inr (), s1)" "same_session ?s s1"
    "sk_building (jc_key_type j) (fc_session_id s1) (fc_transport s1)"
    "sk_pending (fc_transport s1) = msg_bytes (KStatus MSG_ACK PHASE_BUILDING 0 0 512 (fc_session_id s1)) @ []"
    using sk_send_configure [of j "of_nat (length inner)" "of_nat (length outer)" "fc_session_id ?s" "[]" "fc_transport ?s"] s
    by (auto simp: ss_send_def send_counted_def cfg sk_transport_def now_def Let_def same_session_def sk_building_def sk_pending_def
        simp del: msg_bytes.simps)
  obtain s2 where s2: "ss_collect ss Config [] s1 = (Inr (ack_of PHASE_BUILDING 0 0 512 (fc_session_id s1), []), s2)" "sk_pending (fc_transport s2) = []"
    using sk.ss_collect_status [OF cfg(1) _ _ _ s1(4), of Config "[]"] clk fuel cfg by auto
  have "waits (sk_building (jc_key_type j) (fc_session_id s1)) s1 s2"
    using collect_until_ack_waits [OF reads_keep_building] s2(1) cfg(1) by (simp add: ss_collect_def)
  then have b: "sk_building (jc_key_type j) (fc_session_id s2) (fc_transport s2)" using s1(3) by (simp add: waits_def same_session_def)
  let ?s2 = "snd (now clk (s2\<lparr>fc_credit := 512\<rparr>))"
  have conf: "client_config_phase ss inner (length outer) ?s = (Inr 0, s2\<lparr>fc_credit := 512\<rparr>)"
    unfolding client_config_phase_eq [OF mb(2)] using s1(1) s2(1) by (simp add: co' cfg ack_of_def)
  obtain n where n: "fuel = Suc n" using fuel by (cases fuel) auto
  have "fst (client_build_loop fuel ss inner 0 [] 0 ?s2) = Inl (FpgaException ''FPGA build ACK did not advance rows_processed'')"
    unfolding n using sk_build_throws [OF cfg(1) _ _ mb _ ne, of ?s2 n] clk fuel keys b s2(2) by (simp add: cfg now_def)
  then obtain s3 where "client_build_loop fuel ss inner 0 [] 0 ?s2 = (Inl (FpgaException ''FPGA build ACK did not advance rows_processed''), s3)"
    by (metis prod.collapse)
  then have "client_build_phase ss inner 0 (s2\<lparr>fc_credit := 512\<rparr>) = (Inl (FpgaException ''FPGA build ACK did not advance rows_processed''), s3)"
    by (simp add: client_build_phase_def cfg)
  with conf show ?thesis by (simp add: run_hash_join_def client_session_def cfg now_def)
qed

section \<open>Properties\<close>

lemma concat_session_frames:
  "concat (session_frames cfg sid ifs ofs) =
     serialize_configure cfg (of_nat (length (concat ifs))) (of_nat (length (concat ofs))) sid @
     host_frames (jc_key_type cfg) MSG_INNER_DATA ifs @ host_frames (jc_key_type cfg) MSG_OUTER_DATA ofs"
  by (simp add: session_frames_def batch_frames_def host_frames_def)

lemma kernel_session_pairs:
  assumes "jc_algorithm cfg = ALGORITHM_A" "frames_ok (jc_key_type cfg) ifs" "frames_ok (jc_key_type cfg) ofs"
    "length (concat ifs) \<le> unat HT_MAX_ROWS" "length (concat ofs) < 2 ^ 32" "length ofs \<le> 1000000"
    "fst (build_all ht_insert (ht_reset (k_ht k)) (concat ifs)) = ERR_NONE"
    "k_rx k = map Some (concat (session_frames cfg sid ifs ofs))"
  shows "\<exists>ms k'. kernel_session synth rtl k = (Continue, k') \<and> k_tx k' = k_tx k @ tx_of ms \<and> pairs_of ms = join_spec (concat ifs) (concat ofs)"
proof -
  obtain h where h: "build_all ht_insert (ht_reset (k_ht k)) (concat ifs) = (ERR_NONE, h)"
    using assms(7) by (cases "build_all ht_insert (ht_reset (k_ht k)) (concat ifs)") auto
  let ?c = "session_config cfg (of_nat (length (concat ifs))) (of_nat (length (concat ofs))) sid"
  let ?ms = "linear_session_msgs synth (ht_lookup h) ?c ifs ofs"
  obtain k' where k': "kernel_session synth rtl k = (Continue, k')"
    "session_done_with sid (of_nat (length (concat ofs))) (of_nat (length (probe_pairs (ht_lookup h) (concat ofs)))) (k_tx k @ tx_of ?ms) k'"
    using kernel_session_linear [OF assms(1-3) refl refl assms(4-6) h, of sid "[]" synth rtl] assms(8) by (auto simp: concat_session_frames)
  have "probe_pairs (ht_lookup h) (concat ofs) = join_spec (concat ifs) (concat ofs)"
    using lht.build_then_probe [of "k_ht k" "concat ifs" "concat ofs"] h by simp
  with k' show ?thesis
    by (intro exI [of _ "?ms @ [KTiming (k_timing k'), KStatus MSG_STATUS PHASE_DONE (of_nat (length (concat ofs)))
        (of_nat (length (probe_pairs (ht_lookup h) (concat ofs)))) 0 sid]"] exI [of _ k'])
      (simp add: session_done_with_def pairs_of_linear_session_msgs)
qed

text \<open>C24. The simulation and the kernel find the same pairs: fed with the frames of one session whose
  inner keys are distinct, both answer with the same result pairs in the same order.\<close>

theorem software_kernel_equivalent:
  assumes "jc_algorithm cfg = ALGORITHM_A" "frames_ok (jc_key_type cfg) ifs" "frames_ok (jc_key_type cfg) ofs"
    and "distinct (map it_key (concat ifs))"
    and "length (concat ifs) \<le> unat HT_MAX_ROWS" "length (concat ofs) < 2 ^ 32" "length ofs \<le> 1000000"
    and "fst (build_all ht_insert (ht_reset (k_ht k)) (concat ifs)) = ERR_NONE"
    and "k_rx k = map Some (concat (session_frames cfg sid ifs ofs))" and "sk_pending t = []"
  shows "\<exists>ms ms' k'. sk_pending (sk_feed (session_frames cfg sid ifs ofs) t) = bytes_of ms \<and>
    kernel_session synth rtl k = (Continue, k') \<and> k_tx k' = k_tx k @ tx_of ms' \<and> pairs_of ms = pairs_of ms'"
proof -
  obtain ms where "sk_pending (sk_feed (session_frames cfg sid ifs ofs) t) = bytes_of ms" "pairs_of ms = join_spec (concat ifs) (concat ofs)"
    using sk_session [OF assms(2,3,10), of sid] first_match_distinct [OF assms(4)] by (auto simp: join_spec_def)
  with kernel_session_pairs [OF assms(1-3,5-9), of synth rtl] show ?thesis by metis
qed

theorem software_kernel_equivalent_witness:
  "let cfg = \<lparr>jc_algorithm = ALGORITHM_A, jc_key_type = KEY_INT32\<rparr>;
       ifs = [[\<lparr>it_key = 7, it_tid = \<lparr>blkno = 0, offno = 1\<rparr>\<rparr>], [\<lparr>it_key = 9, it_tid = \<lparr>blkno = 0, offno = 2\<rparr>\<rparr>]];
       ofs = [[\<lparr>it_key = 9, it_tid = \<lparr>blkno = 1, offno = 1\<rparr>\<rparr>, \<lparr>it_key = 8, it_tid = \<lparr>blkno = 1, offno = 2\<rparr>\<rparr>]]
   in \<exists>ms ms' k'. sk_pending (sk_feed (session_frames cfg 9 ifs ofs) sk_blank) = bytes_of ms \<and>
     kernel_session False rtl_absent (kernel_blank (map Some (concat (session_frames cfg 9 ifs ofs)))) = (Continue, k') \<and>
     k_tx k' = tx_of ms' \<and> pairs_of ms = pairs_of ms'"
proof -
  let ?cfg = "\<lparr>jc_algorithm = ALGORITHM_A, jc_key_type = KEY_INT32\<rparr>"
  let ?ifs = "[[\<lparr>it_key = 7, it_tid = \<lparr>blkno = 0, offno = 1\<rparr>\<rparr>], [\<lparr>it_key = 9, it_tid = \<lparr>blkno = 0, offno = 2\<rparr>\<rparr>]] :: InputTuple list list"
  let ?ofs = "[[\<lparr>it_key = 9, it_tid = \<lparr>blkno = 1, offno = 1\<rparr>\<rparr>, \<lparr>it_key = 8, it_tid = \<lparr>blkno = 1, offno = 2\<rparr>\<rparr>]] :: InputTuple list list"
  let ?k = "kernel_blank (map Some (concat (session_frames ?cfg 9 ?ifs ?ofs)))"
  have "fst (build_all ht_insert (ht_reset ht_blank) (concat ?ifs)) = ERR_NONE" by code_simp
  then have b: "fst (build_all ht_insert (ht_reset (k_ht ?k)) (concat ?ifs)) = ERR_NONE" by (simp only: kernel_blank_def KernelState.simps)
  have f: "frames_ok (jc_key_type ?cfg) ?ifs" "frames_ok (jc_key_type ?cfg) ?ofs" by (simp_all add: frames_ok_def key_fits_def)
  have "\<exists>ms ms' k'. sk_pending (sk_feed (session_frames ?cfg 9 ?ifs ?ofs) sk_blank) = bytes_of ms \<and>
     kernel_session False rtl_absent ?k = (Continue, k') \<and> k_tx k' = k_tx ?k @ tx_of ms' \<and> pairs_of ms = pairs_of ms'"
    by (rule software_kernel_equivalent [OF _ f _ _ _ _ b]) (simp_all add: kernel_blank_def sk_blank_def sk_pending_def)
  then show ?thesis unfolding Let_def by (simp only: kernel_blank_def KernelState.simps append_Nil)
qed



end
