(* ===== verification/Posix_Base.thy ===== *)
theory Posix_Base
  imports Host_Transport
begin

text \<open>
  What the transports use of the system: calls that fail with an error number, turned into the exceptions
  the code throws, and decimal numbers as text. The calls themselves are parameters of the transports.
\<close>

section \<open>System calls\<close>

text \<open>A failed call leaves an error number; all but \<open>EINTR\<close> matter by their text only.\<close>

datatype errno = EINTR | Errno string

fun strerror :: "errno \<Rightarrow> string" where
  "strerror EINTR = ''Interrupted system call''"
| "strerror (Errno msg) = msg"

definition throw_posix :: "string \<Rightarrow> errno \<Rightarrow> exn" where
  "throw_posix ctx e = TransportError (ctx @ '': '' @ strerror e)"

text \<open>A call whose failure is thrown at once.\<close>

definition sys :: "string \<Rightarrow> ('o \<Rightarrow> (errno + 'a) \<times> 'o) \<Rightarrow> 'o \<Rightarrow> (exn + 'a) \<times> 'o" where
  "sys ctx call os = (case call os of (Inl e, os) \<Rightarrow> (Inl (throw_posix ctx e), os) | (Inr a, os) \<Rightarrow> (Inr a, os))"

section \<open>Decimal numbers\<close>

definition digit_char :: "nat \<Rightarrow> char" where
  "digit_char d = char_of (48 + d)"

fun to_string :: "nat \<Rightarrow> string" where
  "to_string n = (if n < 10 then [digit_char n] else to_string (n div 10) @ [digit_char (n mod 10)])"

declare to_string.simps [simp del]

definition is_digit :: "char \<Rightarrow> bool" where
  "is_digit c \<longleftrightarrow> 48 \<le> (of_char c :: nat) \<and> (of_char c :: nat) \<le> 57"

text \<open>\<open>strtoul\<close> on a text of digits: the value, or \<open>ULONG_MAX\<close> when it does not fit.\<close>

definition decimal :: "string \<Rightarrow> nat" where
  "decimal s = foldl (\<lambda>a c. a * 10 + (of_char c - 48)) 0 s"

definition strtoul :: "string \<Rightarrow> u64" where
  "strtoul s = (if decimal s < 2 ^ 64 then of_nat (decimal s) else - 1)"

lemma digit_char_nat: "d < 10 \<Longrightarrow> (of_char (digit_char d) :: nat) = 48 + d"
  by (simp add: digit_char_def)

lemma digit_char_digits [simp]:
  "digit_char 0 = CHR ''0''" "digit_char 1 = CHR ''1''" "digit_char (Suc 0) = CHR ''1''" "digit_char 2 = CHR ''2''" "digit_char 3 = CHR ''3''" "digit_char 4 = CHR ''4''"
  "digit_char 5 = CHR ''5''" "digit_char 6 = CHR ''6''" "digit_char 7 = CHR ''7''" "digit_char 8 = CHR ''8''" "digit_char 9 = CHR ''9''"
  by code_simp+

lemma is_digit_char [simp]: "d < 10 \<Longrightarrow> is_digit (digit_char d)"
  by (simp add: is_digit_def digit_char_nat)

lemma to_string_digits: "list_all is_digit (to_string n)"
  by (induction n rule: to_string.induct) (subst to_string.simps, simp)

lemma to_string_nonempty [simp]: "to_string n \<noteq> []"
  by (subst to_string.simps) simp

lemma decimal_to_string [simp]: "decimal (to_string n) = n"
proof (induction n rule: to_string.induct)
  case (1 n)
  then show ?case
    by (subst to_string.simps) (simp add: decimal_def digit_char_nat)
qed

lemma strtoul_to_string: "n < 2 ^ 64 \<Longrightarrow> strtoul (to_string n) = of_nat n"
  by (simp add: strtoul_def)

end
