(* ===== verification/Uart_Transport.thy ===== *)
theory Uart_Transport
  imports Posix_Base Host_Kernel
begin

text \<open>
  The serial transport (\<^verbatim>\<open>src/host/src/uart_transport.cpp\<close>, the POSIX half). The terminal interface is the
  parameter \<open>dev\<close>, a table of its calls on a state of the operating system; \<open>c_raw\<close> of \<open>Termios\<close> stands for the
  flags \<open>cfmakeraw\<close> sets. The locale \<open>tty_board\<close> is the contract of a line to a board; the transport turns it
  into the contract \<open>board\<close> of the client, and a line to the kernel fulfils it.
\<close>

section \<open>The serial line\<close>

datatype speed = B9600 | B19200 | B38400 | B57600 | B115200 | B230400 | B460800 | B921600

record Termios =
  c_ispeed :: speed
  c_ospeed :: speed
  c_raw :: bool
  c_vtime :: u8
  c_vmin :: u8

record 'o Tty =
  tty_open :: "string \<Rightarrow> 'o \<Rightarrow> (errno + unit) \<times> 'o"
  tty_getattr :: "'o \<Rightarrow> (errno + Termios) \<times> 'o"
  tty_setattr :: "Termios \<Rightarrow> 'o \<Rightarrow> (errno + unit) \<times> 'o"
  tty_flush :: "'o \<Rightarrow> 'o"
  tty_write :: "u8 list \<Rightarrow> 'o \<Rightarrow> (errno + nat) \<times> 'o"
  tty_read :: "nat \<Rightarrow> 'o \<Rightarrow> (errno + u8 list) \<times> 'o"
  tty_close :: "'o \<Rightarrow> 'o"

section \<open>The transport\<close>

definition baud_to_speed :: "u32 \<Rightarrow> exn + speed" where
  "baud_to_speed baud =
     (if baud = 9600 then Inr B9600 else if baud = 19200 then Inr B19200
      else if baud = 38400 then Inr B38400 else if baud = 57600 then Inr B57600
      else if baud = 115200 then Inr B115200 else if baud = 230400 then Inr B230400
      else if baud = 460800 then Inr B460800 else if baud = 921600 then Inr B921600
      else Inl (TransportError (''UartTransport: unsupported baud rate '' @ to_string (unat baud))))"

definition vtime_tenths :: "u32 \<Rightarrow> u32" where
  "vtime_tenths recv_timeout_ms =
     (let v = (recv_timeout_ms + 99) div 100;
          v = (if v = 0 then 1 else v)
      in if v > 255 then 255 else v)"

definition raw_settings :: "speed \<Rightarrow> u32 \<Rightarrow> Termios \<Rightarrow> Termios" where
  "raw_settings spd recv_timeout_ms tty =
     tty\<lparr>c_ispeed := spd, c_ospeed := spd, c_raw := True, c_vtime := ucast (vtime_tenths recv_timeout_ms), c_vmin := 0\<rparr>"

definition uart_open :: "'o Tty \<Rightarrow> string \<Rightarrow> u32 \<Rightarrow> u32 \<Rightarrow> 'o \<Rightarrow> (exn + unit) \<times> 'o" where
  "uart_open dev port baud_rate recv_timeout_ms =
     bindx (sys (''UartTransport: open '' @ port) (tty_open dev port)) (\<lambda>_.
       bindx (sys ''UartTransport: tcgetattr'' (tty_getattr dev)) (\<lambda>tty os.
         case baud_to_speed baud_rate of
           Inl e \<Rightarrow> (Inl e, os)
         | Inr spd \<Rightarrow>
             bindx (sys ''UartTransport: tcsetattr'' (tty_setattr dev (raw_settings spd recv_timeout_ms tty)))
               (\<lambda>_ os. (Inr (), tty_flush dev os)) os))"

text \<open>The write loop. A call that writes nothing makes the code try again; \<open>fuel\<close> bounds these calls.\<close>

function uart_send_loop :: "'o Tty \<Rightarrow> nat \<Rightarrow> u8 list \<Rightarrow> 'o \<Rightarrow> (exn + unit) \<times> 'o" where
  "uart_send_loop dev fuel p os =
     (if p = [] then (Inr (), os)
      else case sys ''UartTransport: write'' (tty_write dev p) os of
        (Inl e, os) \<Rightarrow> (Inl e, os)
      | (Inr n, os) \<Rightarrow>
          if n \<noteq> 0 then uart_send_loop dev fuel (drop n p) os
          else case fuel of 0 \<Rightarrow> (Inl Diverged, os) | Suc fuel \<Rightarrow> uart_send_loop dev fuel p os)"
  by pat_completeness auto
termination
  by (relation "measure (\<lambda>(dev, fuel, p, os). length p + fuel)") auto

declare uart_send_loop.simps [simp del]

definition uart_recv :: "'o Tty \<Rightarrow> nat \<Rightarrow> 'o \<Rightarrow> (exn + u8 list) \<times> 'o" where
  "uart_recv dev max_len = sys ''UartTransport: read'' (tty_read dev max_len)"

definition uart_reset :: "'o Tty \<Rightarrow> 'o \<Rightarrow> 'o" where
  "uart_reset dev = tty_flush dev"

definition uart_transport :: "'o Tty \<Rightarrow> nat \<Rightarrow> 'o ITransport" where
  "uart_transport dev fuel =
     \<lparr>it_send = uart_send_loop dev fuel, it_recv = uart_recv dev, it_reset = (\<lambda>os. (Inr (), uart_reset dev os))\<rparr>"

section \<open>The contract of a line to a board\<close>

locale tty_board =
  fixes dev :: "'o Tty" and future :: "'o \<Rightarrow> u8 list \<Rightarrow> u8 list"
  assumes write_some: "p \<noteq> [] \<Longrightarrow> \<exists>n os'. tty_write dev p os = (Inr n, os') \<and> 0 < n \<and> n \<le> length p \<and>
      (\<forall>x. future os' x = future os (take n p @ x))"
    and read_some: "0 < n \<Longrightarrow> \<exists>m os'. tty_read dev n os = (Inr (take m (future os [])), os') \<and>
      (\<forall>x. future os' x = drop m (future os x)) \<and> m \<le> n \<and> m \<le> length (future os []) \<and> (future os [] \<noteq> [] \<longrightarrow> 0 < m)"
    and read_nothing: "tty_read dev 0 os = (Inr [], os)"
begin

lemma uart_send_future:
  "\<exists>os'. uart_send_loop dev fuel p os = (Inr (), os') \<and> (\<forall>x. future os' x = future os (p @ x))"
proof (induction "length p" arbitrary: p os rule: less_induct)
  case less
  show ?case
  proof (cases "p = []")
    case False
    then obtain n os1 where n: "tty_write dev p os = (Inr n, os1)" "0 < n" "n \<le> length p"
      "\<forall>x. future os1 x = future os (take n p @ x)" using write_some by blast
    obtain os2 where "uart_send_loop dev fuel (drop n p) os1 = (Inr (), os2)" "\<forall>x. future os2 x = future os1 (drop n p @ x)"
      using less [of "drop n p" os1] n(2,3) False by auto
    moreover from n False have "uart_send_loop dev fuel p os = uart_send_loop dev fuel (drop n p) os1"
      by (subst uart_send_loop.simps) (simp add: sys_def)
    moreover have "future os1 (drop n p @ x) = future os (p @ x)" for x
      using n(4) [rule_format, of "drop n p @ x"] by (simp flip: append.assoc)
    ultimately show ?thesis by (intro exI [of _ os2]) simp
  qed (simp add: uart_send_loop.simps)
qed

end

sublocale tty_board \<subseteq> board "uart_transport dev fuel" future for fuel
proof
  fix data os
  show "\<exists>os'. it_send (uart_transport dev fuel) data os = (Inr (), os') \<and> (\<forall>x. future os' x = future os (data @ x))"
    unfolding uart_transport_def using uart_send_future by simp
next
  fix n os
  assume "0 < (n :: nat)"
  from read_some [OF this, of os] show "\<exists>m os'. it_recv (uart_transport dev fuel) n os = (Inr (take m (future os [])), os') \<and>
      (\<forall>x. future os' x = drop m (future os x)) \<and> m \<le> n \<and> m \<le> length (future os []) \<and> (future os [] \<noteq> [] \<longrightarrow> 0 < m)"
    by (elim exE conjE) (simp add: uart_transport_def uart_recv_def sys_def, intro exI conjI, simp_all)
next
  fix os
  show "it_recv (uart_transport dev fuel) 0 os = (Inr [], os)"
    by (simp add: uart_transport_def uart_recv_def sys_def read_nothing)
qed

section \<open>A line to the kernel\<close>

text \<open>A serial line with the kernel at its other end. One call moves at most \<open>Suc c\<close> bytes, as the buffers of
  a line do.\<close>

definition line_tty :: "bool \<Rightarrow> (nat \<Rightarrow> RtlTiming) \<Rightarrow> KernelState \<Rightarrow> nat \<Rightarrow> Loopback Tty" where
  "line_tty synth rtl k c =
     \<lparr>tty_open = (\<lambda>port. Pair (Inr ())),
      tty_getattr = Pair (Inr \<lparr>c_ispeed = B9600, c_ospeed = B9600, c_raw = False, c_vtime = 0, c_vmin = 1\<rparr>),
      tty_setattr = (\<lambda>tty. Pair (Inr ())), tty_flush = (\<lambda>t. t),
      tty_write = (\<lambda>p t. (Inr (min (Suc c) (length p)), t\<lparr>lb_sent := lb_sent t @ take (Suc c) p\<rparr>)),
      tty_read = (\<lambda>n t. let chunk = take (min (Suc c) n) (loop_future synth rtl k t [])
         in (Inr chunk, t\<lparr>lb_read := lb_read t + length chunk\<rparr>)),
      tty_close = (\<lambda>t. t)\<rparr>"

interpretation line: tty_board "line_tty synth rtl k c" "loop_future synth rtl k" for synth rtl k c
proof
  fix p os
  assume "p \<noteq> ([] :: u8 list)"
  then show "\<exists>n os'. tty_write (line_tty synth rtl k c) p os = (Inr n, os') \<and> 0 < n \<and> n \<le> length p \<and>
      (\<forall>x. loop_future synth rtl k os' x = loop_future synth rtl k os (take n p @ x))"
    by (intro exI [of _ "min (Suc c) (length p)"] exI [of _ "os\<lparr>lb_sent := lb_sent os @ take (Suc c) p\<rparr>"])
      (auto simp: line_tty_def loop_future_def min_def)
next
  fix n os
  assume "0 < (n :: nat)"
  let ?out = "loop_future synth rtl k os []" and ?n = "min (Suc c) n"
  have "tty_read (line_tty synth rtl k c) n os = (Inr (take (min ?n (length ?out)) ?out), os\<lparr>lb_read := lb_read os + min ?n (length ?out)\<rparr>)"
    by (cases "?n \<le> length ?out") (simp_all add: line_tty_def Let_def min_def)
  with \<open>0 < n\<close> show "\<exists>m os'. tty_read (line_tty synth rtl k c) n os = (Inr (take m ?out), os') \<and>
      (\<forall>x. loop_future synth rtl k os' x = drop m (loop_future synth rtl k os x)) \<and> m \<le> n \<and> m \<le> length ?out \<and> (?out \<noteq> [] \<longrightarrow> 0 < m)"
    by (intro exI [of _ "min ?n (length ?out)"] exI [of _ "os\<lparr>lb_read := lb_read os + min ?n (length ?out)\<rparr>"])
      (auto simp: loop_future_def add.commute)
next
  fix os
  show "tty_read (line_tty synth rtl k c) 0 os = (Inr [], os)" by (simp add: line_tty_def)
qed

lemma vtime_tenths_bounds: "1 \<le> unat (vtime_tenths ms)" "unat (vtime_tenths ms) \<le> 255"
proof -
  have "v \<noteq> 0 \<Longrightarrow> 1 \<le> unat v" for v :: u32 by (simp add: unat_gt_0 Suc_leI)
  moreover have "\<not> v > 255 \<Longrightarrow> unat v \<le> 255" for v :: u32 by (simp add: word_less_nat_alt)
  ultimately show "1 \<le> unat (vtime_tenths ms)" "unat (vtime_tenths ms) \<le> 255"
    by (simp_all add: vtime_tenths_def Let_def)
qed

section \<open>Properties\<close>

text \<open>A baud rate the settings allow and the port does not support throws after the port has been
  opened, and the port stays open: the calls end with the reading of the attributes.\<close>

lemma unsupported_baud_leaks:
  assumes "baud_to_speed baud = Inl e" and "tty_open dev port os = (Inr (), os1)" and "tty_getattr dev os1 = (Inr tty, os2)"
  shows "uart_open dev port baud ms os = (Inl (TransportError (''UartTransport: unsupported baud rate '' @ to_string (unat baud))), os2)"
proof -
  have "e = TransportError (''UartTransport: unsupported baud rate '' @ to_string (unat baud))"
    using assms(1) unfolding baud_to_speed_def by (simp split: if_split_asm)
  with assms show ?thesis by (simp add: uart_open_def sys_def bindx_def)
qed

theorem unsupported_baud_leaks_witness:
  "uart_open (line_tty False (\<lambda>n. rtl_absent) (kernel_blank []) 7) ''/dev/ttyUSB0'' 4000000 200 loop_start =
     (Inl (TransportError ''UartTransport: unsupported baud rate 4000000''), loop_start)"
proof -
  have t: "to_string (unat (4000000 :: u32)) = ''4000000''" by (simp add: to_string.simps)
  show ?thesis
    using unsupported_baud_leaks [of 4000000 _ "line_tty False (\<lambda>n. rtl_absent) (kernel_blank []) 7" "''/dev/ttyUSB0''" loop_start loop_start
      "\<lparr>c_ispeed = B9600, c_ospeed = B9600, c_raw = False, c_vtime = 0, c_vmin = 1\<rparr>" loop_start 200, unfolded t]
    by (simp add: baud_to_speed_def line_tty_def)
qed

end
