(* ===== verification/Kernel_Causal.thy ===== *)
theory Kernel_Causal
  imports Kernel_Safety "HOL-Library.Sublist"
begin

text \<open>
  More input to the kernel (theory \<open>Hash_Join_Kernel\<close>): each phase is followed on its input and on a longer
  one. A phase that does not wait for input does the same on both; one that waits has sent a
  prefix of what it sends on the longer one. A stream may thus be cut anywhere, which is what a
  datagram transport does.
\<close>

section \<open>More input\<close>

definition feed :: "rx_stream \<Rightarrow> KernelState \<Rightarrow> KernelState" where
  "feed x k = k\<lparr>k_rx := k_rx k @ x\<rparr>"

text \<open>What more input does to a phase: a phase that did not wait for input does the same and leaves the
  rest; one that waited has sent a prefix of what it sends with more input.\<close>

definition fed :: "rx_stream \<Rightarrow> flow \<times> KernelState \<Rightarrow> flow \<times> KernelState \<Rightarrow> bool" where
  "fed x r r' \<longleftrightarrow>
     (if fst r = Blocked then prefix (k_tx (snd r)) (k_tx (snd r')) else r' = (fst r, feed x (snd r)))"

lemma feed_fields [simp]:
  "k_rx (feed x k) = k_rx k @ x" "k_tx (feed x k) = k_tx k" "k_status_reg (feed x k) = k_status_reg k"
  "k_result_count_reg (feed x k) = k_result_count_reg k" "k_error_code_reg (feed x k) = k_error_code_reg k"
  "k_ht_capacity_reg (feed x k) = k_ht_capacity_reg k" "k_rx_buf_cap_reg (feed x k) = k_rx_buf_cap_reg k"
  "k_ht (feed x k) = k_ht k" "k_inner_counts (feed x k) = k_inner_counts k" "k_outer_counts (feed x k) = k_outer_counts k"
  "k_ddr2_buf (feed x k) = k_ddr2_buf k" "k_timing (feed x k) = k_timing k" "k_session_done (feed x k) = k_session_done k"
  "k_matched (feed x k) = k_matched k" "k_result_buf (feed x k) = k_result_buf k" "k_inner_received (feed x k) = k_inner_received k"
  "k_outer_received (feed x k) = k_outer_received k" "k_ack_pending (feed x k) = k_ack_pending k"
  "k_batch_cycles (feed x k) = k_batch_cycles k"
  by (simp_all add: feed_def)

lemma feed_updates [simp]:
  "(feed x k)\<lparr>k_rx := s @ x\<rparr> = feed x (k\<lparr>k_rx := s\<rparr>)"
  "k_tx_update f1 (feed x k) = feed x (k_tx_update f1 k)"
  "k_status_reg_update f2 (feed x k) = feed x (k_status_reg_update f2 k)"
  "k_result_count_reg_update f3 (feed x k) = feed x (k_result_count_reg_update f3 k)"
  "k_error_code_reg_update f4 (feed x k) = feed x (k_error_code_reg_update f4 k)"
  "k_ht_update f5 (feed x k) = feed x (k_ht_update f5 k)"
  "k_inner_counts_update f6 (feed x k) = feed x (k_inner_counts_update f6 k)"
  "k_outer_counts_update f7 (feed x k) = feed x (k_outer_counts_update f7 k)"
  "k_timing_update f8 (feed x k) = feed x (k_timing_update f8 k)"
  "k_session_done_update f9 (feed x k) = feed x (k_session_done_update f9 k)"
  "k_matched_update f10 (feed x k) = feed x (k_matched_update f10 k)"
  "k_inner_received_update f11 (feed x k) = feed x (k_inner_received_update f11 k)"
  "k_outer_received_update f12 (feed x k) = feed x (k_outer_received_update f12 k)"
  "k_ack_pending_update f13 (feed x k) = feed x (k_ack_pending_update f13 k)"
  "k_ddr2_buf_update f14 (feed x k) = feed x (k_ddr2_buf_update f14 k)"
  by (simp_all add: feed_def)

section \<open>Readers\<close>

lemma rx_byte_feed: "rx_byte s = Some (b, s') \<Longrightarrow> rx_byte (s @ x) = Some (b, s' @ x)"
  by (induction s rule: rx_byte.induct) auto

lemma rx_u16_feed: "rx_u16 s = Some (v, s') \<Longrightarrow> rx_u16 (s @ x) = Some (v, s' @ x)"
  by (auto simp: rx_u16_def bind_eq_Some_conv rx_byte_feed)

lemma rx_u32_feed: "rx_u32 s = Some (v, s') \<Longrightarrow> rx_u32 (s @ x) = Some (v, s' @ x)"
  by (auto simp: rx_u32_def bind_eq_Some_conv rx_byte_feed)

lemma rx_i64_feed: "rx_i64 s = Some (v, s') \<Longrightarrow> rx_i64 (s @ x) = Some (v, s' @ x)"
  by (auto simp: rx_i64_def bind_eq_Some_conv rx_byte_feed)

lemma rx_tid_feed: "rx_tid s = Some (v, s') \<Longrightarrow> rx_tid (s @ x) = Some (v, s' @ x)"
  by (auto simp: rx_tid_def bind_eq_Some_conv rx_u16_feed rx_u32_feed)

lemma rx_tuple_feed: "rx_tuple kt s = Some (v, s') \<Longrightarrow> rx_tuple kt (s @ x) = Some (v, s' @ x)"
  by (auto simp: rx_tuple_def bind_eq_Some_conv rx_tid_feed rx_u32_feed rx_i64_feed split: if_splits)

lemma rx_key_feed: "rx_key kt s = Some (v, s') \<Longrightarrow> rx_key kt (s @ x) = Some (v, s' @ x)"
  by (auto simp: rx_key_def rx_u32_feed rx_i64_feed split: if_splits)

lemma rx_discard_tuple_feed: "rx_discard_tuple kt s = Some s' \<Longrightarrow> rx_discard_tuple kt (s @ x) = Some (s' @ x)"
  by (auto simp: rx_discard_tuple_def bind_eq_Some_conv rx_tid_feed rx_u32_feed rx_i64_feed split: if_splits)

lemma discard_tuples_feed: "discard_tuples kt n s = Some s' \<Longrightarrow> discard_tuples kt n (s @ x) = Some (s' @ x)"
  by (induction n arbitrary: s) (auto simp: bind_eq_Some_conv rx_discard_tuple_feed)

lemma rx_configure_feed: "rx_configure s = Some (p, s') \<Longrightarrow> rx_configure (s @ x) = Some (p, s' @ x)"
  by (auto simp: rx_configure_def bind_eq_Some_conv rx_byte_feed rx_u16_feed rx_u32_feed)

lemma rx_guard_loop_feed:
  "rx_guard_loop synth sid ctr s tx = Some (b, s', tx', d) \<Longrightarrow> rx_guard_loop synth sid ctr (s @ x) tx = Some (b, s' @ x, tx', d)"
  by (induction synth sid ctr s tx rule: rx_guard_loop.induct) (auto simp: Let_def split: if_splits)

lemma rx_byte_guarded_feed:
  "rx_byte_guarded synth s tx sid = Some (b, s', tx', d) \<Longrightarrow> rx_byte_guarded synth (s @ x) tx sid = Some (b, s' @ x, tx', d)"
  unfolding rx_byte_guarded_def by (rule rx_guard_loop_feed)

lemma rx_batch_feed:
  "rx_batch kt i n s = RxOk ts s' \<Longrightarrow> rx_batch kt i n (s @ x) = RxOk ts (s' @ x)"
  "rx_batch kt i n s = RxOverrun \<Longrightarrow> rx_batch kt i n (s @ x) = RxOverrun"
proof (induction n arbitrary: i s ts)
  case (Suc n)
  { case 1 with Suc show ?case by (fastforce simp: rx_key_feed rx_tid_feed split: option.splits if_splits rx_result.splits) }
  { case 2 with Suc show ?case by (fastforce simp: rx_key_feed rx_tid_feed split: option.splits if_splits rx_result.splits) }
qed auto

lemmas rx_feed = rx_byte_feed rx_u16_feed rx_tuple_feed discard_tuples_feed rx_configure_feed rx_byte_guarded_feed rx_batch_feed

section \<open>Phases that do not read\<close>

lemma fail_session_feed [simp]: "fail_session e (feed x k) = feed x (fail_session e k)"
  by (simp add: fail_session_def feed_def)

lemma inner_row_feed [simp]: "inner_row tu (feed x k) = feed x (inner_row tu k)"
proof -
  obtain err hs ht where "ht_build (k_ht k) (it_key tu) (it_tid tu) = (err, hs, ht)" by (cases "ht_build (k_ht k) (it_key tu) (it_tid tu)")
  then show ?thesis
    by (cases "err = ERR_NONE") (simp_all add: inner_row_def feed_def fail_session_def Let_def split del: if_split)
qed

lemma inner_batch_feed [simp]: "inner_batch ts (feed x k) = feed x (inner_batch ts k)"
  by (induction ts arbitrary: k) simp_all

lemma build_ack_feed [simp]: "build_ack c (feed x k) = feed x (build_ack c k)"
  by (simp add: build_ack_def feed_def Let_def)

lemma build_batch_feed [simp]: "build_batch synth c cnt ts (feed x k) = feed x (build_batch synth c cnt ts k)"
  by (simp add: build_batch_def Let_def)

lemma count_inner_frame_feed [simp]: "count_inner_frame c cnt (feed x k) = feed x (count_inner_frame c cnt k)"
  by (simp add: count_inner_frame_def feed_def Let_def)

lemma count_outer_frame_feed [simp]: "count_outer_frame c cnt (feed x k) = feed x (count_outer_frame c cnt k)"
  by (simp add: count_outer_frame_def feed_def Let_def)

lemma flush_result_batch_feed [simp]: "flush_result_batch (feed x k) = feed x (flush_result_batch k)"
  by (simp add: flush_result_batch_def feed_def Let_def)

lemma outer_row_feed [simp]: "outer_row synth i tu (feed x k) = feed x (outer_row synth i tu k)"
proof -
  obtain found hs where "ht_probe (k_ht k) (it_key tu) = (found, hs)" by fastforce
  then show ?thesis
    by (cases found; cases "i = 0"; cases "unat RESULT_FLUSH_PAIRS \<le> Suc (length (k_result_buf k))")
      (simp_all add: outer_row_def feed_def flush_result_batch_def Let_def split del: if_split)
qed

lemma outer_batch_feed [simp]: "outer_batch synth i ts (feed x k) = feed x (outer_batch synth i ts k)"
  by (induction ts arbitrary: i k) simp_all

lemma probe_end_feed [simp]: "probe_end rtl c (feed x k) = feed x (probe_end rtl c k)"
  by (simp add: probe_end_def max_probe_batch_def feed_def Let_def)

lemma probe_ack_feed [simp]: "probe_ack c credit (feed x k) = feed x (probe_ack c credit k)"
  by (simp add: probe_ack_def max_probe_batch_def feed_def Let_def)

lemma probe_close_feed [simp]: "probe_close rtl c cnt (feed x k) = feed x (probe_close rtl c cnt k)"
  by (cases "cnt = 0 \<or> c_outer_total c \<le> k_outer_received k") (simp_all add: probe_close_def Let_def)

lemma probe_batch_feed [simp]: "probe_batch synth rtl c cnt ts (feed x k) = feed x (probe_batch synth rtl c cnt ts k)"
  by (cases "cnt = 0") (simp_all add: probe_batch_def Let_def split del: if_split cong: if_cong)

lemma finish_session_feed [simp]: "finish_session synth rtl c (feed x k) = feed x (finish_session synth rtl c k)"
  by (simp add: finish_session_def feed_def Let_def)

lemma session_init_feed [simp]: "session_init synth (feed x k) = feed x (session_init synth k)"
  by (simp add: session_init_def feed_def)

lemma accept_configure_feed [simp]:
  "accept_configure synth p (feed x k) = apsnd (feed x) (accept_configure synth p k)"
  by (simp add: accept_configure_def fail_session_def feed_def Let_def split: prod.split)

lemma grace_result_feed [simp]: "grace_result e (feed x k) = feed x (grace_result e k)"
  by (simp add: grace_result_def feed_def)

lemma join_partition_feed [simp]: "join_partition c p (feed x k) = apsnd (feed x) (join_partition c p k)"
  by (simp add: join_partition_def feed_def Let_def split: prod.split)

lemma join_partition_loop_feed [simp]: "join_partition_loop c ps (feed x k) = apsnd (feed x) (join_partition_loop c ps k)"
  by (induction ps arbitrary: k) (simp_all split: prod.split)

section \<open>Phases that read\<close>

lemma build_dispatch_feed:
  assumes "build_dispatch synth c msg cnt k = (f, k')" "f \<noteq> Blocked"
  shows "build_dispatch synth c msg cnt (feed x k) = (f, feed x k')"
  using assms by (auto simp: build_dispatch_def Let_def rx_batch_feed split: rx_result.splits if_splits)

lemma probe_dispatch_feed:
  assumes "probe_dispatch synth rtl c msg cnt k = (f, k')" "f \<noteq> Blocked"
  shows "probe_dispatch synth rtl c msg cnt (feed x k) = (f, feed x k')"
  using assms by (auto simp: probe_dispatch_def Let_def rx_batch_feed split: rx_result.splits if_splits)

lemma header_feed: "(feed x k)\<lparr>k_rx := s @ x, k_tx := t\<rparr> = feed x (k\<lparr>k_rx := s, k_tx := t\<rparr>)"
  by (simp add: feed_def)

lemma build_frame_feed:
  assumes "build_frame synth c k = (f, k')" "f \<noteq> Blocked"
  shows "build_frame synth c (feed x k) = (f, feed x k')"
proof (cases "rx_byte_guarded synth (k_rx k) (k_tx k) (c_session_id c)")
  case None
  with assms show ?thesis by (auto simp: build_frame_def)
next
  case (Some p)
  obtain msg rx tx d where p: "p = (msg, rx, tx, d)" by (cases p)
  have g: "rx_byte_guarded synth (k_rx k @ x) (k_tx k) (c_session_id c) = Some (msg, rx @ x, tx, d)"
    using Some p by (simp add: rx_byte_guarded_feed)
  show ?thesis
  proof (cases d)
    case False
    then obtain cnt rx' where u: "rx_u16 rx = Some (cnt, rx')"
      using assms Some p by (cases "rx_u16 rx") (auto simp: build_frame_def)
    have "build_dispatch synth c msg cnt (k\<lparr>k_rx := rx', k_tx := tx\<rparr>) = (f, k')"
      using assms(1) Some p u False by (simp add: build_frame_def)
    from build_dispatch_feed [OF this assms(2), of x] show ?thesis
      using g u False by (simp add: build_frame_def rx_u16_feed header_feed del: feed_updates)
  qed (use assms Some p g in \<open>auto simp: build_frame_def header_feed\<close>)
qed

lemma probe_frame_feed:
  assumes "probe_frame synth rtl c k = (f, k')" "f \<noteq> Blocked"
  shows "probe_frame synth rtl c (feed x k) = (f, feed x k')"
proof (cases "rx_byte_guarded synth (k_rx k) (k_tx k) (c_session_id c)")
  case None
  with assms show ?thesis by (auto simp: probe_frame_def)
next
  case (Some p)
  obtain msg rx tx d where p: "p = (msg, rx, tx, d)" by (cases p)
  have g: "rx_byte_guarded synth (k_rx k @ x) (k_tx k) (c_session_id c) = Some (msg, rx @ x, tx, d)"
    using Some p by (simp add: rx_byte_guarded_feed)
  show ?thesis
  proof (cases d)
    case False
    then obtain cnt rx' where u: "rx_u16 rx = Some (cnt, rx')"
      using assms Some p by (cases "rx_u16 rx") (auto simp: probe_frame_def)
    have "probe_dispatch synth rtl c msg cnt (k\<lparr>k_rx := rx', k_tx := tx\<rparr>) = (f, k')"
      using assms(1) Some p u False by (simp add: probe_frame_def)
    from probe_dispatch_feed [OF this assms(2), of x] show ?thesis
      using g u False by (simp add: probe_frame_def rx_u16_feed header_feed del: feed_updates)
  qed (use assms Some p g in \<open>auto simp: probe_frame_def header_feed\<close>)
qed

text \<open>A frame that waits for input has sent nothing.\<close>

lemma build_frame_blocked: "build_frame synth c k = (Blocked, k') \<Longrightarrow> k_tx k' = k_tx k"
  by (cases rule: rx_byte_guarded_cases [of synth "k_rx k" "k_tx k" "c_session_id c"])
    (auto simp: build_frame_def build_dispatch_def count_inner_frame_def Let_def split: option.splits if_splits rx_result.splits)

lemma probe_frame_blocked: "probe_frame synth rtl c k = (Blocked, k') \<Longrightarrow> k_tx k' = k_tx k"
  by (cases rule: rx_byte_guarded_cases [of synth "k_rx k" "k_tx k" "c_session_id c"])
    (auto simp: probe_frame_def probe_dispatch_def count_outer_frame_def Let_def split: option.splits if_splits rx_result.splits)

lemma fedI_blocked: "k_tx k' = k_tx k \<Longrightarrow> prefix (k_tx k) (k_tx (snd r')) \<Longrightarrow> fed x (Blocked, k') r'"
  by (simp add: fed_def)

lemma outcome_prefix: "outcome k k' \<Longrightarrow> prefix (k_tx k) (k_tx k')"
  by (auto simp: outcome_def runs_def emits_def)

lemma build_frame_loop_prefix: "prefix (k_tx k) (k_tx (snd (build_frame_loop synth c frame k)))"
proof (cases "k_session_done k")
  case True
  then show ?thesis by (simp add: build_frame_loop.simps)
qed (metis build_frame_loop_outcome outcome_prefix prod.collapse)

lemma probe_frame_loop_prefix: "prefix (k_tx k) (k_tx (snd (probe_frame_loop synth rtl c frame k)))"
proof (cases "k_session_done k")
  case True
  then show ?thesis by (simp add: probe_frame_loop.simps)
qed (metis probe_frame_loop_outcome outcome_prefix prod.collapse)

lemma build_frame_loop_fed: "fed x (build_frame_loop synth c frame k) (build_frame_loop synth c frame (feed x k))"
proof (induction synth c frame k rule: build_frame_loop.induct)
  case (1 synth c frame k)
  obtain f k' where fr: "build_frame synth c k = (f, k')" by fastforce
  consider "k_session_done k \<or> \<not> frame \<le> HT_MAX_ROWS + 1 \<or> k_inner_received k \<ge> c_inner_total c"
    | (go) "\<not> k_session_done k" "frame \<le> HT_MAX_ROWS + 1" "\<not> k_inner_received k \<ge> c_inner_total c" by blast
  then show ?case
  proof cases
    case 1
    then show ?thesis by (subst (1 2) build_frame_loop.simps) (auto simp: fed_def)
  next
    case go
    show ?thesis
    proof (cases "f = Blocked")
      case True
      have "build_frame_loop synth c frame k = (Blocked, k')" using go fr True by (subst build_frame_loop.simps) simp
      then show ?thesis
        using build_frame_blocked [OF fr [unfolded True]] build_frame_loop_prefix [of "feed x k"] by (auto intro: fedI_blocked)
    next
      case False
      have "build_frame synth c (feed x k) = (f, feed x k')" using fr False by (rule build_frame_feed)
      with go fr False show ?thesis
        using 1 [OF _ _ fr [symmetric]] by (subst (1 2) build_frame_loop.simps) (auto simp: fed_def split: flow.split)
    qed
  qed
qed

lemma probe_frame_loop_fed: "fed x (probe_frame_loop synth rtl c frame k) (probe_frame_loop synth rtl c frame (feed x k))"
proof (induction synth rtl c frame k rule: probe_frame_loop.induct)
  case (1 synth rtl c frame k)
  obtain f k' where fr: "probe_frame synth rtl c k = (f, k')" by fastforce
  consider "k_session_done k \<or> \<not> frame < 1000000 \<or> k_outer_received k \<ge> c_outer_total c"
    | (go) "\<not> k_session_done k" "frame < 1000000" "\<not> k_outer_received k \<ge> c_outer_total c" by blast
  then show ?case
  proof cases
    case 1
    then show ?thesis by (subst (1 2) probe_frame_loop.simps) (auto simp: fed_def)
  next
    case go
    show ?thesis
    proof (cases "f = Blocked")
      case True
      have "probe_frame_loop synth rtl c frame k = (Blocked, k')" using go fr True by (subst probe_frame_loop.simps) simp
      then show ?thesis
        using probe_frame_blocked [OF fr [unfolded True]] probe_frame_loop_prefix [of "feed x k"] by (auto intro: fedI_blocked)
    next
      case False
      have "probe_frame synth rtl c (feed x k) = (f, feed x k')" using fr False by (rule probe_frame_feed)
      with go fr False show ?thesis
        using 1 [OF _ _ fr [symmetric]] by (subst (1 2) probe_frame_loop.simps) (auto simp: fed_def split: flow.split)
    qed
  qed
qed

lemma fed_bind:
  assumes "fed x r r'" and "\<And>k. r = (Continue, k) \<Longrightarrow> fed x (g k) (g (feed x k))"
    and "\<And>k. prefix (k_tx k) (k_tx (snd (g k)))"
  shows "fed x (case r of (Continue, k) \<Rightarrow> g k | (f, k) \<Rightarrow> (f, k)) (case r' of (Continue, k) \<Rightarrow> g k | (f, k) \<Rightarrow> (f, k))"
proof -
  obtain f k where r: "r = (f, k)" by fastforce
  obtain f' k' where r': "r' = (f', k')" by fastforce
  show ?thesis
  proof (cases "f = Blocked")
    case True
    then have "prefix (k_tx k) (k_tx k')" using assms(1) r r' by (simp add: fed_def)
    with True r r' assms(3) [of k'] show ?thesis by (auto simp: fed_def split: flow.split intro: prefix_order.trans)
  next
    case False
    with assms(1,2) r show ?thesis by (cases f) (auto simp: fed_def)
  qed
qed

lemma emit_debug_prefix: "prefix tx (emit_debug synth tx level code v)"
  by (simp add: tx_messages)

lemma algorithm_a_fed: "fed x (algorithm_a synth rtl c k) (algorithm_a synth rtl c (feed x k))"
  unfolding algorithm_a_def feed_updates feed_fields
proof (rule fed_bind [OF build_frame_loop_fed], goal_cases)
  case (1 k)
  then show ?case using probe_frame_loop_fed by (auto simp: fed_def [of x "(Continue, k)"])
next
  case (2 k)
  show ?case
    using probe_frame_loop_prefix [of "k\<lparr>k_tx := emit_debug synth (k_tx k) DBG_INFO DBG_BUILD_DONE (k_inner_received k),
         k_status_reg := ucast (phase_byte PHASE_PROBING), k_outer_received := 0, k_ack_pending := 0\<rparr>" synth rtl c 0]
      emit_debug_prefix [of "k_tx k" synth DBG_INFO DBG_BUILD_DONE "k_inner_received k"]
    by (auto intro: prefix_order.trans)
qed

section \<open>Algorithm B\<close>

definition gfed :: "rx_stream \<Rightarrow> gflow \<times> KernelState \<Rightarrow> gflow \<times> KernelState \<Rightarrow> bool" where
  "gfed x r r' \<longleftrightarrow>
     (if fst r = GBlocked then prefix (k_tx (snd r)) (k_tx (snd r')) else r' = (fst r, feed x (snd r)))"

lemma goutcome_prefix: "goutcome f k k' \<Longrightarrow> prefix (k_tx k) (k_tx k')"
  by (auto simp: goutcome_def runs_def emits_def)

lemma build_inner_tuple_loop_feed:
  assumes "build_inner_tuple_loop kt K n k = (f, k')"
  shows "f = GBlocked \<and> k_tx k' = k_tx k \<or> f \<noteq> GBlocked \<and> build_inner_tuple_loop kt K n (feed x k) = (f, feed x k')"
  using assms
proof (induction n arbitrary: k)
  case (Suc n)
  show ?case
  proof (cases "rx_tuple kt (k_rx k)")
    case (Some p)
    obtain t rx where p: "p = (t, rx)" by fastforce
    have e: "rx_tuple kt (k_rx k @ x) = Some (t, rx @ x)" using Some p by (simp add: rx_tuple_feed)
    show ?thesis
    proof (cases "k_inner_counts k (partition_of (it_key t) K) \<ge> HT_MAX_ROWS")
      case True
      then show ?thesis using Suc.prems Some p e
        by (cases "discard_tuples kt n rx") (auto simp: Let_def discard_tuples_feed)
    next
      case False
      let ?k = "k\<lparr>k_rx := rx, k_ddr2_buf := pack_tuple (k_ddr2_buf k) (inner_slot_idx (partition_of (it_key t) K) (k_inner_counts k (partition_of (it_key t) K))) t,
          k_inner_counts := (k_inner_counts k)(partition_of (it_key t) K := k_inner_counts k (partition_of (it_key t) K) + 1),
          k_inner_received := k_inner_received k + 1\<rparr>"
      have "build_inner_tuple_loop kt K n ?k = (f, k')" using Suc.prems Some p False by (simp add: Let_def)
      from Suc.IH [OF this] show ?thesis using False e by (simp add: Let_def)
    qed
  qed (use Suc.prems in auto)
qed auto

lemma build_outer_tuple_loop_feed:
  assumes "build_outer_tuple_loop kt K w n k = (f, k')"
  shows "f = GBlocked \<and> k_tx k' = k_tx k \<or> f \<noteq> GBlocked \<and> build_outer_tuple_loop kt K w n (feed x k) = (f, feed x k')"
  using assms
proof (induction n arbitrary: k)
  case (Suc n)
  show ?case
  proof (cases "rx_tuple kt (k_rx k)")
    case (Some p)
    obtain t rx where p: "p = (t, rx)" by fastforce
    have e: "rx_tuple kt (k_rx k @ x) = Some (t, rx @ x)" using Some p by (simp add: rx_tuple_feed)
    show ?thesis
    proof (cases "k_outer_counts k (partition_of (it_key t) K) \<ge> w div GRACE_WORDS_PER_TUPLE")
      case True
      then show ?thesis using Suc.prems Some p e
        by (cases "discard_tuples kt n rx") (auto simp: Let_def discard_tuples_feed)
    next
      case False
      let ?k = "k\<lparr>k_rx := rx, k_ddr2_buf := pack_tuple (k_ddr2_buf k) (outer_slot_idx w (partition_of (it_key t) K) (k_outer_counts k (partition_of (it_key t) K))) t,
          k_outer_counts := (k_outer_counts k)(partition_of (it_key t) K := k_outer_counts k (partition_of (it_key t) K) + 1),
          k_outer_received := k_outer_received k + 1\<rparr>"
      have "build_outer_tuple_loop kt K w n ?k = (f, k')" using Suc.prems Some p False by (simp add: Let_def)
      from Suc.IH [OF this] show ?thesis using False e by (simp add: Let_def)
    qed
  qed (use Suc.prems in auto)
qed auto

lemma frame_header_feed:
  "do { (msg_type, rx) \<leftarrow> rx_byte s; (cnt, rx) \<leftarrow> rx_u16 rx; Some (msg_type, cnt, rx) } = Some (m, n, s') \<Longrightarrow>
   do { (msg_type, rx) \<leftarrow> rx_byte (s @ x); (cnt, rx) \<leftarrow> rx_u16 rx; Some (msg_type, cnt, rx) } = Some (m, n, s' @ x)"
  by (auto simp: bind_eq_Some_conv rx_byte_feed rx_u16_feed)

lemma build_inner_frame_feed:
  assumes "build_inner_frame c k = (f, k')"
  shows "f = GBlocked \<and> k_tx k' = k_tx k \<or> f \<noteq> GBlocked \<and> build_inner_frame c (feed x k) = (f, feed x k')"
proof (cases "do { (msg_type, rx) \<leftarrow> rx_byte (k_rx k); (cnt, rx) \<leftarrow> rx_u16 rx; Some (msg_type, cnt, rx) }")
  case (Some p)
  obtain m n rx where p: "p = (m, n, rx)" by (cases p)
  note h = Some [unfolded p] and hx = frame_header_feed [OF Some [unfolded p], of x]
  obtain g k1 where t: "build_inner_tuple_loop (c_keytype c) (c_K c) (unat n) (k\<lparr>k_rx := rx\<rparr>) = (g, k1)" by fastforce
  show ?thesis
  proof (cases "m = MSG_INNER_DATA")
    case True
    have l: "g = GBlocked \<and> k_tx k1 = k_tx k \<or> g \<noteq> GBlocked \<and>
      build_inner_tuple_loop (c_keytype c) (c_K c) (unat n) (feed x (k\<lparr>k_rx := rx\<rparr>)) = (g, feed x k1)"
      using build_inner_tuple_loop_feed [OF t, of x] by simp
    show ?thesis using assms True l t unfolding build_inner_frame_def feed_fields h hx
      by (cases g) (auto simp: Let_def)
  next
    case False
    with assms show ?thesis unfolding build_inner_frame_def feed_fields h hx by (auto split: if_splits)
  qed
qed (use assms in \<open>auto simp: build_inner_frame_def\<close>)

lemma build_outer_frame_feed:
  assumes "build_outer_frame c k = (f, k')"
  shows "f = GBlocked \<and> k_tx k' = k_tx k \<or> f \<noteq> GBlocked \<and> build_outer_frame c (feed x k) = (f, feed x k')"
proof (cases "do { (msg_type, rx) \<leftarrow> rx_byte (k_rx k); (cnt, rx) \<leftarrow> rx_u16 rx; Some (msg_type, cnt, rx) }")
  case (Some p)
  obtain m n rx where p: "p = (m, n, rx)" by (cases p)
  note h = Some [unfolded p] and hx = frame_header_feed [OF Some [unfolded p], of x]
  obtain g k1 where t: "build_outer_tuple_loop (c_keytype c) (c_K c) (c_outer_slot_w c) (unat n) (k\<lparr>k_rx := rx\<rparr>) = (g, k1)" by fastforce
  show ?thesis
  proof (cases "m = MSG_OUTER_DATA")
    case True
    have l: "g = GBlocked \<and> k_tx k1 = k_tx k \<or> g \<noteq> GBlocked \<and>
      build_outer_tuple_loop (c_keytype c) (c_K c) (c_outer_slot_w c) (unat n) (feed x (k\<lparr>k_rx := rx\<rparr>)) = (g, feed x k1)"
      using build_outer_tuple_loop_feed [OF t, of x] by simp
    show ?thesis using assms True l t unfolding build_outer_frame_def feed_fields h hx
      by (cases g) (auto simp: Let_def)
  next
    case False
    with assms show ?thesis unfolding build_outer_frame_def feed_fields h hx by (auto split: if_splits)
  qed
qed (use assms in \<open>auto simp: build_outer_frame_def\<close>)

lemma build_inner_frame_loop_fed: "gfed x (build_inner_frame_loop c frame k) (build_inner_frame_loop c frame (feed x k))"
proof (induction c frame k rule: build_inner_frame_loop.induct)
  case (1 c frame k)
  obtain f k' where fr: "build_inner_frame c k = (f, k')" by fastforce
  consider "\<not> frame \<le> c_inner_total c div 1 + 1 \<or> k_inner_received k \<ge> c_inner_total c"
    | (go) "frame \<le> c_inner_total c div 1 + 1" "\<not> k_inner_received k \<ge> c_inner_total c" by blast
  then show ?case
  proof cases
    case 1
    then show ?thesis by (subst (1 2) build_inner_frame_loop.simps) (auto simp: gfed_def)
  next
    case go
    show ?thesis
    proof (cases "f = GBlocked")
      case True
      have "build_inner_frame_loop c frame k = (GBlocked, k')" using go fr True by (subst build_inner_frame_loop.simps) simp
      moreover have "prefix (k_tx (feed x k)) (k_tx (snd (build_inner_frame_loop c frame (feed x k))))"
        by (metis build_inner_frame_loop_outcome goutcome_prefix prod.collapse)
      ultimately show ?thesis using build_inner_frame_feed [OF fr, of x] True by (simp add: gfed_def)
    next
      case False
      then have "build_inner_frame c (feed x k) = (f, feed x k')" using build_inner_frame_feed [OF fr, of x] by simp
      with go fr False show ?thesis
        using 1 [OF _ _ fr [symmetric]] by (subst (1 2) build_inner_frame_loop.simps) (auto simp: gfed_def split: gflow.split)
    qed
  qed
qed

lemma build_outer_frame_loop_fed: "gfed x (build_outer_frame_loop c frame k) (build_outer_frame_loop c frame (feed x k))"
proof (induction c frame k rule: build_outer_frame_loop.induct)
  case (1 c frame k)
  obtain f k' where fr: "build_outer_frame c k = (f, k')" by fastforce
  consider "\<not> frame \<le> c_outer_total c div 1 + 1 \<or> k_outer_received k \<ge> c_outer_total c"
    | (go) "frame \<le> c_outer_total c div 1 + 1" "\<not> k_outer_received k \<ge> c_outer_total c" by blast
  then show ?case
  proof cases
    case 1
    then show ?thesis by (subst (1 2) build_outer_frame_loop.simps) (auto simp: gfed_def)
  next
    case go
    show ?thesis
    proof (cases "f = GBlocked")
      case True
      have "build_outer_frame_loop c frame k = (GBlocked, k')" using go fr True by (subst build_outer_frame_loop.simps) simp
      moreover have "prefix (k_tx (feed x k)) (k_tx (snd (build_outer_frame_loop c frame (feed x k))))"
        by (metis build_outer_frame_loop_outcome goutcome_prefix prod.collapse)
      ultimately show ?thesis using build_outer_frame_feed [OF fr, of x] True by (simp add: gfed_def)
    next
      case False
      then have "build_outer_frame c (feed x k) = (f, feed x k')" using build_outer_frame_feed [OF fr, of x] by simp
      with go fr False show ?thesis
        using 1 [OF _ _ fr [symmetric]] by (subst (1 2) build_outer_frame_loop.simps) (auto simp: gfed_def split: gflow.split)
    qed
  qed
qed

lemma gfed_bind:
  assumes "gfed x r r'" and "\<And>e k. r = (GRet e, k) \<Longrightarrow> fed x (g e k) (g e (feed x k))"
    and "\<And>e k. prefix (k_tx k) (k_tx (snd (g e k)))"
  shows "fed x (case r of (GRet e, k) \<Rightarrow> g e k | (_, k) \<Rightarrow> (Blocked, k)) (case r' of (GRet e, k) \<Rightarrow> g e k | (_, k) \<Rightarrow> (Blocked, k))"
proof -
  obtain f k where r: "r = (f, k)" by fastforce
  obtain f' k' where r': "r' = (f', k')" by fastforce
  show ?thesis
  proof (cases "f = GBlocked")
    case True
    then have "prefix (k_tx k) (k_tx k')" using assms(1) r r' by (simp add: gfed_def)
    with True r r' assms(3) [of k'] show ?thesis by (auto simp: fed_def split: gflow.split intro: prefix_order.trans)
  next
    case False
    with assms(1,2) r show ?thesis by (cases f) (auto simp: fed_def gfed_def)
  qed
qed

lemma k_tx_grace_result [simp]: "k_tx (grace_result e k) = k_tx k"
  by (simp add: grace_result_def)

lemma join_all_partitions_feed [simp]: "join_all_partitions c (feed x k) = apsnd (feed x) (join_all_partitions c k)"
  by (simp add: join_all_partitions_def)

lemma join_all_partitions_prefix: "join_all_partitions c k = (e, k') \<Longrightarrow> prefix (k_tx k) (k_tx k')"
  unfolding join_all_partitions_def by (drule join_partition_loop_outcome, drule goutcome_prefix) simp

lemma build_outer_partitions_fed: "gfed x (build_outer_partitions c k) (build_outer_partitions c (feed x k))"
  using build_outer_frame_loop_fed [of x c 0 "k\<lparr>k_outer_received := 0\<rparr>"] by (simp add: build_outer_partitions_def)

lemma build_inner_partitions_fed: "gfed x (build_inner_partitions c k) (build_inner_partitions c (feed x k))"
  using build_inner_frame_loop_fed [of x c 0 "k\<lparr>k_inner_counts := reset_counts (k_inner_counts k),
    k_outer_counts := reset_counts (k_outer_counts k), k_inner_received := 0\<rparr>"] by (simp add: build_inner_partitions_def)

lemma build_outer_partitions_prefix: "build_outer_partitions c k = (f, k') \<Longrightarrow> prefix (k_tx k) (k_tx k')"
  using build_outer_frame_loop_outcome [of c 0 "k\<lparr>k_outer_received := 0\<rparr>" f k'] by (auto simp: build_outer_partitions_def dest: goutcome_prefix)

text \<open>The part of algorithm B after the inner partitions.\<close>

definition after_inner :: "SessionConfig \<Rightarrow> FpgaError \<Rightarrow> KernelState \<Rightarrow> flow \<times> KernelState" where
  "after_inner c e k =
     (let k = grace_result e k in
      if k_session_done k then (Continue, k)
      else (case build_outer_partitions c (k\<lparr>k_status_reg := ucast (phase_byte PHASE_PROBING)\<rparr>) of
              (GRet e, k) \<Rightarrow>
                (let k = grace_result e k in
                 if k_session_done k then (Continue, k)
                 else (case join_all_partitions c k of (e, k) \<Rightarrow> (Continue, grace_result e k)))
            | (_, k) \<Rightarrow> (Blocked, k)))"

lemma after_inner_prefix: "prefix (k_tx k) (k_tx (snd (after_inner c e k)))"
  by (auto simp: after_inner_def Let_def split: prod.split gflow.split dest!: build_outer_partitions_prefix join_all_partitions_prefix)

lemma after_inner_fed: "fed x (after_inner c e k) (after_inner c e (feed x k))"
proof (cases "k_session_done (grace_result e k)")
  case False
  let ?k = "(grace_result e k)\<lparr>k_status_reg := ucast (phase_byte PHASE_PROBING)\<rparr>"
  let ?g = "\<lambda>e k. let k = grace_result e k in if k_session_done k then (Continue, k)
      else (case join_all_partitions c k of (e, k) \<Rightarrow> (Continue, grace_result e k))"
  have "fed x (?g e k) (?g e (feed x k))" for e k
    by (cases "join_all_partitions c (grace_result e k)") (auto simp: fed_def Let_def)
  moreover have "prefix (k_tx k) (k_tx (snd (?g e k)))" for e k
    by (cases "join_all_partitions c (grace_result e k)") (auto simp: Let_def dest: join_all_partitions_prefix)
  ultimately have "fed x (case build_outer_partitions c ?k of (GRet e, k) \<Rightarrow> ?g e k | (_, k) \<Rightarrow> (Blocked, k))
      (case build_outer_partitions c (feed x ?k) of (GRet e, k) \<Rightarrow> ?g e k | (_, k) \<Rightarrow> (Blocked, k))"
    by (intro gfed_bind build_outer_partitions_fed)
  with False show ?thesis by (simp add: after_inner_def Let_def)
qed (simp add: after_inner_def fed_def Let_def)

lemma algorithm_b_fed: "fed x (algorithm_b c k) (algorithm_b c (feed x k))"
  unfolding algorithm_b_def after_inner_def [symmetric]
  by (intro gfed_bind build_inner_partitions_fed after_inner_fed after_inner_prefix)

section \<open>A session\<close>

definition session_body :: "bool \<Rightarrow> RtlTiming \<Rightarrow> SessionConfig \<Rightarrow> KernelState \<Rightarrow> flow \<times> KernelState" where
  "session_body synth rtl c k =
     (case if k_session_done k then (Continue, k)
           else if c_algorithm c = ALGORITHM_B then algorithm_b c k
           else if c_algorithm c = ALGORITHM_A then algorithm_a synth rtl c k
           else (Continue, k) of
        (Continue, k) \<Rightarrow> (Continue, if k_session_done k then k else finish_session synth rtl c k)
      | (f, k) \<Rightarrow> (f, k))"

lemma session_body_fed: "fed x (session_body synth rtl c k) (session_body synth rtl c (feed x k))"
  unfolding session_body_def
proof (rule fed_bind, goal_cases)
  case 1
  show ?case using algorithm_a_fed algorithm_b_fed by (auto simp: fed_def [of x "(Continue, k)"])
next
  case (3 k)
  show ?case using finish_session_closes(1) [of k synth rtl c] by (auto simp: runs_def emits_def)
qed (auto simp: fed_def)

lemma session_body_prefix: "prefix (k_tx k) (k_tx (snd (session_body synth rtl c k)))"
proof -
  let ?r = "if k_session_done k then (Continue, k) else if c_algorithm c = ALGORITHM_B then algorithm_b c k
      else if c_algorithm c = ALGORITHM_A then algorithm_a synth rtl c k else (Continue, k)"
  obtain f k1 where r: "?r = (f, k1)" by fastforce
  then have "prefix (k_tx k) (k_tx k1)"
    using algorithm_a_outcome [of k synth rtl c f k1] algorithm_b_outcome [of k c f k1] by (auto split: if_splits dest: outcome_prefix)
  moreover have "prefix (k_tx k1) (k_tx (finish_session synth rtl c k1))"
    using finish_session_closes(1) [of k1 synth rtl c] by (auto simp: runs_def emits_def)
  ultimately show ?thesis unfolding session_body_def r by (auto split: flow.split intro: prefix_order.trans)
qed

lemma configure_phase_feed:
  assumes "configure_phase synth k = (f, c, k')"
  shows "f = Blocked \<and> k_tx k' = k_tx k \<or> f \<noteq> Blocked \<and> configure_phase synth (feed x k) = (f, c, feed x k')"
proof (cases rule: rx_byte_guarded_cases [of synth "k_rx k" "k_tx k" 0])
  case 1
  with assms show ?thesis by (auto simp: configure_phase_def)
next
  case (2 msg rx)
  then have g: "rx_byte_guarded synth (k_rx k @ x) (k_tx k) 0 = Some (msg, rx @ x, k_tx k, False)" by (rule rx_byte_guarded_feed)
  show ?thesis
  proof (cases "rx_u16 rx")
    case None
    with 2 assms show ?thesis by (auto simp: configure_phase_def)
  next
    case (Some p)
    obtain n rx' where p: "p = (n, rx')" by fastforce
    have u: "rx_u16 (rx @ x) = Some (n, rx' @ x)" using Some p by (simp add: rx_u16_feed)
    show ?thesis
    proof (cases "msg = MSG_CONFIGURE \<and> n = 1")
      case True
      show ?thesis
      proof (cases "rx_configure rx'")
        case None
        with 2 Some p True assms show ?thesis by (auto simp: configure_phase_def Let_def)
      next
        case (Some q)
        obtain pay rx2 where q: "q = (pay, rx2)" by fastforce
        have rc: "rx_configure (rx' @ x) = Some (pay, rx2 @ x)" using Some q by (simp add: rx_configure_feed)
        show ?thesis
          using assms 2 \<open>rx_u16 rx = Some p\<close> p True Some q g u rc
          by (cases "accept_configure synth pay (k\<lparr>k_rx := rx2\<rparr>)") (auto simp: configure_phase_def Let_def)
      qed
    next
      case False
      with assms 2 Some p g u show ?thesis by (auto simp: configure_phase_def Let_def split: if_splits)
    qed
  qed
next
  case (3 b rx ms)
  from rx_byte_guarded_feed [OF this, of x] 3 assms show ?thesis by (auto simp: configure_phase_def)
qed

lemma kernel_session_fed: "fed x (kernel_session synth rtl k) (kernel_session synth rtl (feed x k))"
proof -
  have eq: "kernel_session synth rtl k = (case configure_phase synth (session_init synth k) of (Continue, c, k) \<Rightarrow> session_body synth rtl c k | (f, c, k) \<Rightarrow> (f, k))" for k
    unfolding kernel_session_def session_body_def ..
  obtain f c k1 where r: "configure_phase synth (session_init synth k) = (f, c, k1)" by (cases "configure_phase synth (session_init synth k)")
  note cf = configure_phase_feed [OF r, of x]
  show ?thesis
  proof (cases "f = Blocked")
    case True
    obtain f' c' k' where r': "configure_phase synth (session_init synth (feed x k)) = (f', c', k')"
      by (cases "configure_phase synth (session_init synth (feed x k))")
    have "\<not> k_session_done (session_init synth (feed x k))" by (simp add: session_init_def feed_def)
    then have "prefix (k_tx (session_init synth k)) (k_tx k')"
      using configure_phase_outcome [OF _ r'] by (auto dest: outcome_prefix)
    with True cf have "prefix (k_tx k1) (k_tx k')" by simp
    with True session_body_prefix [of k' synth rtl c'] show ?thesis
      unfolding eq r r' by (auto simp: fed_def split: flow.split intro: prefix_order.trans)
  next
    case False
    with cf r session_body_fed [of x synth rtl c k1] show ?thesis unfolding eq by (auto simp: fed_def split: flow.split)
  qed
qed

lemma session_loop_prefix: "prefix (k_tx k) (k_tx (snd (session_loop synth rtl n k)))"
proof (induction synth rtl n k rule: session_loop.induct)
  case (1 synth rtl n k)
  obtain f k' where s: "kernel_session synth (rtl n) k = (f, k')" by fastforce
  have "prefix (k_tx k) (k_tx k')" using kernel_session_outcome [OF s] by (auto simp: emits_def)
  with 1 [OF s [symmetric]] s show ?case
    by (subst session_loop.simps) (auto split: flow.split intro: prefix_order.trans)
qed

lemma session_loop_fed: "fed x (session_loop synth rtl n k) (session_loop synth rtl n (feed x k))"
proof (induction synth rtl n k rule: session_loop.induct)
  case (1 synth rtl n k)
  show ?case
    by (subst (1 2) session_loop.simps, rule fed_bind [OF kernel_session_fed])
      (use 1 session_loop_prefix in \<open>auto simp: fed_def [of x "(Continue, _)"]\<close>)
qed

lemma kernel_start_feed [simp]: "kernel_start (feed x k) = feed x (kernel_start k)"
  by (simp add: kernel_start_def feed_def)

section \<open>Property\<close>


end
