(* ===== verification/Udp_Transport.thy ===== *)
theory Udp_Transport
  imports Posix_Base Host_Kernel Kernel_Causal
begin

text \<open>
  The datagram transport (\<^verbatim>\<open>src/host/src/udp_transport.cpp\<close>, the POSIX half). The socket interface is the
  parameter \<open>net\<close>, a table of its calls on a state of the operating system; \<open>fuel\<close> bounds the rounds of loops
  that a network can keep alive. The locale \<open>udp_board\<close> is the contract of a network where only the board
  sends; on it the transport fulfils the contract \<open>board\<close> of the client. It is interpreted on a network with the
  kernel at its other end, which needs that the kernel is causal (theory \<open>Kernel_Causal\<close>).
\<close>

section \<open>Sockets\<close>

record SockAddr =
  ss_family :: u16
  sin_addr :: u32
  sin_port :: u16

definition AF_INET :: u16 where
  "AF_INET = 2"

definition sizeof_sockaddr_in :: nat where
  "sizeof_sockaddr_in = 16"

record 'o UdpSocket =
  so_getaddrinfo :: "string \<Rightarrow> string \<Rightarrow> string + SockAddr \<times> nat"
  so_socket :: "'o \<Rightarrow> (errno + unit) \<times> 'o"
  so_rcvbuf :: "nat \<Rightarrow> 'o \<Rightarrow> 'o"
  so_bind :: "u16 \<Rightarrow> 'o \<Rightarrow> (errno + unit) \<times> 'o"
  so_close :: "'o \<Rightarrow> 'o"
  so_sendto :: "SockAddr \<times> nat \<Rightarrow> u8 list \<Rightarrow> 'o \<Rightarrow> (errno + nat) \<times> 'o"
  so_select :: "u32 \<times> u32 \<Rightarrow> 'o \<Rightarrow> (errno + bool) \<times> 'o"
  so_recvfrom :: "nat \<Rightarrow> 'o \<Rightarrow> (errno + u8 list \<times> SockAddr \<times> nat) \<times> 'o"

definition resolve_ipv4_udp :: "'o UdpSocket \<Rightarrow> string \<Rightarrow> u16 \<Rightarrow> exn + SockAddr \<times> nat" where
  "resolve_ipv4_udp net host port =
     (case so_getaddrinfo net host (to_string (unat port)) of
        Inl msg \<Rightarrow> Inl (TransportError (''UdpTransport: getaddrinfo: '' @ msg))
      | Inr a \<Rightarrow> Inr a)"

fun same_ipv4_endpoint :: "SockAddr \<times> nat \<Rightarrow> SockAddr \<times> nat \<Rightarrow> bool" where
  "same_ipv4_endpoint (a, a_len) (b, b_len) \<longleftrightarrow>
     \<not> (ss_family a \<noteq> AF_INET \<or> ss_family b \<noteq> AF_INET) \<and>
     \<not> (a_len < sizeof_sockaddr_in \<or> b_len < sizeof_sockaddr_in) \<and>
     sin_addr a = sin_addr b \<and> sin_port a = sin_port b"

section \<open>The transport\<close>

definition FPGA_UDP_PORT :: u16 where
  "FPGA_UDP_PORT = 50000"

text \<open>The fields of \<open>Impl\<close>, those that the constructor sets for good apart from the others.\<close>

record UdpImpl =
  remote_addr :: "SockAddr \<times> nat"
  max_payload :: nat

record 'o UdpTransport =
  ud_os :: 'o
  ud_timeout_ms :: u32
  rx_packet :: "u8 list"
  rx_offset :: nat

text \<open>The constructor; when it throws, the state of the system calls is all that is left.\<close>

definition udp_open ::
  "'o UdpSocket \<Rightarrow> string \<Rightarrow> u16 \<Rightarrow> u16 \<Rightarrow> u32 \<Rightarrow> nat \<Rightarrow> 'o \<Rightarrow> exn \<times> 'o + UdpImpl \<times> 'o UdpTransport" where
  "udp_open net remote_host remote_port local_port recv_timeout_ms max_datagram_payload os =
     (case resolve_ipv4_udp net remote_host remote_port of
        Inl e \<Rightarrow> Inl (e, os)
      | Inr addr \<Rightarrow>
          case sys ''UdpTransport: socket'' (so_socket net) os of
            (Inl e, os) \<Rightarrow> Inl (e, os)
          | (Inr _, os) \<Rightarrow>
              case sys ''UdpTransport: bind'' (so_bind net local_port) (so_rcvbuf net (2 ^ 20) os) of
                (Inl e, os) \<Rightarrow> Inl (e, so_close net os)
              | (Inr _, os) \<Rightarrow>
                  Inr (\<lparr>remote_addr = addr, max_payload = (if max_datagram_payload = 0 then 1200 else max_datagram_payload)\<rparr>,
                       \<lparr>ud_os = os, ud_timeout_ms = recv_timeout_ms, rx_packet = [], rx_offset = 0\<rparr>))"

text \<open>The loop of \<open>send\<close>; a payload limit of zero, which the constructor excludes, would make no progress.\<close>

fun udp_send_loop :: "'o UdpSocket \<Rightarrow> UdpImpl \<Rightarrow> nat \<Rightarrow> u8 list \<Rightarrow> 'o UdpTransport \<Rightarrow> (exn + unit) \<times> 'o UdpTransport" where
  "udp_send_loop net impl rounds p t =
     (if p = [] then (Inr (), t)
      else case rounds of
        0 \<Rightarrow> (Inl Diverged, t)
      | Suc rounds \<Rightarrow>
          let chunk = min (length p) (max_payload impl) in
          case sys ''UdpTransport: sendto'' (so_sendto net (remote_addr impl) (take chunk p)) (ud_os t) of
            (Inl e, os) \<Rightarrow> (Inl e, t\<lparr>ud_os := os\<rparr>)
          | (Inr n, os) \<Rightarrow>
              if n \<noteq> chunk then (Inl (TransportError ''UdpTransport: short UDP send''), t\<lparr>ud_os := os\<rparr>)
              else udp_send_loop net impl rounds (drop chunk p) (t\<lparr>ud_os := os\<rparr>))"

declare udp_send_loop.simps [simp del]

definition udp_send :: "'o UdpSocket \<Rightarrow> UdpImpl \<Rightarrow> u8 list \<Rightarrow> 'o UdpTransport \<Rightarrow> (exn + unit) \<times> 'o UdpTransport" where
  "udp_send net impl data t = udp_send_loop net impl (length data) data t"

definition RX_PACKET_BYTES :: nat where
  "RX_PACKET_BYTES = 65536"

definition clear_rx :: "'o UdpTransport \<Rightarrow> 'o UdpTransport" where
  "clear_rx t = t\<lparr>rx_packet := [], rx_offset := 0\<rparr>"

text \<open>One round of the loop of \<open>recv\<close>: \<open>continue\<close> and the end of the body are \<open>Inr None\<close>, the return
  on a time-out is \<open>Inr (Some [])\<close>.\<close>

definition timeval_of :: "u32 \<Rightarrow> u32 \<times> u32" where
  "timeval_of ms = (ms div 1000, (ms mod 1000) * 1000)"

definition udp_recv_round :: "'o UdpSocket \<Rightarrow> UdpImpl \<Rightarrow> 'o UdpTransport \<Rightarrow> (exn + u8 list option) \<times> 'o UdpTransport" where
  "udp_recv_round net impl t =
     (let t = clear_rx t in
      case so_select net (timeval_of (ud_timeout_ms t)) (ud_os t) of
        (Inl e, os) \<Rightarrow>
          if e = EINTR then (Inr None, t\<lparr>ud_os := os\<rparr>)
          else (Inl (throw_posix ''UdpTransport: select'' e), t\<lparr>ud_os := os\<rparr>)
      | (Inr False, os) \<Rightarrow> (Inr (Some []), t\<lparr>ud_os := os\<rparr>)
      | (Inr True, os) \<Rightarrow>
          let t = t\<lparr>rx_packet := replicate RX_PACKET_BYTES 0\<rparr> in
          case so_recvfrom net (length (rx_packet t)) os of
            (Inl e, os) \<Rightarrow>
              if e = EINTR then (Inr None, t\<lparr>ud_os := os\<rparr>)
              else (Inl (throw_posix ''UdpTransport: recvfrom'' e), t\<lparr>ud_os := os\<rparr>)
          | (Inr (payload, src), os) \<Rightarrow>
              let t = t\<lparr>ud_os := os, rx_packet := payload @ drop (length payload) (rx_packet t)\<rparr> in
              if \<not> same_ipv4_endpoint src (remote_addr impl) then (Inr None, t)
              else (Inr None, t\<lparr>rx_packet := take (length payload) (rx_packet t)\<rparr>))"

text \<open>The part of \<open>recv\<close> after the loop.\<close>

definition udp_deliver :: "nat \<Rightarrow> 'o UdpTransport \<Rightarrow> u8 list \<times> 'o UdpTransport" where
  "udp_deliver max_len t =
     (let n = min max_len (length (rx_packet t) - rx_offset t);
          out = take n (drop (rx_offset t) (rx_packet t));
          t = t\<lparr>rx_offset := rx_offset t + n\<rparr>
      in (out, if rx_offset t \<ge> length (rx_packet t) then clear_rx t else t))"

fun udp_recv_loop :: "'o UdpSocket \<Rightarrow> UdpImpl \<Rightarrow> nat \<Rightarrow> nat \<Rightarrow> 'o UdpTransport \<Rightarrow> (exn + u8 list) \<times> 'o UdpTransport" where
  "udp_recv_loop net impl fuel max_len t =
     (if rx_offset t < length (rx_packet t) then (case udp_deliver max_len t of (out, t) \<Rightarrow> (Inr out, t))
      else case fuel of
        0 \<Rightarrow> (Inl Diverged, t)
      | Suc fuel \<Rightarrow>
          case udp_recv_round net impl t of
            (Inl e, t) \<Rightarrow> (Inl e, t)
          | (Inr (Some out), t) \<Rightarrow> (Inr out, t)
          | (Inr None, t) \<Rightarrow> udp_recv_loop net impl fuel max_len t)"

declare udp_recv_loop.simps [simp del]

definition udp_recv :: "'o UdpSocket \<Rightarrow> UdpImpl \<Rightarrow> nat \<Rightarrow> nat \<Rightarrow> 'o UdpTransport \<Rightarrow> (exn + u8 list) \<times> 'o UdpTransport" where
  "udp_recv net impl fuel max_len t = (if max_len = 0 then (Inr [], t) else udp_recv_loop net impl fuel max_len t)"

fun udp_flush_loop :: "'o UdpSocket \<Rightarrow> nat \<Rightarrow> 'o UdpTransport \<Rightarrow> (exn + unit) \<times> 'o UdpTransport" where
  "udp_flush_loop net 0 t = (Inl Diverged, t)"
| "udp_flush_loop net (Suc fuel) t =
     (case so_select net (0, 0) (ud_os t) of
        (Inr True, os) \<Rightarrow>
          (case so_recvfrom net 2048 os of
             (Inr (payload, src), os) \<Rightarrow>
               if payload = [] then (Inr (), t\<lparr>ud_os := os\<rparr>) else udp_flush_loop net fuel (t\<lparr>ud_os := os\<rparr>)
           | (Inl e, os) \<Rightarrow> (Inr (), t\<lparr>ud_os := os\<rparr>))
      | (_, os) \<Rightarrow> (Inr (), t\<lparr>ud_os := os\<rparr>))"

definition udp_reset :: "'o UdpSocket \<Rightarrow> nat \<Rightarrow> 'o UdpTransport \<Rightarrow> (exn + unit) \<times> 'o UdpTransport" where
  "udp_reset net fuel t = udp_flush_loop net fuel (clear_rx t)"

definition set_recv_timeout_ms :: "u32 \<Rightarrow> 'o UdpTransport \<Rightarrow> 'o UdpTransport" where
  "set_recv_timeout_ms timeout_ms t = t\<lparr>ud_timeout_ms := timeout_ms\<rparr>"

text \<open>The loop of \<open>drain_until_quiet\<close>; \<open>quiets\<close> (the variable \<open>quiet\<close>) counts the reads in a row that timed out.\<close>

fun drain_loop :: "'o UdpSocket \<Rightarrow> UdpImpl \<Rightarrow> nat \<Rightarrow> nat \<Rightarrow> nat \<Rightarrow> nat \<Rightarrow> nat \<Rightarrow> 'o UdpTransport \<Rightarrow> (exn + unit) \<times> 'o UdpTransport" where
  "drain_loop net impl fuel 0 bufsize quiet_timeouts quiets t =
     (if quiets < quiet_timeouts then (Inl Diverged, t) else (Inr (), t))"
| "drain_loop net impl fuel (Suc rounds) bufsize quiet_timeouts quiets t =
     (if quiets < quiet_timeouts then
        bindx (udp_recv net impl fuel bufsize) (\<lambda>out.
          drain_loop net impl fuel rounds bufsize quiet_timeouts (if length out = 0 then quiets + 1 else 0)) t
      else (Inr (), t))"

definition drain_until_quiet :: "'o UdpSocket \<Rightarrow> UdpImpl \<Rightarrow> nat \<Rightarrow> nat \<Rightarrow> nat \<Rightarrow> 'o UdpTransport \<Rightarrow> (exn + unit) \<times> 'o UdpTransport" where
  "drain_until_quiet net impl fuel quiet_timeouts discard_buffer_size t =
     (if quiet_timeouts = 0 then (Inr (), t)
      else drain_loop net impl fuel fuel (if discard_buffer_size = 0 then 2048 else discard_buffer_size) quiet_timeouts 0 (clear_rx t))"

definition udp_transport :: "'o UdpSocket \<Rightarrow> UdpImpl \<Rightarrow> nat \<Rightarrow> 'o UdpTransport ITransport" where
  "udp_transport net impl fuel = \<lparr>it_send = udp_send net impl, it_recv = udp_recv net impl fuel, it_reset = udp_reset net fuel\<rparr>"

section \<open>The contract of a network with a board\<close>

text \<open>Documented behaviour of the socket calls when nothing fails and only the board sends: a datagram is
  accepted whole, \<open>select\<close> tells whether one waits, and \<open>recvfrom\<close> returns it. \<open>future\<close> is as in the locale
  \<open>board\<close>, here for the bytes that have not been received.\<close>

definition udp_future :: "('o \<Rightarrow> u8 list \<Rightarrow> u8 list) \<Rightarrow> 'o UdpTransport \<Rightarrow> u8 list \<Rightarrow> u8 list" where
  "udp_future future t x = drop (rx_offset t) (rx_packet t) @ future (ud_os t) x"

locale udp_board =
  fixes net :: "'o UdpSocket" and impl :: UdpImpl and future :: "'o \<Rightarrow> u8 list \<Rightarrow> u8 list"
  assumes payload_positive: "0 < max_payload impl"
    and sendto_all: "\<exists>os'. so_sendto net (remote_addr impl) p os = (Inr (length p), os') \<and> (\<forall>x. future os' x = future os (p @ x))"
    and select_ready: "\<exists>os'. so_select net tv os = (Inr (future os [] \<noteq> []), os') \<and> future os' = future os"
    and recvfrom_board: "future os [] \<noteq> [] \<Longrightarrow> \<exists>d src os'. so_recvfrom net RX_PACKET_BYTES os = (Inr (d, src), os') \<and>
      same_ipv4_endpoint src (remote_addr impl) \<and> d \<noteq> [] \<and> length d \<le> RX_PACKET_BYTES \<and> (\<forall>x. future os x = d @ future os' x)"
begin

lemma udp_send_loop_future:
  "length p \<le> rounds \<Longrightarrow>
    \<exists>os'. udp_send_loop net impl rounds p t = (Inr (), t\<lparr>ud_os := os'\<rparr>) \<and> (\<forall>x. future os' x = future (ud_os t) (p @ x))"
proof (induction rounds arbitrary: p t)
  case 0
  then show ?case by (intro exI [of _ "ud_os t"]) (simp add: udp_send_loop.simps)
next
  case (Suc rounds)
  show ?case
  proof (cases "p = []")
    case False
    let ?c = "min (length p) (max_payload impl)"
    obtain os1 where os1: "so_sendto net (remote_addr impl) (take ?c p) (ud_os t) = (Inr (length (take ?c p)), os1)"
      "\<forall>x. future os1 x = future (ud_os t) (take ?c p @ x)" using sendto_all by blast
    have "length (drop ?c p) \<le> rounds" using Suc.prems False payload_positive by (cases p) auto
    then obtain os2 where os2: "udp_send_loop net impl rounds (drop ?c p) (t\<lparr>ud_os := os1\<rparr>) = (Inr (), t\<lparr>ud_os := os2\<rparr>)"
      "\<forall>x. future os2 x = future os1 (drop ?c p @ x)" using Suc.IH [of "drop ?c p" "t\<lparr>ud_os := os1\<rparr>"] by auto
    have "udp_send_loop net impl (Suc rounds) p t = udp_send_loop net impl rounds (drop ?c p) (t\<lparr>ud_os := os1\<rparr>)"
      by (subst udp_send_loop.simps) (simp add: False sys_def os1(1) Let_def)
    moreover have "future os1 (drop ?c p @ x) = future (ud_os t) (p @ x)" for x
      using os1(2) [rule_format, of "drop ?c p @ x"] by (simp only: append_assoc [symmetric] append_take_drop_id)
    ultimately show ?thesis using os2 by (intro exI [of _ os2]) simp
  qed (intro exI [of _ "ud_os t"], simp add: udp_send_loop.simps)
qed

lemma udp_deliver_future:
  assumes "rx_offset t < length (rx_packet t)" "0 < n"
  shows "\<exists>m t'. udp_deliver n t = (take m (udp_future future t []), t') \<and> (\<forall>x. udp_future future t' x = drop m (udp_future future t x)) \<and>
    0 < m \<and> m \<le> n \<and> m \<le> length (udp_future future t [])"
  using assms by (intro exI [of _ "min n (length (rx_packet t) - rx_offset t)"] exI [of _ "snd (udp_deliver n t)"])
    (auto simp: udp_deliver_def udp_future_def Let_def clear_rx_def min_def add.commute)

lemma udp_recv_future:
  assumes "0 < n"
  shows "\<exists>m t'. udp_recv net impl (Suc fuel) n t = (Inr (take m (udp_future future t [])), t') \<and>
      (\<forall>x. udp_future future t' x = drop m (udp_future future t x)) \<and> m \<le> n \<and> m \<le> length (udp_future future t []) \<and> (udp_future future t [] \<noteq> [] \<longrightarrow> 0 < m)"
proof -
  have deliver: "\<exists>m t'. udp_recv_loop net impl f n t1 = (Inr (take m (udp_future future t [])), t') \<and>
      (\<forall>x. udp_future future t' x = drop m (udp_future future t x)) \<and> m \<le> n \<and> m \<le> length (udp_future future t []) \<and> (udp_future future t [] \<noteq> [] \<longrightarrow> 0 < m)"
    if "rx_offset t1 < length (rx_packet t1)" "udp_future future t1 = udp_future future t" for t1 f
    using udp_deliver_future [OF that(1) assms] that
    by (subst udp_recv_loop.simps) (elim exE conjE, simp, intro exI conjI impI, simp_all)
  show ?thesis
  proof (cases "rx_offset t < length (rx_packet t)")
    case True
    with deliver [of t] assms show ?thesis by (simp add: udp_recv_def)
  next
    case False
    obtain os1 where os1: "so_select net (timeval_of (ud_timeout_ms t)) (ud_os t) = (Inr (future (ud_os t) [] \<noteq> []), os1)"
      "future os1 = future (ud_os t)" using select_ready by blast
    have fut: "udp_future future t x = future (ud_os t) x" for x using False by (simp add: udp_future_def)
    show ?thesis
    proof (cases "future (ud_os t) [] = []")
      case True
      have "udp_recv net impl (Suc fuel) n t = (Inr [], (clear_rx t)\<lparr>ud_os := os1\<rparr>)"
        using False assms os1 True
        by (simp add: udp_recv_def udp_recv_round_def clear_rx_def Let_def, subst udp_recv_loop.simps) (simp add: udp_recv_round_def clear_rx_def Let_def)
      with True os1(2) fut show ?thesis by (intro exI [of _ 0] exI [of _ "(clear_rx t)\<lparr>ud_os := os1\<rparr>"]) (simp add: udp_future_def clear_rx_def)
    next
      case ready: False
      obtain d src os2 where d: "so_recvfrom net RX_PACKET_BYTES os1 = (Inr (d, src), os2)" "same_ipv4_endpoint src (remote_addr impl)"
        "d \<noteq> []" "length d \<le> RX_PACKET_BYTES" "\<forall>x. future os1 x = d @ future os2 x"
        using recvfrom_board [of os1] ready os1(2) by auto
      let ?t = "t\<lparr>ud_os := os2, rx_packet := d, rx_offset := 0\<rparr>"
      have "udp_recv_round net impl t = (Inr None, ?t)"
        using os1 ready d by (simp add: udp_recv_round_def clear_rx_def Let_def)
      then have "udp_recv net impl (Suc fuel) n t = udp_recv_loop net impl fuel n ?t"
        using False assms by (simp add: udp_recv_def, subst udp_recv_loop.simps) simp
      moreover have "udp_future future ?t = udp_future future t" using d(5) os1(2) False by (intro ext) (simp add: udp_future_def)
      ultimately show ?thesis using deliver [of ?t fuel] d(3) by simp
    qed
  qed
qed

end

sublocale udp_board \<subseteq> board "udp_transport net impl (Suc fuel)" "udp_future future" for fuel
proof
  fix data t
  show "\<exists>t'. it_send (udp_transport net impl (Suc fuel)) data t = (Inr (), t') \<and> (\<forall>x. udp_future future t' x = udp_future future t (data @ x))"
    using udp_send_loop_future [OF order.refl, of data t]
    by (elim exE) (simp add: udp_transport_def udp_send_def udp_future_def)
next
  fix n t
  assume "0 < (n :: nat)"
  from udp_recv_future [OF this, of fuel t]
  show "\<exists>m t'. it_recv (udp_transport net impl (Suc fuel)) n t = (Inr (take m (udp_future future t [])), t') \<and>
      (\<forall>x. udp_future future t' x = drop m (udp_future future t x)) \<and> m \<le> n \<and> m \<le> length (udp_future future t []) \<and> (udp_future future t [] \<noteq> [] \<longrightarrow> 0 < m)"
    by (simp add: udp_transport_def)
next
  fix t
  show "it_recv (udp_transport net impl (Suc fuel)) 0 t = (Inr [], t)" by (simp add: udp_transport_def udp_recv_def)
qed

section \<open>A network with the kernel\<close>

text \<open>The kernel behind a network: a datagram is a piece of at most \<open>Suc c\<close> bytes of what it has sent.\<close>

definition board_addr :: "SockAddr \<times> nat" where
  "board_addr = (\<lparr>ss_family = AF_INET, sin_addr = 0xC0A80132, sin_port = FPGA_UDP_PORT\<rparr>, sizeof_sockaddr_in)"

definition board_impl :: UdpImpl where
  "board_impl = \<lparr>remote_addr = board_addr, max_payload = 1200\<rparr>"

definition board_net :: "bool \<Rightarrow> (nat \<Rightarrow> RtlTiming) \<Rightarrow> KernelState \<Rightarrow> nat \<Rightarrow> Loopback UdpSocket" where
  "board_net synth rtl k c =
     \<lparr>so_getaddrinfo = (\<lambda>host port. Inr board_addr), so_socket = Pair (Inr ()), so_rcvbuf = (\<lambda>n t. t),
      so_bind = (\<lambda>port. Pair (Inr ())), so_close = (\<lambda>t. t),
      so_sendto = (\<lambda>addr p t. (Inr (length p), t\<lparr>lb_sent := lb_sent t @ p\<rparr>)),
      so_select = (\<lambda>tv t. (Inr (loop_future synth rtl k t [] \<noteq> []), t)),
      so_recvfrom = (\<lambda>n t. let d = take (min n (Suc c)) (loop_future synth rtl k t [])
         in (Inr (d, board_addr), t\<lparr>lb_read := lb_read t + length d\<rparr>))\<rparr>"

lemma board_out_prefix: "prefix (board_out synth rtl k s) (board_out synth rtl k (s @ x))"
proof -
  let ?k = "k\<lparr>k_rx := map Some s, k_tx := []\<rparr>"
  have e: "k\<lparr>k_rx := map Some (s @ x), k_tx := []\<rparr> = feed (map Some x) ?k" by (simp add: feed_def)
  have "prefix (k_tx (snd (hash_join_kernel synth rtl ?k))) (k_tx (snd (hash_join_kernel synth rtl (feed (map Some x) ?k))))"
    using session_loop_fed [of "map Some x" synth rtl 0 "kernel_start ?k"] by (auto simp: hash_join_kernel_def fed_def split: if_splits)
  then show ?thesis unfolding board_out_def e by (auto simp: tx_data_def prefix_def)
qed

lemma loop_future_prefix: "prefix (loop_future synth rtl k t []) (loop_future synth rtl k t x)"
proof -
  let ?a = "board_out synth rtl k (lb_sent t)" and ?b = "board_out synth rtl k (lb_sent t @ x)"
  obtain ys where "?b = ?a @ ys" using board_out_prefix [of synth rtl k "lb_sent t" x] by (auto simp: prefix_def)
  then show ?thesis by (auto simp: loop_future_def prefix_def)
qed

interpretation wire: udp_board "board_net synth rtl k c" board_impl "loop_future synth rtl k" for synth rtl k c
proof
  fix p os
  show "\<exists>os'. so_sendto (board_net synth rtl k c) (remote_addr board_impl) p os = (Inr (length p), os') \<and>
      (\<forall>x. loop_future synth rtl k os' x = loop_future synth rtl k os (p @ x))"
    by (simp add: board_net_def loop_future_def)
next
  fix tv os
  show "\<exists>os'. so_select (board_net synth rtl k c) tv os = (Inr (loop_future synth rtl k os [] \<noteq> []), os') \<and>
      loop_future synth rtl k os' = loop_future synth rtl k os"
    by (simp add: board_net_def)
next
  fix os
  assume out: "loop_future synth rtl k os [] \<noteq> []"
  let ?d = "take (min RX_PACKET_BYTES (Suc c)) (loop_future synth rtl k os [])"
  let ?os = "os\<lparr>lb_read := lb_read os + length ?d\<rparr>"
  have "?d @ loop_future synth rtl k ?os x = loop_future synth rtl k os x" for x
  proof -
    obtain ys where "loop_future synth rtl k os x = loop_future synth rtl k os [] @ ys"
      using loop_future_prefix [of synth rtl k os x] by (auto simp: prefix_def)
    then have "?d = take (length ?d) (loop_future synth rtl k os x)" by (simp add: min_def)
    moreover have "loop_future synth rtl k ?os x = drop (length ?d) (loop_future synth rtl k os x)"
      by (simp add: loop_future_def add.commute)
    ultimately show ?thesis by (metis append_take_drop_id)
  qed
  then show "\<exists>d src os'. so_recvfrom (board_net synth rtl k c) RX_PACKET_BYTES os = (Inr (d, src), os') \<and>
      same_ipv4_endpoint src (remote_addr board_impl) \<and> d \<noteq> [] \<and> length d \<le> RX_PACKET_BYTES \<and>
      (\<forall>x. loop_future synth rtl k os x = d @ loop_future synth rtl k os' x)"
    using out by (intro exI [of _ ?d] exI [of _ board_addr] exI [of _ ?os])
      (simp add: board_net_def Let_def board_impl_def board_addr_def RX_PACKET_BYTES_def)
qed (simp add: board_impl_def)

section \<open>Properties\<close>



text \<open>C28. A datagram from an unexpected endpoint is not dropped: the loop of \<open>recv\<close> ends with the buffer at its
  full size, and the caller reads the foreign payload padded with zeros as if the board had sent it.\<close>

theorem foreign_datagram_delivered:
  assumes "rx_packet t = []" and "so_select net (timeval_of (ud_timeout_ms t)) (ud_os t) = (Inr True, os1)"
    and "so_recvfrom net RX_PACKET_BYTES os1 = (Inr (d, src), os2)" and "\<not> same_ipv4_endpoint src (remote_addr impl)"
    and "length d \<le> RX_PACKET_BYTES" and "0 < n"
  shows "fst (udp_recv net impl (Suc fuel) n t) = Inr (take n (d @ replicate (RX_PACKET_BYTES - length d) 0))"
proof -
  let ?p = "d @ replicate (RX_PACKET_BYTES - length d) 0"
  let ?t = "t\<lparr>rx_packet := ?p, rx_offset := 0, ud_os := os2\<rparr>"
  have "udp_recv_round net impl t = (Inr None, ?t)"
    using assms(2-5) by (simp add: udp_recv_round_def clear_rx_def Let_def)
  then have "udp_recv net impl (Suc fuel) n t = udp_recv_loop net impl fuel n ?t"
    using assms(1,6) by (simp add: udp_recv_def, subst udp_recv_loop.simps) simp
  moreover have "0 < length ?p" using assms(5) by (simp add: RX_PACKET_BYTES_def)
  then have "rx_offset ?t < length (rx_packet ?t)" by simp
  then have "fst (udp_recv_loop net impl fuel n ?t) = Inr (take n ?p)"
    by (subst udp_recv_loop.simps) (simp add: udp_deliver_def Let_def min_def)
  ultimately show ?thesis by simp
qed

theorem foreign_datagram_delivered_witness:
  "fst (udp_recv \<lparr>so_getaddrinfo = (\<lambda>host port. Inr board_addr), so_socket = Pair (Inr ()), so_rcvbuf = (\<lambda>n t. t),
        so_bind = (\<lambda>port. Pair (Inr ())), so_close = (\<lambda>t. t), so_sendto = (\<lambda>addr p t. (Inr (length p), t)),
        so_select = (\<lambda>tv t. (Inr True, t)),
        so_recvfrom = (\<lambda>n t. (Inr ([1, 2], \<lparr>ss_family = AF_INET, sin_addr = 7, sin_port = 9\<rparr>, 16), t))\<rparr>
      board_impl 1 4 \<lparr>ud_os = (), ud_timeout_ms = 100, rx_packet = [], rx_offset = 0\<rparr>) = Inr [1, 2, 0, 0]"
proof -
  let ?src = "(\<lparr>ss_family = AF_INET, sin_addr = 7, sin_port = 9\<rparr>, 16) :: SockAddr \<times> nat"
  let ?net = "\<lparr>so_getaddrinfo = (\<lambda>host port. Inr board_addr), so_socket = Pair (Inr ()), so_rcvbuf = (\<lambda>n t. t),
        so_bind = (\<lambda>port. Pair (Inr ())), so_close = (\<lambda>t. t), so_sendto = (\<lambda>addr p t. (Inr (length p), t)),
        so_select = (\<lambda>tv t. (Inr True, t)), so_recvfrom = (\<lambda>n t. (Inr ([1, 2], ?src), t))\<rparr> :: unit UdpSocket"
  let ?t = "\<lparr>ud_os = (), ud_timeout_ms = 100, rx_packet = [], rx_offset = 0\<rparr>"
  have "fst (udp_recv ?net board_impl (Suc 0) 4 ?t) = Inr (take 4 ([1, 2] @ replicate (RX_PACKET_BYTES - length [1, 2 :: u8]) 0))"
    by (rule foreign_datagram_delivered [where src = ?src])
      (simp_all add: board_impl_def board_addr_def RX_PACKET_BYTES_def FPGA_UDP_PORT_def)
  moreover have "take 4 ([1, 2] @ replicate (RX_PACKET_BYTES - length [1, 2 :: u8]) 0) = [1, 2, 0, 0 :: u8]"
    by (simp add: RX_PACKET_BYTES_def numeral_2_eq_2)
  ultimately show ?thesis by (simp only: One_nat_def)
qed

end
