(* ===== verification/Fpga_Adapter.thy ===== *)
theory Fpga_Adapter
  imports Software_Kernel Uart_Transport Udp_Transport
begin

text \<open>
  The C interface of the host library (\<^verbatim>\<open>src/pg/src/fpga_adapter.cpp\<close> and \<^verbatim>\<open>fpga_adapter.h\<close>): settings read from text,
  capacity checks, the preparation of a UDP session, the choice of the transport, a run of the client and
  the error and metrics left for the caller. The tuple and pair types of the header have the layout of the
  host's own, as its static assertions say, and are not repeated. Running out of memory is modelled for the
  result array only.
\<close>

section \<open>Metrics\<close>

text \<open>As in \<open>HostSessionMetrics\<close>, the times are kept as whole microseconds.\<close>

record AdapterHostMetrics =
  am_config_send_ms :: nat
  am_config_ack_wait_ms :: nat
  am_build_send_ms :: nat
  am_build_ack_wait_ms :: nat
  am_probe_send_ms :: nat
  am_probe_ack_wait_ms :: nat
  am_final_status_wait_ms :: nat
  am_reset_wait_ms :: nat
  am_result_recv_ms :: nat
  am_adapter_total_ms :: nat
  am_protocol_frames_sent :: u64
  am_protocol_frames_recv :: u64
  am_transport_sends :: u64
  am_bytes_sent :: u64
  am_bytes_recv :: u64
  am_config_frames_sent :: u64
  am_inner_frames_sent :: u64
  am_outer_frames_sent :: u64
  am_reset_frames_sent :: u64
  am_ack_frames_recv :: u64
  am_status_frames_recv :: u64
  am_result_frames_recv :: u64
  am_debug_frames_recv :: u64
  am_timing_frames_recv :: u64
  am_error_frames_recv :: u64
  am_result_pairs_recv :: u64
  am_has_board_timing :: bool
  am_board_timing_version :: u32
  am_board_timing_flags :: u32
  am_board_clock_hz :: u32
  am_board_inner_rows :: u32
  am_board_outer_rows :: u32
  am_board_matched_rows :: u32
  am_board_inner_frames :: u32
  am_board_outer_frames :: u32
  am_board_result_frames :: u32
  am_board_ack_frames :: u32
  am_board_debug_frames :: u32
  am_board_bytes_rx :: u32
  am_board_bytes_tx :: u32
  am_board_session_total_cycles :: u64
  am_board_config_cycles :: u64
  am_board_build_rx_cycles :: u64
  am_board_build_compute_cycles :: u64
  am_board_build_total_cycles :: u64
  am_board_probe_rx_cycles :: u64
  am_board_probe_compute_cycles :: u64
  am_board_result_emit_cycles :: u64
  am_board_probe_total_cycles :: u64
  am_board_ack_emit_cycles :: u64
  am_board_rx_wait_cycles :: u64
  am_board_tx_blocked_cycles :: u64
  am_board_protocol_wait_cycles :: u64
  am_board_max_build_batch_cycles :: u32
  am_board_max_probe_batch_cycles :: u32
  am_board_max_result_frame_cycles :: u32
  am_board_hash_build_inserts :: u32
  am_board_hash_probe_lookups :: u32
  am_board_hash_probe_hits :: u32
  am_board_hash_probe_misses :: u32
  am_board_hash_overflow_errors :: u32
  am_board_hash_build_collision_steps :: u32
  am_board_hash_probe_collision_steps :: u32
  am_board_hash_max_build_probe_distance :: u32
  am_board_hash_max_probe_distance :: u32
  am_board_hash_table_load_factor_ppm :: u32

definition adapter_metrics_zero :: AdapterHostMetrics where
  "adapter_metrics_zero = \<lparr>am_config_send_ms = 0, am_config_ack_wait_ms = 0, am_build_send_ms = 0,
     am_build_ack_wait_ms = 0, am_probe_send_ms = 0, am_probe_ack_wait_ms = 0,
     am_final_status_wait_ms = 0, am_reset_wait_ms = 0, am_result_recv_ms = 0,
     am_adapter_total_ms = 0, am_protocol_frames_sent = 0, am_protocol_frames_recv = 0,
     am_transport_sends = 0, am_bytes_sent = 0, am_bytes_recv = 0, am_config_frames_sent = 0,
     am_inner_frames_sent = 0, am_outer_frames_sent = 0, am_reset_frames_sent = 0,
     am_ack_frames_recv = 0, am_status_frames_recv = 0, am_result_frames_recv = 0,
     am_debug_frames_recv = 0, am_timing_frames_recv = 0, am_error_frames_recv = 0,
     am_result_pairs_recv = 0, am_has_board_timing = False, am_board_timing_version = 0,
     am_board_timing_flags = 0, am_board_clock_hz = 0, am_board_inner_rows = 0,
     am_board_outer_rows = 0, am_board_matched_rows = 0, am_board_inner_frames = 0,
     am_board_outer_frames = 0, am_board_result_frames = 0, am_board_ack_frames = 0,
     am_board_debug_frames = 0, am_board_bytes_rx = 0, am_board_bytes_tx = 0,
     am_board_session_total_cycles = 0, am_board_config_cycles = 0,
     am_board_build_rx_cycles = 0, am_board_build_compute_cycles = 0,
     am_board_build_total_cycles = 0, am_board_probe_rx_cycles = 0,
     am_board_probe_compute_cycles = 0, am_board_result_emit_cycles = 0,
     am_board_probe_total_cycles = 0, am_board_ack_emit_cycles = 0,
     am_board_rx_wait_cycles = 0, am_board_tx_blocked_cycles = 0,
     am_board_protocol_wait_cycles = 0, am_board_max_build_batch_cycles = 0,
     am_board_max_probe_batch_cycles = 0, am_board_max_result_frame_cycles = 0,
     am_board_hash_build_inserts = 0, am_board_hash_probe_lookups = 0,
     am_board_hash_probe_hits = 0, am_board_hash_probe_misses = 0,
     am_board_hash_overflow_errors = 0, am_board_hash_build_collision_steps = 0,
     am_board_hash_probe_collision_steps = 0, am_board_hash_max_build_probe_distance = 0,
     am_board_hash_max_probe_distance = 0, am_board_hash_table_load_factor_ppm = 0\<rparr>"

definition copy_host_metrics :: "HostSessionMetrics \<Rightarrow> AdapterHostMetrics \<Rightarrow> AdapterHostMetrics" where
  "copy_host_metrics src dst =
     (let dst = dst\<lparr>
          am_config_send_ms := config_send_ms src, am_config_ack_wait_ms := config_ack_wait_ms src,
          am_build_send_ms := build_send_ms src, am_build_ack_wait_ms := build_ack_wait_ms src,
          am_probe_send_ms := probe_send_ms src, am_probe_ack_wait_ms := probe_ack_wait_ms src,
          am_final_status_wait_ms := final_status_wait_ms src, am_reset_wait_ms := reset_wait_ms src,
          am_result_recv_ms := result_recv_ms src, am_adapter_total_ms := adapter_total_ms src,
          am_protocol_frames_sent := protocol_frames_sent src,
          am_protocol_frames_recv := protocol_frames_recv src,
          am_transport_sends := transport_sends src, am_bytes_sent := bytes_sent src,
          am_bytes_recv := bytes_recv src, am_config_frames_sent := config_frames_sent src,
          am_inner_frames_sent := inner_frames_sent src, am_outer_frames_sent := outer_frames_sent src,
          am_reset_frames_sent := reset_frames_sent src, am_ack_frames_recv := ack_frames_recv src,
          am_status_frames_recv := status_frames_recv src,
          am_result_frames_recv := result_frames_recv src,
          am_debug_frames_recv := debug_frames_recv src,
          am_timing_frames_recv := timing_frames_recv src,
          am_error_frames_recv := error_frames_recv src, am_result_pairs_recv := result_pairs_recv src,
          am_has_board_timing := has_board_timing src\<rparr>;
          t = board_timing src
      in if has_board_timing src then dst\<lparr>
          am_board_timing_version := ucast (t_version t), am_board_timing_flags := ucast (t_flags t),
          am_board_clock_hz := t_clock_hz t, am_board_inner_rows := t_inner_rows t,
          am_board_outer_rows := t_outer_rows t, am_board_matched_rows := t_matched_rows t,
          am_board_inner_frames := t_inner_frames t, am_board_outer_frames := t_outer_frames t,
          am_board_result_frames := t_result_frames t, am_board_ack_frames := t_ack_frames t,
          am_board_debug_frames := t_debug_frames t, am_board_bytes_rx := t_bytes_rx t,
          am_board_bytes_tx := t_bytes_tx t, am_board_session_total_cycles := t_session_total_cycles t,
          am_board_config_cycles := t_config_cycles t, am_board_build_rx_cycles := t_build_rx_cycles t,
          am_board_build_compute_cycles := t_build_compute_cycles t,
          am_board_build_total_cycles := t_build_total_cycles t,
          am_board_probe_rx_cycles := t_probe_rx_cycles t,
          am_board_probe_compute_cycles := t_probe_compute_cycles t,
          am_board_result_emit_cycles := t_result_emit_cycles t,
          am_board_probe_total_cycles := t_probe_total_cycles t,
          am_board_ack_emit_cycles := t_ack_emit_cycles t,
          am_board_rx_wait_cycles := t_rx_wait_cycles t,
          am_board_tx_blocked_cycles := t_tx_blocked_cycles t,
          am_board_protocol_wait_cycles := t_protocol_wait_cycles t,
          am_board_max_build_batch_cycles := t_max_build_batch_cycles t,
          am_board_max_probe_batch_cycles := t_max_probe_batch_cycles t,
          am_board_max_result_frame_cycles := t_max_result_frame_cycles t,
          am_board_hash_build_inserts := t_hash_build_inserts t,
          am_board_hash_probe_lookups := t_hash_probe_lookups t,
          am_board_hash_probe_hits := t_hash_probe_hits t,
          am_board_hash_probe_misses := t_hash_probe_misses t,
          am_board_hash_overflow_errors := t_hash_overflow_errors t,
          am_board_hash_build_collision_steps := t_hash_build_collision_steps t,
          am_board_hash_probe_collision_steps := t_hash_probe_collision_steps t,
          am_board_hash_max_build_probe_distance := ucast (t_hash_max_build_probe_distance t),
          am_board_hash_max_probe_distance := ucast (t_hash_max_probe_distance t),
          am_board_hash_table_load_factor_ppm := t_hash_table_load_factor_ppm t\<rparr>
         else dst)"

section \<open>Settings as text\<close>

text \<open>A C string that may be a null pointer is a \<open>string option\<close>.\<close>

definition str_eq :: "string option \<Rightarrow> string \<Rightarrow> bool" where
  "str_eq a b \<longleftrightarrow> a = Some b"

definition or_default :: "string option \<Rightarrow> string \<Rightarrow> string" where
  "or_default s d = (case s of None \<Rightarrow> d | Some t \<Rightarrow> if t \<noteq> [] then t else d)"

record UdpEndpoint =
  ue_host :: string
  ue_port :: u16

fun rfind :: "char \<Rightarrow> string \<Rightarrow> nat option" where
  "rfind c [] = None"
| "rfind c (x # xs) = (case rfind c xs of Some i \<Rightarrow> Some (Suc i) | None \<Rightarrow> if x = c then Some 0 else None)"

definition parse_udp_endpoint :: "string option \<Rightarrow> exn + UdpEndpoint" where
  "parse_udp_endpoint device =
     (let host = (case device of None \<Rightarrow> [] | Some d \<Rightarrow> d);
          endpoint = \<lparr>ue_host = host, ue_port = FPGA_UDP_PORT\<rparr>
      in case rfind CHR '':'' host of
           None \<Rightarrow> Inr endpoint
         | Some colon \<Rightarrow>
             let port_text = drop (colon + 1) host in
             if port_text = [] then Inr endpoint
             else if \<not> list_all is_digit port_text then Inr endpoint
             else let port = strtoul port_text in
               if port = 0 \<or> port > 65535 then Inl (FpgaException ''invalid UDP port in fpga.device'')
               else if take colon host = [] then Inl (FpgaException ''invalid UDP host in fpga.device'')
               else Inr \<lparr>ue_host = take colon host, ue_port = ucast port\<rparr>)"

definition parse_algorithm :: "string option \<Rightarrow> exn + u8" where
  "parse_algorithm algorithm_name =
     (let name = or_default algorithm_name ''a'' in
      if str_eq (Some name) ''a'' \<or> str_eq (Some name) ''A'' \<or> str_eq (Some name) ''algorithm_a'' \<or> str_eq (Some name) ''linear''
      then Inr ALGORITHM_A
      else if str_eq (Some name) ''b'' \<or> str_eq (Some name) ''B'' \<or> str_eq (Some name) ''algorithm_b'' \<or> str_eq (Some name) ''grace''
      then Inr ALGORITHM_B
      else Inl (FpgaException (''unsupported fpga.algorithm: '' @ name)))"

section \<open>Capacity\<close>

definition kHtMaxRows :: u32 where "kHtMaxRows = 12288"
definition kGraceMaxK :: u32 where "kGraceMaxK = 256"
definition kGraceWordsPerTuple :: u32 where "kGraceWordsPerTuple = 2"
definition kGraceInnerSlotWords :: u32 where "kGraceInnerSlotWords = kHtMaxRows * kGraceWordsPerTuple"
definition kGraceOuterAreaBase :: u32 where "kGraceOuterAreaBase = kGraceMaxK * kGraceInnerSlotWords"
definition kGraceDdr2TotalWords :: u32 where "kGraceDdr2TotalWords = 16 * 1024 * 1024"
definition kGraceMaxInnerRows :: u32 where "kGraceMaxInnerRows = kGraceMaxK * kHtMaxRows"

definition grace_ddr_layout_fits :: "u64 \<Rightarrow> u64 \<Rightarrow> bool" where
  "grace_ddr_layout_fits inner_count outer_count =
     (if inner_count > ucast kGraceMaxInnerRows then False
      else let k = (inner_count + ucast kHtMaxRows - 1) div ucast kHtMaxRows;
               k = (if k = 0 then 1 else k)
        in if k > ucast kGraceMaxK then False
           else let outer_slot_words = (outer_count div k + 1) * ucast kGraceWordsPerTuple * 2
             in ucast kGraceOuterAreaBase + k * outer_slot_words \<le> ucast kGraceDdr2TotalWords)"

section \<open>Preparing a UDP session\<close>

text \<open>The code between taking the time and giving up: frames are read until the board says it is idle; an
  exception clears the input. \<open>rounds\<close> bounds the loop, \<open>fuel\<close> the loops of the transport; the state is
  the decoder, the transport and the number of clock readings.\<close>

type_synonym 'o prep_state = "ResultDecoder \<times> 'o UdpTransport \<times> nat"

fun prepare_wait :: "'o UdpSocket \<Rightarrow> UdpImpl \<Rightarrow> nat \<Rightarrow> (nat \<Rightarrow> nat) \<Rightarrow> nat \<Rightarrow> nat \<Rightarrow> 'o prep_state \<Rightarrow> (exn + bool) \<times> 'o prep_state" where
  "prepare_wait net impl fuel clk 0 start s = (Inl Diverged, s)"
| "prepare_wait net impl fuel clk (Suc rounds) start (d, u, i) =
     (if (clk i - start) div 1000000 \<ge> 6500 then (Inr False, d, u, i + 1)
      else case recv_frame (udp_transport net impl fuel) (d, u) of
        (Inr (HfAck ack), d, u) \<Rightarrow>
          if ack_phase ack = phase_byte PHASE_IDLE then (Inr True, d, u, i + 1)
          else prepare_wait net impl fuel clk rounds start (d, u, i + 1)
      | (Inr _, d, u) \<Rightarrow> prepare_wait net impl fuel clk rounds start (d, u, i + 1)
      | (Inl e, d, u) \<Rightarrow>
          if e = Diverged \<or> e = OutOfBounds then (Inl e, d, u, i + 1)
          else case udp_reset net fuel u of
            (Inl e, u) \<Rightarrow> (Inl e, d, u, i + 1)
          | (Inr _, u) \<Rightarrow> prepare_wait net impl fuel clk rounds start (d, u, i + 1))"

fun prepare_attempts :: "nat \<Rightarrow> 'o UdpSocket \<Rightarrow> UdpImpl \<Rightarrow> nat \<Rightarrow> (nat \<Rightarrow> nat) \<Rightarrow> 'o prep_state \<Rightarrow> (exn + unit) \<times> 'o prep_state" where
  "prepare_attempts 0 net impl fuel clk s = (Inr (), s)"
| "prepare_attempts (Suc attempts) net impl fuel clk (d, u, i) =
     (case udp_send net impl [MSG_RESET, 0, 0] u of
        (Inl e, u) \<Rightarrow> (Inl e, d, u, i)
      | (Inr _, u) \<Rightarrow>
          case prepare_wait net impl fuel clk fuel (clk i) (d, u, i + 1) of
            (Inl e, s) \<Rightarrow> (Inl e, s)
          | (Inr True, s) \<Rightarrow> (Inr (), s)
          | (Inr False, d, u, i) \<Rightarrow>
              case udp_reset net fuel u of
                (Inl e, u) \<Rightarrow> (Inl e, d, u, i)
              | (Inr _, u) \<Rightarrow> prepare_attempts attempts net impl fuel clk (d, u, i))"

text \<open>The time-out that \<open>ScopedUdpTimeout\<close> sets is taken back however the session is left.\<close>

definition prepare_udp_session ::
  "'o UdpSocket \<Rightarrow> UdpImpl \<Rightarrow> nat \<Rightarrow> (nat \<Rightarrow> nat) \<Rightarrow> 'o UdpTransport \<times> nat \<Rightarrow> (exn + unit) \<times> 'o UdpTransport \<times> nat" where
  "prepare_udp_session net impl fuel clk s =
     (let (u, i) = s;
          saved = ud_timeout_ms u;
          restore = (\<lambda>(r, u, i). (r, set_recv_timeout_ms saved u, i))
      in restore (case udp_reset net fuel (set_recv_timeout_ms 5 u) of
           (Inl e, u) \<Rightarrow> (Inl e, u, i)
         | (Inr _, u) \<Rightarrow>
             case drain_until_quiet net impl fuel 1 2048 u of
               (Inl e, u) \<Rightarrow> (Inl e, u, i)
             | (Inr _, u) \<Rightarrow>
                 case prepare_attempts 2 net impl fuel clk (decoder_init, u, i) of
                   (Inl e, d, u, i) \<Rightarrow> (Inl e, u, i)
                 | (Inr _, d, u, i) \<Rightarrow>
                     case drain_until_quiet net impl fuel 1 2048 u of
                       (Inl e, u) \<Rightarrow> (Inl e, u, i)
                     | (Inr _, u) \<Rightarrow> (Inr (), u, i)))"

section \<open>A run\<close>

text \<open>What the adapter uses of the system: the clock, the socket and the terminal calls, and whether \<open>malloc\<close>
  of a number of bytes succeeds; \<open>ae_fuel\<close> bounds the loops.\<close>

record ('u, 't) AdapterEnv =
  ae_clock :: "nat \<Rightarrow> nat"
  ae_fuel :: nat
  ae_net :: "'u UdpSocket"
  ae_tty :: "'t Tty"
  ae_malloc :: "nat \<Rightarrow> bool"

text \<open>The module-level variables, with the static counter of \<open>next_session_id\<close> and the state of the system.\<close>

record ('u, 't) AdapterState =
  as_udp :: 'u
  as_tty :: 't
  as_counter :: u32
  g_last_error :: string
  g_last_metrics :: AdapterHostMetrics
  g_have_last_metrics :: bool

record AdapterArgs =
  aa_key_type :: u8
  aa_use_simulation :: bool
  aa_algorithm_name :: "string option"
  aa_transport_name :: "string option"
  aa_device :: "string option"
  aa_device_baud :: u32
  aa_warn_ms :: u32
  aa_hard_ms :: u32
  aa_max_batch_tuples :: u16
  aa_ack_window_frames :: u16

fun what :: "exn \<Rightarrow> string" where
  "what (FpgaException msg) = msg"
| "what FpgaTimeoutException = ''FPGA communication timeout''"
| "what (FpgaErrorException e) = ''FPGA error code '' @ to_string (unat e)"
| "what (RuntimeError msg) = msg"
| "what (TransportError msg) = msg"
| "what Diverged = []"
| "what OutOfBounds = []"

text \<open>The first row of each key, in the order of the input; \<open>seen\<close> holds the keys met so far.\<close>

fun dedup_inner :: "u64 set \<Rightarrow> InputTuple list \<Rightarrow> InputTuple list" where
  "dedup_inner seen [] = []"
| "dedup_inner seen (t # ts) =
     (if it_key t \<notin> seen then t # dedup_inner (insert (it_key t) seen) ts else dedup_inner seen ts)"

definition adapter_config :: "AdapterArgs \<Rightarrow> ClientConfig" where
  "adapter_config args = client_config_default\<lparr>warn_timeout_ms := aa_warn_ms args, hard_timeout_ms := aa_hard_ms args,
     max_batch_tuples := aa_max_batch_tuples args, ack_window_frames := aa_ack_window_frames args\<rparr>"

definition udp_config :: "ClientConfig \<Rightarrow> ClientConfig" where
  "udp_config ccfg = ccfg\<lparr>coalesce_config_first_inner := True, infer_done_from_probe_ack := True, reset_after_run := False\<rparr>"

text \<open>The client on a transport in state \<open>t\<close>, with \<open>n\<close> clock readings taken: the result with its metrics, the
  transport it leaves and the counter.\<close>

definition run_client ::
  "'s ITransport \<Rightarrow> ('u, 't) AdapterEnv \<Rightarrow> nat \<Rightarrow> ClientConfig \<Rightarrow> JoinConfig \<Rightarrow> InputTuple list \<Rightarrow> InputTuple list \<Rightarrow> 's \<Rightarrow> u32 \<Rightarrow>
    (exn + ResultPair list \<times> HostSessionMetrics) \<times> 's \<times> u32" where
  "run_client tr env n ccfg cfg inner outer t ctr =
     (case run_hash_join (new_session tr (\<lambda>i. ae_clock env (n + i)) ccfg (ae_fuel env) cfg) inner outer (client_init t ctr) of
        (Inl e, s) \<Rightarrow> (Inl e, fc_transport s, fc_counter s)
      | (Inr results, s) \<Rightarrow> (Inr (results, fc_metrics s), fc_transport s, fc_counter s))"

definition run_simulation ::
  "('u, 't) AdapterEnv \<Rightarrow> ClientConfig \<Rightarrow> JoinConfig \<Rightarrow> InputTuple list \<Rightarrow> InputTuple list \<Rightarrow> ('u, 't) AdapterState \<Rightarrow>
    (exn + ResultPair list \<times> HostSessionMetrics) \<times> ('u, 't) AdapterState" where
  "run_simulation env ccfg cfg inner outer s =
     (case run_client sk_transport env 0 ccfg cfg inner outer sk_blank (as_counter s) of
        (r, sk, ctr) \<Rightarrow> (r, s\<lparr>as_counter := ctr\<rparr>))"

text \<open>The destructors of the transports close what the constructors opened.\<close>

definition run_udp ::
  "('u, 't) AdapterEnv \<Rightarrow> string option \<Rightarrow> ClientConfig \<Rightarrow> JoinConfig \<Rightarrow> InputTuple list \<Rightarrow> InputTuple list \<Rightarrow> ('u, 't) AdapterState \<Rightarrow>
    (exn + ResultPair list \<times> HostSessionMetrics) \<times> ('u, 't) AdapterState" where
  "run_udp env device ccfg cfg inner outer s =
     (let net = ae_net env in
      case parse_udp_endpoint device of
        Inl e \<Rightarrow> (Inl e, s)
      | Inr endpoint \<Rightarrow>
          (case udp_open net (ue_host endpoint) (ue_port endpoint) FPGA_UDP_PORT 100 1200 (as_udp s) of
             Inl (e, os) \<Rightarrow> (Inl e, s\<lparr>as_udp := os\<rparr>)
           | Inr (impl, u) \<Rightarrow>
               (case prepare_udp_session net impl (ae_fuel env) (ae_clock env) (u, 0) of
                  (Inl e, u, n) \<Rightarrow> (Inl e, s\<lparr>as_udp := so_close net (ud_os u)\<rparr>)
                | (Inr _, u, n) \<Rightarrow>
                    (case run_client (udp_transport net impl (ae_fuel env)) env n (udp_config ccfg) cfg inner outer u (as_counter s) of
                       (r, u, ctr) \<Rightarrow> (r, s\<lparr>as_udp := so_close net (ud_os u), as_counter := ctr\<rparr>)))))"

definition run_uart ::
  "('u, 't) AdapterEnv \<Rightarrow> string \<Rightarrow> u32 \<Rightarrow> ClientConfig \<Rightarrow> JoinConfig \<Rightarrow> InputTuple list \<Rightarrow> InputTuple list \<Rightarrow> ('u, 't) AdapterState \<Rightarrow>
    (exn + ResultPair list \<times> HostSessionMetrics) \<times> ('u, 't) AdapterState" where
  "run_uart env device baud ccfg cfg inner outer s =
     (let dev = ae_tty env in
      case uart_open dev device baud 200 (as_tty s) of
        (Inl e, os) \<Rightarrow> (Inl e, s\<lparr>as_tty := os\<rparr>)
      | (Inr _, os) \<Rightarrow>
          (case run_client (uart_transport dev (ae_fuel env)) env 0 ccfg cfg inner outer os (as_counter s) of
             (r, os, ctr) \<Rightarrow> (r, s\<lparr>as_tty := tty_close dev os, as_counter := ctr\<rparr>)))"

text \<open>The choice of the transport and the run, inside the \<open>try\<close> block.\<close>

definition adapter_join ::
  "('u, 't) AdapterEnv \<Rightarrow> AdapterArgs \<Rightarrow> JoinConfig \<Rightarrow> InputTuple list \<Rightarrow> InputTuple list \<Rightarrow> ('u, 't) AdapterState \<Rightarrow>
    (exn + ResultPair list \<times> HostSessionMetrics) \<times> ('u, 't) AdapterState" where
  "adapter_join env args cfg inner outer s =
     (let ccfg = adapter_config args in
      if aa_use_simulation args then run_simulation env ccfg cfg inner outer s
      else case aa_device args of
        None \<Rightarrow> (Inl (FpgaException ''fpga.device is empty''), s)
      | Some device \<Rightarrow>
          if device = [] then (Inl (FpgaException ''fpga.device is empty''), s)
          else let name = or_default (aa_transport_name args) ''uart'' in
            if str_eq (Some name) ''udp'' then run_udp env (Some device) ccfg cfg inner outer s
            else if str_eq (Some name) ''uart'' then run_uart env device (aa_device_baud args) ccfg cfg inner outer s
            else (Inl (FpgaException (''unsupported fpga.transport: '' @ name)), s))"

text \<open>The handlers; what is not an exception passes.\<close>

definition adapter_catch :: "exn \<Rightarrow> ('u, 't) AdapterState \<Rightarrow> (exn + bool \<times> ResultPair list) \<times> ('u, 't) AdapterState" where
  "adapter_catch e s =
     (case e of
        FpgaException _ \<Rightarrow> (Inr (False, []), s\<lparr>g_last_error := what e\<rparr>)
      | FpgaTimeoutException \<Rightarrow> (Inr (False, []), s\<lparr>g_last_error := what e\<rparr>)
      | FpgaErrorException _ \<Rightarrow> (Inr (False, []), s\<lparr>g_last_error := what e\<rparr>)
      | RuntimeError _ \<Rightarrow> (Inr (False, []), s\<lparr>g_last_error := ''unexpected exception: '' @ what e\<rparr>)
      | TransportError _ \<Rightarrow> (Inr (False, []), s\<lparr>g_last_error := ''unexpected exception: '' @ what e\<rparr>)
      | _ \<Rightarrow> (Inl e, s))"

text \<open>The result copied to memory of the caller; a pair takes 16 bytes there.\<close>

definition adapter_return ::
  "('u, 't) AdapterEnv \<Rightarrow> ResultPair list \<Rightarrow> HostSessionMetrics \<Rightarrow> ('u, 't) AdapterState \<Rightarrow> (exn + bool \<times> ResultPair list) \<times> ('u, 't) AdapterState" where
  "adapter_return env results m s =
     (let s = s\<lparr>g_last_metrics := copy_host_metrics m (g_last_metrics s), g_have_last_metrics := True\<rparr> in
      if length results > 0 \<and> \<not> ae_malloc env (length results * 16)
      then (Inr (False, []), s\<lparr>g_last_error := ''malloc failed for result pairs''\<rparr>)
      else (Inr (True, results), s))"

text \<open>The function itself. The result is the returned truth value with the pairs, the empty list for a null
  pointer and a count of zero; \<open>Inl\<close> is an exception that leaves the function.\<close>

definition fpga_adapter_run ::
  "('u, 't) AdapterEnv \<Rightarrow> AdapterArgs \<Rightarrow> InputTuple list \<Rightarrow> InputTuple list \<Rightarrow> ('u, 't) AdapterState \<Rightarrow>
    (exn + bool \<times> ResultPair list) \<times> ('u, 't) AdapterState" where
  "fpga_adapter_run env args inner outer s =
     (let s = s\<lparr>g_have_last_metrics := False, g_last_metrics := adapter_metrics_zero\<rparr>;
          dedup = dedup_inner {} inner
      in case parse_algorithm (aa_algorithm_name args) of
           Inl e \<Rightarrow> (Inl e, s)
         | Inr algorithm \<Rightarrow>
             let cfg = \<lparr>jc_algorithm = algorithm, jc_key_type = aa_key_type args\<rparr> in
             if algorithm = ALGORITHM_A \<and> length dedup > unat kHtMaxRows
             then (Inr (False, []), s\<lparr>g_last_error := ''Algorithm A inner side exceeds BRAM hash-table capacity''\<rparr>)
             else if algorithm \<noteq> ALGORITHM_A \<and> \<not> grace_ddr_layout_fits (of_nat (length dedup)) (of_nat (length outer))
             then (Inr (False, []), s\<lparr>g_last_error := ''Algorithm B input sizes exceed Nexys A7 DDR2 layout capacity''\<rparr>)
             else case adapter_join env args cfg dedup outer s of
               (Inl e, s) \<Rightarrow> adapter_catch e s
             | (Inr (results, m), s) \<Rightarrow> adapter_return env results m s)"

definition fpga_adapter_last_error :: "('u, 't) AdapterState \<Rightarrow> string" where
  "fpga_adapter_last_error s = g_last_error s"

text \<open>The metrics for a caller that passes a pointer, \<open>None\<close> for the result false.\<close>

definition fpga_adapter_last_host_metrics :: "('u, 't) AdapterState \<Rightarrow> AdapterHostMetrics option" where
  "fpga_adapter_last_host_metrics s = (if \<not> g_have_last_metrics s then None else Some (g_last_metrics s))"

section \<open>Removing repeated keys\<close>

lemma tuple_entry_pair: "tuple_entry = (\<lambda>t. (it_key t, it_tid t))"
  by (rule ext) (simp add: tuple_entry_def)

lemma map_of_dedup_inner:
  "map_of (map tuple_entry (dedup_inner seen ts)) key = (if key \<in> seen then None else map_of (map tuple_entry ts) key)"
  unfolding tuple_entry_pair by (induction seen ts rule: dedup_inner.induct) auto

lemma first_match_dedup [simp]: "first_match (dedup_inner {} ts) = first_match ts"
  by (rule ext) (simp add: first_match_def map_of_dedup_inner)

lemma join_spec_dedup [simp]: "join_spec (dedup_inner {} inner) outer = join_spec inner outer"
  by (simp add: join_spec_def)

lemma set_dedup_inner: "set (dedup_inner seen ts) \<subseteq> set ts"
  by (induction seen ts rule: dedup_inner.induct) auto

lemma length_dedup_inner: "length (dedup_inner seen ts) \<le> length ts"
  by (induction seen ts rule: dedup_inner.induct) auto

lemma distinct_dedup_inner: "distinct (map it_key (dedup_inner seen ts)) \<and> set (map it_key (dedup_inner seen ts)) \<inter> seen = {}"
  by (induction seen ts rule: dedup_inner.induct) auto

lemma list_all_dedup_inner: "list_all P ts \<Longrightarrow> list_all P (dedup_inner seen ts)"
  using set_dedup_inner [of seen ts] by (auto simp: list_all_iff)

section \<open>A board on the serial port\<close>

text \<open>A backend whose settings choose algorithm A and the serial port, with the kernel at the other end of
  the line, keys that fit, inner rows the table takes, enough fuel and a calm clock.\<close>

definition uart_setup ::
  "('u, Loopback) AdapterEnv \<Rightarrow> AdapterArgs \<Rightarrow> ('u, Loopback) AdapterState \<Rightarrow> KernelState \<Rightarrow> InputTuple list \<Rightarrow> InputTuple list \<Rightarrow> bool" where
  "uart_setup env args s k inner outer \<longleftrightarrow>
     parse_algorithm (aa_algorithm_name args) = Inr ALGORITHM_A \<and> \<not> aa_use_simulation args \<and>
     (\<exists>device. aa_device args = Some device \<and> device \<noteq> []) \<and> or_default (aa_transport_name args) ''uart'' = ''uart'' \<and>
     (\<exists>spd. baud_to_speed (aa_device_baud args) = Inr spd) \<and> aa_ack_window_frames args \<noteq> 1 \<and>
     (\<exists>synth rtl c. ae_tty env = line_tty synth rtl k c) \<and> as_tty s = loop_start \<and>
     (\<forall>n. ae_malloc env n) \<and> clock_calm (ae_clock env) (client_cfg (adapter_config args)) \<and>
     610 \<le> ae_fuel env \<and> length inner < ae_fuel env \<and> length outer < ae_fuel env \<and> length outer \<le> 1000000 \<and>
     list_all (\<lambda>t. key_fits (aa_key_type args) (it_key t)) (inner @ outer) \<and>
     length (dedup_inner {} inner) \<le> unat HT_MAX_ROWS \<and>
     fst (build_all ht_insert (ht_reset (k_ht k)) (dedup_inner {} inner)) = ERR_NONE"

lemma run_client_uart:
  assumes "uart_setup env args s k inner outer" "ae_tty env = line_tty synth rtl k c"
    "cfg = \<lparr>jc_algorithm = ALGORITHM_A, jc_key_type = aa_key_type args\<rparr>"
  shows "\<exists>m t ctr'. run_client (uart_transport (ae_tty env) (ae_fuel env)) env 0 (adapter_config args) cfg (dedup_inner {} inner) outer loop_start ctr =
    (Inr (join_spec inner outer, m), t, ctr')"
proof -
  let ?tr = "uart_transport (line_tty synth rtl k c) (ae_fuel env)" and ?in = "dedup_inner {} inner"
  let ?ss = "new_session ?tr (ae_clock env) (adapter_config args) (ae_fuel env) cfg"
  have few: "length (batches_of ?ss outer) \<le> length outer"
    using client_cfg_batch(1) [of "adapter_config args"] by (intro batches_few) (simp add: new_session_def)
  have run: "linear_run ?ss ?tr k (ae_clock env) (adapter_config args) cfg ?in outer"
    using assms(1,3) few length_dedup_inner [of "{}" inner] list_all_dedup_inner [of _ inner "{}"]
    unfolding linear_run_def uart_setup_def by (auto intro!: exI [of _ "ae_fuel env"])
  have w: "2 \<le> unat (ack_window_frames (client_cfg (adapter_config args)))"
    using assms(1) by (intro window_at_least_two) (simp add: uart_setup_def adapter_config_def)
  have "fst (run_hash_join ?ss ?in outer (client_init loop_start ctr)) = Inr (join_spec ?in outer)"
    by (rule line.run_on_kernel [where rtl = rtl and synth = synth, OF run w]) (simp add: client_init_def loop_future_def loop_start_def)
  then show ?thesis
    unfolding run_client_def assms(2)
    by (cases "run_hash_join ?ss ?in outer (client_init loop_start ctr)") simp
qed

lemma uart_open_line:
  assumes "baud_to_speed baud = Inr spd"
  shows "uart_open (line_tty synth rtl k c) device baud ms t = (Inr (), t)"
  using assms by (simp add: uart_open_def sys_def bindx_def line_tty_def)

lemma adapter_run_uart:
  assumes "uart_setup env args s k inner outer"
  shows "fst (fpga_adapter_run env args inner outer s) = Inr (True, join_spec inner outer)"
proof -
  let ?s = "s\<lparr>g_have_last_metrics := False, g_last_metrics := adapter_metrics_zero\<rparr>"
  let ?cfg = "\<lparr>jc_algorithm = ALGORITHM_A, jc_key_type = aa_key_type args\<rparr>"
  obtain synth rtl c where dev: "ae_tty env = line_tty synth rtl k c" using assms by (auto simp: uart_setup_def)
  obtain device spd where d: "aa_device args = Some device" "device \<noteq> []" "baud_to_speed (aa_device_baud args) = Inr spd"
    using assms by (auto simp: uart_setup_def)
  obtain m t ctr where r: "run_client (uart_transport (ae_tty env) (ae_fuel env)) env 0 (adapter_config args) ?cfg (dedup_inner {} inner) outer loop_start (as_counter s) =
      (Inr (join_spec inner outer, m), t, ctr)"
    using run_client_uart [OF assms dev refl] by blast
  have "adapter_join env args ?cfg (dedup_inner {} inner) outer ?s =
      (Inr (join_spec inner outer, m), ?s\<lparr>as_tty := tty_close (ae_tty env) t, as_counter := ctr\<rparr>)"
    using assms d r dev by (simp add: adapter_join_def run_uart_def uart_setup_def str_eq_def uart_open_line Let_def)
  then show ?thesis using assms
    by (simp add: fpga_adapter_run_def uart_setup_def adapter_return_def kHtMaxRows_def Let_def)
qed

definition example_args :: AdapterArgs where
  "example_args = \<lparr>aa_key_type = KEY_INT32, aa_use_simulation = False, aa_algorithm_name = Some ''linear'', aa_transport_name = None,
     aa_device = Some ''/dev/ttyUSB0'', aa_device_baud = 115200, aa_warn_ms = 2000, aa_hard_ms = 30000,
     aa_max_batch_tuples = 118, aa_ack_window_frames = 15\<rparr>"

definition example_env :: "(unit, Loopback) AdapterEnv" where
  "example_env = \<lparr>ae_clock = (\<lambda>i. 0), ae_fuel = 700,
     ae_net = \<lparr>so_getaddrinfo = (\<lambda>host port. Inl ''no network''), so_socket = Pair (Inr ()), so_rcvbuf = (\<lambda>n t. t),
        so_bind = (\<lambda>port. Pair (Inr ())), so_close = (\<lambda>t. t), so_sendto = (\<lambda>addr p t. (Inr (length p), t)),
        so_select = (\<lambda>tv t. (Inr False, t)), so_recvfrom = (\<lambda>n t. (Inl EINTR, t))\<rparr>,
     ae_tty = line_tty True (\<lambda>n. rtl_absent) (kernel_blank []) 15, ae_malloc = (\<lambda>n. True)\<rparr>"

definition example_state :: "(unit, Loopback) AdapterState" where
  "example_state = \<lparr>as_udp = (), as_tty = loop_start, as_counter = 0, g_last_error = [],
     g_last_metrics = adapter_metrics_zero, g_have_last_metrics = False\<rparr>"

lemma uart_setup_example:
  assumes "length inner \<le> 600" "length outer \<le> 600" "list_all (\<lambda>t. key_fits KEY_INT32 (it_key t)) (inner @ outer)"
    "fst (build_all ht_insert (ht_reset ht_blank) (dedup_inner {} inner)) = ERR_NONE"
  shows "uart_setup example_env example_args example_state (kernel_blank []) inner outer"
proof -
  have "length (dedup_inner {} inner) \<le> 600" using length_dedup_inner [of "{}" inner] assms(1) by simp
  moreover have "fst (build_all ht_insert (ht_reset (k_ht (kernel_blank []))) (dedup_inner {} inner)) = ERR_NONE"
    using assms(4) by (simp add: kernel_blank_def)
  moreover have "clock_calm (\<lambda>i. 0) (client_cfg (adapter_config example_args))"
    by (simp add: clock_calm_def adapter_config_def client_config_default_def client_cfg_def example_args_def)
  ultimately show ?thesis using assms(1-3)
    by (auto simp: uart_setup_def example_env_def example_args_def example_state_def parse_algorithm_def or_default_def str_eq_def baud_to_speed_def)
qed

section \<open>Properties\<close>

text \<open>C35. What the adapter's header promises of a call: when it returns true the metrics of the run can be
  read, when it returns false there are no pairs, and no exception leaves the function, except the one
  for an unknown algorithm name, which is thrown before the \<open>try\<close> block. The values \<open>Diverged\<close> and \<open>OutOfBounds\<close> are
  no exceptions: they stand for a run that does not end and for undefined behaviour.\<close>

theorem adapter_run_contract:
  "case fpga_adapter_run env args inner outer s of
     (Inr (ok, pairs), s') \<Rightarrow> if ok then fpga_adapter_last_host_metrics s' \<noteq> None else pairs = []
   | (Inl e, s') \<Rightarrow> e = Diverged \<or> e = OutOfBounds \<or> parse_algorithm (aa_algorithm_name args) = Inl e"
proof -
  let ?ok = "\<lambda>p. case p of (Inr (ok, pairs), s') \<Rightarrow> if ok then fpga_adapter_last_host_metrics s' \<noteq> None else pairs = []
   | (Inl e, s') \<Rightarrow> e = Diverged \<or> e = OutOfBounds \<or> parse_algorithm (aa_algorithm_name args) = Inl e"
  have c: "?ok (adapter_catch e s)" for e and s :: "('a, 'b) AdapterState"
    by (cases e) (simp_all add: adapter_catch_def)
  have r: "?ok (adapter_return env results m s)" for results m s
    by (simp add: adapter_return_def fpga_adapter_last_host_metrics_def Let_def)
  let ?s = "s\<lparr>g_have_last_metrics := False, g_last_metrics := adapter_metrics_zero\<rparr>"
  show ?thesis
  proof (cases "parse_algorithm (aa_algorithm_name args)")
    case (Inr a)
    let ?cfg = "\<lparr>jc_algorithm = a, jc_key_type = aa_key_type args\<rparr>"
    show ?thesis
    proof (cases "fst (adapter_join env args ?cfg (dedup_inner {} inner) outer ?s)")
      case (Inl e)
      then obtain s1 where "adapter_join env args ?cfg (dedup_inner {} inner) outer ?s = (Inl e, s1)" by (metis prod.collapse)
      with Inr c [of e s1] show ?thesis by (simp add: fpga_adapter_run_def Let_def)
    next
      case (Inr q)
      then obtain results m s1 where "adapter_join env args ?cfg (dedup_inner {} inner) outer ?s = (Inr (results, m), s1)" by (metis prod.collapse)
      with \<open>parse_algorithm _ = Inr a\<close> r [of results m s1] show ?thesis by (simp add: fpga_adapter_run_def Let_def)
    qed
  qed (simp add: fpga_adapter_run_def Let_def)
qed

lemma rfind_none: "c \<notin> set s \<Longrightarrow> rfind c s = None"
  by (induction s) auto

lemma rfind_last: "c \<notin> set t \<Longrightarrow> rfind c (s @ c # t) = Some (length s)"
  by (induction s) (auto simp: rfind_none)

lemma colon_not_digit: "list_all is_digit s \<Longrightarrow> CHR '':'' \<notin> set s"
  by (auto simp: list_all_iff is_digit_def)

text \<open>An endpoint written as host, colon and port is read back exactly, for every port but zero and for
  every host text that is not empty, even one with colons of its own.\<close>

lemma parse_udp_endpoint_roundtrip:
  assumes "host \<noteq> []" and "port \<noteq> 0"
  shows "parse_udp_endpoint (Some (host @ CHR '':'' # to_string (unat port))) = Inr \<lparr>ue_host = host, ue_port = port\<rparr>"
proof -
  have r: "rfind CHR '':'' (host @ CHR '':'' # to_string (unat port)) = Some (length host)"
    using colon_not_digit [OF to_string_digits] by (rule rfind_last)
  have lt: "unat port < 65536" using unsigned_less [where 'a = nat, of port] by simp
  have u: "unat (ucast port :: u64) = unat port" using lt by (simp add: unsigned_ucast_eq unsigned_take_bit_eq take_bit_nat_eq_self)
  have p: "strtoul (to_string (unat port)) = ucast port"
    using lt strtoul_to_string [of "unat port"] by (simp add: word_unat_eq_iff [of _ "ucast port"] u unsigned_of_nat take_bit_nat_eq_self)
  have "(ucast port :: u64) \<noteq> 0" using assms(2) u by (simp add: word_unat_eq_iff)
  moreover have "\<not> (ucast port :: u64) > 65535" using lt u by (simp add: word_less_nat_alt)
  moreover have "(ucast (ucast port :: u64) :: u16) = port" using lt u by (simp add: word_unat_eq_iff unsigned_ucast_eq unsigned_take_bit_eq take_bit_nat_eq_self)
  ultimately show ?thesis
    using assms(1) to_string_digits [of "unat port"] by (simp add: parse_udp_endpoint_def r p Let_def)
qed

theorem parse_udp_endpoint_roundtrip_witness:
  "parse_udp_endpoint (Some ''192.168.1.50:50001'') = Inr \<lparr>ue_host = ''192.168.1.50'', ue_port = 50001\<rparr>"
proof -
  have "to_string (unat (50001 :: u16)) = ''50001''" by (simp add: to_string.simps)
  with parse_udp_endpoint_roundtrip [of "''192.168.1.50''" 50001] show ?thesis by simp
qed

text \<open>Arithmetic on words that stays in range.\<close>

lemma of_nat_div64: "a < 2 ^ 64 \<Longrightarrow> b < 2 ^ 64 \<Longrightarrow> (of_nat a :: u64) div of_nat b = of_nat (a div b)"
  by (simp add: word_unat_eq_iff unat_div unsigned_of_nat take_bit_nat_eq_self div_le_dividend [THEN le_less_trans])

lemma of_nat_div32: "a < 2 ^ 32 \<Longrightarrow> b < 2 ^ 32 \<Longrightarrow> (of_nat a :: u32) div of_nat b = of_nat (a div b)"
  by (simp add: word_unat_eq_iff unat_div unsigned_of_nat take_bit_nat_eq_self div_le_dividend [THEN le_less_trans])

lemma of_nat_le64: "a < 2 ^ 64 \<Longrightarrow> b < 2 ^ 64 \<Longrightarrow> (of_nat a :: u64) \<le> of_nat b \<longleftrightarrow> a \<le> b"
  by (simp add: word_le_nat_alt unsigned_of_nat take_bit_nat_eq_self)

lemma of_nat_le32: "a < 2 ^ 32 \<Longrightarrow> b < 2 ^ 32 \<Longrightarrow> (of_nat a :: u32) \<le> of_nat b \<longleftrightarrow> a \<le> b"
  by (simp add: word_le_nat_alt unsigned_of_nat take_bit_nat_eq_self)

definition grace_partitions :: "nat \<Rightarrow> nat" where
  "grace_partitions n = max 1 ((n + 12287) div 12288)"

lemma grace_partitions_bounds: "0 < grace_partitions n" "n \<le> grace_partitions n * 12288" "n \<le> 3145728 \<Longrightarrow> grace_partitions n \<le> 256"
  by (auto simp: grace_partitions_def max_def)

lemma grace_constants:
  "(ucast kGraceMaxInnerRows :: u64) = 3145728" "(ucast kHtMaxRows :: u64) = 12288" "(ucast kGraceMaxK :: u64) = 256"
  "(ucast kGraceWordsPerTuple :: u64) = 2" "(ucast kGraceOuterAreaBase :: u64) = 6291456" "(ucast kGraceDdr2TotalWords :: u64) = 16777216"
  by (simp_all add: kGraceMaxInnerRows_def kGraceMaxK_def kHtMaxRows_def kGraceWordsPerTuple_def kGraceOuterAreaBase_def
      kGraceInnerSlotWords_def kGraceDdr2TotalWords_def)

lemma grace_fits_nat:
  assumes "grace_ddr_layout_fits (of_nat n) (of_nat m)" "n < 2 ^ 32" "m < 2 ^ 60" "K = grace_partitions n"
  shows "n \<le> 3145728" "6291456 + K * ((m div K + 1) * 4) \<le> 16777216"
proof -
  have "\<not> (of_nat n :: u64) > 3145728" using assms(1) unfolding grace_ddr_layout_fits_def grace_constants by meson
  then have "(of_nat n :: u64) \<le> of_nat 3145728" by (simp add: not_less)
  then show n: "n \<le> 3145728" using assms(2) by (subst (asm) of_nat_le64) simp_all
  let ?q = "(n + 12287) div 12288"
  have "(of_nat n + 12288 - 1 :: u64) div 12288 = of_nat (n + 12287) div of_nat 12288" by (simp add: add.commute)
  also have "\<dots> = of_nat ?q" using n by (intro of_nat_div64) simp_all
  finally have q: "(of_nat n + 12288 - 1 :: u64) div 12288 = of_nat ?q" .
  have "?q < 2 ^ 64" using n by simp
  then have "(of_nat ?q :: u64) = 0 \<longleftrightarrow> ?q = 0" by (simp add: word_unat_eq_iff unsigned_of_nat take_bit_nat_eq_self)
  then have k: "(if (of_nat ?q :: u64) = 0 then 1 else of_nat ?q) = (of_nat K :: u64)" by (simp add: assms(4) grace_partitions_def)
  note Kb = grace_partitions_bounds [of n, folded assms(4)]
  have dv: "(of_nat m :: u64) div of_nat K = of_nat (m div K)" using assms(3) Kb(3) n by (intro of_nat_div64) simp_all
  have "(6291456 + of_nat K * ((of_nat (m div K) + 1) * 2 * 2) :: u64) \<le> 16777216"
    using assms(1) unfolding grace_ddr_layout_fits_def grace_constants Let_def q k dv by meson
  then have "(of_nat (6291456 + K * ((m div K + 1) * 4)) :: u64) \<le> of_nat 16777216" by (simp add: add.commute mult.commute)
  moreover have "6291456 + K * ((m div K + 1) * 4) < 2 ^ 64"
  proof -
    have "K * (m div K) \<le> m" by simp
    then have "K * ((m div K + 1) * 4) \<le> (m + K) * 4" by (simp add: algebra_simps)
    then show ?thesis using assms(3) Kb(3) [OF n] by simp
  qed
  ultimately show "6291456 + K * ((m div K + 1) * 4) \<le> 16777216" by (subst (asm) of_nat_le64) simp_all
qed

text \<open>C36. The adapter's check of the DDR2 layout is safe for the kernel's: sizes it lets pass are accepted by
  CONFIGURE of algorithm B, and the kernel's 32-bit slot width is the true one, without the wrap-around
  that CONFIGURE itself does not exclude.\<close>

theorem adapter_layout_guard:
  assumes "grace_ddr_layout_fits (of_nat n) (of_nat m)" and "n < 2 ^ 32" and "m < 2 ^ 60"
  shows "\<exists>K. check_configure ALGORITHM_B (of_nat n) (of_nat m) = (ERR_NONE, of_nat K, of_nat ((m div K + 1) * 4)) \<and>
    0 < K \<and> n \<le> K * 12288 \<and> K \<le> 256 \<and> 6291456 + K * ((m div K + 1) * 4) \<le> 16777216 \<and> m < 2 ^ 32"
proof -
  define K where "K = grace_partitions n"
  define v where "v = (m div K + 1) * 4"
  note fits = grace_fits_nat [OF assms K_def] and Kb = grace_partitions_bounds [of n, folded K_def]
  note cs = GRACE_MAX_INNER_ROWS_def GRACE_WORDS_PER_TUPLE_def GRACE_OUTER_AREA_BASE_def GRACE_DDR2_TOTAL_WORDS_def
  let ?q = "(n + 12287) div 12288"
  have "m < K * (m div K + 1)" using Kb(1) by (metis dividend_less_times_div mult.commute mult_Suc_right Suc_eq_plus1 add.commute)
  with fits(2) have m: "m < 16777216" by (simp add: algebra_simps)
  have v: "K * v \<le> 10485760" using fits(2) by (simp add: v_def)
  then have vb: "v < 2 ^ 32" using Kb(1) by (cases K) simp_all
  have "(of_nat n + 12288 - 1 :: u32) div 12288 = of_nat (n + 12287) div of_nat 12288" by (simp add: add.commute)
  also have "\<dots> = of_nat ?q" using fits(1) by (intro of_nat_div32) simp_all
  finally have q: "(of_nat n + 12288 - 1 :: u32) div 12288 = of_nat ?q" .
  have qh: "(of_nat n + HT_MAX_ROWS - 1) div HT_MAX_ROWS = of_nat ?q" using q by simp
  have "?q < 2 ^ 32" using fits(1) by simp
  then have "(of_nat ?q :: u32) = 0 \<longleftrightarrow> ?q = 0" by (simp add: word_unat_eq_iff unsigned_of_nat take_bit_nat_eq_self)
  then have k: "(if (of_nat ?q :: u32) = 0 then 1 else of_nat ?q) = (of_nat K :: u32)" by (simp add: K_def grace_partitions_def)
  have dv: "(of_nat m :: u32) div of_nat K = of_nat (m div K)" using m Kb(3) fits(1) by (intro of_nat_div32) simp_all
  have lay: "grace_layout (of_nat n) (of_nat m) = (of_nat K, of_nat v)"
    by (simp only: grace_layout_def Let_def qh k dv) (simp add: v_def algebra_simps)
  have up: "(ucast (of_nat a :: u32) :: u64) = of_nat a" if "a < 2 ^ 32" for a
    using that by (simp add: word_unat_eq_iff unsigned_ucast_eq unsigned_take_bit_eq unsigned_of_nat take_bit_nat_eq_self)
  have "(of_nat (6291456 + K * v) :: u64) \<le> of_nat 16777216" using v by (subst of_nat_le64) simp_all
  then have sum: "\<not> (6291456 + ucast (of_nat K :: u32) * ucast (of_nat v :: u32) :: u64) > 16777216"
    using up [of K] up [of v] Kb(3) fits(1) vb by (simp add: not_less)
  have "\<not> (of_nat n :: u32) > 3145728" using of_nat_le32 [of n 3145728] fits(1) by (simp add: not_less)
  then have "check_configure ALGORITHM_B (of_nat n) (of_nat m) = (ERR_NONE, of_nat K, of_nat v)"
    using sum by (simp add: check_configure_def lay cs)
  with Kb fits m show ?thesis by (intro exI [of _ K]) (simp add: v_def)
qed

theorem adapter_layout_guard_witness:
  "\<exists>K. check_configure ALGORITHM_B 20000 50000 = (ERR_NONE, of_nat K, of_nat ((50000 div K + 1) * 4)) \<and>
    0 < K \<and> 20000 \<le> K * 12288 \<and> K \<le> 256 \<and> 6291456 + K * ((50000 div K + 1) * 4) \<le> 16777216 \<and> (50000 :: nat) < 2 ^ 32"
proof -
  have "grace_ddr_layout_fits 20000 50000" by code_simp
  then have f: "grace_ddr_layout_fits (of_nat 20000) (of_nat 50000)" by simp
  have "(of_nat 20000 :: u32) = 20000" "(of_nat 50000 :: u32) = 50000" by simp_all
  with adapter_layout_guard [OF f] show ?thesis by simp
qed

end
