(* ===== verification/Fpga_Settings.thy ===== *)
theory Fpga_Settings
  imports Wire_Types Complex_Main
begin

text \<open>
  The settings of the extension (\<^verbatim>\<open>src/pg/src/fpga_hashjoin.c\<close>): the variables with their static values, and what is
  registered with PostgreSQL for them. That registration assigns the default and that later values of an
  integer lie in its range is documented behaviour of the server.
\<close>

section \<open>Variables\<close>

record FpgaGucs =
  fpga_enabled :: bool
  fpga_simulation :: bool
  fpga_algorithm :: "string option"
  fpga_transport :: "string option"
  fpga_device :: "string option"
  fpga_device_baud :: int
  fpga_min_inner_rows :: int
  fpga_max_inner_rows :: int
  fpga_warn_timeout_ms :: int
  fpga_hard_timeout_ms :: int
  fpga_max_batch_tuples :: int
  fpga_ack_window_frames :: int
  fpga_explain_verbose :: bool

definition FPGA_DEFAULT_ACK_WINDOW_FRAMES :: int where "FPGA_DEFAULT_ACK_WINDOW_FRAMES = 15"

definition gucs_static :: FpgaGucs where
  "gucs_static = \<lparr>fpga_enabled = True, fpga_simulation = True, fpga_algorithm = None, fpga_transport = None, fpga_device = None,
     fpga_device_baud = 115200, fpga_min_inner_rows = 100, fpga_max_inner_rows = 12288, fpga_warn_timeout_ms = 2000,
     fpga_hard_timeout_ms = 30000, fpga_max_batch_tuples = 118, fpga_ack_window_frames = FPGA_DEFAULT_ACK_WINDOW_FRAMES,
     fpga_explain_verbose = False\<rparr>"

section \<open>Registration\<close>

text \<open>What \<open>_PG_init\<close> registers: name, how to assign the variable, its default and the range of an integer.\<close>

datatype GucDef =
    BoolVariable string "bool \<Rightarrow> FpgaGucs \<Rightarrow> FpgaGucs" bool
  | StringVariable string "string \<Rightarrow> FpgaGucs \<Rightarrow> FpgaGucs" string
  | IntVariable string "int \<Rightarrow> FpgaGucs \<Rightarrow> FpgaGucs" "FpgaGucs \<Rightarrow> int" int int int

definition INT_MAX :: int where "INT_MAX = 2147483647"

definition guc_defs :: "GucDef list" where
  "guc_defs =
    [BoolVariable ''fpga.enabled'' (\<lambda>v g. g\<lparr>fpga_enabled := v\<rparr>) True,
     BoolVariable ''fpga.simulation'' (\<lambda>v g. g\<lparr>fpga_simulation := v\<rparr>) True,
     StringVariable ''fpga.algorithm'' (\<lambda>v g. g\<lparr>fpga_algorithm := Some v\<rparr>) ''a'',
     StringVariable ''fpga.transport'' (\<lambda>v g. g\<lparr>fpga_transport := Some v\<rparr>) ''uart'',
     StringVariable ''fpga.device'' (\<lambda>v g. g\<lparr>fpga_device := Some v\<rparr>) ''/dev/ttyUSB0'',
     IntVariable ''fpga.device_baud'' (\<lambda>v g. g\<lparr>fpga_device_baud := v\<rparr>) fpga_device_baud 115200 9600 4000000,
     IntVariable ''fpga.min_inner_rows'' (\<lambda>v g. g\<lparr>fpga_min_inner_rows := v\<rparr>) fpga_min_inner_rows 100 0 INT_MAX,
     IntVariable ''fpga.max_inner_rows'' (\<lambda>v g. g\<lparr>fpga_max_inner_rows := v\<rparr>) fpga_max_inner_rows 12288 1 INT_MAX,
     IntVariable ''fpga.warn_timeout_ms'' (\<lambda>v g. g\<lparr>fpga_warn_timeout_ms := v\<rparr>) fpga_warn_timeout_ms 2000 0 INT_MAX,
     IntVariable ''fpga.hard_timeout_ms'' (\<lambda>v g. g\<lparr>fpga_hard_timeout_ms := v\<rparr>) fpga_hard_timeout_ms 30000 1 INT_MAX,
     IntVariable ''fpga.max_batch_tuples'' (\<lambda>v g. g\<lparr>fpga_max_batch_tuples := v\<rparr>) fpga_max_batch_tuples 118 1 118,
     IntVariable ''fpga.ack_window_frames'' (\<lambda>v g. g\<lparr>fpga_ack_window_frames := v\<rparr>) fpga_ack_window_frames
       FPGA_DEFAULT_ACK_WINDOW_FRAMES 1 64,
     BoolVariable ''fpga.explain_verbose'' (\<lambda>v g. g\<lparr>fpga_explain_verbose := v\<rparr>) False]"

text \<open>Registration assigns the default; later assignments stay in the range.\<close>

fun guc_boot :: "GucDef \<Rightarrow> FpgaGucs \<Rightarrow> FpgaGucs" where
  "guc_boot (BoolVariable name put d) g = put d g"
| "guc_boot (StringVariable name put d) g = put d g"
| "guc_boot (IntVariable name put get d lo hi) g = put d g"

fun guc_in_range :: "FpgaGucs \<Rightarrow> GucDef \<Rightarrow> bool" where
  "guc_in_range g (IntVariable name put get d lo hi) \<longleftrightarrow> lo \<le> get g \<and> get g \<le> hi"
| "guc_in_range g _ \<longleftrightarrow> True"

definition gucs_ok :: "FpgaGucs \<Rightarrow> bool" where
  "gucs_ok g \<longleftrightarrow> list_all (guc_in_range g) guc_defs"

definition gucs_boot :: FpgaGucs where
  "gucs_boot = fold guc_boot guc_defs gucs_static"

lemma gucs_ok_bounds:
  assumes "gucs_ok g"
  shows "9600 \<le> fpga_device_baud g" "fpga_device_baud g \<le> 4000000" "1 \<le> fpga_hard_timeout_ms g" "fpga_hard_timeout_ms g \<le> INT_MAX"
    "0 \<le> fpga_warn_timeout_ms g" "1 \<le> fpga_max_batch_tuples g" "fpga_max_batch_tuples g \<le> 118"
    "1 \<le> fpga_ack_window_frames g" "fpga_ack_window_frames g \<le> 64"
  using assms by (simp_all add: gucs_ok_def guc_defs_def)

lemma gucs_boot_ok: "gucs_ok gucs_boot"
  by (simp add: gucs_ok_def gucs_boot_def guc_defs_def gucs_static_def INT_MAX_def FPGA_DEFAULT_ACK_WINDOW_FRAMES_def)

end
