(* ===== verification/Fpga_Planner.thy ===== *)
theory Fpga_Planner
  imports Fpga_Settings
begin

text \<open>
  The planner hook (\<^verbatim>\<open>src/pg/src/fpga_planner.c\<close>): which joins are offloaded, with which side as the build side, and the
  path and plan made for them. The planner's own nodes appear with the fields the code reads; comparing
  names without regard to case is a function of the server and a parameter.
\<close>

section \<open>What the hook sees of the planner\<close>

text \<open>The parts of the planner's nodes the code reads. Row estimates are doubles; they are kept as
  rationals, which hold every finite double exactly. Object identifiers and range table indexes are natural
  numbers, zero the invalid one.\<close>

record PgVar =
  varno :: nat
  vartype :: nat
  varattno :: int

datatype PgExpr = ExprVar PgVar | ExprOther

datatype PgClause = OpExpr "PgExpr list" | ClauseOther

datatype RestrictNode = RestrictInfo (ri_clause: PgClause) (hashjoinoperator: nat) | RestrictOther

record IndexOptInfo =
  ix_unique :: bool
  ix_immediate :: bool
  ncolumns :: nat
  indexkeys :: "int list"
  indpred :: "PgClause list"

datatype RelOptKind = RELOPT_BASEREL | RELOPT_OTHER

datatype JoinType = JOIN_INNER | JOIN_OTHER

record 'p RelOptInfo =
  relids :: "nat set"
  rel_rows :: rat
  indexlist :: "IndexOptInfo list"
  reloptkind :: RelOptKind
  cheapest_total_path :: 'p

record 'p CustomPath =
  cp_rows :: rat
  startup_cost :: rat
  total_cost :: rat
  custom_paths :: "'p list"
  custom_private :: "int list"

definition InvalidAttrNumber :: int where "InvalidAttrNumber = 0"
definition INT8OID :: nat where "INT8OID = 20"
definition INT4OID :: nat where "INT4OID = 23"
definition ADAPTER_KEY_INT32 :: u8 where "ADAPTER_KEY_INT32 = 1"
definition ADAPTER_KEY_INT64 :: u8 where "ADAPTER_KEY_INT64 = 2"

text \<open>Below, \<open>caseeq\<close> is \<open>pg_strcasecmp\<close> being zero.\<close>

section \<open>Algorithm and capacity\<close>

definition FPGA_HT_MAX_ROWS :: nat where "FPGA_HT_MAX_ROWS = 12288"
definition FPGA_GRACE_MAX_K :: nat where "FPGA_GRACE_MAX_K = 256"
definition FPGA_GRACE_WORDS_PER_TUPLE :: nat where "FPGA_GRACE_WORDS_PER_TUPLE = 2"
definition FPGA_GRACE_INNER_SLOT_WORDS :: nat where "FPGA_GRACE_INNER_SLOT_WORDS = FPGA_HT_MAX_ROWS * FPGA_GRACE_WORDS_PER_TUPLE"
definition FPGA_GRACE_OUTER_AREA_BASE :: nat where "FPGA_GRACE_OUTER_AREA_BASE = FPGA_GRACE_MAX_K * FPGA_GRACE_INNER_SLOT_WORDS"
definition FPGA_GRACE_DDR2_TOTAL_WORDS :: nat where "FPGA_GRACE_DDR2_TOTAL_WORDS = 16 * 1024 * 1024"
definition FPGA_GRACE_MAX_INNER_ROWS :: nat where "FPGA_GRACE_MAX_INNER_ROWS = FPGA_GRACE_MAX_K * FPGA_HT_MAX_ROWS"

definition fpga_algorithm_is_b :: "(string \<Rightarrow> string \<Rightarrow> bool) \<Rightarrow> FpgaGucs \<Rightarrow> bool" where
  "fpga_algorithm_is_b caseeq g =
     (case fpga_algorithm g of
        None \<Rightarrow> False
      | Some a \<Rightarrow> caseeq a ''b'' \<or> caseeq a ''algorithm_b'' \<or> caseeq a ''grace'')"

definition fpga_algorithm_is_valid :: "(string \<Rightarrow> string \<Rightarrow> bool) \<Rightarrow> FpgaGucs \<Rightarrow> bool" where
  "fpga_algorithm_is_valid caseeq g =
     (case fpga_algorithm g of
        None \<Rightarrow> True
      | Some a \<Rightarrow> caseeq a ''a'' \<or> caseeq a ''algorithm_a'' \<or> caseeq a ''linear'' \<or> fpga_algorithm_is_b caseeq g)"

text \<open>A double rounded up to an integer the way the code does it: truncate, then add one if that lost
  something.\<close>

definition round_up :: "rat \<Rightarrow> nat" where
  "round_up x = (let r = nat \<lfloor>x\<rfloor> in if of_nat r < x then r + 1 else r)"

definition fpga_grace_estimate_k :: "rat \<Rightarrow> nat" where
  "fpga_grace_estimate_k inner_rows =
     (if inner_rows \<le> 0 then 1
      else let k = (round_up inner_rows + FPGA_HT_MAX_ROWS - 1) div FPGA_HT_MAX_ROWS
        in if k < 1 then 1 else k)"

definition fpga_grace_estimate_fits :: "rat \<Rightarrow> rat \<Rightarrow> bool" where
  "fpga_grace_estimate_fits inner_rows outer_rows =
     (if inner_rows > of_nat FPGA_GRACE_MAX_INNER_ROWS then False
      else let k = fpga_grace_estimate_k inner_rows in
        if k > FPGA_GRACE_MAX_K then False
        else let outer_rows_u = (if outer_rows \<le> 0 then 0 else round_up outer_rows);
                 outer_slot_words = (outer_rows_u div k + 1) * FPGA_GRACE_WORDS_PER_TUPLE * 2;
                 used_words = FPGA_GRACE_OUTER_AREA_BASE + k * outer_slot_words
          in used_words \<le> FPGA_GRACE_DDR2_TOTAL_WORDS)"

section \<open>The join clause\<close>

text \<open>The loop of \<open>find_equijoin_key\<close>; \<open>None\<close> is the result false, \<open>out\<close> the type of the key with the attribute
  numbers of the inner and the outer variable.\<close>

fun find_key_loop ::
  "'p RelOptInfo \<Rightarrow> 'p RelOptInfo \<Rightarrow> RestrictNode list \<Rightarrow> nat \<Rightarrow> nat \<times> int \<times> int \<Rightarrow> (nat \<times> int \<times> int) option" where
  "find_key_loop innerrel outerrel [] eq_count out = (if eq_count = 1 then Some out else None)"
| "find_key_loop innerrel outerrel (rinfo # rest) eq_count out =
     (case rinfo of
        RestrictInfo (OpExpr [ExprVar left_var, ExprVar right_var]) hashop \<Rightarrow>
          if hashop = 0 then find_key_loop innerrel outerrel rest eq_count out
          else if varno left_var = varno right_var then find_key_loop innerrel outerrel rest eq_count out
          else let eq_count = eq_count + 1 in
            if eq_count > 1 then None
            else if varno left_var \<in> relids innerrel then
              (if vartype left_var \<noteq> vartype right_var then None
               else find_key_loop innerrel outerrel rest eq_count (vartype left_var, varattno left_var, varattno right_var))
            else if varno left_var \<in> relids outerrel then
              (if vartype right_var \<noteq> vartype left_var then None
               else find_key_loop innerrel outerrel rest eq_count (vartype right_var, varattno right_var, varattno left_var))
            else find_key_loop innerrel outerrel rest eq_count out
      | _ \<Rightarrow> find_key_loop innerrel outerrel rest eq_count out)"

definition find_equijoin_key :: "RestrictNode list \<Rightarrow> 'p RelOptInfo \<Rightarrow> 'p RelOptInfo \<Rightarrow> (nat \<times> int \<times> int) option" where
  "find_equijoin_key restrictlist innerrel outerrel =
     find_key_loop innerrel outerrel restrictlist 0 (0, InvalidAttrNumber, InvalidAttrNumber)"

definition rel_joinkey_is_unique :: "'p RelOptInfo \<Rightarrow> int \<Rightarrow> bool" where
  "rel_joinkey_is_unique rel attno \<longleftrightarrow>
     list_ex (\<lambda>idx. ix_unique idx \<and> ix_immediate idx \<and> ncolumns idx = 1 \<and> indexkeys idx ! 0 = attno \<and> indpred idx = []) (indexlist rel)"

section \<open>The hook\<close>

definition fpga_is_offloadable ::
  "(string \<Rightarrow> string \<Rightarrow> bool) \<Rightarrow> FpgaGucs \<Rightarrow> 'p RelOptInfo \<Rightarrow> 'p RelOptInfo \<Rightarrow> JoinType \<Rightarrow> RestrictNode list \<Rightarrow> (u8 \<times> int \<times> int) option" where
  "fpga_is_offloadable caseeq g outerrel innerrel jointype restrictlist =
     (if \<not> fpga_enabled g then None
      else if \<not> fpga_algorithm_is_valid caseeq g then None
      else if jointype \<noteq> JOIN_INNER then None
      else case find_equijoin_key restrictlist innerrel outerrel of
        None \<Rightarrow> None
      | Some (key_oid, inner_attno, outer_attno) \<Rightarrow>
          if key_oid \<noteq> INT4OID \<and> key_oid \<noteq> INT8OID then None
          else let key_type = (if key_oid = INT4OID then ADAPTER_KEY_INT32 else ADAPTER_KEY_INT64) in
            if fpga_algorithm_is_b caseeq g \<and> \<not> fpga_grace_estimate_fits (rel_rows innerrel) (rel_rows outerrel) then None
            else if \<not> fpga_algorithm_is_b caseeq g \<and> rel_rows innerrel > of_int (fpga_max_inner_rows g) then None
            else if rel_rows innerrel < of_int (fpga_min_inner_rows g) then None
            else if reloptkind innerrel \<noteq> RELOPT_BASEREL \<or> reloptkind outerrel \<noteq> RELOPT_BASEREL then None
            else Some (key_type, inner_attno, outer_attno))"

text \<open>The path the hook adds, if any.\<close>

definition make_fpga_path :: "rat \<Rightarrow> 'p RelOptInfo \<Rightarrow> 'p RelOptInfo \<Rightarrow> u8 \<Rightarrow> int \<Rightarrow> int \<Rightarrow> 'p CustomPath" where
  "make_fpga_path joinrel_rows outerrel innerrel key_type inner_attno outer_attno =
     \<lparr>cp_rows = joinrel_rows, startup_cost = 0, total_cost = 0,
      custom_paths = [cheapest_total_path outerrel, cheapest_total_path innerrel],
      custom_private = [int (unat key_type), inner_attno, outer_attno]\<rparr>"

definition fpga_planner_hook ::
  "(string \<Rightarrow> string \<Rightarrow> bool) \<Rightarrow> FpgaGucs \<Rightarrow> rat \<Rightarrow> 'p RelOptInfo \<Rightarrow> 'p RelOptInfo \<Rightarrow> JoinType \<Rightarrow> RestrictNode list \<Rightarrow> 'p CustomPath option" where
  "fpga_planner_hook caseeq g joinrel_rows outerrel innerrel jointype restrictlist =
     (case fpga_is_offloadable caseeq g outerrel innerrel jointype restrictlist of
        None \<Rightarrow> None
      | Some (key_type, inner_attno, outer_attno) \<Rightarrow>
          if rel_joinkey_is_unique innerrel inner_attno
          then Some (make_fpga_path joinrel_rows outerrel innerrel key_type inner_attno outer_attno)
          else if \<not> rel_joinkey_is_unique outerrel outer_attno then None
          else if fpga_algorithm_is_b caseeq g \<and> \<not> fpga_grace_estimate_fits (rel_rows outerrel) (rel_rows innerrel) then None
          else if \<not> fpga_algorithm_is_b caseeq g \<and> rel_rows outerrel > of_int (fpga_max_inner_rows g) then None
          else Some (make_fpga_path joinrel_rows innerrel outerrel key_type outer_attno inner_attno))"

text \<open>The plan made of the path.\<close>

record 'p CustomScan =
  custom_scan_tlist :: "PgVar list"
  scanrelid :: nat
  targetlist :: "PgVar list"
  qual :: "PgClause list"
  custom_plans :: "'p list"
  cs_private :: "int list"

definition plan_fpga_custom_path :: "'p CustomPath \<Rightarrow> PgVar list \<Rightarrow> 'q list \<Rightarrow> 'q CustomScan" where
  "plan_fpga_custom_path best_path tlist plans =
     \<lparr>custom_scan_tlist = tlist, scanrelid = 0, targetlist = tlist, qual = [],
      custom_plans = plans, cs_private = custom_private best_path\<rparr>"

section \<open>The clause found\<close>

text \<open>A clause that the loop counts: a hash-joinable operator on two variables of different relations.\<close>

fun counted_clause :: "RestrictNode \<Rightarrow> bool" where
  "counted_clause (RestrictInfo (OpExpr [ExprVar l, ExprVar r]) hashop) \<longleftrightarrow> hashop \<noteq> 0 \<and> varno l \<noteq> varno r"
| "counted_clause _ \<longleftrightarrow> False"

lemma find_key_loop_skip:
  "\<not> counted_clause c \<Longrightarrow> find_key_loop innerrel outerrel (c # rest) n out = find_key_loop innerrel outerrel rest n out"
  by (cases c rule: counted_clause.cases) (auto split: PgExpr.split list.split)

lemma counted_clauseE:
  assumes "counted_clause c"
  obtains l r h where "c = RestrictInfo (OpExpr [ExprVar l, ExprVar r]) h" "h \<noteq> 0" "varno l \<noteq> varno r"
  using assms by (cases c rule: counted_clause.cases) auto

lemma find_key_loop_rest:
  "find_key_loop innerrel outerrel rs 1 out = Some out' \<Longrightarrow> out' = out \<and> list_all (\<lambda>c. \<not> counted_clause c) rs"
proof (induction rs)
  case (Cons c rs)
  show ?case
  proof (cases "counted_clause c")
    case True
    then obtain l r h where "c = RestrictInfo (OpExpr [ExprVar l, ExprVar r]) h" "h \<noteq> 0" "varno l \<noteq> varno r" by (rule counted_clauseE)
    with Cons.prems show ?thesis by simp
  next
    case False
    with Cons find_key_loop_skip [OF False, of innerrel outerrel rs 1 out] show ?thesis by simp
  qed
qed simp

text \<open>\<open>build\<close> and \<open>probe\<close> are the variables of the clause on the inner and the outer side.\<close>

definition joins_on :: "RestrictNode \<Rightarrow> 'p RelOptInfo \<Rightarrow> 'p RelOptInfo \<Rightarrow> nat \<Rightarrow> int \<Rightarrow> int \<Rightarrow> bool" where
  "joins_on c innerrel outerrel oid inner_attno outer_attno \<longleftrightarrow>
     (\<exists>l r h. c = RestrictInfo (OpExpr [ExprVar l, ExprVar r]) h \<and> h \<noteq> 0 \<and> varno l \<noteq> varno r \<and> vartype l = oid \<and> vartype r = oid \<and>
        (varno l \<in> relids innerrel \<and> varattno l = inner_attno \<and> varattno r = outer_attno \<or>
         varno l \<in> relids outerrel \<and> varattno r = inner_attno \<and> varattno l = outer_attno))"

lemma find_key_loop_found:
  "find_key_loop innerrel outerrel rs 0 (0, ia0, oa0) = Some (oid, ia, oa) \<Longrightarrow> oid \<noteq> 0 \<Longrightarrow>
    \<exists>xs c ys. rs = xs @ c # ys \<and> joins_on c innerrel outerrel oid ia oa \<and>
      list_all (\<lambda>c. \<not> counted_clause c) (xs @ ys)"
proof (induction rs)
  case (Cons c rs)
  show ?case
  proof (cases "counted_clause c")
    case True
    then obtain l r h where c: "c = RestrictInfo (OpExpr [ExprVar l, ExprVar r]) h" "h \<noteq> 0" "varno l \<noteq> varno r" by (rule counted_clauseE)
    have "joins_on c innerrel outerrel oid ia oa \<and> list_all (\<lambda>c. \<not> counted_clause c) rs"
      using Cons.prems c find_key_loop_rest [of innerrel outerrel rs]
      by (fastforce simp: joins_on_def Let_def split: if_splits)
    then show ?thesis by (intro exI [of _ "[]"] exI [of _ c] exI [of _ rs]) simp
  next
    case False
    then obtain xs d ys where "rs = xs @ d # ys" "joins_on d innerrel outerrel oid ia oa" "list_all (\<lambda>c. \<not> counted_clause c) (xs @ ys)"
      using Cons find_key_loop_skip [OF False, of innerrel outerrel rs] by auto
    with False show ?thesis by (intro exI [of _ "c # xs"] exI [of _ d] exI [of _ ys]) simp
  qed
qed simp

section \<open>The path\<close>

lemma planner_path_facts:
  assumes "fpga_planner_hook caseeq g rows outerrel innerrel jointype restrictlist = Some p"
  shows "\<exists>build probe oid battno pattno xs c ys.
    fpga_enabled g \<and> fpga_algorithm_is_valid caseeq g \<and> jointype = JOIN_INNER \<and>
    ((build, probe) = (innerrel, outerrel) \<or> (build, probe) = (outerrel, innerrel)) \<and>
    reloptkind build = RELOPT_BASEREL \<and> reloptkind probe = RELOPT_BASEREL \<and>
    restrictlist = xs @ c # ys \<and> list_all (\<lambda>c. \<not> counted_clause c) (xs @ ys) \<and>
    (joins_on c build probe oid battno pattno \<or> joins_on c probe build oid pattno battno) \<and> (oid = INT4OID \<or> oid = INT8OID) \<and>
    rel_joinkey_is_unique build battno \<and>
    (if fpga_algorithm_is_b caseeq g then fpga_grace_estimate_fits (rel_rows build) (rel_rows probe)
     else rel_rows build \<le> of_int (fpga_max_inner_rows g)) \<and>
    custom_paths p = [cheapest_total_path probe, cheapest_total_path build] \<and>
    custom_private p = [if oid = INT4OID then 1 else 2, battno, pattno]"
proof -
  obtain kt ia oa where off: "fpga_is_offloadable caseeq g outerrel innerrel jointype restrictlist = Some (kt, ia, oa)"
    using assms by (auto simp: fpga_planner_hook_def split: option.splits)
  obtain oid where key: "find_equijoin_key restrictlist innerrel outerrel = Some (oid, ia, oa)"
    using off by (auto simp: fpga_is_offloadable_def Let_def split: option.splits if_splits)
  have oid: "oid = INT4OID \<or> oid = INT8OID" "kt = (if oid = INT4OID then ADAPTER_KEY_INT32 else ADAPTER_KEY_INT64)"
    using off key by (auto simp: fpga_is_offloadable_def Let_def split: if_splits)
  have "oid \<noteq> 0" using oid(1) by (auto simp: INT4OID_def INT8OID_def)
  then obtain xs c ys where c: "restrictlist = xs @ c # ys" "joins_on c innerrel outerrel oid ia oa" "list_all (\<lambda>c. \<not> counted_clause c) (xs @ ys)"
    using find_key_loop_found [OF key [unfolded find_equijoin_key_def]] by blast
  have kt: "uint kt = (if oid = INT4OID then 1 else 2)" using oid(2) by (simp add: ADAPTER_KEY_INT32_def ADAPTER_KEY_INT64_def)
  have base: "fpga_enabled g" "fpga_algorithm_is_valid caseeq g" "jointype = JOIN_INNER" "reloptkind innerrel = RELOPT_BASEREL" "reloptkind outerrel = RELOPT_BASEREL"
    "if fpga_algorithm_is_b caseeq g then fpga_grace_estimate_fits (rel_rows innerrel) (rel_rows outerrel)
     else rel_rows innerrel \<le> of_int (fpga_max_inner_rows g)"
    using off by (auto simp: fpga_is_offloadable_def Let_def split: option.splits if_splits)
  show ?thesis
  proof (cases "rel_joinkey_is_unique innerrel ia")
    case True
    then have p: "p = make_fpga_path rows outerrel innerrel kt ia oa" using assms off by (simp add: fpga_planner_hook_def)
    show ?thesis
      by (rule exI [of _ innerrel], rule exI [of _ outerrel], rule exI [of _ oid], rule exI [of _ ia], rule exI [of _ oa], rule exI [of _ xs], rule exI [of _ c], rule exI [of _ ys])
        (use base c oid(1) True in \<open>simp add: p make_fpga_path_def kt\<close>)
  next
    case False
    then have p: "p = make_fpga_path rows innerrel outerrel kt oa ia" "rel_joinkey_is_unique outerrel oa"
      "if fpga_algorithm_is_b caseeq g then fpga_grace_estimate_fits (rel_rows outerrel) (rel_rows innerrel)
       else rel_rows outerrel \<le> of_int (fpga_max_inner_rows g)"
      using assms off by (auto simp: fpga_planner_hook_def split: if_splits)
    show ?thesis
      by (rule exI [of _ outerrel], rule exI [of _ innerrel], rule exI [of _ oid], rule exI [of _ oa], rule exI [of _ ia], rule exI [of _ xs], rule exI [of _ c], rule exI [of _ ys])
        (use base(1-5) c oid(1) p(2,3) in \<open>simp add: p(1) make_fpga_path_def kt\<close>)
  qed
qed

section \<open>Properties\<close>

text \<open>C31. A path is added only for a join the board computes: an inner join of two base relations, switched on,
  with exactly one hash-joinable clause between two variables of type INT4 or INT8, the build side the
  relation with a unique, immediate, non-partial index on its variable and, for algorithm A, with a row estimate
  within the limit; the plan's private data carry the key type and the attribute numbers of the build and
  the probe side, the sub-plans come in the order probe, build.\<close>

theorem planner_path_sound:
  assumes "fpga_planner_hook caseeq g rows outerrel innerrel jointype restrictlist = Some p"
  shows "\<exists>build probe oid battno pattno xs c ys.
    fpga_enabled g \<and> fpga_algorithm_is_valid caseeq g \<and> jointype = JOIN_INNER \<and>
    ((build, probe) = (innerrel, outerrel) \<or> (build, probe) = (outerrel, innerrel)) \<and>
    reloptkind build = RELOPT_BASEREL \<and> reloptkind probe = RELOPT_BASEREL \<and>
    restrictlist = xs @ c # ys \<and> list_all (\<lambda>c. \<not> counted_clause c) (xs @ ys) \<and>
    (joins_on c build probe oid battno pattno \<or> joins_on c probe build oid pattno battno) \<and> (oid = INT4OID \<or> oid = INT8OID) \<and>
    rel_joinkey_is_unique build battno \<and>
    (if fpga_algorithm_is_b caseeq g then fpga_grace_estimate_fits (rel_rows build) (rel_rows probe)
     else rel_rows build \<le> of_int (fpga_max_inner_rows g)) \<and>
    custom_paths p = [cheapest_total_path probe, cheapest_total_path build] \<and>
    custom_private p = [if oid = INT4OID then 1 else 2, battno, pattno]"
  by (rule planner_path_facts [OF assms])

definition example_rel :: "nat \<Rightarrow> bool \<Rightarrow> rat \<Rightarrow> nat RelOptInfo" where
  "example_rel n u rows = \<lparr>relids = {n}, rel_rows = rows,
     indexlist = [\<lparr>ix_unique = u, ix_immediate = True, ncolumns = 1, indexkeys = [1], indpred = []\<rparr>],
     reloptkind = RELOPT_BASEREL, cheapest_total_path = n\<rparr>"

definition example_clause :: RestrictNode where
  "example_clause = RestrictInfo (OpExpr [ExprVar \<lparr>varno = 1, vartype = INT4OID, varattno = 1\<rparr>,
     ExprVar \<lparr>varno = 2, vartype = INT4OID, varattno = 3\<rparr>]) 96"

lemma example_path:
  "fpga_planner_hook (=) gucs_boot 500 (example_rel 1 True 200) (example_rel 2 False 5000) JOIN_INNER [example_clause] =
    Some \<lparr>cp_rows = 500, startup_cost = 0, total_cost = 0, custom_paths = [2, 1], custom_private = [1, 1, 3]\<rparr>"
  by (simp add: fpga_planner_hook_def fpga_is_offloadable_def example_rel_def example_clause_def find_equijoin_key_def gucs_boot_def
      guc_defs_def gucs_static_def fpga_algorithm_is_valid_def fpga_algorithm_is_b_def rel_joinkey_is_unique_def make_fpga_path_def
      INT4OID_def INT8OID_def ADAPTER_KEY_INT32_def)

theorem planner_path_sound_witness:
  "\<exists>build probe oid battno pattno xs c ys.
    fpga_enabled gucs_boot \<and> fpga_algorithm_is_valid (=) gucs_boot \<and> JOIN_INNER = JOIN_INNER \<and>
    ((build, probe) = (example_rel 2 False 5000, example_rel 1 True 200) \<or> (build, probe) = (example_rel 1 True 200, example_rel 2 False 5000)) \<and>
    reloptkind build = RELOPT_BASEREL \<and> reloptkind probe = RELOPT_BASEREL \<and>
    [example_clause] = xs @ c # ys \<and> list_all (\<lambda>c. \<not> counted_clause c) (xs @ ys) \<and>
    (joins_on c build probe oid battno pattno \<or> joins_on c probe build oid pattno battno) \<and> (oid = INT4OID \<or> oid = INT8OID) \<and>
    rel_joinkey_is_unique build battno \<and>
    (if fpga_algorithm_is_b (=) gucs_boot then fpga_grace_estimate_fits (rel_rows build) (rel_rows probe)
     else rel_rows build \<le> of_int (fpga_max_inner_rows gucs_boot)) \<and>
    [2, 1] = [cheapest_total_path probe, cheapest_total_path build] \<and>
    [1, 1, 3] = [if oid = INT4OID then 1 else 2, battno, pattno]"
  using planner_path_sound [OF example_path] by simp

text \<open>C33. Every other condition of the join is lost: a clause the loop does not count changes nothing about the
  path, and the plan made of the path has no qualification that would check it.\<close>

theorem planner_drops_conditions:
  assumes "\<not> counted_clause c"
  shows "fpga_planner_hook caseeq g rows outerrel innerrel jointype (xs @ c # ys) =
      fpga_planner_hook caseeq g rows outerrel innerrel jointype (xs @ ys) \<and>
    qual (plan_fpga_custom_path p tlist plans) = []"
proof -
  have "find_key_loop innerrel outerrel (xs @ c # ys) n out = find_key_loop innerrel outerrel (xs @ ys) n out" for n out
  proof (induction xs arbitrary: n out)
    case (Cons x xs)
    show ?case
    proof (cases "counted_clause x")
      case True
      then show ?thesis by (rule counted_clauseE) (simp add: Cons Let_def)
    qed (simp add: find_key_loop_skip Cons del: find_key_loop.simps)
  qed (simp add: find_key_loop_skip [OF assms] del: find_key_loop.simps)
  then have "find_equijoin_key (xs @ c # ys) innerrel outerrel = find_equijoin_key (xs @ ys) innerrel outerrel"
    by (simp add: find_equijoin_key_def)
  then show ?thesis by (simp add: fpga_planner_hook_def fpga_is_offloadable_def plan_fpga_custom_path_def)
qed

theorem planner_drops_conditions_witness:
  "fpga_planner_hook (=) gucs_boot 500 (example_rel 1 True 200) (example_rel 2 False 5000) JOIN_INNER
      ([example_clause] @ RestrictInfo ClauseOther 0 # []) =
    fpga_planner_hook (=) gucs_boot 500 (example_rel 1 True 200) (example_rel 2 False 5000) JOIN_INNER ([example_clause] @ []) \<and>
   qual (plan_fpga_custom_path \<lparr>cp_rows = 500, startup_cost = 0, total_cost = 0, custom_paths = [2 :: nat, 1], custom_private = [1, 1, 3]\<rparr>
     [] [2 :: nat, 1]) = []"
  by (rule planner_drops_conditions) simp

end
