(* ===== verification/Fpga_Executor.thy ===== *)
theory Fpga_Executor
  imports Fpga_Adapter Fpga_Planner
begin

text \<open>
  The custom scan node (\<^verbatim>\<open>src/pg/src/fpga_executor.c\<close>): its state, the reading of the two inputs, the call of the adapter,
  the rows it returns, the error paths and what EXPLAIN shows. The services of the executor and of the heap are
  parameters.
\<close>

section \<open>What the scan uses of the executor\<close>

text \<open>A heap row is of a type \<open>'r\<close>, and the state of a scan below is the list of the rows it still returns.
  \<open>xe_getattr\<close> is \<open>slot_getattr\<close>, \<open>None\<close> for a null; \<open>xe_fetch\<close> is \<open>table_tuple_fetch_row_version\<close> under the snapshot
  of the query; \<open>xe_init\<close> is \<open>ExecInitNode\<close> and \<open>xe_relid\<close> the range table. \<open>xe_clock\<close> gives the readings of the
  monotonic clock in seconds and nanoseconds.\<close>

record 'r ExecEnv =
  xe_tid :: "'r \<Rightarrow> Tid"
  xe_getattr :: "'r \<Rightarrow> int \<Rightarrow> u64 option"
  xe_fetch :: "nat \<Rightarrow> Tid \<Rightarrow> 'r option"
  xe_relid :: "nat \<Rightarrow> nat"
  xe_init :: "nat \<Rightarrow> 'r list"
  xe_clock :: "nat \<Rightarrow> int \<times> int"

datatype PgError = EReport string | Uncaught exn

text \<open>The state of the scan; the measured times are kept in nanoseconds. A sub-plan is known by the range table
  index of its relation.\<close>

record 'r FpgaScanState =
  fs_custom_ps :: "'r list list"
  fs_inner_rel :: "nat option"
  fs_outer_rel :: "nat option"
  fs_inner_key_attno :: int
  fs_outer_key_attno :: int
  fs_key_type :: u8
  fs_result_pairs :: "ResultPair list"
  fs_result_count :: nat
  fs_result_cursor :: nat
  fs_inner_rtindex :: nat
  fs_outer_rtindex :: nat
  fs_fpga_total_ms :: int
  fs_inner_drain_ms :: int
  fs_outer_drain_ms :: int
  fs_adapter_run_ms :: int
  fs_result_copy_ms :: int
  fs_tid_fetch_ms :: int
  fs_inner_tuple_count :: nat
  fs_outer_tuple_count :: nat
  fs_has_adapter_metrics :: bool
  fs_adapter_metrics :: AdapterHostMetrics
  fs_clock :: nat

section \<open>Creating the state\<close>

definition scan_state_zero :: "'r FpgaScanState" where
  "scan_state_zero = \<lparr>fs_custom_ps = [], fs_inner_rel = None, fs_outer_rel = None, fs_inner_key_attno = 0, fs_outer_key_attno = 0,
     fs_key_type = 0, fs_result_pairs = [], fs_result_count = 0, fs_result_cursor = 0, fs_inner_rtindex = 0, fs_outer_rtindex = 0,
     fs_fpga_total_ms = 0, fs_inner_drain_ms = 0, fs_outer_drain_ms = 0, fs_adapter_run_ms = 0, fs_result_copy_ms = 0,
     fs_tid_fetch_ms = 0, fs_inner_tuple_count = 0, fs_outer_tuple_count = 0, fs_has_adapter_metrics = False,
     fs_adapter_metrics = adapter_metrics_zero, fs_clock = 0\<rparr>"

definition fpga_create_custom_scan_state :: "nat CustomScan \<Rightarrow> 'r FpgaScanState" where
  "fpga_create_custom_scan_state cscan =
     scan_state_zero\<lparr>fs_key_type := of_int (cs_private cscan ! 0), fs_inner_key_attno := cs_private cscan ! 1,
       fs_outer_key_attno := cs_private cscan ! 2\<rparr>"

section \<open>Reading the inputs\<close>

text \<open>\<open>DatumGetInt32\<close> and \<open>DatumGetInt64\<close>, widened to 64 bits.\<close>

definition key_of_datum :: "u8 \<Rightarrow> u64 \<Rightarrow> u64" where
  "key_of_datum key_type d = (if key_type = ADAPTER_KEY_INT32 then scast (ucast d :: u32) else d)"

text \<open>The rows of a sub-plan in their order, those with a null key left out. The array that grows is a list.\<close>

fun drain_plan :: "'r ExecEnv \<Rightarrow> int \<Rightarrow> u8 \<Rightarrow> 'r list \<Rightarrow> InputTuple list" where
  "drain_plan xe key_attno key_type [] = []"
| "drain_plan xe key_attno key_type (row # rows) =
     (case xe_getattr xe row key_attno of
        None \<Rightarrow> drain_plan xe key_attno key_type rows
      | Some d \<Rightarrow> \<lparr>it_key = key_of_datum key_type d, it_tid = xe_tid xe row\<rparr> # drain_plan xe key_attno key_type rows)"

definition scan_elapsed_ms :: "int \<times> int \<Rightarrow> int \<times> int \<Rightarrow> int" where
  "scan_elapsed_ms start stop = (fst stop - fst start) * 1000000000 + (snd stop - snd start)"

text \<open>A measured step: a reading, the step, a reading.\<close>

definition timed :: "'r ExecEnv \<Rightarrow> 'r FpgaScanState \<Rightarrow> int \<times> 'r FpgaScanState" where
  "timed xe s = (scan_elapsed_ms (xe_clock xe (fs_clock s)) (xe_clock xe (fs_clock s + 1)), s\<lparr>fs_clock := fs_clock s + 2\<rparr>)"

section \<open>The scan\<close>

definition executor_args :: "FpgaGucs \<Rightarrow> u8 \<Rightarrow> AdapterArgs" where
  "executor_args g key_type =
     \<lparr>aa_key_type = key_type, aa_use_simulation = fpga_simulation g, aa_algorithm_name = fpga_algorithm g,
      aa_transport_name = fpga_transport g, aa_device = fpga_device g, aa_device_baud = of_int (fpga_device_baud g),
      aa_warn_ms = of_int (fpga_warn_timeout_ms g), aa_hard_ms = of_int (fpga_hard_timeout_ms g),
      aa_max_batch_tuples = of_int (fpga_max_batch_tuples g), aa_ack_window_frames = of_int (fpga_ack_window_frames g)\<rparr>"

text \<open>The choice of the sub-plan states: those PostgreSQL initialised, or our own.\<close>

definition take_sub_plans :: "'r ExecEnv \<Rightarrow> nat \<Rightarrow> nat \<Rightarrow> 'r FpgaScanState \<Rightarrow> 'r list \<times> 'r list \<times> 'r FpgaScanState" where
  "take_sub_plans xe outer_plan inner_plan s =
     (if length (fs_custom_ps s) = 2 then (fs_custom_ps s ! 0, fs_custom_ps s ! 1, s)
      else (xe_init xe outer_plan, xe_init xe inner_plan,
            s\<lparr>fs_custom_ps := fs_custom_ps s @ [xe_init xe outer_plan] @ [xe_init xe inner_plan]\<rparr>))"

definition open_relations :: "'r ExecEnv \<Rightarrow> nat \<Rightarrow> nat \<Rightarrow> 'r FpgaScanState \<Rightarrow> 'r FpgaScanState" where
  "open_relations xe inner_rtindex outer_rtindex s =
     s\<lparr>fs_inner_rtindex := inner_rtindex, fs_outer_rtindex := outer_rtindex,
       fs_inner_rel := Some (xe_relid xe inner_rtindex), fs_outer_rel := Some (xe_relid xe outer_rtindex)\<rparr>"

text \<open>The call of the adapter and what follows it.\<close>

definition run_adapter ::
  "'r ExecEnv \<Rightarrow> ('u, 't) AdapterEnv \<Rightarrow> FpgaGucs \<Rightarrow> InputTuple list \<Rightarrow> InputTuple list \<Rightarrow> 'r FpgaScanState \<times> ('u, 't) AdapterState \<Rightarrow>
    (PgError + unit) \<times> 'r FpgaScanState \<times> ('u, 't) AdapterState" where
  "run_adapter xe env g inner_arr outer_arr sa =
     (case fpga_adapter_run env (executor_args g (fs_key_type (fst sa))) inner_arr outer_arr (snd sa) of
        (Inl e, a) \<Rightarrow> (Inl (Uncaught e), fst sa, a)
      | (Inr (ok, pairs), a) \<Rightarrow>
          let (ms, s) = timed xe (fst sa);
              s = s\<lparr>fs_adapter_run_ms := ms, fs_fpga_total_ms := ms\<rparr>;
              s = (case fpga_adapter_last_host_metrics a of
                     None \<Rightarrow> s\<lparr>fs_has_adapter_metrics := False\<rparr>
                   | Some m \<Rightarrow> s\<lparr>fs_has_adapter_metrics := True, fs_adapter_metrics := m\<rparr>)
          in if \<not> ok then (Inl (EReport (''FPGA hash join failed: '' @ fpga_adapter_last_error a)), s, a)
             else let (ms, s) = timed xe s
               in (Inr (), s\<lparr>fs_result_count := length pairs, fs_result_pairs := pairs, fs_result_copy_ms := ms, fs_result_cursor := 0\<rparr>, a))"

definition begin_custom_scan ::
  "'r ExecEnv \<Rightarrow> ('u, 't) AdapterEnv \<Rightarrow> FpgaGucs \<Rightarrow> nat CustomScan \<Rightarrow> bool \<Rightarrow> 'r FpgaScanState \<times> ('u, 't) AdapterState \<Rightarrow>
    (PgError + unit) \<times> 'r FpgaScanState \<times> ('u, 't) AdapterState" where
  "begin_custom_scan xe env g cscan explain_only sa =
     (if explain_only then (Inr (), sa)
      else if length (custom_plans cscan) \<noteq> 2
      then (Inl (EReport (''fpga_hashjoin: expected 2 custom_plans, got '' @ to_string (length (custom_plans cscan)))), sa)
      else let outer_plan = custom_plans cscan ! 0;
               inner_plan = custom_plans cscan ! 1;
               (outer_rows, inner_rows, s) = take_sub_plans xe outer_plan inner_plan (fst sa);
               s = open_relations xe inner_plan outer_plan s;
               inner_arr = drain_plan xe (fs_inner_key_attno s) (fs_key_type s) inner_rows;
               (ms, s) = timed xe s;
               s = s\<lparr>fs_inner_tuple_count := length inner_arr, fs_inner_drain_ms := ms\<rparr>;
               outer_arr = drain_plan xe (fs_outer_key_attno s) (fs_key_type s) outer_rows;
               (ms, s) = timed xe s;
               s = s\<lparr>fs_outer_tuple_count := length outer_arr, fs_outer_drain_ms := ms\<rparr>
        in run_adapter xe env g inner_arr outer_arr (s, snd sa))"

text \<open>The columns of a result row, taken from the two fetched rows.\<close>

definition scan_columns :: "'r ExecEnv \<Rightarrow> nat \<Rightarrow> PgVar list \<Rightarrow> 'r \<Rightarrow> 'r \<Rightarrow> u64 option list" where
  "scan_columns xe outer_rtindex tlist irow orow =
     map (\<lambda>var. xe_getattr xe (if varno var = outer_rtindex then orow else irow) (varattno var)) tlist"

definition fetch :: "'r ExecEnv \<Rightarrow> nat option \<Rightarrow> Tid \<Rightarrow> 'r option" where
  "fetch xe rel tid = (case rel of None \<Rightarrow> None | Some oid \<Rightarrow> xe_fetch xe oid tid)"

text \<open>One call returns the next row, \<open>None\<close> at the end. \<open>project\<close> is the projection, the identity when the plan
  needs none.\<close>

function exec_custom_scan ::
  "'r ExecEnv \<Rightarrow> PgVar list \<Rightarrow> (u64 option list \<Rightarrow> 'v) \<Rightarrow> 'r FpgaScanState \<Rightarrow> 'v option \<times> 'r FpgaScanState" where
  "exec_custom_scan xe tlist project s =
     (if fs_result_cursor s \<ge> fs_result_count s then (None, s)
      else let pair = fs_result_pairs s ! fs_result_cursor s;
               s = s\<lparr>fs_result_cursor := fs_result_cursor s + 1\<rparr>;
               (ms, s) = timed xe s;
               s = s\<lparr>fs_tid_fetch_ms := fs_tid_fetch_ms s + ms\<rparr>
        in case (fetch xe (fs_inner_rel s) (inner_tid pair), fetch xe (fs_outer_rel s) (outer_tid pair)) of
             (Some irow, Some orow) \<Rightarrow>
               (Some (project (scan_columns xe (fs_outer_rtindex s) tlist irow orow)), s)
           | _ \<Rightarrow> exec_custom_scan xe tlist project s)"
  by pat_completeness auto
termination
  by (relation "measure (\<lambda>(xe, tlist, project, s). fs_result_count s - fs_result_cursor s)") (auto simp: timed_def)

declare exec_custom_scan.simps [simp del]

definition end_custom_scan :: "'r FpgaScanState \<Rightarrow> 'r FpgaScanState" where
  "end_custom_scan s = s\<lparr>fs_custom_ps := [], fs_inner_rel := None, fs_outer_rel := None\<rparr>"

definition rescan_custom_scan :: "'r FpgaScanState \<Rightarrow> (PgError + unit) \<times> 'r FpgaScanState" where
  "rescan_custom_scan s = (Inl (EReport ''FPGA hash join does not support rescan''), s)"

section \<open>EXPLAIN\<close>

text \<open>The lines of EXPLAIN. Times are kept as whole nanoseconds; the host's metrics hold microseconds.\<close>

datatype ExplainProp = PropFloat string int | PropInteger string int | PropBool string bool | PropText string "string option"

definition as_int64 :: "'a :: len word \<Rightarrow> int" where
  "as_int64 w = sint (ucast w :: u64)"

definition total_custom_scan_ms :: "'r FpgaScanState \<Rightarrow> int" where
  "total_custom_scan_ms s = fs_inner_drain_ms s + fs_outer_drain_ms s + fs_adapter_run_ms s + fs_result_copy_ms s + fs_tid_fetch_ms s"

definition explain_scan :: "'r FpgaScanState \<Rightarrow> ExplainProp list" where
  "explain_scan s =
    [PropFloat ''FPGA time (ms)'' (fs_fpga_total_ms s),
     PropFloat ''Inner drain time (ms)'' (fs_inner_drain_ms s),
     PropFloat ''Outer drain time (ms)'' (fs_outer_drain_ms s),
     PropFloat ''Adapter run time (ms)'' (fs_adapter_run_ms s),
     PropFloat ''Result copy time (ms)'' (fs_result_copy_ms s),
     PropFloat ''TID fetch time (ms)'' (fs_tid_fetch_ms s),
     PropFloat ''Custom scan measured time (ms)'' (total_custom_scan_ms s),
     PropInteger ''Inner tuples sent'' (as_int64 (of_nat (fs_inner_tuple_count s) :: u64)),
     PropInteger ''Outer tuples sent'' (as_int64 (of_nat (fs_outer_tuple_count s) :: u64)),
     PropInteger ''Result pairs'' (as_int64 (of_nat (fs_result_count s) :: u64))]"

definition explain_host :: "AdapterHostMetrics \<Rightarrow> ExplainProp list" where
  "explain_host m =
    [PropFloat ''Host config send time (ms)'' (int (am_config_send_ms m) * 1000),
     PropFloat ''Host config ACK wait time (ms)'' (int (am_config_ack_wait_ms m) * 1000),
     PropFloat ''Host build send time (ms)'' (int (am_build_send_ms m) * 1000),
     PropFloat ''Host build ACK wait time (ms)'' (int (am_build_ack_wait_ms m) * 1000),
     PropFloat ''Host probe send time (ms)'' (int (am_probe_send_ms m) * 1000),
     PropFloat ''Host probe ACK wait time (ms)'' (int (am_probe_ack_wait_ms m) * 1000),
     PropFloat ''Host final STATUS wait time (ms)'' (int (am_final_status_wait_ms m) * 1000),
     PropFloat ''Host reset wait time (ms)'' (int (am_reset_wait_ms m) * 1000),
     PropFloat ''Host result receive time (ms)'' (int (am_result_recv_ms m) * 1000),
     PropInteger ''Host protocol frames sent'' (as_int64 (am_protocol_frames_sent m)),
     PropInteger ''Host protocol frames received'' (as_int64 (am_protocol_frames_recv m)),
     PropInteger ''Host transport sends'' (as_int64 (am_transport_sends m)),
     PropInteger ''Host bytes sent'' (as_int64 (am_bytes_sent m)),
     PropInteger ''Host bytes received'' (as_int64 (am_bytes_recv m)),
     PropInteger ''Host inner frames sent'' (as_int64 (am_inner_frames_sent m)),
     PropInteger ''Host outer frames sent'' (as_int64 (am_outer_frames_sent m)),
     PropInteger ''Host ACK frames received'' (as_int64 (am_ack_frames_recv m)),
     PropInteger ''Host STATUS frames received'' (as_int64 (am_status_frames_recv m)),
     PropInteger ''Host RESULT frames received'' (as_int64 (am_result_frames_recv m)),
     PropInteger ''Host DEBUG frames received'' (as_int64 (am_debug_frames_recv m)),
     PropInteger ''Host TIMING frames received'' (as_int64 (am_timing_frames_recv m)),
     PropInteger ''Host result pairs received'' (as_int64 (am_result_pairs_recv m))]"

definition explain_board :: "AdapterHostMetrics \<Rightarrow> ExplainProp list" where
  "explain_board m =
    [PropInteger ''Board timing version'' (as_int64 (am_board_timing_version m)),
     PropInteger ''Board timing flags'' (as_int64 (am_board_timing_flags m)),
     PropInteger ''Board clock Hz'' (as_int64 (am_board_clock_hz m)),
     PropInteger ''Board inner rows'' (as_int64 (am_board_inner_rows m)),
     PropInteger ''Board outer rows'' (as_int64 (am_board_outer_rows m)),
     PropInteger ''Board matched rows'' (as_int64 (am_board_matched_rows m)),
     PropInteger ''Board inner frames'' (as_int64 (am_board_inner_frames m)),
     PropInteger ''Board outer frames'' (as_int64 (am_board_outer_frames m)),
     PropInteger ''Board result frames'' (as_int64 (am_board_result_frames m)),
     PropInteger ''Board ACK frames'' (as_int64 (am_board_ack_frames m)),
     PropInteger ''Board DEBUG frames'' (as_int64 (am_board_debug_frames m)),
     PropInteger ''Board bytes RX'' (as_int64 (am_board_bytes_rx m)),
     PropInteger ''Board bytes TX'' (as_int64 (am_board_bytes_tx m)),
     PropInteger ''Board session total cycles'' (as_int64 (am_board_session_total_cycles m)),
     PropInteger ''Board config cycles'' (as_int64 (am_board_config_cycles m)),
     PropInteger ''Board build RX cycles'' (as_int64 (am_board_build_rx_cycles m)),
     PropInteger ''Board build compute cycles'' (as_int64 (am_board_build_compute_cycles m)),
     PropInteger ''Board build total cycles'' (as_int64 (am_board_build_total_cycles m)),
     PropInteger ''Board probe RX cycles'' (as_int64 (am_board_probe_rx_cycles m)),
     PropInteger ''Board probe compute cycles'' (as_int64 (am_board_probe_compute_cycles m)),
     PropInteger ''Board result emit cycles'' (as_int64 (am_board_result_emit_cycles m)),
     PropInteger ''Board probe total cycles'' (as_int64 (am_board_probe_total_cycles m)),
     PropInteger ''Board ACK emit cycles'' (as_int64 (am_board_ack_emit_cycles m)),
     PropInteger ''Board RX wait cycles'' (as_int64 (am_board_rx_wait_cycles m)),
     PropInteger ''Board TX blocked cycles'' (as_int64 (am_board_tx_blocked_cycles m)),
     PropInteger ''Board protocol wait cycles'' (as_int64 (am_board_protocol_wait_cycles m)),
     PropInteger ''Board max build batch cycles'' (as_int64 (am_board_max_build_batch_cycles m)),
     PropInteger ''Board max probe batch cycles'' (as_int64 (am_board_max_probe_batch_cycles m)),
     PropInteger ''Board max result frame cycles'' (as_int64 (am_board_max_result_frame_cycles m)),
     PropInteger ''Board hash build inserts'' (as_int64 (am_board_hash_build_inserts m)),
     PropInteger ''Board hash probe lookups'' (as_int64 (am_board_hash_probe_lookups m)),
     PropInteger ''Board hash probe hits'' (as_int64 (am_board_hash_probe_hits m)),
     PropInteger ''Board hash probe misses'' (as_int64 (am_board_hash_probe_misses m)),
     PropInteger ''Board hash overflow errors'' (as_int64 (am_board_hash_overflow_errors m)),
     PropInteger ''Board hash build collision steps'' (as_int64 (am_board_hash_build_collision_steps m)),
     PropInteger ''Board hash probe collision steps'' (as_int64 (am_board_hash_probe_collision_steps m)),
     PropInteger ''Board hash max build probe distance'' (as_int64 (am_board_hash_max_build_probe_distance m)),
     PropInteger ''Board hash max probe distance'' (as_int64 (am_board_hash_max_probe_distance m)),
     PropInteger ''Board hash table load factor ppm'' (as_int64 (am_board_hash_table_load_factor_ppm m))]"

definition explain_custom_scan :: "FpgaGucs \<Rightarrow> 'r FpgaScanState \<Rightarrow> ExplainProp list" where
  "explain_custom_scan g s =
     (if fpga_explain_verbose g then
        explain_scan s @
        (if fs_has_adapter_metrics s then
           let m = fs_adapter_metrics s in
           explain_host m @ [PropBool ''Board timing present'' (am_has_board_timing m)] @
           (if am_has_board_timing m then explain_board m else [])
         else [])
      else
        PropBool ''Simulation'' (fpga_simulation g) #
        (if \<not> fpga_simulation g then [PropText ''Algorithm'' (fpga_algorithm g), PropText ''Transport'' (fpga_transport g)] else []))"

section \<open>The rows of a scan\<close>

text \<open>The row for one pair, \<open>None\<close> when a row version is no longer visible.\<close>

definition pair_row :: "'r ExecEnv \<Rightarrow> PgVar list \<Rightarrow> (u64 option list \<Rightarrow> 'v) \<Rightarrow> 'r FpgaScanState \<Rightarrow> ResultPair \<Rightarrow> 'v option" where
  "pair_row xe tlist project s pair =
     (case (fetch xe (fs_inner_rel s) (inner_tid pair), fetch xe (fs_outer_rel s) (outer_tid pair)) of
        (Some irow, Some orow) \<Rightarrow> Some (project (scan_columns xe (fs_outer_rtindex s) tlist irow orow))
      | _ \<Rightarrow> None)"

text \<open>What no call changes.\<close>

definition same_scan :: "'r FpgaScanState \<Rightarrow> 'r FpgaScanState \<Rightarrow> bool" where
  "same_scan s s' \<longleftrightarrow> fs_result_pairs s' = fs_result_pairs s \<and> fs_result_count s' = fs_result_count s \<and> fs_inner_rel s' = fs_inner_rel s \<and>
     fs_outer_rel s' = fs_outer_rel s \<and> fs_outer_rtindex s' = fs_outer_rtindex s"

lemma same_scan_refl [simp]: "same_scan s s"
  by (simp add: same_scan_def)

lemma same_scan_trans: "same_scan a b \<Longrightarrow> same_scan b c \<Longrightarrow> same_scan a c"
  by (simp add: same_scan_def)

lemma same_scan_pair_row: "same_scan s s' \<Longrightarrow> pair_row xe tlist project s' = pair_row xe tlist project s"
  by (rule ext) (simp add: same_scan_def pair_row_def split: option.split)

lemma same_scan_results: "same_scan s s' \<Longrightarrow> fs_result_pairs s' = fs_result_pairs s \<and> fs_result_count s' = fs_result_count s"
  by (simp add: same_scan_def)

definition next_pair :: "'r ExecEnv \<Rightarrow> 'r FpgaScanState \<Rightarrow> 'r FpgaScanState" where
  "next_pair xe s = (let (ms, s) = timed xe (s\<lparr>fs_result_cursor := fs_result_cursor s + 1\<rparr>) in s\<lparr>fs_tid_fetch_ms := fs_tid_fetch_ms s + ms\<rparr>)"

lemma next_pair_simps [simp]:
  "fs_result_cursor (next_pair xe s) = Suc (fs_result_cursor s)" "fs_result_count (next_pair xe s) = fs_result_count s"
  "same_scan s (next_pair xe s)"
  by (simp_all add: next_pair_def timed_def same_scan_def)

lemma exec_custom_scan_step:
  "exec_custom_scan xe tlist project s =
     (if fs_result_cursor s \<ge> fs_result_count s then (None, s)
      else case pair_row xe tlist project s (fs_result_pairs s ! fs_result_cursor s) of
        Some v \<Rightarrow> (Some v, next_pair xe s) | None \<Rightarrow> exec_custom_scan xe tlist project (next_pair xe s))"
  by (subst exec_custom_scan.simps) (simp add: pair_row_def next_pair_def timed_def Let_def split: option.split)

lemma exec_custom_scan_progress:
  assumes "exec_custom_scan xe tlist project s = (Some v, s')"
  shows "fs_result_cursor s < fs_result_cursor s' \<and> fs_result_cursor s' \<le> fs_result_count s \<and> same_scan s s'"
  using assms
proof (induction "fs_result_count s - fs_result_cursor s" arbitrary: s rule: less_induct)
  case less
  show ?case
  proof (cases "fs_result_cursor s \<ge> fs_result_count s")
    case True
    with less.prems show ?thesis by (simp add: exec_custom_scan_step [of _ _ _ s])
  next
    case False
    show ?thesis
    proof (cases "pair_row xe tlist project s (fs_result_pairs s ! fs_result_cursor s)")
      case None
      then have "exec_custom_scan xe tlist project (next_pair xe s) = (Some v, s')"
        using less.prems False by (simp add: exec_custom_scan_step [of _ _ _ s])
      from less.hyps [OF _ this] False show ?thesis using same_scan_trans [OF next_pair_simps(3)] by fastforce
    next
      case (Some w)
      with less.prems False show ?thesis by (auto simp: exec_custom_scan_step [of _ _ _ s])
    qed
  qed
qed

text \<open>The executor calls the node until it returns no row.\<close>

function scan_rows :: "'r ExecEnv \<Rightarrow> PgVar list \<Rightarrow> (u64 option list \<Rightarrow> 'v) \<Rightarrow> 'r FpgaScanState \<Rightarrow> 'v list" where
  "scan_rows xe tlist project s =
     (case exec_custom_scan xe tlist project s of
        (None, s') \<Rightarrow> []
      | (Some v, s') \<Rightarrow> v # scan_rows xe tlist project s')"
  by pat_completeness auto
termination
proof (relation "measure (\<lambda>(xe, tlist, project, s). fs_result_count s - fs_result_cursor s)", goal_cases)
  case (2 xe tlist project s p s' v)
  then have "exec_custom_scan xe tlist project s = (Some v, s')" by simp
  from exec_custom_scan_progress [OF this] show ?case using same_scan_results [of s s'] by auto
qed simp

declare scan_rows.simps [simp del]

lemma scan_rows_step:
  assumes "fs_result_cursor s < fs_result_count s"
  shows "scan_rows xe tlist project s =
    (case pair_row xe tlist project s (fs_result_pairs s ! fs_result_cursor s) of None \<Rightarrow> [] | Some v \<Rightarrow> [v]) @ scan_rows xe tlist project (next_pair xe s)"
  using assms
  by (subst scan_rows.simps, subst exec_custom_scan_step)
    (auto simp: scan_rows.simps [of _ _ _ "next_pair xe s"] split: option.split)

lemma scan_rows_eq:
  assumes "fs_result_count s = length (fs_result_pairs s)"
  shows "scan_rows xe tlist project s = List.map_filter (pair_row xe tlist project s) (drop (fs_result_cursor s) (fs_result_pairs s))"
  using assms
proof (induction "fs_result_count s - fs_result_cursor s" arbitrary: s)
  case 0
  then show ?case by (simp add: scan_rows.simps exec_custom_scan_step)
next
  case (Suc n)
  then have lt: "fs_result_cursor s < length (fs_result_pairs s)" by simp
  let ?t = "next_pair xe s"
  have t: "fs_result_pairs ?t = fs_result_pairs s" "pair_row xe tlist project ?t = pair_row xe tlist project s"
    using same_scan_results [OF next_pair_simps(3)] same_scan_pair_row [OF next_pair_simps(3)] by auto
  have "scan_rows xe tlist project ?t = List.map_filter (pair_row xe tlist project s) (drop (Suc (fs_result_cursor s)) (fs_result_pairs s))"
    using Suc.hyps(1) [of ?t] Suc.hyps(2) Suc.prems t by simp
  then show ?case using lt Suc.prems
    by (simp add: scan_rows_step Cons_nth_drop_Suc [OF lt, symmetric] map_filter_simps split: option.split)
qed

section \<open>The join in SQL\<close>

text \<open>The inner join of two lists of rows on the equality of two columns of type INT4 or INT8: every pair of rows whose keys are
  not null and equal, in the order of the probe side.\<close>

definition row_key :: "'r ExecEnv \<Rightarrow> u8 \<Rightarrow> int \<Rightarrow> 'r \<Rightarrow> u64 option" where
  "row_key xe key_type attno row = map_option (key_of_datum key_type) (xe_getattr xe row attno)"

definition sql_inner_join :: "'r ExecEnv \<Rightarrow> u8 \<Rightarrow> int \<Rightarrow> int \<Rightarrow> 'r list \<Rightarrow> 'r list \<Rightarrow> ('r \<times> 'r) list" where
  "sql_inner_join xe key_type battno pattno brows prows =
     concat (map (\<lambda>p. map (\<lambda>b. (b, p)) (filter (\<lambda>b. row_key xe key_type battno b \<noteq> None \<and> row_key xe key_type battno b = row_key xe key_type pattno p) brows)) prows)"

lemma drain_plan_keys: "map it_key (drain_plan xe attno kt rows) = List.map_filter (row_key xe kt attno) rows"
  by (induction rows) (simp_all add: row_key_def map_filter_simps split: option.split)

lemma first_match_drain:
  "first_match (drain_plan xe attno kt rows) k = map_option (xe_tid xe) (find (\<lambda>b. row_key xe kt attno b = Some k) rows)"
  by (induction rows) (auto simp: first_match_def tuple_entry_def row_key_def split: option.split)

lemma filter_unique:
  "distinct (List.map_filter f xs) \<Longrightarrow> filter (\<lambda>b. f b = Some k) xs = (case find (\<lambda>b. f b = Some k) xs of None \<Rightarrow> [] | Some b \<Rightarrow> [b])"
proof (induction xs)
  case (Cons x xs)
  show ?case
  proof (cases "f x = Some k")
    case True
    then have "k \<notin> set (List.map_filter f xs)" using Cons.prems by (simp add: map_filter_simps)
    then have "filter (\<lambda>b. f b = Some k) xs = []" by (force simp: List.map_filter_def filter_empty_conv)
    with True show ?thesis by simp
  next
    case False
    moreover have "distinct (List.map_filter f xs)" using Cons.prems by (auto simp: map_filter_simps split: option.splits)
    ultimately show ?thesis using Cons.IH by simp
  qed
qed simp

lemma pairs_to_rows:
  assumes "distinct (map it_key (drain_plan xe battno kt brows))"
    "\<forall>r \<in> set brows. xe_fetch xe brel (xe_tid xe r) = Some r" "\<forall>r \<in> set prows. xe_fetch xe prel (xe_tid xe r) = Some r"
    "fs_inner_rel s = Some brel" "fs_outer_rel s = Some prel"
  shows "List.map_filter (pair_row xe tlist project s) (join_spec (drain_plan xe battno kt brows) (drain_plan xe pattno kt prows)) =
    map (\<lambda>(b, p). project (scan_columns xe (fs_outer_rtindex s) tlist b p)) (sql_inner_join xe kt battno pattno brows prows)"
  using assms(3)
proof (induction prows)
  case (Cons p prows)
  let ?f = "row_key xe kt battno"
  have d: "distinct (List.map_filter ?f brows)" using assms(1) by (simp add: drain_plan_keys)
  show ?case
  proof (cases "xe_getattr xe p pattno")
    case None
    then have "row_key xe kt pattno p = None" by (simp add: row_key_def)
    with None Cons show ?thesis by (auto simp: sql_inner_join_def filter_empty_conv)
  next
    case (Some y)
    let ?k = "key_of_datum kt y"
    have k: "row_key xe kt pattno p = Some ?k" using Some by (simp add: row_key_def)
    have nn: "(\<lambda>b. ?f b \<noteq> None \<and> ?f b = Some ?k) = (\<lambda>b. ?f b = Some ?k)" by auto
    have fl: "filter (\<lambda>b. ?f b \<noteq> None \<and> ?f b = row_key xe kt pattno p) brows = (case find (\<lambda>b. ?f b = Some ?k) brows of None \<Rightarrow> [] | Some b \<Rightarrow> [b])"
      unfolding k nn by (rule filter_unique [OF d])
    show ?thesis
    proof (cases "find (\<lambda>b. ?f b = Some ?k) brows")
      case None
      then show ?thesis using Cons Some fl by (simp add: sql_inner_join_def join_spec_def first_match_drain)
    next
      case (Some b)
      then have "b \<in> set brows" by (auto simp: find_Some_iff)
      then have "xe_fetch xe brel (xe_tid xe b) = Some b" "xe_fetch xe prel (xe_tid xe p) = Some p" using assms(2) Cons.prems by auto
      then show ?thesis using Cons Some \<open>xe_getattr xe p pattno = Some y\<close> fl assms(4,5)
        by (simp add: sql_inner_join_def join_spec_def first_match_drain map_filter_simps pair_row_def fetch_def)
    qed
  qed
qed (simp add: sql_inner_join_def join_spec_def map_filter_simps)

section \<open>Begin and scan\<close>

lemma begin_scan_rows:
  assumes "custom_plans cscan = [pplan, bplan]" "cs_private cscan = [int (unat kt), battno, pattno]"
    "fst (fpga_adapter_run env (executor_args g kt) (drain_plan xe battno kt brows) (drain_plan xe pattno kt prows) a) =
      Inr (True, join_spec (drain_plan xe battno kt brows) (drain_plan xe pattno kt prows))"
    "distinct (map it_key (drain_plan xe battno kt brows))"
    "\<forall>r \<in> set brows. xe_fetch xe (xe_relid xe bplan) (xe_tid xe r) = Some r"
    "\<forall>r \<in> set prows. xe_fetch xe (xe_relid xe pplan) (xe_tid xe r) = Some r"
  shows "\<exists>s a'. begin_custom_scan xe env g cscan False ((fpga_create_custom_scan_state cscan)\<lparr>fs_custom_ps := [prows, brows]\<rparr>, a) = (Inr (), s, a') \<and>
    scan_rows xe (custom_scan_tlist cscan) project s =
      map (\<lambda>(b, p). project (scan_columns xe pplan (custom_scan_tlist cscan) b p)) (sql_inner_join xe kt battno pattno brows prows)"
proof -
  let ?j = "join_spec (drain_plan xe battno kt brows) (drain_plan xe pattno kt prows)"
  obtain a' where run: "fpga_adapter_run env (executor_args g kt) (drain_plan xe battno kt brows) (drain_plan xe pattno kt prows) a = (Inr (True, ?j), a')"
    using assms(3) by (metis prod.collapse)
  have "\<exists>s a'. begin_custom_scan xe env g cscan False ((fpga_create_custom_scan_state cscan)\<lparr>fs_custom_ps := [prows, brows]\<rparr>, a) = (Inr (), s, a') \<and>
    fs_result_count s = length ?j \<and> fs_result_pairs s = ?j \<and> fs_result_cursor s = 0 \<and> fs_inner_rel s = Some (xe_relid xe bplan) \<and>
    fs_outer_rel s = Some (xe_relid xe pplan) \<and> fs_outer_rtindex s = pplan"
    using assms(1,2) run
    by (simp add: begin_custom_scan_def fpga_create_custom_scan_state_def take_sub_plans_def open_relations_def timed_def run_adapter_def Let_def
        split: option.split)
  then obtain s a'' where s: "begin_custom_scan xe env g cscan False ((fpga_create_custom_scan_state cscan)\<lparr>fs_custom_ps := [prows, brows]\<rparr>, a) = (Inr (), s, a'')"
    "fs_result_count s = length ?j" "fs_result_pairs s = ?j" "fs_result_cursor s = 0" "fs_inner_rel s = Some (xe_relid xe bplan)"
    "fs_outer_rel s = Some (xe_relid xe pplan)" "fs_outer_rtindex s = pplan" by blast
  have "scan_rows xe (custom_scan_tlist cscan) project s =
      map (\<lambda>(b, p). project (scan_columns xe pplan (custom_scan_tlist cscan) b p)) (sql_inner_join xe kt battno pattno brows prows)"
    using pairs_to_rows [OF assms(4,5,6) s(5,6)] s by (simp add: scan_rows_eq)
  with s(1) show ?thesis by blast
qed

section \<open>What is sent fits the wire\<close>

lemma sint_scast_32 [simp]: "sint (scast (x :: u32) :: u64) = sint x"
  by (rule sint_up_scast) (simp add: is_up)

lemma drain_plan_fits:
  assumes "kt = ADAPTER_KEY_INT32 \<or> kt = ADAPTER_KEY_INT64"
  shows "list_all (\<lambda>t. key_fits kt (it_key t)) (drain_plan xe attno kt rows)"
proof -
  have "key_fits kt (key_of_datum kt d)" for d
    using assms sint_ge [of "ucast d :: u32"] sint_lt [of "ucast d :: u32"]
    by (auto simp: key_fits_def key_of_datum_def ADAPTER_KEY_INT32_def ADAPTER_KEY_INT64_def)
  then show ?thesis by (induction rows) (simp_all split: option.split)
qed

section \<open>Errors and the end\<close>

text \<open>A second call of \<open>end_custom_scan\<close> finds nothing to close.\<close>

lemma end_custom_scan_twice [simp]: "end_custom_scan (end_custom_scan s) = end_custom_scan s"
  by (simp add: end_custom_scan_def)

lemma begin_explain_only: "begin_custom_scan xe env g cscan True sa = (Inr (), sa)"
  by (simp add: begin_custom_scan_def)

lemma begin_reports_failure:
  assumes "length (custom_plans cscan) = 2" "length (fs_custom_ps s) = 2"
    "fpga_adapter_run env (executor_args g (fs_key_type s)) (drain_plan xe (fs_inner_key_attno s) (fs_key_type s) (fs_custom_ps s ! 1))
       (drain_plan xe (fs_outer_key_attno s) (fs_key_type s) (fs_custom_ps s ! 0)) a = (r, a')"
  shows "fst (begin_custom_scan xe env g cscan False (s, a)) =
    (case r of Inl e \<Rightarrow> Inl (Uncaught e) | Inr (ok, pairs) \<Rightarrow> if ok then Inr () else Inl (EReport (''FPGA hash join failed: '' @ fpga_adapter_last_error a')))"
  using assms
  by (simp add: begin_custom_scan_def take_sub_plans_def open_relations_def timed_def run_adapter_def Let_def split: sum.split option.split)

end
