(* ===== verification/Fpga_Extension.thy ===== *)
theory Fpga_Extension
  imports Fpga_Planner
begin

text \<open>
  Loading and unloading the extension (\<^verbatim>\<open>src/pg/src/fpga_hashjoin.c\<close>): the planner hook, chained to the one that was
  installed before. The settings that loading registers are in \<open>Fpga_Settings\<close>.
\<close>

section \<open>The hook and its predecessor\<close>

text \<open>The arguments of the hook the code uses, and a hook as the list of the paths it adds. A pointer to a
  hook is this extension's own one or some other function.\<close>

record 'p JoinArgs =
  ja_rows :: rat
  ja_outerrel :: "'p RelOptInfo"
  ja_innerrel :: "'p RelOptInfo"
  ja_jointype :: JoinType
  ja_restrictlist :: "RestrictNode list"

datatype 'p HookPtr = FpgaJoinPathlistHook | OtherHook "'p JoinArgs \<Rightarrow> 'p CustomPath list"

record 'p HookVars =
  set_join_pathlist_hook :: "'p HookPtr option"
  prev_join_pathlist_hook :: "'p HookPtr option"

definition add_fpga_path :: "(string \<Rightarrow> string \<Rightarrow> bool) \<Rightarrow> FpgaGucs \<Rightarrow> 'p JoinArgs \<Rightarrow> 'p CustomPath list" where
  "add_fpga_path caseeq g ja =
     (case fpga_planner_hook caseeq g (ja_rows ja) (ja_outerrel ja) (ja_innerrel ja) (ja_jointype ja) (ja_restrictlist ja) of
        None \<Rightarrow> [] | Some p \<Rightarrow> [p])"

text \<open>A call through a pointer; the predecessor is read when the hook runs. Without fuel the calls do not end.\<close>

fun fpga_join_pathlist_hook ::
  "(string \<Rightarrow> string \<Rightarrow> bool) \<Rightarrow> FpgaGucs \<Rightarrow> 'p HookVars \<Rightarrow> 'p JoinArgs \<Rightarrow> nat \<Rightarrow> 'p CustomPath list option" where
  "fpga_join_pathlist_hook caseeq g v ja 0 = None"
| "fpga_join_pathlist_hook caseeq g v ja (Suc fuel) =
     (case prev_join_pathlist_hook v of
        None \<Rightarrow> Some (add_fpga_path caseeq g ja)
      | Some (OtherHook h) \<Rightarrow> Some (h ja @ add_fpga_path caseeq g ja)
      | Some FpgaJoinPathlistHook \<Rightarrow>
          map_option (\<lambda>ps. ps @ add_fpga_path caseeq g ja) (fpga_join_pathlist_hook caseeq g v ja fuel))"

definition PG_init_hooks :: "'p HookVars \<Rightarrow> 'p HookVars" where
  "PG_init_hooks v = v\<lparr>prev_join_pathlist_hook := set_join_pathlist_hook v, set_join_pathlist_hook := Some FpgaJoinPathlistHook\<rparr>"

definition PG_fini :: "'p HookVars \<Rightarrow> 'p HookVars" where
  "PG_fini v = v\<lparr>set_join_pathlist_hook := prev_join_pathlist_hook v\<rparr>"

section \<open>Loading and unloading\<close>

text \<open>Unloading restores the hook that was there; while the extension is loaded, the paths of that hook come
  first and ours, if any, last.\<close>

lemma fini_restores: "set_join_pathlist_hook (PG_fini (PG_init_hooks v)) = set_join_pathlist_hook v"
  by (simp add: PG_fini_def PG_init_hooks_def)

lemma hook_chained:
  assumes "set_join_pathlist_hook v = Some (OtherHook h)" and "0 < fuel"
  shows "fpga_join_pathlist_hook caseeq g (PG_init_hooks v) ja fuel = Some (h ja @ add_fpga_path caseeq g ja)"
  using assms by (cases fuel) (simp_all add: PG_init_hooks_def)

lemma hook_first:
  assumes "set_join_pathlist_hook v = None" and "0 < fuel"
  shows "fpga_join_pathlist_hook caseeq g (PG_init_hooks v) ja fuel = Some (add_fpga_path caseeq g ja)"
  using assms by (cases fuel) (simp_all add: PG_init_hooks_def)

text \<open>Installed twice, the hook would call itself for ever.\<close>

lemma hook_installed_twice: "fpga_join_pathlist_hook caseeq g (PG_init_hooks (PG_init_hooks v)) ja fuel = None"
  by (induction fuel) (simp_all add: PG_init_hooks_def)

end
