(* ===== verification/Spec2Isabelle.thy ===== *)
theory Spec2Isabelle
  imports Board_Ethernet Grace_Protocol Fpga_Executor Fpga_Extension
begin

text \<open>
  Verification of the FPGA hash-join offload for PostgreSQL.

  \<^bold>\<open>The program.\<close> A PostgreSQL extension (\<^verbatim>\<open>src/pg\<close>) replaces an inner equi-join by a custom scan.
  The planner hook decides which joins are offloaded and which side is the build side; the executor
  reads the keys and row pointers of both inputs, hands them to a C++ adapter, and fetches the rows of
  the result pairs. The adapter runs the host client (\<^verbatim>\<open>src/host\<close>) over a transport (serial port, UDP, or a
  simulation of the board). The client speaks a framed protocol (CONFIGURE, data frames with
  acknowledgements and credit, RESULT, STATUS) with the HLS kernel (\<^verbatim>\<open>src/src\<close>), which joins with a
  linear-probing table in block RAM (algorithm A) or partitions both inputs in DDR2 first (algorithm B). On the board a
  receive filter and a transmit framer in Verilog (\<^verbatim>\<open>src/rtl\<close>) carry the streams of the kernel over UDP.

  \<^bold>\<open>The theories\<close>, bottom up, with the sources they model:
  \<^item> \<open>FJ_Prelude\<close>: widths, little-endian bytes, shared lemmas and rule collections. \<open>Wire_Types\<close>: the constants and
    wire structures of \<^verbatim>\<open>src/src/hash_join_types.hpp\<close> and \<^verbatim>\<open>fpga_types.hpp\<close>, and the specification \<open>join_spec\<close>: for every outer
    row in order, the first inner row with its key.
  \<^item> \<open>Linear_Hash\<close>: \<^verbatim>\<open>hash_join_linear.hpp\<close>. The table invariant is kept by every insertion, probing finds what was inserted,
    failures are exactly the full table and the full probe window; a locale states the map interface.
  \<^item> \<open>Tuple_Serializer\<close>, \<open>Kernel_Stream\<close>: \<^verbatim>\<open>tuple_serializer.cpp\<close> and \<^verbatim>\<open>hash_join_kernel.hpp\<close>. What the host writes the kernel reads back.
  \<^item> \<open>Kernel_State\<close>, \<open>Grace_Engine\<close>, \<open>Hash_Join_Kernel\<close>: the state and the whole session loop of \<^verbatim>\<open>hash_join_kernel.cpp\<close> and
    \<^verbatim>\<open>hash_join_grace.hpp\<close>, one function per phase. \<open>Linear_Session\<close> and \<open>Grace_Session\<close>: a session of either algorithm on the
    frames the host sends computes the join. \<open>Kernel_Safety\<close>: on arbitrary input the output is made of whole frames, the
    table invariant survives and arrays are respected, up to the overrun shown there. \<open>Kernel_Causal\<close>: output never
    depends on input still to come.
  \<^item> \<open>Host_Transport\<close>, \<open>Result_Decoder\<close>, \<open>Fpga_Client\<close>: \<^verbatim>\<open>transport.hpp\<close>, \<^verbatim>\<open>mock_transport.hpp\<close>, \<^verbatim>\<open>result_decoder.cpp\<close> and
    \<^verbatim>\<open>fpga_client.cpp\<close>. \<open>Client_Session\<close>: order of what is sent, window and credit, termination, against any board.
    \<open>Board_Protocol\<close>: a session against a board that answers, through the locale \<open>board\<close>. \<open>Host_Kernel\<close>: the kernel is such a board,
    so a run of the client returns the join. \<open>Grace_Protocol\<close>: the same for algorithm B, where all results come after the
    last outer frame.
  \<^item> \<open>Software_Kernel\<close>: \<^verbatim>\<open>software_kernel.hpp\<close>, equivalent to the kernel for distinct keys as far as results go.
  \<^item> \<open>Posix_Base\<close>, \<open>Uart_Transport\<close>, \<open>Udp_Transport\<close>: \<^verbatim>\<open>uart_transport.cpp\<close> and \<^verbatim>\<open>udp_transport.cpp\<close>; each refines the locale \<open>board\<close>.
  \<^item> \<open>Rtl_Udp_Tx\<close>, \<open>Rtl_Udp_Rx\<close>: \<^verbatim>\<open>udp_ipv4_tx.v\<close> and \<^verbatim>\<open>udp_ipv4_rx.v\<close>, one function from the registers and inputs of a cycle to
    the registers after it. Frames sent are valid, exactly the datagrams for the board are delivered, and what one board
    sends another receives. \<open>Board_Ethernet\<close>: the kernel behind the framer; algorithm A gets through, large results of algorithm
    B do not.
  \<^item> \<open>Fpga_Adapter\<close>: \<^verbatim>\<open>fpga_adapter.cpp\<close>. \<open>Fpga_Settings\<close>, \<open>Fpga_Extension\<close>: \<^verbatim>\<open>fpga_hashjoin.c\<close>. \<open>Fpga_Planner\<close>: \<^verbatim>\<open>fpga_planner.c\<close>.
    \<open>Fpga_Executor\<close>: \<^verbatim>\<open>fpga_executor.c\<close>, with the join in SQL terms.
  \<^item> This theory: the properties that span planner, executor, adapter, client and kernel.

  \<^bold>\<open>Conventions.\<close> C and C++ integers keep their width as words and wrap. An exception is \<open>Inl\<close> of a sum; the state is
  passed explicitly. A stream of the kernel is a list whose entries are \<open>Some\<close> byte or \<open>None\<close> for a poll that finds
  nothing; running out of input is the outcome \<open>Blocked\<close>, an access outside a buffer \<open>OutOfBounds\<close>. The flag \<open>synth\<close>
  is the macro \<open>__SYNTHESIS__\<close>; \<open>rtl\<close> gives the values at the ports of the timing monitor. Clocks are functions from
  the number of readings taken so far; \<open>clock_calm\<close> says that no wait reaches the hard time-out. Times that the code
  holds in doubles are whole microseconds or nanoseconds.

  \<^bold>\<open>Bounds and fuel.\<close> The kernel's loops terminate by the length of the input that is left, its loop limits are those
  of the source. The client's waits take fuel, because a board may keep sending; fuel above the number of messages
  and rows of the session is enough for the end-to-end theorems (the bound 610 covers the messages of two data frames),
  and \<open>run_hash_join_returns\<close> shows that on a clock that advances every run ends whatever the board answers.
  The loops of the transports over system calls take fuel as well. Fuel that runs out is the value \<open>Diverged\<close>, which no
  theorem about a returned result allows.

  \<^bold>\<open>Parameters.\<close> System calls (\<open>Tty\<close>, \<open>UdpSocket\<close>), \<open>malloc\<close>, the clock, \<open>pg_strcasecmp\<close> and the services of the server
  (\<open>ExecEnv\<close>) are records of functions or arguments. That a unique index keeps keys apart and that a row of the scan can be
  fetched again under the same snapshot are hypotheses of the theorem that needs them.

  \<^bold>\<open>Not modelled.\<close> Log output and \<^verbatim>\<open>logger.cpp\<close>, which only format text; sleeping; the Windows branches of the transports;
  memory contexts, locks and slots of the server, which the code only passes on; help texts of the settings. The
  tests (\<^verbatim>\<open>src/host/tests\<close>, \<^verbatim>\<open>hash_join_tb.cpp\<close>, \<^verbatim>\<open>test_adapter_standalone.cpp\<close>) and the stand-alone tools under \<^verbatim>\<open>src/tools\<close>
  are not part of the offload. Of the Verilog under \<^verbatim>\<open>src/rtl\<close> the bit-level line interfaces (\<^verbatim>\<open>rmii_*\<close>, \<^verbatim>\<open>uart_stream_bridge.v\<close>), the wiring of
  the bridges, the timing monitor, whose outputs are the parameter \<open>rtl\<close>, and the PHY and lamp modules are left out: a
  frame is given by its start, its bytes with any pauses and its end, a serial line by its bytes.
\<close>

section \<open>From the plan to the scan\<close>

text \<open>The plan and the state for a path of the hook: a path and the plan made of it are known by the range table index
  of their relation, \<open>scan\<close> gives the rows each of them returns, and the server has initialised the sub-plans.\<close>

definition offloaded_plan :: "nat CustomPath \<Rightarrow> PgVar list \<Rightarrow> nat CustomScan" where
  "offloaded_plan p tlist = plan_fpga_custom_path p tlist (custom_paths p)"

definition offloaded_state :: "nat CustomPath \<Rightarrow> PgVar list \<Rightarrow> (nat \<Rightarrow> 'r list) \<Rightarrow> 'r FpgaScanState" where
  "offloaded_state p tlist scan = (fpga_create_custom_scan_state (offloaded_plan p tlist))\<lparr>fs_custom_ps := map scan (custom_paths p)\<rparr>"

lemma offloaded_plan_simps [simp]:
  "custom_plans (offloaded_plan p tlist) = custom_paths p" "cs_private (offloaded_plan p tlist) = custom_private p"
  "custom_scan_tlist (offloaded_plan p tlist) = tlist"
  by (simp_all add: offloaded_plan_def plan_fpga_custom_path_def)

text \<open>The path of the hook with its parts named.\<close>

lemma offloaded_parts:
  assumes "fpga_planner_hook caseeq g rows outerrel innerrel jointype restrictlist = Some p"
  obtains build probe kt battno pattno c where
    "(build, probe) = (innerrel, outerrel) \<or> (build, probe) = (outerrel, innerrel)" "c \<in> set restrictlist" "counted_clause c"
    "\<exists>oid. joins_on c build probe oid battno pattno \<or> joins_on c probe build oid pattno battno"
    "rel_joinkey_is_unique build battno" "kt = ADAPTER_KEY_INT32 \<or> kt = ADAPTER_KEY_INT64"
    "custom_paths p = [cheapest_total_path probe, cheapest_total_path build]" "custom_private p = [int (unat kt), battno, pattno]"
proof -
  obtain build probe oid battno pattno xs c ys where p:
    "(build, probe) = (innerrel, outerrel) \<or> (build, probe) = (outerrel, innerrel)" "restrictlist = xs @ c # ys"
    "joins_on c build probe oid battno pattno \<or> joins_on c probe build oid pattno battno" "rel_joinkey_is_unique build battno"
    "custom_paths p = [cheapest_total_path probe, cheapest_total_path build]" "custom_private p = [if oid = INT4OID then 1 else 2, battno, pattno]"
    using planner_path_facts [OF assms] by metis
  have c: "counted_clause c" using p(3) by (auto simp: joins_on_def)
  show ?thesis
    by (rule that [of build probe c battno pattno "if oid = INT4OID then ADAPTER_KEY_INT32 else ADAPTER_KEY_INT64"])
      (use p c in \<open>auto simp: ADAPTER_KEY_INT32_def ADAPTER_KEY_INT64_def\<close>)
qed

section \<open>A scan in simulation\<close>

lemma length_drain_plan: "length (drain_plan xe attno kt rows) \<le> length rows"
  by (induction rows) (simp_all split: option.split)

lemma dedup_inner_Nil [simp]: "dedup_inner {} ts = [] \<longleftrightarrow> ts = []"
  by (cases ts) simp_all

lemma boot_args:
  "aa_use_simulation (executor_args gucs_boot kt)" "aa_algorithm_name (executor_args gucs_boot kt) = Some ''a''"
  "aa_key_type (executor_args g kt) = kt"
  by (simp_all add: executor_args_def gucs_boot_def guc_defs_def gucs_static_def)

lemma simulated_run_fails:
  assumes "inner \<noteq> []" "length inner \<le> 12288" "list_all (\<lambda>t. key_fits kt (it_key t)) inner"
    and "clock_calm (ae_clock env) (client_cfg (adapter_config (executor_args gucs_boot kt)))" and "0 < ae_fuel env"
  shows "\<exists>a'. fpga_adapter_run env (executor_args gucs_boot kt) inner outer a = (Inr (False, []), a') \<and>
    fpga_adapter_last_error a' = ''FPGA build ACK did not advance rows_processed''"
proof -
  let ?args = "executor_args gucs_boot kt" and ?cfg = "\<lparr>jc_algorithm = ALGORITHM_A, jc_key_type = kt\<rparr>" and ?in = "dedup_inner {} inner"
  let ?e = "FpgaException ''FPGA build ACK did not advance rows_processed''"
  let ?ss = "new_session sk_transport (ae_clock env) (adapter_config ?args) (ae_fuel env) ?cfg"
  have few: "length ?in \<le> 12288" using length_dedup_inner [of "{}" inner] assms(2) by simp
  have "fst (run_hash_join ?ss ?in outer (client_init sk_blank (as_counter a))) = Inl ?e"
    by (rule sk_run_throws [OF refl assms(4,5)])
      (use assms(1,3) list_all_dedup_inner in \<open>auto simp: adapter_config_def client_config_default_def client_init_def sk_blank_def sk_pending_def\<close>)
  then obtain t ctr' where "run_client sk_transport env 0 (adapter_config ?args) ?cfg ?in outer sk_blank (as_counter a) = (Inl ?e, t, ctr')"
    unfolding run_client_def by (cases "run_hash_join ?ss ?in outer (client_init sk_blank (as_counter a))") simp
  then show ?thesis using few
    by (simp add: fpga_adapter_run_def adapter_join_def run_simulation_def boot_args parse_algorithm_def or_default_def str_eq_def
        kHtMaxRows_def adapter_catch_def fpga_adapter_last_error_def Let_def)
qed

section \<open>An example query\<close>

text \<open>Two small tables with rows of a row pointer and columns: table 1 with a unique index on its first column, table 2
  joined to it through its third column.\<close>

type_synonym ExampleRow = "Tid \<times> u64 option list"

definition example_scan :: "nat \<Rightarrow> ExampleRow list" where
  "example_scan rti =
     (if rti = 1 then [(\<lparr>blkno = 0, offno = 1\<rparr>, [Some 7, Some 70]), (\<lparr>blkno = 0, offno = 2\<rparr>, [Some 8, None]), (\<lparr>blkno = 0, offno = 3\<rparr>, [None, None])]
      else if rti = 2 then [(\<lparr>blkno = 1, offno = 1\<rparr>, [Some 100, None, Some 9]), (\<lparr>blkno = 1, offno = 2\<rparr>, [Some 101, None, Some 7]),
        (\<lparr>blkno = 1, offno = 3\<rparr>, [Some 102, None, None])]
      else [])"

definition example_exec :: "ExampleRow ExecEnv" where
  "example_exec = \<lparr>xe_tid = fst, xe_getattr = (\<lambda>row attno. snd row ! nat (attno - 1)), xe_fetch = (\<lambda>oid tid. find (\<lambda>row. fst row = tid) (example_scan oid)),
     xe_relid = (\<lambda>rti. rti), xe_init = example_scan, xe_clock = (\<lambda>i. (0, int i))\<rparr>"

definition example_gucs :: FpgaGucs where
  "example_gucs = gucs_boot\<lparr>fpga_simulation := False, fpga_algorithm := Some ''linear'', fpga_transport := None\<rparr>"

definition example_tlist :: "PgVar list" where
  "example_tlist = [\<lparr>varno = 1, vartype = INT8OID, varattno = 2\<rparr>, \<lparr>varno = 2, vartype = INT8OID, varattno = 1\<rparr>]"

definition example_custom_path :: "nat CustomPath" where
  "example_custom_path = \<lparr>cp_rows = 500, startup_cost = 0, total_cost = 0, custom_paths = [2, 1], custom_private = [1, 1, 3]\<rparr>"

text \<open>Lower case of the ASCII letters, as the server's comparison of names without regard to case has it.\<close>

definition lower_case :: "char \<Rightarrow> char" where
  "lower_case c = (let n = (of_char c :: nat) in if 65 \<le> n \<and> n \<le> 90 then char_of (n + 32) else c)"

lemma example_hook:
  assumes "g = gucs_boot\<lparr>fpga_simulation := sim, fpga_algorithm := Some name, fpga_transport := tr\<rparr>" "caseeq name ''linear''" "\<not> caseeq name ''b''"
    "\<not> caseeq name ''algorithm_b''" "\<not> caseeq name ''grace''"
  shows "fpga_planner_hook caseeq g 500 (example_rel 1 True 200) (example_rel 2 False 5000) JOIN_INNER [example_clause] = Some example_custom_path"
  using assms
  by (simp add: fpga_planner_hook_def fpga_is_offloadable_def example_rel_def example_clause_def find_equijoin_key_def gucs_boot_def
      guc_defs_def gucs_static_def fpga_algorithm_is_valid_def fpga_algorithm_is_b_def rel_joinkey_is_unique_def make_fpga_path_def
      INT4OID_def INT8OID_def ADAPTER_KEY_INT32_def example_custom_path_def)

lemma example_drains:
  "drain_plan example_exec 1 KEY_INT32 (example_scan 1) = [\<lparr>it_key = 7, it_tid = \<lparr>blkno = 0, offno = 1\<rparr>\<rparr>, \<lparr>it_key = 8, it_tid = \<lparr>blkno = 0, offno = 2\<rparr>\<rparr>]"
  "drain_plan example_exec 3 KEY_INT32 (example_scan 2) = [\<lparr>it_key = 9, it_tid = \<lparr>blkno = 1, offno = 1\<rparr>\<rparr>, \<lparr>it_key = 7, it_tid = \<lparr>blkno = 1, offno = 2\<rparr>\<rparr>]"
  by (simp_all add: example_exec_def example_scan_def key_of_datum_def ADAPTER_KEY_INT32_def)

lemma example_unique:
  assumes "rel \<in> {example_rel 2 False 5000, example_rel 1 True 200}" "rel_joinkey_is_unique rel attno"
  shows "distinct (map it_key (drain_plan example_exec attno KEY_INT32 (example_scan (cheapest_total_path rel))))"
proof -
  have "cheapest_total_path rel = 1" "attno = 1" using assms by (auto simp: example_rel_def rel_joinkey_is_unique_def)
  then show ?thesis using example_drains(1) by simp
qed

lemma example_snapshot:
  assumes "r \<in> set (example_scan plan)"
  shows "xe_fetch example_exec (xe_relid example_exec plan) (xe_tid example_exec r) = Some r"
  using assms by (auto simp: example_exec_def example_scan_def split: if_splits)

lemma example_setup:
  "uart_setup example_env (executor_args example_gucs KEY_INT32) example_state (kernel_blank [])
    (drain_plan example_exec 1 KEY_INT32 (example_scan 1)) (drain_plan example_exec 3 KEY_INT32 (example_scan 2))"
proof -
  have a: "executor_args example_gucs KEY_INT32 = example_args"
    by (simp add: executor_args_def example_gucs_def gucs_boot_def guc_defs_def gucs_static_def example_args_def FPGA_DEFAULT_ACK_WINDOW_FRAMES_def)
  have b: "fst (build_all ht_insert (ht_reset ht_blank) [\<lparr>it_key = 7, it_tid = \<lparr>blkno = 0, offno = 1\<rparr>\<rparr>, \<lparr>it_key = 8, it_tid = \<lparr>blkno = 0, offno = 2\<rparr>\<rparr>]) = ERR_NONE"
    by code_simp
  show ?thesis unfolding a
    by (rule uart_setup_example) (simp_all only: example_drains, simp_all add: key_fits_def b [simplified])
qed

section \<open>Properties\<close>

text \<open>C1. From the planner to the rows. A join the hook offloads, run with the serial port and the board at its other
  end: the scan starts without an error, and calling it until it returns no row gives the rows of
  the SQL inner join of the two inputs on the clause the hook found, each row once, with the columns of the
  target list taken from the right side. It is relied on that a unique index keeps the keys of the rows it covers apart
  and that a row seen by the scan can be fetched again under the same snapshot.\<close>

theorem query_returns_sql_join:
  assumes "fpga_planner_hook caseeq g rows outerrel innerrel jointype restrictlist = Some p"
    and "custom_private p = [int (unat kt), battno, pattno]" and "custom_paths p = [pplan, bplan]"
    and unique_index: "\<And>rel attno. rel \<in> {innerrel, outerrel} \<Longrightarrow> rel_joinkey_is_unique rel attno \<Longrightarrow>
      distinct (map it_key (drain_plan xe attno kt (scan (cheapest_total_path rel))))"
    and snapshot: "\<And>plan r. r \<in> set (scan plan) \<Longrightarrow> xe_fetch xe (xe_relid xe plan) (xe_tid xe r) = Some r"
    and board: "uart_setup env (executor_args g kt) a k (drain_plan xe battno kt (scan bplan)) (drain_plan xe pattno kt (scan pplan))"
  shows "(\<exists>c \<in> set restrictlist. \<exists>build probe oid. {build, probe} = {innerrel, outerrel} \<and>
      bplan = cheapest_total_path build \<and> pplan = cheapest_total_path probe \<and>
      (joins_on c build probe oid battno pattno \<or> joins_on c probe build oid pattno battno)) \<and>
    (\<exists>s a'. begin_custom_scan xe env g (offloaded_plan p tlist) False (offloaded_state p tlist scan, a) = (Inr (), s, a') \<and>
      scan_rows xe tlist project s =
        map (\<lambda>(b, r). project (scan_columns xe pplan tlist b r)) (sql_inner_join xe kt battno pattno (scan bplan) (scan pplan)))"
proof -
  obtain build probe kt' battno' pattno' c where p:
    "(build, probe) = (innerrel, outerrel) \<or> (build, probe) = (outerrel, innerrel)" "c \<in> set restrictlist" "counted_clause c"
    "\<exists>oid. joins_on c build probe oid battno' pattno' \<or> joins_on c probe build oid pattno' battno'"
    "rel_joinkey_is_unique build battno'" "kt' = ADAPTER_KEY_INT32 \<or> kt' = ADAPTER_KEY_INT64"
    "custom_paths p = [cheapest_total_path probe, cheapest_total_path build]" "custom_private p = [int (unat kt'), battno', pattno']"
    by (rule offloaded_parts [OF assms(1)])
  have eq: "battno' = battno" "pattno' = pattno" "bplan = cheapest_total_path build" "pplan = cheapest_total_path probe"
    using p(7,8) assms(2,3) by auto
  have rel: "build \<in> {innerrel, outerrel}" "{build, probe} = {innerrel, outerrel}" using p(1) by auto
  have "distinct (map it_key (drain_plan xe battno kt (scan bplan)))"
    using unique_index [OF rel(1) p(5)] by (simp add: eq)
  moreover have "\<forall>r \<in> set (scan plan). xe_fetch xe (xe_relid xe plan) (xe_tid xe r) = Some r" for plan
    using snapshot by blast
  ultimately have "\<exists>s a'. begin_custom_scan xe env g (offloaded_plan p tlist) False
      ((fpga_create_custom_scan_state (offloaded_plan p tlist))\<lparr>fs_custom_ps := [scan pplan, scan bplan]\<rparr>, a) = (Inr (), s, a') \<and>
    scan_rows xe (custom_scan_tlist (offloaded_plan p tlist)) project s = map (\<lambda>(b, r). project (scan_columns xe pplan (custom_scan_tlist (offloaded_plan p tlist)) b r))
      (sql_inner_join xe kt battno pattno (scan bplan) (scan pplan))"
    by (intro begin_scan_rows) (simp_all add: assms(2,3) adapter_run_uart [OF board])
  moreover have "offloaded_state p tlist scan = (fpga_create_custom_scan_state (offloaded_plan p tlist))\<lparr>fs_custom_ps := [scan pplan, scan bplan]\<rparr>"
    by (simp add: offloaded_state_def assms(3))
  ultimately show ?thesis using p(2,4) rel(2) eq by auto
qed

theorem query_returns_sql_join_witness:
  "\<exists>s a'. begin_custom_scan example_exec example_env example_gucs (offloaded_plan example_custom_path example_tlist) False
      (offloaded_state example_custom_path example_tlist example_scan, example_state) = (Inr (), s, a') \<and>
    scan_rows example_exec example_tlist (\<lambda>v. v) s = [[Some 70, Some 101]]"
proof -
  have j: "map (\<lambda>(b, r). scan_columns example_exec 2 example_tlist b r)
      (sql_inner_join example_exec KEY_INT32 1 3 (example_scan 1) (example_scan 2)) = [[Some 70, Some 101]]"
    by (simp add: sql_inner_join_def row_key_def example_exec_def example_scan_def scan_columns_def example_tlist_def key_of_datum_def ADAPTER_KEY_INT32_def)
  have hook: "fpga_planner_hook (=) example_gucs 500 (example_rel 1 True 200) (example_rel 2 False 5000) JOIN_INNER [example_clause] = Some example_custom_path"
    by (rule example_hook [OF example_gucs_def]) simp_all
  have parts: "custom_private example_custom_path = [int (unat KEY_INT32), 1, 3]" "custom_paths example_custom_path = [2, 1]"
    by (simp_all add: example_custom_path_def)
  show ?thesis
    using query_returns_sql_join [OF hook parts example_unique example_snapshot example_setup, where project = "\<lambda>v. v" and tlist = example_tlist]
    unfolding j by blast
qed

text \<open>C30. With the settings the extension starts with, a join the planner offloads cannot be run: the simulation is the
  default, and it acknowledges inner rows with a count of zero. Every scan whose build side has a row with a
  key ends with an error report.\<close>

theorem default_settings_fail:
  assumes "fpga_planner_hook caseeq gucs_boot rows outerrel innerrel jointype restrictlist = Some p"
    and p: "custom_private p = [int (unat kt), battno, pattno]" "custom_paths p = [pplan, bplan]"
    and rows: "drain_plan xe battno kt (scan bplan) \<noteq> []" "length (scan bplan) \<le> 12288"
    and env: "clock_calm (ae_clock env) (client_cfg (adapter_config (executor_args gucs_boot kt)))" "0 < ae_fuel env"
  shows "fst (begin_custom_scan xe env gucs_boot (offloaded_plan p tlist) False (offloaded_state p tlist scan, a)) =
    Inl (EReport ''FPGA hash join failed: FPGA build ACK did not advance rows_processed'')"
proof -
  have kt: "kt = ADAPTER_KEY_INT32 \<or> kt = ADAPTER_KEY_INT64" by (rule offloaded_parts [OF assms(1)]) (simp add: p(1) word_uint_eq_iff)
  let ?s = "offloaded_state p tlist scan :: 'a FpgaScanState"
  have s: "fs_key_type ?s = kt" "fs_inner_key_attno ?s = battno" "fs_outer_key_attno ?s = pattno" "fs_custom_ps ?s = [scan pplan, scan bplan]"
    using p by (simp_all add: offloaded_state_def fpga_create_custom_scan_state_def)
  obtain a' where "fpga_adapter_run env (executor_args gucs_boot kt) (drain_plan xe battno kt (scan bplan)) (drain_plan xe pattno kt (scan pplan)) a = (Inr (False, []), a')"
    "fpga_adapter_last_error a' = ''FPGA build ACK did not advance rows_processed''"
    using simulated_run_fails [OF rows(1) _ drain_plan_fits [OF kt] env] length_drain_plan [of xe battno kt "scan bplan"] rows(2) by fastforce
  then show ?thesis
    by (subst begin_reports_failure [where r = "Inr (False, [])" and a' = a']) (simp_all add: s p)
qed

theorem default_settings_fail_witness:
  "fst (begin_custom_scan example_exec example_env gucs_boot (offloaded_plan example_custom_path example_tlist) False
      (offloaded_state example_custom_path example_tlist example_scan, example_state)) =
    Inl (EReport ''FPGA hash join failed: FPGA build ACK did not advance rows_processed'')"
proof (rule default_settings_fail)
  show "fpga_planner_hook (=) gucs_boot 500 (example_rel 1 True 200) (example_rel 2 False 5000) JOIN_INNER [example_clause] = Some example_custom_path"
    unfolding example_custom_path_def by (rule example_path)
  show "custom_private example_custom_path = [int (unat KEY_INT32), 1, 3]" "custom_paths example_custom_path = [2, 1]"
    by (simp_all add: example_custom_path_def)
  show "drain_plan example_exec 1 KEY_INT32 (example_scan 1) \<noteq> []" unfolding example_drains by simp
  show "clock_calm (ae_clock example_env) (client_cfg (adapter_config (executor_args gucs_boot KEY_INT32)))"
    by (simp add: clock_calm_def adapter_config_def client_config_default_def client_cfg_def example_env_def executor_args_def
        gucs_boot_def guc_defs_def gucs_static_def FPGA_DEFAULT_ACK_WINDOW_FRAMES_def)
qed (simp_all add: example_scan_def example_env_def)

text \<open>C34. The planner and the adapter disagree about the names of the algorithms: the hook compares them without
  regard to case, the adapter exactly. When the hook offloads a join under a name the adapter does not know,
  starting the scan ends with a C++ exception inside the server instead of an error report.\<close>

theorem planner_adapter_names_disagree:
  assumes "fpga_planner_hook caseeq g rows outerrel innerrel jointype restrictlist = Some p"
    and "fpga_algorithm g = Some name"
    and "name \<notin> {[], ''a'', ''A'', ''algorithm_a'', ''linear'', ''b'', ''B'', ''algorithm_b'', ''grace''}"
  shows "fst (begin_custom_scan xe env g (offloaded_plan p tlist) False (offloaded_state p tlist scan, a)) =
    Inl (Uncaught (FpgaException (''unsupported fpga.algorithm: '' @ name)))"
proof -
  have "length (custom_paths p) = 2" by (rule offloaded_parts [OF assms(1)]) simp
  moreover have "fst (fpga_adapter_run env (executor_args g kt) inner outer a) = Inl (FpgaException (''unsupported fpga.algorithm: '' @ name))" for kt inner outer
    using assms(2,3) by (simp add: fpga_adapter_run_def executor_args_def parse_algorithm_def or_default_def str_eq_def)
  ultimately show ?thesis
    by (subst begin_reports_failure [OF _ _ surjective_pairing]) (simp_all add: offloaded_state_def)
qed

theorem planner_adapter_names_disagree_witness:
  "fst (begin_custom_scan example_exec example_env (gucs_boot\<lparr>fpga_simulation := True, fpga_algorithm := Some ''LINEAR'', fpga_transport := None\<rparr>)
      (offloaded_plan example_custom_path example_tlist) False (offloaded_state example_custom_path example_tlist example_scan, example_state)) =
    Inl (Uncaught (FpgaException ''unsupported fpga.algorithm: LINEAR''))"
proof -
  let ?g = "gucs_boot\<lparr>fpga_simulation := True, fpga_algorithm := Some ''LINEAR'', fpga_transport := None\<rparr>"
  have "fpga_planner_hook (\<lambda>x y. map lower_case x = map lower_case y) ?g 500 (example_rel 1 True 200) (example_rel 2 False 5000) JOIN_INNER [example_clause] = Some example_custom_path"
    by (rule example_hook [OF refl]) code_simp+
  from planner_adapter_names_disagree [OF this, where name = "''LINEAR''"] show ?thesis by simp
qed

text \<open>C32. What the executor hands to the adapter is well-typed: for every offloaded join the private data of the plan are the
  three numbers the scan state expects, and the keys drained from either input fit the key type they carry, so the
  serializer loses no bit of them.\<close>

theorem offloaded_keys_well_typed:
  assumes "fpga_planner_hook caseeq g rows outerrel innerrel jointype restrictlist = Some p"
  shows "let s = offloaded_state p tlist scan in
    length (custom_private p) = 3 \<and> (fs_key_type s = ADAPTER_KEY_INT32 \<or> fs_key_type s = ADAPTER_KEY_INT64) \<and> length (fs_custom_ps s) = 2 \<and>
    list_all (\<lambda>t. key_fits (fs_key_type s) (it_key t)) (drain_plan xe (fs_inner_key_attno s) (fs_key_type s) (fs_custom_ps s ! 1)) \<and>
    list_all (\<lambda>t. key_fits (fs_key_type s) (it_key t)) (drain_plan xe (fs_outer_key_attno s) (fs_key_type s) (fs_custom_ps s ! 0))"
proof -
  obtain kt battno pattno where kt: "kt = ADAPTER_KEY_INT32 \<or> kt = ADAPTER_KEY_INT64" "custom_private p = [int (unat kt), battno, pattno]" "length (custom_paths p) = 2"
    by (rule offloaded_parts [OF assms]) auto
  have "fs_key_type (offloaded_state p tlist scan) = kt" using kt(2) by (simp add: offloaded_state_def fpga_create_custom_scan_state_def)
  then show ?thesis using kt by (simp add: Let_def offloaded_state_def drain_plan_fits)
qed

theorem offloaded_keys_well_typed_witness:
  "list_all (\<lambda>t. key_fits KEY_INT32 (it_key t)) (drain_plan example_exec 1 KEY_INT32 (example_scan 1)) \<and>
   list_all (\<lambda>t. key_fits KEY_INT32 (it_key t)) (drain_plan example_exec 3 KEY_INT32 (example_scan 2))"
proof -
  have hook: "fpga_planner_hook (=) example_gucs 500 (example_rel 1 True 200) (example_rel 2 False 5000) JOIN_INNER [example_clause] = Some example_custom_path"
    by (rule example_hook [OF example_gucs_def]) simp_all
  have s: "fs_key_type (offloaded_state example_custom_path example_tlist example_scan) = KEY_INT32"
    "fs_inner_key_attno (offloaded_state example_custom_path example_tlist example_scan) = 1"
    "fs_outer_key_attno (offloaded_state example_custom_path example_tlist example_scan) = 3"
    "fs_custom_ps (offloaded_state example_custom_path example_tlist example_scan) = [example_scan 2, example_scan 1]"
    by (simp_all add: offloaded_state_def fpga_create_custom_scan_state_def example_custom_path_def)
  show ?thesis
    using offloaded_keys_well_typed [OF hook, of example_tlist example_scan example_exec]
    unfolding s Let_def by simp
qed

end
